(* ===== verification/Prelude.thy ===== *)
theory Prelude
  imports Main "HOL-Library.Sublist" "HOL-Library.Char_ord"
begin

text \<open>
  What every component shares: Rust string slices as byte lists, the string functions of the
  Rust standard library that the engine calls (\<open>str::find\<close>, \<open>strip_prefix\<close>, \<open>strip_suffix\<close>,
  \<open>starts_with\<close>, \<open>ends_with\<close>, \<open>trim_start\<close>, \<open>trim_end\<close>, \<open>is_char_boundary\<close>), and the facts
  about them that the component proofs use.

  A Rust \<open>&str\<close> is a UTF-8 byte sequence and every index the engine computes is a byte index, so a
  text is a list of bytes: HOL's \<^typ>\<open>char\<close> is an 8-bit value and \<^typ>\<open>string\<close> is a list of
  them. Unicode whitespace is recognised on its UTF-8 encoding.
\<close>

type_synonym str = string

named_theorems text_simps \<open>rewrite rules for the string functions of the standard library\<close>


section \<open>Bytes and UTF-8\<close>

abbreviation byte :: "char \<Rightarrow> nat" where
  "byte c \<equiv> of_char c"

text \<open>A continuation byte of UTF-8; \<open>str::is_char_boundary\<close> is false exactly on these.\<close>

definition is_cont :: "char \<Rightarrow> bool" where
  "is_cont c \<longleftrightarrow> 128 \<le> byte c \<and> byte c < 192"

definition is_char_boundary :: "str \<Rightarrow> nat \<Rightarrow> bool" where
  "is_char_boundary t i \<longleftrightarrow> i = length t \<or> (i < length t \<and> \<not> is_cont (t ! i))"

text \<open>
  The number of bytes of the whitespace character (\<open>char::is_whitespace\<close>) at the head of a text,
  0 when the text does not start with one.
\<close>

definition ws1 :: "char \<Rightarrow> bool" where
  "ws1 a \<longleftrightarrow> 9 \<le> byte a \<and> byte a \<le> 13 \<or> byte a = 32"

definition ws2 :: "char \<Rightarrow> char \<Rightarrow> bool" where
  "ws2 a b \<longleftrightarrow> byte a = 194 \<and> (byte b = 133 \<or> byte b = 160)"

definition ws3 :: "char \<Rightarrow> char \<Rightarrow> char \<Rightarrow> bool" where
  "ws3 a b c \<longleftrightarrow>
     byte a = 225 \<and> byte b = 154 \<and> byte c = 128
     \<or> byte a = 226 \<and> byte b = 128
         \<and> (128 \<le> byte c \<and> byte c \<le> 138 \<or> byte c = 168 \<or> byte c = 169 \<or> byte c = 175)
     \<or> byte a = 226 \<and> byte b = 129 \<and> byte c = 159
     \<or> byte a = 227 \<and> byte b = 128 \<and> byte c = 128"

fun ws_len :: "str \<Rightarrow> nat" where
  "ws_len [] = 0"
| "ws_len [a] = (if ws1 a then 1 else 0)"
| "ws_len [a, b] = (if ws1 a then 1 else if ws2 a b then 2 else 0)"
| "ws_len (a # b # c # t) = (if ws1 a then 1 else if ws2 a b then 2 else if ws3 a b c then 3 else 0)"

lemma ws_len_le: "ws_len t \<le> length t"
  by (cases t rule: ws_len.cases) auto

function trim_start :: "str \<Rightarrow> str" where
  "trim_start t = (if ws_len t = 0 then t else trim_start (drop (ws_len t) t))"
  by pat_completeness auto
termination
proof (relation "measure length")
  fix t :: str
  assume "ws_len t \<noteq> 0"
  with ws_len_le [of t] show "(drop (ws_len t) t, t) \<in> measure length"
    by simp
qed simp

declare trim_start.simps [simp del]

text \<open>
  The number of bytes of the whitespace character a text ends with. A UTF-8 text ends with a
  whitespace character of one, two or three bytes iff its last one, two or three bytes are one.
\<close>

definition ws_end_len :: "str \<Rightarrow> nat" where
  "ws_end_len t =
     (let n = length t in
      if 1 \<le> n \<and> ws_len (drop (n - 1) t) = 1 then 1
      else if 2 \<le> n \<and> ws_len (drop (n - 2) t) = 2 then 2
      else if 3 \<le> n \<and> ws_len (drop (n - 3) t) = 3 then 3
      else 0)"

function trim_end :: "str \<Rightarrow> str" where
  "trim_end t = (if ws_end_len t = 0 then t else trim_end (take (length t - ws_end_len t) t))"
  by pat_completeness auto
termination
  by (relation "measure length") (auto simp: ws_end_len_def Let_def split: if_splits)

declare trim_end.simps [simp del]

definition trim :: "str \<Rightarrow> str" where
  "trim t = trim_end (trim_start t)"

text \<open>
  Well-formed UTF-8, as far as the length of each character goes: a lead byte is followed by the
  number of continuation bytes it announces.
\<close>

definition char_len :: "char \<Rightarrow> nat" where
  "char_len c =
     (if byte c < 128 then 1
      else if byte c < 194 then 0
      else if byte c < 224 then 2
      else if byte c < 240 then 3
      else if byte c < 245 then 4
      else 0)"

function utf8 :: "str \<Rightarrow> bool" where
  "utf8 t =
     (case t of
        [] \<Rightarrow> True
      | c # u \<Rightarrow>
          (if char_len c = 0 then False
           else char_len c \<le> length t \<and> list_all is_cont (take (char_len c - 1) u)
             \<and> utf8 (drop (char_len c) t)))"
  by pat_completeness auto
termination
  by (relation "measure length") (auto split: list.splits)

declare utf8.simps [simp del]

lemma utf8_Nil [simp]: "utf8 []"
  by (simp add: utf8.simps)


section \<open>Searching and slicing\<close>

fun strip_prefix :: "'a list \<Rightarrow> 'a list \<Rightarrow> 'a list option" where
  "strip_prefix [] t = Some t"
| "strip_prefix (x # p) [] = None"
| "strip_prefix (x # p) (y # t) = (if x = y then strip_prefix p t else None)"

definition starts_with :: "'a list \<Rightarrow> 'a list \<Rightarrow> bool" where
  "starts_with p t \<longleftrightarrow> strip_prefix p t \<noteq> None"

definition strip_suffix :: "'a list \<Rightarrow> 'a list \<Rightarrow> 'a list option" where
  "strip_suffix s t = map_option rev (strip_prefix (rev s) (rev t))"

definition ends_with :: "'a list \<Rightarrow> 'a list \<Rightarrow> bool" where
  "ends_with s t \<longleftrightarrow> strip_suffix s t \<noteq> None"

text \<open>\<open>str::find\<close>: the byte index of the first occurrence.\<close>

fun str_find :: "'a list \<Rightarrow> 'a list \<Rightarrow> nat option" where
  "str_find m [] = (if m = [] then Some 0 else None)"
| "str_find m (c # t) = (if starts_with m (c # t) then Some 0 else map_option Suc (str_find m t))"

definition contains :: "'a list \<Rightarrow> 'a list \<Rightarrow> bool" where
  "contains m t \<longleftrightarrow> str_find m t \<noteq> None"

lemma strip_prefix_Some [text_simps]: "strip_prefix p t = Some r \<longleftrightarrow> t = p @ r"
  by (induction p t rule: strip_prefix.induct) auto

lemma starts_with_iff [text_simps]: "starts_with p t \<longleftrightarrow> prefix p t"
  by (auto simp: starts_with_def prefix_def strip_prefix_Some)

lemma strip_prefix_None [text_simps]: "strip_prefix p t = None \<longleftrightarrow> \<not> prefix p t"
  by (simp flip: starts_with_iff add: starts_with_def)

lemma strip_suffix_Some [text_simps]: "strip_suffix s t = Some r \<longleftrightarrow> t = r @ s"
  by (auto simp: strip_suffix_def strip_prefix_Some rev_eq_append_conv rev_swap)

lemma ends_with_iff [text_simps]: "ends_with s t \<longleftrightarrow> suffix s t"
  by (auto simp: ends_with_def suffix_def strip_suffix_Some)

lemma str_find_Some:
  "str_find m t = Some i \<longleftrightarrow> i \<le> length t \<and> prefix m (drop i t) \<and> (\<forall>j < i. \<not> prefix m (drop j t))"
proof (induction t arbitrary: i)
  case Nil
  then show ?case by auto
next
  case (Cons c t)
  show ?case
  proof (cases i)
    case 0
    then show ?thesis by (auto simp: starts_with_iff)
  next
    case (Suc k)
    then show ?thesis
      using Cons.IH [of k] by (auto simp: starts_with_iff less_Suc_eq_0_disj)
  qed
qed

lemma str_find_None: "str_find m t = None \<longleftrightarrow> (\<forall>j \<le> length t. \<not> prefix m (drop j t))"
proof (induction t)
  case Nil
  then show ?case by auto
next
  case (Cons c t)
  show ?case
  proof
    assume "str_find m (c # t) = None"
    then have "\<not> prefix m (c # t)" and "str_find m t = None"
      by (auto simp: starts_with_iff split: if_splits)
    with Cons.IH show "\<forall>j \<le> length (c # t). \<not> prefix m (drop j (c # t))"
      by (metis drop_0 drop_Suc_Cons le_SucE length_Cons not0_implies_Suc Suc_le_mono)
  next
    assume *: "\<forall>j \<le> length (c # t). \<not> prefix m (drop j (c # t))"
    then have "\<not> prefix m (c # t)" by force
    moreover have "\<forall>j \<le> length t. \<not> prefix m (drop j t)"
      using * by force
    ultimately show "str_find m (c # t) = None"
      using Cons.IH by (simp add: starts_with_iff)
  qed
qed

lemma str_find_bound: "str_find m t = Some i \<Longrightarrow> i + length m \<le> length t"
  by (auto simp: str_find_Some dest!: prefix_length_le)

lemma str_find_split: "str_find m t = Some i \<Longrightarrow> t = take i t @ m @ drop (i + length m) t"
  by (metis append_take_drop_id add.commute drop_drop prefix_def str_find_Some append_eq_conv_conj)

lemma contains_iff: "contains m t \<longleftrightarrow> (\<exists>u v. t = u @ m @ v)"
proof
  assume "contains m t"
  then obtain i where "str_find m t = Some i" by (auto simp: contains_def)
  from str_find_split [OF this] show "\<exists>u v. t = u @ m @ v" by blast
next
  assume "\<exists>u v. t = u @ m @ v"
  then obtain u v where t: "t = u @ m @ v" by blast
  then have "prefix m (drop (length u) t)" and "length u \<le> length t" by auto
  then show "contains m t" unfolding contains_def by (metis str_find_None)
qed

lemma contains_append: "contains m s \<Longrightarrow> contains m (s @ t)"
  unfolding contains_iff by (metis append.assoc)

lemma contains_prepend: "contains m t \<Longrightarrow> contains m (s @ t)"
  unfolding contains_iff by (metis append.assoc)

text \<open>A first occurrence stays the first occurrence when the text grows at its end.\<close>

lemma str_find_append: "str_find m s = Some i \<Longrightarrow> str_find m (s @ t) = Some i"
proof -
  assume a: "str_find m s = Some i"
  have "\<not> prefix m (drop j (s @ t))" if "j < i" for j
  proof
    assume "prefix m (drop j (s @ t))"
    moreover have "length m \<le> length (drop j s)"
      using str_find_bound [OF a] that by simp
    ultimately have "prefix m (drop j s)"
      using str_find_bound [OF a] that by (auto simp: prefix_append prefix_def append_eq_append_conv2)
    with a that show False by (auto simp: str_find_Some)
  qed
  with a show ?thesis
    by (auto simp: str_find_Some)
qed


text \<open>\<open>Iterator::find_map\<close>.\<close>

fun find_map :: "('a \<Rightarrow> 'b option) \<Rightarrow> 'a list \<Rightarrow> 'b option" where
  "find_map f [] = None"
| "find_map f (x # xs) = (case f x of None \<Rightarrow> find_map f xs | Some y \<Rightarrow> Some y)"

lemma find_map_SomeD: "find_map f xs = Some y \<Longrightarrow> \<exists>x \<in> set xs. f x = Some y"
  by (induction xs) (auto split: option.splits)

lemma find_map_None: "find_map f xs = None \<longleftrightarrow> (\<forall>x \<in> set xs. f x = None)"
  by (induction xs) (auto split: option.splits)


text \<open>\<open>(1..=n).rev().find(p).unwrap_or(0)\<close>: the greatest positive number up to \<open>n\<close> with \<open>p\<close>.\<close>

fun rev_find :: "(nat \<Rightarrow> bool) \<Rightarrow> nat \<Rightarrow> nat" where
  "rev_find p 0 = 0"
| "rev_find p (Suc n) = (if p (Suc n) then Suc n else rev_find p n)"

lemma rev_find_le: "rev_find p n \<le> n"
  by (induction n) auto

lemma rev_find_greatest: "0 < l \<Longrightarrow> l \<le> n \<Longrightarrow> p l \<Longrightarrow> l \<le> rev_find p n"
  by (induction n) (auto simp: le_Suc_eq)

lemma rev_find_sat: "rev_find p n = 0 \<or> p (rev_find p n)"
  by (induction n) auto


section \<open>Facts about trimming\<close>

text \<open>What \<open>trim_start\<close> removes.\<close>

definition leading :: "str \<Rightarrow> nat" where
  "leading t = length t - length (trim_start t)"

lemma trim_start_drop: "\<exists>n \<le> length t. trim_start t = drop n t"
proof (induction t rule: trim_start.induct)
  case (1 t)
  show ?case
  proof (cases "ws_len t = 0")
    case True
    then show ?thesis by (subst trim_start.simps) (auto intro: exI [of _ 0])
  next
    case False
    with 1 obtain n where "trim_start (drop (ws_len t) t) = drop n (drop (ws_len t) t)"
      and "n \<le> length (drop (ws_len t) t)" by blast
    with False show ?thesis
      using ws_len_le [of t]
      by (subst trim_start.simps) (auto intro!: exI [of _ "n + ws_len t"])
  qed
qed

lemma trim_start_length: "length (trim_start t) \<le> length t"
  using trim_start_drop [of t] by auto

lemma trim_start_leading: "trim_start t = drop (leading t) t"
  using trim_start_drop [of t] by (auto simp: leading_def)

lemma leading_le: "leading t \<le> length t"
  by (simp add: leading_def)

lemma ws_len_trim_start [simp]: "ws_len (trim_start t) = 0"
  by (induction t rule: trim_start.induct) (subst trim_start.simps, auto)

lemma trim_start_id: "ws_len t = 0 \<Longrightarrow> trim_start t = t"
  by (subst trim_start.simps) simp

lemma trim_start_Nil [simp]: "trim_start [] = []"
  by (rule trim_start_id) simp

lemma trim_start_idem [simp]: "trim_start (trim_start t) = trim_start t"
  by (rule trim_start_id) simp

lemma trim_start_step: "ws_len t \<noteq> 0 \<Longrightarrow> trim_start t = trim_start (drop (ws_len t) t)"
  by (subst trim_start.simps) simp

text \<open>A printable ASCII byte, such as the \<open><\<close> every marker starts with, is not whitespace.\<close>

lemma ws_len_ascii: "33 \<le> byte c \<Longrightarrow> byte c < 128 \<Longrightarrow> ws_len (c # t) = 0"
  by (cases "c # t" rule: ws_len.cases) (auto simp: ws1_def ws2_def ws3_def)

lemma utf8_Cons:
  "utf8 (c # t) \<longleftrightarrow> char_len c \<noteq> 0 \<and> char_len c \<le> Suc (length t)
     \<and> list_all is_cont (take (char_len c - 1) t) \<and> utf8 (drop (char_len c) (c # t))"
  by (subst utf8.simps) auto

text \<open>In well-formed UTF-8 the whitespace character at the head is the whole first character.\<close>

lemma char_len_ws:
  "ws1 a \<Longrightarrow> char_len a = 1" "ws2 a b \<Longrightarrow> char_len a = 2" "ws3 a b c \<Longrightarrow> char_len a = 3"
  by (auto simp: ws1_def ws2_def ws3_def char_len_def)

lemma ws_len_utf8: "ws_len t \<noteq> 0 \<Longrightarrow> ws_len t = char_len (hd t)"
  by (cases t rule: ws_len.cases) (auto simp: char_len_ws)

lemma utf8_drop_ws: "utf8 t \<Longrightarrow> utf8 (drop (ws_len t) t)"
proof (cases t)
  case (Cons c u)
  assume *: "utf8 t"
  show ?thesis
  proof (cases "ws_len t = 0")
    case False
    with * Cons have "ws_len t = char_len c" using ws_len_utf8 [of t] by simp
    moreover have "utf8 (drop (char_len c) t)" using * Cons by (simp only: utf8_Cons)
    ultimately show ?thesis by simp
  qed (use * in simp)
qed simp

lemma ws_len_append:
  assumes "utf8 t" and "t \<noteq> []"
  shows "ws_len (t @ u) = ws_len t"
proof -
  obtain a t' where t: "t = a # t'" using assms(2) by (cases t) auto
  with assms(1) have n: "char_len a \<le> length t" by (simp add: utf8_Cons)
  show ?thesis
  proof (cases "ws1 a")
    case True
    with t show ?thesis by (cases "t @ u" rule: ws_len.cases; cases t rule: ws_len.cases) auto
  next
    case False
    with t n show ?thesis
      by (cases "t @ u" rule: ws_len.cases; cases t rule: ws_len.cases) (auto dest: char_len_ws)
  qed
qed

text \<open>
  Trimming the start of a text looks no further than its first character that is not whitespace,
  so it can be done piecewise on well-formed pieces.
\<close>

lemma trim_start_append:
  "utf8 s \<Longrightarrow> trim_start (s @ t) = (if trim_start s = [] then trim_start t else trim_start s @ t)"
proof (induction s rule: trim_start.induct)
  case (1 s)
  show ?case
  proof (cases "s = [] \<or> ws_len s = 0")
    case True
    with "1.prems" show ?thesis
      by (auto simp: trim_start_id ws_len_append)
  next
    case False
    then have w: "ws_len (s @ t) = ws_len s" using "1.prems" by (simp add: ws_len_append)
    have "trim_start (s @ t) = trim_start (drop (ws_len s) s @ t)"
      using False w ws_len_le [of s] by (subst trim_start.simps) simp
    with 1 False show ?thesis by (simp add: utf8_drop_ws trim_start_step [of s])
  qed
qed

lemma utf8_trim_start: "utf8 t \<Longrightarrow> utf8 (trim_start t)"
  by (induction t rule: trim_start.induct) (subst trim_start.simps, auto simp: utf8_drop_ws)

lemma ws_len_take: "ws_len t \<noteq> 0 \<Longrightarrow> ws_len t \<le> n \<Longrightarrow> ws_len (take n t) = ws_len t"
  by (cases t rule: ws_len.cases; cases n; cases "n - 1"; cases "n - 2")
    (auto split: if_splits)

lemma leading_step: "ws_len t \<noteq> 0 \<Longrightarrow> leading t = ws_len t + leading (drop (ws_len t) t)"
  using trim_start_length [of "drop (ws_len t) t"] ws_len_le [of t]
  by (simp add: leading_def trim_start_step [of t])

text \<open>What is trimmed is whitespace and nothing else.\<close>

lemma trim_start_take_leading: "trim_start (take (leading t) t) = []"
proof (induction t rule: trim_start.induct)
  case (1 t)
  show ?case
  proof (cases "ws_len t = 0")
    case True
    then show ?thesis by (simp add: leading_def trim_start_id)
  next
    case False
    then have "ws_len (take (leading t) t) = ws_len t"
      by (simp add: ws_len_take leading_step)
    then have "trim_start (take (leading t) t) = trim_start (drop (ws_len t) (take (leading t) t))"
      using False by (simp add: trim_start_step [of "take (leading t) t"])
    also have "\<dots> = trim_start (take (leading (drop (ws_len t) t)) (drop (ws_len t) t))"
      using False by (simp add: drop_take leading_step)
    finally show ?thesis using 1 False by simp
  qed
qed

lemma take_leading_append: "take (leading t) t @ trim_start t = t"
  by (simp add: trim_start_leading)

text \<open>A search may start where no earlier occurrence begins.\<close>

lemma str_find_skip:
  "n \<le> length t \<Longrightarrow> (\<forall>j < n. \<not> prefix m (drop j t)) \<Longrightarrow>
    str_find m t = map_option ((+) n) (str_find m (drop n t))"
proof (induction n arbitrary: t)
  case 0
  then show ?case by (simp add: option.map_ident)
next
  case (Suc n)
  then obtain c u where t: "t = c # u" by (cases t) auto
  have "\<not> prefix m t" using Suc.prems(2) by (metis drop_0 zero_less_Suc)
  then have "str_find m t = map_option Suc (str_find m u)" by (simp add: t starts_with_iff)
  also have "str_find m u = map_option ((+) n) (str_find m (drop n u))"
    using Suc.prems t by (intro Suc.IH) auto
  finally show ?case by (simp add: t option.map_comp comp_def)
qed

text \<open>What precedes the first character that is not whitespace holds no printable ASCII byte.\<close>

lemma ws_len_bytes: "c \<in> set (take (ws_len t) t) \<Longrightarrow> byte c \<le> 32 \<or> 128 \<le> byte c"
  by (cases t rule: ws_len.cases) (auto simp: ws1_def ws2_def ws3_def split: if_splits)

lemma leading_bytes: "c \<in> set (take (leading t) t) \<Longrightarrow> byte c \<le> 32 \<or> 128 \<le> byte c"
proof (induction t rule: trim_start.induct)
  case (1 t)
  show ?case
  proof (cases "ws_len t = 0")
    case True
    with "1.prems" show ?thesis by (simp add: leading_def trim_start_id)
  next
    case False
    then have "take (leading t) t
        = take (ws_len t) t @ take (leading (drop (ws_len t) t)) (drop (ws_len t) t)"
      by (simp add: leading_step take_add)
    with "1.prems" have "c \<in> set (take (ws_len t) t)
        \<or> c \<in> set (take (leading (drop (ws_len t) t)) (drop (ws_len t) t))" by auto
    with 1(1) False show ?thesis using ws_len_bytes by blast
  qed
qed

lemma trim_start_append_ws: "trim_start s = [] \<Longrightarrow> trim_start (s @ t) = trim_start t"
proof (induction s rule: trim_start.induct)
  case (1 s)
  show ?case
  proof (cases "ws_len s = 0")
    case True
    with "1.prems" show ?thesis by (simp add: trim_start_id)
  next
    case False
    then have "ws_len (s @ t) = ws_len s"
      by (cases s rule: ws_len.cases; cases "s @ t" rule: ws_len.cases) (auto split: if_splits)
    then have "trim_start (s @ t) = trim_start (drop (ws_len s) s @ t)"
      using False ws_len_le [of s] by (simp add: trim_start_step [of "s @ t"])
    with 1 False show ?thesis by (simp add: trim_start_step [of s])
  qed
qed

lemma trim_end_Nil: "trim_end t = [] \<Longrightarrow> trim_start t = []"
proof (induction t rule: trim_end.induct)
  case (1 t)
  show ?case
  proof (cases "ws_end_len t = 0")
    case True
    with "1.prems" have "t = []" by (subst (asm) trim_end.simps) simp
    then show ?thesis by simp
  next
    case False
    let ?s = "take (length t - ws_end_len t) t" and ?w = "drop (length t - ws_end_len t) t"
    from False have w: "ws_len ?w = ws_end_len t" "length ?w = ws_end_len t"
      by (auto simp: ws_end_len_def Let_def split: if_splits)
    have "trim_end ?s = []" using "1.prems" False by (subst (asm) trim_end.simps) simp
    with 1(1) False have "trim_start ?s = []" by simp
    then have "trim_start (?s @ ?w) = trim_start ?w" by (rule trim_start_append_ws)
    also have "\<dots> = []" using w False by (simp add: trim_start_step)
    finally show ?thesis by simp
  qed
qed

lemma trim_Nil: "trim t = [] \<Longrightarrow> trim_start t = []"
  using trim_end_Nil [of "trim_start t"] by (simp add: trim_def)

lemma utf8_append: "utf8 s \<Longrightarrow> utf8 t \<Longrightarrow> utf8 (s @ t)"
proof (induction s rule: utf8.induct)
  case (1 s)
  show ?case
  proof (cases s)
    case (Cons c u)
    with 1 drop_append [of "char_len c" "c # u" t] show ?thesis by (auto simp: utf8_Cons)
  qed (use 1 in simp)
qed

lemma utf8_ascii: "\<forall>c \<in> set t. byte c < 128 \<Longrightarrow> utf8 t"
  by (induction t) (auto simp: utf8_Cons char_len_def)

lemma leading_append:
  assumes "utf8 s"
  shows "leading (s @ t) = (if trim_start s = [] then length s + leading t else leading s)"
  using trim_start_length [of t] trim_start_length [of s]
  by (auto simp: leading_def trim_start_append [OF assms])



section \<open>Tool-call conventions\<close>

text \<open>\<open>ToolCallFormat\<close>, which both the stream classifier and the call parser select by.\<close>

datatype tool_call_format = Hermes | Gemma | Laguna | LlamaJson | NoTools

end
