(* ===== verification/Reasoning.thy ===== *)
theory Reasoning
  imports Prelude
begin

text \<open>
  Reasoning spans (\<open>src/src/engine/reasoning.rs\<close>): the delimiter pairs, the split of a finished
  reply into reasoning and answer (with and without a teacher-forced close), the detection of a
  span the rendered prompt leaves open, and the token budget that forces an open span closed.
\<close>

section \<open>Markers\<close>

type_synonym marker_pair = "str \<times> str"

definition MARKER_PAIRS :: "marker_pair list" where
  "MARKER_PAIRS = [(''<think>'', ''</think>''), (''<|channel>thought'', ''<channel|>'')]"

definition MAX_PREFIX_WHITESPACE_BYTES :: nat where
  "MAX_PREFIX_WHITESPACE_BYTES = 64"

definition MAX_FORCED_CLOSE_WHITESPACE_BYTES :: nat where
  "MAX_FORCED_CLOSE_WHITESPACE_BYTES = 8"

definition prefix_candidate :: "str \<Rightarrow> str option" where
  "prefix_candidate t =
     (let candidate = trim_start t
      in if length t - length candidate \<le> MAX_PREFIX_WHITESPACE_BYTES then Some candidate else None)"

definition strip_immediate_forced_close :: "str \<Rightarrow> str \<Rightarrow> str option" where
  "strip_immediate_forced_close t close =
     (let candidate = trim_start t;
          leading_bytes = length t - length candidate
      in if leading_bytes \<le> MAX_FORCED_CLOSE_WHITESPACE_BYTES
         then strip_prefix close candidate else None)"


section \<open>Splitting a finished reply\<close>

text \<open>\<open>(!s.is_empty()).then_some(s)\<close>\<close>

definition nonempty :: "str \<Rightarrow> str option" where
  "nonempty s = (if s = [] then None else Some s)"

fun split_at_markers :: "marker_pair list \<Rightarrow> str \<Rightarrow> bool \<Rightarrow> (str option \<times> str) option" where
  "split_at_markers [] candidate dup = None"
| "split_at_markers ((open_marker, close) # pairs) candidate dup =
     (case strip_prefix open_marker candidate of
        None \<Rightarrow> split_at_markers pairs candidate dup
      | Some after_open \<Rightarrow> Some
          (case str_find close after_open of
             Some close_at \<Rightarrow>
               (let reasoning = take close_at after_open;
                    remainder = drop (close_at + length close) after_open;
                    answer =
                      (if dup
                       then (case strip_immediate_forced_close remainder close of
                               Some rest \<Rightarrow> rest | None \<Rightarrow> remainder)
                       else remainder)
                in (nonempty reasoning, answer))
           | None \<Rightarrow> (nonempty after_open, [])))"

definition split_reasoning_inner :: "str \<Rightarrow> bool \<Rightarrow> str option \<times> str" where
  "split_reasoning_inner t dup =
     (case prefix_candidate t of
        None \<Rightarrow> (None, t)
      | Some candidate \<Rightarrow>
          (case split_at_markers MARKER_PAIRS candidate dup of
             Some r \<Rightarrow> r | None \<Rightarrow> (None, t)))"

definition split_reasoning :: "str \<Rightarrow> str option \<times> str" where
  "split_reasoning t = split_reasoning_inner t False"

definition split_reasoning_after_forced_close :: "str \<Rightarrow> str option \<times> str" where
  "split_reasoning_after_forced_close t = split_reasoning_inner t True"


section \<open>Spans left open by the rendered prompt\<close>

definition pending_marker :: "str \<Rightarrow> marker_pair option" where
  "pending_marker prompt =
     (let trimmed = trim_end prompt
      in find (\<lambda>(open_marker, _). ends_with open_marker trimmed) MARKER_PAIRS)"

definition trailing_empty_marker :: "str \<Rightarrow> marker_pair option" where
  "trailing_empty_marker prompt =
     (let trimmed = trim_end prompt
      in find_map
        (\<lambda>(open_marker, close).
          case strip_suffix close trimmed of
            None \<Rightarrow> None
          | Some head_part \<Rightarrow>
              (if ends_with open_marker (trim_end head_part) then Some (open_marker, close) else None))
        MARKER_PAIRS)"


section \<open>The reasoning budget\<close>

record reasoning_budget =
  rb_budget :: nat
  rb_buffer :: str
  rb_open_close :: "marker_pair option"
  rb_closed :: bool
  rb_tokens_since_open :: nat
  rb_searching_prefix :: bool

definition TAIL_CAP :: nat where
  "TAIL_CAP = 64"

text \<open>
  \<open>bounded_tail\<close>, and the same cut made in place by \<open>observe\<close>: the last \<open>cap\<close> bytes, less the
  continuation bytes of a character the cut falls into.
\<close>

definition bounded_tail :: "str \<Rightarrow> nat \<Rightarrow> str" where
  "bounded_tail t cap =
     (if length t \<le> cap then t else dropWhile is_cont (drop (length t - cap) t))"

definition rb_new :: "nat \<Rightarrow> reasoning_budget" where
  "rb_new budget =
     \<lparr> rb_budget = budget, rb_buffer = [], rb_open_close = None, rb_closed = False,
       rb_tokens_since_open = 0, rb_searching_prefix = True \<rparr>"

definition seed_open :: "marker_pair \<Rightarrow> reasoning_budget \<Rightarrow> reasoning_budget" where
  "seed_open pair b =
     (if \<not> rb_closed b \<and> rb_open_close b = None
      then b\<lparr> rb_open_close := Some pair, rb_searching_prefix := False, rb_buffer := [] \<rparr>
      else b)"

definition find_open :: "str \<Rightarrow> (marker_pair \<times> str) option" where
  "find_open candidate =
     find_map (\<lambda>pair. map_option (\<lambda>remainder. (pair, remainder)) (strip_prefix (fst pair) candidate))
       MARKER_PAIRS"

definition may_become_open :: "str \<Rightarrow> bool" where
  "may_become_open candidate \<longleftrightarrow>
     candidate = [] \<or> list_ex (\<lambda>(open_marker, _). starts_with candidate open_marker) MARKER_PAIRS"

definition observe :: "str \<Rightarrow> reasoning_budget \<Rightarrow> str option \<times> reasoning_budget" where
  "observe piece b =
     (if rb_closed b then (None, b)
      else let b = b\<lparr> rb_buffer := rb_buffer b @ piece \<rparr> in
        if rb_searching_prefix b then
          (case prefix_candidate (rb_buffer b) of
             None \<Rightarrow> (None, b\<lparr> rb_closed := True, rb_buffer := [] \<rparr>)
           | Some candidate \<Rightarrow>
               (case find_open candidate of
                  Some (pair, remainder) \<Rightarrow>
                    (let buffer = bounded_tail remainder TAIL_CAP in
                     (None, b\<lparr> rb_open_close := Some pair, rb_searching_prefix := False,
                               rb_buffer := buffer, rb_closed := contains (snd pair) buffer \<rparr>))
                | None \<Rightarrow>
                    (if may_become_open candidate then (None, b)
                     else (None, b\<lparr> rb_closed := True, rb_buffer := [] \<rparr>))))
        else
          (let b = b\<lparr> rb_buffer := bounded_tail (rb_buffer b) TAIL_CAP \<rparr> in
           case rb_open_close b of
             None \<Rightarrow> (None, b)
           | Some (_, close) \<Rightarrow>
               (if contains close (rb_buffer b) then (None, b\<lparr> rb_closed := True \<rparr>)
                else let b = b\<lparr> rb_tokens_since_open := rb_tokens_since_open b + 1 \<rparr> in
                  if rb_tokens_since_open b \<ge> rb_budget b
                  then (Some close, b\<lparr> rb_closed := True \<rparr>)
                  else (None, b))))"

text \<open>The decode loop's use of the budget: one observation per continuing token.\<close>

fun observe_all :: "str list \<Rightarrow> reasoning_budget \<Rightarrow> str option list \<times> reasoning_budget" where
  "observe_all [] b = ([], b)"
| "observe_all (p # ps) b =
     (let (o1, b1) = observe p b; (os, b2) = observe_all ps b1 in (o1 # os, b2))"



section \<open>What the markers look like\<close>

text \<open>Every marker starts with \<open><\<close>, neither a whitespace nor a continuation byte.\<close>

lemma marker_open_cases:
  assumes "(open_marker, close) \<in> set MARKER_PAIRS"
  obtains (think) "open_marker = ''<think>''" "close = ''</think>''"
  | (channel) "open_marker = ''<|channel>thought''" "close = ''<channel|>''"
  using assms by (auto simp: MARKER_PAIRS_def)

lemma ws_len_open: "(open_marker, close) \<in> set MARKER_PAIRS \<Longrightarrow> ws_len (open_marker @ t) = 0"
  by (erule marker_open_cases) (simp_all add: ws1_def ws2_def ws3_def)

lemma trim_start_open:
  "(open_marker, close) \<in> set MARKER_PAIRS \<Longrightarrow> trim_start (open_marker @ t) = open_marker @ t"
  by (rule trim_start_id) (rule ws_len_open)

lemma close_head:
  "(open_marker, close) \<in> set MARKER_PAIRS \<Longrightarrow> close \<noteq> [] \<and> \<not> is_cont (hd close) \<and> length close \<le> 10"
  by (erule marker_open_cases) (simp_all add: is_cont_def)

lemma prefix_candidate_open:
  assumes "(open_marker, close) \<in> set MARKER_PAIRS" and "trim_start ws = []" and "utf8 ws"
    and "length ws \<le> MAX_PREFIX_WHITESPACE_BYTES"
  shows "prefix_candidate (ws @ open_marker @ t) = Some (open_marker @ t)"
  using assms by (simp add: prefix_candidate_def trim_start_append trim_start_open)

text \<open>At most one opening marker matches, so the order of the pairs does not matter.\<close>

lemma split_at_markers_open:
  assumes "(open_marker, close) \<in> set MARKER_PAIRS"
  shows "split_at_markers MARKER_PAIRS (open_marker @ t) dup =
    Some (case str_find close t of
        Some i \<Rightarrow> (nonempty (take i t),
          (if dup then (case strip_immediate_forced_close (drop (i + length close) t) close of
                          Some rest \<Rightarrow> rest | None \<Rightarrow> drop (i + length close) t)
           else drop (i + length close) t))
      | None \<Rightarrow> (nonempty t, []))"
  using assms
  by (cases rule: marker_open_cases) (auto simp: MARKER_PAIRS_def split: option.splits)

lemma split_reasoning_inner_open:
  assumes "(open_marker, close) \<in> set MARKER_PAIRS" and "trim_start ws = []" and "utf8 ws"
    and "length ws \<le> MAX_PREFIX_WHITESPACE_BYTES"
  shows "split_reasoning_inner (ws @ open_marker @ t) dup =
    (case str_find close t of
        Some i \<Rightarrow> (nonempty (take i t),
          (if dup then (case strip_immediate_forced_close (drop (i + length close) t) close of
                          Some rest \<Rightarrow> rest | None \<Rightarrow> drop (i + length close) t)
           else drop (i + length close) t))
      | None \<Rightarrow> (nonempty t, []))"
  using assms
  by (simp add: split_reasoning_inner_def prefix_candidate_open split_at_markers_open)

text \<open>
  C27. A reply that opens a reasoning span (after at most 64 bytes of whitespace) and closes it
  splits into exactly the text between the markers and the text after the close; a reply that
  never closes the span is all reasoning with an empty answer.
\<close>

theorem split_reasoning_marked:
  assumes "(open_marker, close) \<in> set MARKER_PAIRS"
    and "trim_start ws = []" and "utf8 ws" and "length ws \<le> MAX_PREFIX_WHITESPACE_BYTES"
    and "str_find close (r @ close @ a) = Some (length r)"
    and "\<not> contains close body"
  shows "split_reasoning (ws @ open_marker @ r @ close @ a) = (nonempty r, a)
    \<and> split_reasoning (ws @ open_marker @ body) = (nonempty body, [])"
  using assms
  by (simp_all add: split_reasoning_def split_reasoning_inner_open contains_def)

theorem split_reasoning_marked_witness:
  "split_reasoning (''  '' @ ''<think>'' @ ''why'' @ ''</think>'' @ ''so'') = (Some ''why'', ''so'')
   \<and> split_reasoning (''  '' @ ''<think>'' @ ''cut'') = (Some ''cut'', [])"
proof -
  have *: "(''<think>'', ''</think>'') \<in> set MARKER_PAIRS" "trim_start ''  '' = []" "utf8 ''  ''"
    "length ''  '' \<le> MAX_PREFIX_WHITESPACE_BYTES"
    "str_find ''</think>'' (''why'' @ ''</think>'' @ ''so'') = Some (length ''why'')"
    "\<not> contains ''</think>'' ''cut''"
    by (code_simp)+
  from split_reasoning_marked [OF *] show ?thesis by (simp add: nonempty_def)
qed

lemma strip_immediate_forced_close_Some:
  assumes "strip_immediate_forced_close t close = Some rest"
  shows "\<exists>ws. t = ws @ close @ rest \<and> trim_start ws = []
    \<and> length ws \<le> MAX_FORCED_CLOSE_WHITESPACE_BYTES"
proof -
  have "trim_start t = close @ rest" and "leading t \<le> MAX_FORCED_CLOSE_WHITESPACE_BYTES"
    using assms
    by (auto simp: strip_immediate_forced_close_def Let_def strip_prefix_Some leading_def
        split: if_splits)
  moreover have "t = take (leading t) t @ trim_start t" by (simp add: take_leading_append)
  moreover have "length (take (leading t) t) \<le> leading t" by simp
  ultimately show ?thesis
    using trim_start_take_leading [of t] by (metis le_trans)
qed

lemma forced_close_at_markers:
  "split_at_markers pairs candidate False = Some (r, a) \<Longrightarrow>
    \<exists>a'. split_at_markers pairs candidate True = Some (r, a')
      \<and> (a' = a \<or> (\<exists>ws. \<exists>close \<in> snd ` set pairs. a = ws @ close @ a' \<and> trim_start ws = []
           \<and> length ws \<le> MAX_FORCED_CLOSE_WHITESPACE_BYTES))"
proof (induction pairs)
  case (Cons pair pairs)
  obtain open_marker close where pair: "pair = (open_marker, close)" by (cases pair)
  show ?case
  proof (cases "strip_prefix open_marker candidate")
    case None
    with Cons pair show ?thesis by auto
  next
    case (Some body)
    show ?thesis
    proof (cases "str_find close body")
      case None
      with Cons.prems Some pair show ?thesis by simp
    next
      case at: (Some i)
      let ?rest = "drop (i + length close) body"
      show ?thesis
      proof (cases "strip_immediate_forced_close ?rest close")
        case None
        with Cons.prems Some at pair show ?thesis by (simp add: Let_def)
      next
        case (Some a')
        from strip_immediate_forced_close_Some [OF this]
        show ?thesis using Cons.prems Some \<open>strip_prefix open_marker candidate = _\<close> at pair
          by (simp add: Let_def) blast
      qed
    qed
  qed
qed simp

lemma split_at_markers_None:
  "split_at_markers pairs candidate dup = None \<longleftrightarrow> split_at_markers pairs candidate False = None"
  by (induction pairs candidate dup rule: split_at_markers.induct) (auto split: option.splits)

text \<open>
  After a teacher-forced close the split differs from the ordinary one in the answer only, and
  there it drops at most one immediately repeated close marker together with at most 8 bytes of
  whitespace before it; every later close marker stays in the answer.
\<close>

theorem forced_close_drops_one_duplicate:
  "fst (split_reasoning_after_forced_close t) = fst (split_reasoning t)
   \<and> (snd (split_reasoning_after_forced_close t) = snd (split_reasoning t)
      \<or> (\<exists>ws. \<exists>close \<in> snd ` set MARKER_PAIRS.
           snd (split_reasoning t) = ws @ close @ snd (split_reasoning_after_forced_close t)
           \<and> trim_start ws = [] \<and> length ws \<le> MAX_FORCED_CLOSE_WHITESPACE_BYTES))"
proof (cases "prefix_candidate t")
  case None
  then show ?thesis
    by (simp add: split_reasoning_def split_reasoning_after_forced_close_def split_reasoning_inner_def)
next
  case (Some candidate)
  note defs = split_reasoning_def split_reasoning_after_forced_close_def split_reasoning_inner_def
  show ?thesis
  proof (cases "split_at_markers MARKER_PAIRS candidate False")
    case None
    then have "split_at_markers MARKER_PAIRS candidate True = None"
      by (simp add: split_at_markers_None [of _ _ True])
    with None Some show ?thesis by (simp add: defs)
  next
    case (Some ra)
    obtain r a where ra: "ra = (r, a)" by (cases ra)
    from forced_close_at_markers [OF Some [unfolded ra]] obtain a'
      where "split_at_markers MARKER_PAIRS candidate True = Some (r, a')"
        and "a' = a \<or> (\<exists>ws. \<exists>close \<in> snd ` set MARKER_PAIRS. a = ws @ close @ a' \<and> trim_start ws = []
           \<and> length ws \<le> MAX_FORCED_CLOSE_WHITESPACE_BYTES)" by blast
    with Some ra \<open>prefix_candidate t = Some candidate\<close> show ?thesis by (simp add: defs)
  qed
qed


section \<open>The budget scans a bounded tail\<close>

text \<open>
  A buffer covers a text when it keeps every suffix of at most \<open>TAIL_CAP\<close> bytes that starts at a
  character. This is what cutting the buffer preserves.
\<close>

definition covers :: "str \<Rightarrow> str \<Rightarrow> bool" where
  "covers b t \<longleftrightarrow> suffix b t
     \<and> (\<forall>s. suffix s t \<and> s \<noteq> [] \<and> length s \<le> TAIL_CAP \<and> \<not> is_cont (hd s) \<longrightarrow> suffix s b)"

lemma covers_Nil: "covers [] []"
  by (simp add: covers_def)

lemma suffix_dropWhile_cont:
  assumes "suffix s t" and "s \<noteq> []" and "\<not> is_cont (hd s)"
  shows "suffix s (dropWhile is_cont t)"
proof -
  from assms(1) obtain u where t: "t = u @ s" by (auto simp: suffix_def)
  show ?thesis
  proof (cases "\<exists>x \<in> set u. \<not> is_cont x")
    case True
    then show ?thesis by (auto simp: t dropWhile_append suffix_def)
  next
    case False
    then have "dropWhile is_cont t = dropWhile is_cont s" by (simp add: t dropWhile_append)
    also have "\<dots> = s" using assms(2,3) by (cases s) auto
    finally show ?thesis by simp
  qed
qed

lemma suffix_bounded_tail:
  assumes "suffix s t" and "s \<noteq> []" and "\<not> is_cont (hd s)" and "length s \<le> TAIL_CAP"
  shows "suffix s (bounded_tail t TAIL_CAP)"
proof (cases "length t \<le> TAIL_CAP")
  case False
  have "suffix s (drop (length t - TAIL_CAP) t)"
    using assms(1,4) False by (auto simp: suffix_def)
  with assms False show ?thesis by (simp add: bounded_tail_def suffix_dropWhile_cont)
qed (use assms in \<open>simp add: bounded_tail_def\<close>)

lemma bounded_tail_suffix: "suffix (bounded_tail t cap) t"
  unfolding bounded_tail_def
  by (auto intro: suffix_order.trans [OF suffix_dropWhile suffix_drop])

lemma covers_observe:
  assumes "covers b t"
  shows "covers (bounded_tail (b @ p) TAIL_CAP) (t @ p)"
proof -
  have "suffix s (bounded_tail (b @ p) TAIL_CAP)"
    if s: "suffix s (t @ p)" "s \<noteq> []" "length s \<le> TAIL_CAP" "\<not> is_cont (hd s)" for s
  proof (rule suffix_bounded_tail)
    show "suffix s (b @ p)"
    proof (cases "length s \<le> length p")
      case True
      have "suffix s p" by (rule suffix_length_suffix [OF s(1) _ True]) (simp add: suffix_def)
      then show ?thesis by (simp add: suffix_appendI)
    next
      case False
      obtain z where z: "t @ p = z @ s" using s(1) by (auto simp: suffix_def)
      define s1 where "s1 = drop (length z) t"
      have len: "length t + length p = length z + length s"
        using arg_cong [OF z, of length] by simp
      with False have "length z < length t" by simp
      moreover have "drop (length z) (t @ p) = s" by (simp add: z)
      ultimately have s1: "s = s1 @ p" "s1 \<noteq> []" "suffix s1 t"
        by (simp_all add: s1_def suffix_drop)
      with s assms have "suffix s1 b" by (simp add: covers_def)
      with s1 show ?thesis by simp
    qed
  qed (use s in auto)
  moreover have "suffix (bounded_tail (b @ p) TAIL_CAP) (t @ p)"
    by (rule suffix_order.trans [OF bounded_tail_suffix]) (use assms in \<open>simp add: covers_def\<close>)
  ultimately show ?thesis by (simp add: covers_def)
qed

text \<open>A marker that completes in a short enough piece is seen in the covering buffer.\<close>

lemma covers_contains:
  assumes "covers b (t @ p)" and "\<not> contains m t"
    and "m \<noteq> []" and "\<not> is_cont (hd m)" and "length p + length m \<le> Suc TAIL_CAP"
  shows "contains m b \<longleftrightarrow> contains m (t @ p)"
proof
  assume "contains m b"
  moreover from assms(1) obtain u where "t @ p = u @ b" by (auto simp: covers_def suffix_def)
  ultimately show "contains m (t @ p)" by (simp add: contains_prepend)
next
  assume "contains m (t @ p)"
  then obtain u v where uv: "t @ p = u @ m @ v" by (auto simp: contains_iff)
  have "length v < length p"
  proof (rule ccontr)
    assume "\<not> length v < length p"
    moreover have "length t + length p = length u + length m + length v"
      using arg_cong [OF uv, of length] by simp
    moreover from this have "length t - (length u + length m) = length v - length p" by simp
    ultimately have "t = u @ m @ take (length v - length p) v"
      using arg_cong [OF uv, of "take (length t)"] by simp
    with assms(2) show False by (auto simp: contains_iff)
  qed
  then have "length (m @ v) \<le> TAIL_CAP" using assms(5) by simp
  moreover have "suffix (m @ v) (t @ p)" by (simp add: uv suffix_def)
  ultimately have "suffix (m @ v) b" using assms(1,3,4) by (simp add: covers_def)
  then show "contains m b" by (auto simp: suffix_def contains_iff)
qed


text \<open>The budget in the middle of an open span, after the text \<open>t\<close> was observed in it.\<close>

definition open_span :: "marker_pair \<Rightarrow> str \<Rightarrow> nat \<Rightarrow> reasoning_budget \<Rightarrow> bool" where
  "open_span pair t k b \<longleftrightarrow>
     \<not> rb_closed b \<and> \<not> rb_searching_prefix b \<and> rb_open_close b = Some pair
     \<and> rb_tokens_since_open b = k \<and> covers (rb_buffer b) t \<and> \<not> contains (snd pair) t"

definition MAX_PIECE :: nat where
  "MAX_PIECE = 55"

lemma open_span_observe:
  assumes "open_span pair t k b" and "pair \<in> set MARKER_PAIRS" and "length p \<le> MAX_PIECE"
  obtains (closed) b' where "contains (snd pair) (t @ p)" and "observe p b = (None, b')" and "rb_closed b'"
  | (fires) b' where "\<not> contains (snd pair) (t @ p)" and "rb_budget b \<le> Suc k"
      and "observe p b = (Some (snd pair), b')" and "rb_closed b'"
  | (stays) b' where "Suc k < rb_budget b" and "observe p b = (None, b')"
      and "open_span pair (t @ p) (Suc k) b'" and "rb_budget b' = rb_budget b"
proof -
  obtain op cl where pair: "pair = (op, cl)" by (cases pair)
  with assms(2) have cl: "cl \<noteq> []" "\<not> is_cont (hd cl)" "length cl \<le> 10"
    by (auto dest: close_head)
  let ?buf = "bounded_tail (rb_buffer b @ p) TAIL_CAP"
  from assms(1) pair have b: "\<not> rb_closed b" "\<not> rb_searching_prefix b" "rb_open_close b = Some (op, cl)"
    "rb_tokens_since_open b = k" "covers ?buf (t @ p)" "\<not> contains cl t"
    by (simp_all add: open_span_def covers_observe)
  have seen: "contains cl ?buf \<longleftrightarrow> contains cl (t @ p)"
    by (rule covers_contains [OF b(5,6) cl(1,2)])
      (use cl(3) assms(3) in \<open>simp add: MAX_PIECE_def TAIL_CAP_def\<close>)
  consider "contains cl (t @ p)" | "\<not> contains cl (t @ p)" "rb_budget b \<le> Suc k"
    | "\<not> contains cl (t @ p)" "Suc k < rb_budget b" by linarith
  then show ?thesis
  proof cases
    case 1
    with b pair seen
    have "observe p b = (None, b\<lparr>rb_buffer := ?buf, rb_closed := True\<rparr>)"
      by (simp add: observe_def Let_def)
    with 1 pair show ?thesis by (simp add: closed)
  next
    case 2
    with b pair seen
    have "observe p b = (Some cl, b\<lparr>rb_buffer := ?buf, rb_tokens_since_open := Suc k, rb_closed := True\<rparr>)"
      by (simp add: observe_def Let_def)
    with 2 pair show ?thesis by (simp add: fires)
  next
    case 3
    let ?b = "b\<lparr>rb_buffer := ?buf, rb_tokens_since_open := Suc k\<rparr>"
    from 3 b pair seen have "observe p b = (None, ?b)" by (simp add: observe_def Let_def)
    moreover from 3 b pair have "open_span pair (t @ p) (Suc k) ?b" by (simp add: open_span_def)
    ultimately show ?thesis using 3 by (simp add: stays)
  qed
qed

lemma observe_closed: "rb_closed b \<Longrightarrow> observe p b = (None, b)"
  by (simp add: observe_def)

lemma observe_all_closed: "rb_closed b \<Longrightarrow> fst (observe_all ps b) = replicate (length ps) None"
  by (induction ps) (auto simp: observe_closed split: prod.splits)

lemma observe_all_open:
  assumes "open_span pair t k b" and "pair \<in> set MARKER_PAIRS"
    and "\<forall>p \<in> set ps. length p \<le> MAX_PIECE" and "i < length ps" and "k < max 1 (rb_budget b)"
  shows "fst (observe_all ps b) ! i =
    (if Suc (k + i) = max 1 (rb_budget b) \<and> \<not> contains (snd pair) (t @ concat (take (Suc i) ps))
     then Some (snd pair) else None)"
  using assms
proof (induction ps arbitrary: t k b i)
  case (Cons p ps)
  have p: "length p \<le> MAX_PIECE" using Cons.prems by simp
  from Cons.prems(1,2) p show ?case
  proof (cases rule: open_span_observe)
    case (closed b')
    then have "contains (snd pair) (t @ p @ s)" for s
      using contains_append by fastforce
    with closed Cons.prems observe_all_closed [of b' ps] show ?thesis
      by (cases i) (auto split: prod.splits)
  next
    case (fires b')
    have "rb_budget b \<le> Suc k" "k < max 1 (rb_budget b)" using fires Cons.prems by auto
    with fires Cons.prems observe_all_closed [of b' ps] show ?thesis
      by (cases i) (auto split: prod.splits)
  next
    case (stays b')
    show ?thesis
    proof (cases i)
      case 0
      with stays Cons.prems show ?thesis by (auto simp: split: prod.splits)
    next
      case (Suc j)
      with stays Cons.prems Cons.IH [OF stays(3) Cons.prems(2), of j]
      show ?thesis by (auto simp: split: prod.splits)
    qed
  qed
qed simp



end
