(* ===== verification/Streaming.thy ===== *)
theory Streaming
  imports Reasoning
begin

text \<open>
  Incremental classification of generated text (\<open>src/src/engine/streaming.rs\<close>): the transducer
  that withholds a possible marker suffix, removes complete markers and returns typed segments. A
  reference classifier that reads the whole reply at once says what the transducer has to return,
  however the reply is cut into pieces.
\<close>

section \<open>State\<close>

datatype token_kind = Text | Reasoning | ToolCall

record classified_text =
  ct_kind :: token_kind
  ct_text :: str

datatype boundary = ReasoningOpen str | ReasoningClose | ToolOpen | ToolClose

record stream_classifier =
  sc_tool_open :: str
  sc_tool_close :: str
  sc_state :: token_kind
  sc_reasoning_close :: str
  sc_reasoning_prefix_possible :: bool
  sc_raw_pending :: str
  sc_display_pending :: str
  sc_defer_until_terminal :: bool

fun tool_markers :: "tool_call_format \<Rightarrow> str \<times> str" where
  "tool_markers Hermes = (''<tool_call>'', ''</tool_call>'')"
| "tool_markers Laguna = (''<tool_call>'', ''</tool_call>'')"
| "tool_markers Gemma = (''<|tool_call>'', ''<tool_call|>'')"
| "tool_markers LlamaJson = ([], [])"
| "tool_markers NoTools = ([], [])"

definition sc_new :: "tool_call_format \<Rightarrow> stream_classifier" where
  "sc_new tool_format =
     \<lparr> sc_tool_open = fst (tool_markers tool_format), sc_tool_close = snd (tool_markers tool_format),
       sc_state = Text, sc_reasoning_close = [], sc_reasoning_prefix_possible = True,
       sc_raw_pending = [], sc_display_pending = [],
       sc_defer_until_terminal = (tool_format = LlamaJson) \<rparr>"

definition seed_reasoning :: "str \<Rightarrow> stream_classifier \<Rightarrow> stream_classifier" where
  "seed_reasoning close c =
     c\<lparr> sc_state := Reasoning, sc_reasoning_close := close, sc_reasoning_prefix_possible := False,
        sc_raw_pending := [], sc_display_pending := [] \<rparr>"


section \<open>Boundaries\<close>

definition choose_earlier ::
  "(nat \<times> str \<times> boundary) option \<Rightarrow> nat \<Rightarrow> str \<Rightarrow> boundary \<Rightarrow> (nat \<times> str \<times> boundary) option" where
  "choose_earlier found at marker b =
     (case found of
        None \<Rightarrow> Some (at, marker, b)
      | Some (current, _, _) \<Rightarrow> if at < current then Some (at, marker, b) else found)"

definition find_boundary :: "stream_classifier \<Rightarrow> (nat \<times> str \<times> boundary) option" where
  "find_boundary c =
     (case sc_state c of
        Text \<Rightarrow>
          (let raw = sc_raw_pending c;
               found =
                 (if sc_reasoning_prefix_possible c then
                    (case prefix_candidate raw of
                       None \<Rightarrow> None
                     | Some candidate \<Rightarrow>
                         (let leading = length raw - length candidate in
                          foldl (\<lambda>found (open_marker, close).
                              if starts_with open_marker candidate
                              then choose_earlier found leading open_marker (ReasoningOpen close)
                              else found)
                            None MARKER_PAIRS))
                  else None)
           in if sc_tool_open c \<noteq> [] then
                (case str_find (sc_tool_open c) raw of
                   None \<Rightarrow> found
                 | Some at \<Rightarrow> choose_earlier found at (sc_tool_open c) ToolOpen)
              else found)
      | Reasoning \<Rightarrow>
          map_option (\<lambda>at. (at, sc_reasoning_close c, ReasoningClose))
            (str_find (sc_reasoning_close c) (sc_raw_pending c))
      | ToolCall \<Rightarrow>
          map_option (\<lambda>at. (at, sc_tool_close c, ToolClose))
            (str_find (sc_tool_close c) (sc_raw_pending c)))"

definition marker_suffix_len :: "str \<Rightarrow> str \<Rightarrow> nat" where
  "marker_suffix_len t marker =
     (if marker = [] then 0
      else rev_find (\<lambda>l. ends_with (take l marker) t) (min (length marker - 1) (length t)))"

definition partial_marker_suffix_len :: "stream_classifier \<Rightarrow> nat" where
  "partial_marker_suffix_len c =
     (case sc_state c of
        Text \<Rightarrow>
          (let retained =
             (if sc_reasoning_prefix_possible c
                 \<and> (case prefix_candidate (sc_raw_pending c) of
                      None \<Rightarrow> False | Some candidate \<Rightarrow> may_become_open candidate)
              then length (sc_raw_pending c) else 0)
           in max retained (marker_suffix_len (sc_raw_pending c) (sc_tool_open c)))
      | Reasoning \<Rightarrow> marker_suffix_len (sc_raw_pending c) (sc_reasoning_close c)
      | ToolCall \<Rightarrow> marker_suffix_len (sc_raw_pending c) (sc_tool_close c))"

fun apply_boundary :: "boundary \<Rightarrow> stream_classifier \<Rightarrow> stream_classifier" where
  "apply_boundary (ReasoningOpen close) c =
     c\<lparr> sc_state := Reasoning, sc_reasoning_close := close, sc_reasoning_prefix_possible := False \<rparr>"
| "apply_boundary ReasoningClose c =
     c\<lparr> sc_state := Text, sc_reasoning_close := [], sc_reasoning_prefix_possible := False \<rparr>"
| "apply_boundary ToolOpen c =
     c\<lparr> sc_state := ToolCall, sc_reasoning_prefix_possible := False \<rparr>"
| "apply_boundary ToolClose c =
     c\<lparr> sc_state := Text, sc_reasoning_prefix_possible := False \<rparr>"

fun is_reasoning_open :: "boundary \<Rightarrow> bool" where
  "is_reasoning_open (ReasoningOpen _) = True"
| "is_reasoning_open _ = False"


section \<open>Raw and display text\<close>

definition split_display_at_marker :: "str \<Rightarrow> str \<Rightarrow> nat \<Rightarrow> str \<Rightarrow> str \<times> str" where
  "split_display_at_marker raw display at marker =
     (if raw = display then (take at display, drop (at + length marker) display)
      else case str_find marker display of
        Some display_at \<Rightarrow> (take display_at display, drop (display_at + length marker) display)
      | None \<Rightarrow>
          (let raw_before = take at raw;
               (prior, remaining) =
                 (case strip_prefix raw_before display of
                    None \<Rightarrow> ([], display) | Some remaining \<Rightarrow> (raw_before, remaining));
               marker_display_len =
                 rev_find (\<lambda>l. is_char_boundary remaining l \<and> ends_with (take l remaining) marker)
                   (min (length marker) (length remaining))
           in (prior, drop marker_display_len remaining)))"

definition split_display_for_safe_prefix :: "str \<Rightarrow> str \<Rightarrow> nat \<Rightarrow> str \<times> str" where
  "split_display_for_safe_prefix raw display safe =
     (if raw = display then (take safe display, drop safe display)
      else if safe = length raw then (display, [])
      else if safe = 0 then ([], display)
      else (case strip_prefix (take safe raw) display of
              Some remaining \<Rightarrow> (take safe raw, remaining)
            | None \<Rightarrow>
                (case strip_suffix (drop safe raw) display of
                   Some visible \<Rightarrow> (visible, drop safe raw)
                 | None \<Rightarrow> (display, []))))"

definition push_nonempty :: "classified_text list \<Rightarrow> token_kind \<Rightarrow> str \<Rightarrow> classified_text list" where
  "push_nonempty output kind t =
     (if t = [] then output
      else if output \<noteq> [] \<and> ct_kind (last output) = kind
      then butlast output @ [(last output)\<lparr> ct_text := ct_text (last output) @ t \<rparr>]
      else output @ [\<lparr> ct_kind = kind, ct_text = t \<rparr>])"


section \<open>The transducer\<close>

lemma choose_earlier_cases:
  "choose_earlier found at marker b = Some r \<Longrightarrow> r = (at, marker, b) \<or> found = Some r"
  by (auto simp: choose_earlier_def split: option.splits if_splits)

text \<open>A boundary lies inside the pending text; in ordinary text its marker is not empty.\<close>

lemma find_boundary_bound:
  assumes "find_boundary c = Some (at, marker, b)"
  shows "at + length marker \<le> length (sc_raw_pending c)
    \<and> (sc_state c = Text \<longrightarrow> marker \<noteq> [])
    \<and> (sc_state c \<noteq> Text \<longrightarrow> b = ReasoningClose \<or> b = ToolClose)"
proof (cases "sc_state c")
  case Text
  have pre: "\<forall>cand. prefix_candidate (sc_raw_pending c) = Some cand \<longrightarrow> prefix op cand \<longrightarrow>
    length (sc_raw_pending c) - length cand + length op \<le> length (sc_raw_pending c)" for op
    using trim_start_length [of "sc_raw_pending c"]
    by (auto simp: prefix_candidate_def Let_def dest!: prefix_length_le split: if_splits)
  show ?thesis
    using assms Text pre
    by (auto simp: find_boundary_def Let_def MARKER_PAIRS_def starts_with_iff
        split: if_splits option.splits dest!: choose_earlier_cases str_find_bound)
qed (use assms in \<open>auto simp: find_boundary_def dest: str_find_bound\<close>)

lemma apply_boundary_frame [simp]:
  "sc_raw_pending (apply_boundary b c) = sc_raw_pending c"
  "sc_display_pending (apply_boundary b c) = sc_display_pending c"
  "sc_tool_open (apply_boundary b c) = sc_tool_open c"
  "sc_tool_close (apply_boundary b c) = sc_tool_close c"
  "sc_defer_until_terminal (apply_boundary b c) = sc_defer_until_terminal c"
  by (cases b; simp)+

lemma boundary_progress:
  assumes "find_boundary c = Some (at, marker, b)"
  shows "2 * (length (sc_raw_pending c) - (at + length marker))
      + (if sc_state (apply_boundary b d) = Text then 0 else 1)
    < 2 * length (sc_raw_pending c) + (if sc_state c = Text then 0 else (1 :: nat))"
  using find_boundary_bound [OF assms]
  by (cases "sc_state c = Text"; cases marker; cases b) auto

function push_loop ::
  "stream_classifier \<Rightarrow> classified_text list \<Rightarrow> classified_text list \<times> stream_classifier" where
  "push_loop c output =
     (case find_boundary c of
        Some (at, marker, b) \<Rightarrow>
          (let (prior, after) =
                 split_display_at_marker (sc_raw_pending c) (sc_display_pending c) at marker;
               output1 = (if is_reasoning_open b then output
                          else push_nonempty output (sc_state c) prior);
               c1 = c\<lparr> sc_raw_pending := drop (at + length marker) (sc_raw_pending c),
                       sc_display_pending := after \<rparr>;
               output2 = (if b = ToolOpen
                          then output1 @ [\<lparr> ct_kind = ToolCall, ct_text = [] \<rparr>] else output1)
           in push_loop (apply_boundary b c1) output2)
      | None \<Rightarrow>
          (let retained = partial_marker_suffix_len c;
               safe = length (sc_raw_pending c) - retained
           in if safe = 0 then (output, c)
              else
                (let (visible, retained_display) =
                       split_display_for_safe_prefix (sc_raw_pending c) (sc_display_pending c) safe;
                     safe_raw = take safe (sc_raw_pending c);
                     c1 = c\<lparr> sc_raw_pending := drop safe (sc_raw_pending c),
                             sc_display_pending := retained_display \<rparr>;
                     output1 = push_nonempty output (sc_state c) visible;
                     c2 = (if sc_state c = Text \<and> trim safe_raw \<noteq> []
                           then c1\<lparr> sc_reasoning_prefix_possible := False \<rparr> else c1)
                 in if retained = 0 then (output1, c2) else push_loop c2 output1)))"
  by pat_completeness auto

text \<open>
  The loop ends: every pass removes pending bytes, or (an empty closing marker) leaves a span for
  ordinary text, where every marker has bytes to remove.
\<close>

termination
proof (relation "measure (\<lambda>(c, _). 2 * length (sc_raw_pending c) + (if sc_state c = Text then 0 else 1))",
    goal_cases)
  case 1
  show ?case by simp
next
  case 2
  then show ?case by (auto split: if_splits)
next
  case prems: (3 c out x2 at y marker b)
  from prems(1-3) have "find_boundary c = Some (at, marker, b)" by simp
  from boundary_progress [OF this] prems show ?case by simp
qed

declare push_loop.simps [simp del]

text \<open>Consume corresponding raw and display-decoded text.\<close>

definition push :: "str \<Rightarrow> str \<Rightarrow> stream_classifier \<Rightarrow> classified_text list \<times> stream_classifier" where
  "push raw display c =
     (if sc_defer_until_terminal c
      then ([\<lparr> ct_kind = ToolCall, ct_text = display \<rparr>], c)
      else push_loop
        (c\<lparr> sc_raw_pending := sc_raw_pending c @ raw,
            sc_display_pending := sc_display_pending c @ display \<rparr>) [])"

text \<open>Flush a terminal partial marker as ordinary span text.\<close>

definition finish :: "stream_classifier \<Rightarrow> classified_text list \<times> stream_classifier" where
  "finish c =
     (if sc_defer_until_terminal c then ([], c)
      else
        (let raw = sc_raw_pending c;
             c1 = c\<lparr> sc_raw_pending := [], sc_display_pending := [] \<rparr>;
             c2 = (if sc_state c = Text \<and> trim raw \<noteq> []
                   then c1\<lparr> sc_reasoning_prefix_possible := False \<rparr> else c1)
         in (push_nonempty [] (sc_state c) (sc_display_pending c), c2)))"

fun push_all :: "(str \<times> str) list \<Rightarrow> stream_classifier \<Rightarrow> classified_text list \<times> stream_classifier" where
  "push_all [] c = ([], c)"
| "push_all ((raw, display) # pieces) c =
     (let (out1, c1) = push raw display c; (out2, c2) = push_all pieces c1 in (out1 @ out2, c2))"

definition classify :: "stream_classifier \<Rightarrow> (str \<times> str) list \<Rightarrow> classified_text list" where
  "classify c pieces =
     (let (out, c1) = push_all pieces c in out @ fst (finish c1))"


section \<open>The reference classifier\<close>

text \<open>
  What a reply means, read as a whole: each byte of the reply that is not part of a marker, with the
  kind of the span it lies in. Ordinary text runs up to the first tool marker, a tool span up to
  the first closing marker, a reasoning span can only start the reply.
\<close>

definition tags :: "token_kind \<Rightarrow> str \<Rightarrow> (token_kind \<times> char) list" where
  "tags kind t = map (Pair kind) t"

definition tagged :: "classified_text list \<Rightarrow> (token_kind \<times> char) list" where
  "tagged out = concat (map (\<lambda>seg. tags (ct_kind seg) (ct_text seg)) out)"

function ref_text :: "str \<Rightarrow> str \<Rightarrow> str \<Rightarrow> (token_kind \<times> char) list"
  and ref_tool :: "str \<Rightarrow> str \<Rightarrow> str \<Rightarrow> (token_kind \<times> char) list" where
  "ref_text tool_open tool_close t =
     (if tool_open = [] then tags Text t
      else case str_find tool_open t of
        None \<Rightarrow> tags Text t
      | Some i \<Rightarrow> tags Text (take i t)
          @ ref_tool tool_open tool_close (drop (i + length tool_open) t))"
| "ref_tool tool_open tool_close t =
     (if tool_close = [] then tags ToolCall t
      else case str_find tool_close t of
        None \<Rightarrow> tags ToolCall t
      | Some i \<Rightarrow> tags ToolCall (take i t)
          @ ref_text tool_open tool_close (drop (i + length tool_close) t))"
  by pat_completeness auto
termination
  by (relation "measure (case_sum (\<lambda>(_, _, t). length t) (\<lambda>(_, _, t). length t))")
    (auto dest!: str_find_bound simp flip: length_greater_0_conv)

declare ref_text.simps [simp del] ref_tool.simps [simp del]

definition ref_reasoning :: "str \<Rightarrow> str \<Rightarrow> str \<Rightarrow> str \<Rightarrow> (token_kind \<times> char) list" where
  "ref_reasoning tool_open tool_close close t =
     (case str_find close t of
        None \<Rightarrow> tags Reasoning t
      | Some i \<Rightarrow> tags Reasoning (take i t) @ ref_text tool_open tool_close (drop (i + length close) t))"

definition ref_reply :: "str \<Rightarrow> str \<Rightarrow> str \<Rightarrow> (token_kind \<times> char) list" where
  "ref_reply tool_open tool_close t =
     (case prefix_candidate t of
        None \<Rightarrow> ref_text tool_open tool_close t
      | Some candidate \<Rightarrow>
          (case find_open candidate of
             None \<Rightarrow> ref_text tool_open tool_close t
           | Some ((_, close), body) \<Rightarrow> ref_reasoning tool_open tool_close close body))"

end
