(* ===== verification/Streaming_Correct.thy ===== *)
theory Streaming_Correct
  imports Streaming
begin

text \<open>
  The incremental classifier refines the reference classifier: whatever pieces a reply arrives in,
  the segments returned tag the same bytes with the same kinds. From it follows the agreement of
  the live stream with the split of the finished reply, and where the two part.
\<close>

section \<open>Segments and tags\<close>

lemma tagged_simps [simp]: "tagged [] = []" "tagged (s # out) = tags (ct_kind s) (ct_text s) @ tagged out"
  by (simp_all add: tagged_def)

lemma tagged_append [simp]: "tagged (a @ b) = tagged a @ tagged b"
  by (simp add: tagged_def)

lemma tags_simps [simp]: "tags k [] = []" "tags k (s @ t) = tags k s @ tags k t"
  by (simp_all add: tags_def)

lemma tagged_push_nonempty [simp]: "tagged (push_nonempty out kind t) = tagged out @ tags kind t"
proof (cases "out = []")
  case False
  then obtain xs x where "out = xs @ [x]" by (cases out rule: rev_exhaust) auto
  then show ?thesis by (simp add: push_nonempty_def)
qed (simp add: push_nonempty_def)


section \<open>Searching with a retained suffix\<close>

text \<open>The retained suffix is the longest proper prefix of the marker the text ends with.\<close>

lemma marker_suffix_len_le: "marker_suffix_len t m \<le> length t"
  using rev_find_le [of _ "min (length m - 1) (length t)"]
  by (auto simp: marker_suffix_len_def intro: le_trans)

lemma marker_suffix_len_longest:
  assumes "suffix (take l m) t" and "0 < l" and "l < length m"
  shows "l \<le> marker_suffix_len t m"
proof -
  have "l \<le> length t" using assms(1,3) by (auto dest!: suffix_length_le)
  with assms show ?thesis
    by (auto simp: marker_suffix_len_def ends_with_iff intro!: rev_find_greatest)
qed

lemma marker_suffix_len_suffix:
  "suffix (take (marker_suffix_len t m) m) t \<and> marker_suffix_len t m \<le> length m"
  using rev_find_sat [of "\<lambda>l. ends_with (take l m) t" "min (length m - 1) (length t)"]
    rev_find_le [of "\<lambda>l. ends_with (take l m) t" "min (length m - 1) (length t)"]
  by (auto simp: marker_suffix_len_def ends_with_iff)

text \<open>
  Bytes before the retained suffix cannot be part of a marker, whatever follows: the search may
  skip them.
\<close>

lemma str_find_retained:
  assumes "str_find m p = None" and "n = length p - marker_suffix_len p m"
  shows "str_find m (p @ f) = map_option ((+) n) (str_find m (drop n p @ f))"
proof -
  have "\<not> prefix m (drop j (p @ f))" if "j < n" for j
  proof
    assume pre: "prefix m (drop j (p @ f))"
    have j: "j < length p" using that assms(2) by simp
    show False
    proof (cases "j + length m \<le> length p")
      case True
      then have "prefix m (drop j p)"
        using pre j by (auto simp: prefix_append prefix_def append_eq_append_conv2)
      with assms(1) j show False by (auto simp: str_find_None)
    next
      case False
      let ?l = "length p - j"
      from pre j obtain z where "drop j p @ f = m @ z" by (auto simp: prefix_def)
      then have "take ?l m = drop j p"
        using False j by (metis append_eq_append_conv_if length_drop less_imp_le_nat linorder_not_le
            add.commute less_diff_conv nat_le_linear take_all_iff)
      then have "suffix (take ?l m) p" by (simp add: suffix_drop)
      then have "?l \<le> marker_suffix_len p m"
        using False j by (intro marker_suffix_len_longest) auto
      with that assms(2) j show False by simp
    qed
  qed
  then have "str_find m (p @ f) = map_option ((+) n) (str_find m (drop n (p @ f)))"
    using assms(2) by (intro str_find_skip) auto
  with assms(2) show ?thesis by simp
qed



section \<open>The reference classifier, one step at a time\<close>

lemma str_find_retained_split:
  assumes "str_find m p = None" and "n = length p - marker_suffix_len p m"
  shows "str_find m (take n p @ drop n p @ f)
    = map_option ((+) (length (take n p))) (str_find m (drop n p @ f))"
  using str_find_retained [OF assms, of f] assms(2) by (simp flip: append_assoc)

lemma ref_skip:
  "str_find to (s @ u) = map_option ((+) (length s)) (str_find to u) \<Longrightarrow>
    ref_text to tc (s @ u) = tags Text s @ ref_text to tc u"
  "str_find tc (s @ u) = map_option ((+) (length s)) (str_find tc u) \<Longrightarrow>
    ref_tool to tc (s @ u) = tags ToolCall s @ ref_tool to tc u"
  "str_find cl (s @ u) = map_option ((+) (length s)) (str_find cl u) \<Longrightarrow>
    ref_reasoning to tc cl (s @ u) = tags Reasoning s @ ref_reasoning to tc cl u"
  by (auto simp: ref_text.simps [of to tc "s @ u"] ref_text.simps [of to tc u]
      ref_tool.simps [of to tc "s @ u"] ref_tool.simps [of to tc u] ref_reasoning_def add.assoc
      split: option.splits)

lemma ref_text_flush:
  assumes "to = [] \<or> str_find to p = None" and "n = length p - marker_suffix_len p to"
  shows "ref_text to tc (p @ f) = tags Text (take n p) @ ref_text to tc (drop n p @ f)"
proof (cases "to = []")
  case True
  then show ?thesis using assms(2) by (simp add: ref_text.simps marker_suffix_len_def)
next
  case False
  with assms have "str_find to p = None" by simp
  from ref_skip(1) [OF str_find_retained_split [OF this assms(2)], of tc f]
  show ?thesis by (simp flip: append_assoc)
qed

lemma ref_tool_flush:
  assumes "str_find tc p = None" and "n = length p - marker_suffix_len p tc"
  shows "ref_tool to tc (p @ f) = tags ToolCall (take n p) @ ref_tool to tc (drop n p @ f)"
  using ref_skip(2) [OF str_find_retained_split [OF assms], of to f] by (simp flip: append_assoc)

lemma ref_reasoning_flush:
  assumes "str_find cl p = None" and "n = length p - marker_suffix_len p cl"
  shows "ref_reasoning to tc cl (p @ f)
    = tags Reasoning (take n p) @ ref_reasoning to tc cl (drop n p @ f)"
  using ref_skip(3) [OF str_find_retained_split [OF assms], of to tc f] by (simp flip: append_assoc)

lemma ref_text_boundary:
  assumes "to \<noteq> []" and "str_find to p = Some i"
  shows "ref_text to tc (p @ f) = tags Text (take i p) @ ref_tool to tc (drop (i + length to) p @ f)"
  using assms str_find_bound [OF assms(2)]
  by (simp add: ref_text.simps [of to tc "p @ f"] str_find_append)

lemma ref_tool_boundary:
  assumes "tc \<noteq> []" and "str_find tc p = Some i"
  shows "ref_tool to tc (p @ f) = tags ToolCall (take i p) @ ref_text to tc (drop (i + length tc) p @ f)"
  using assms str_find_bound [OF assms(2)]
  by (simp add: ref_tool.simps [of to tc "p @ f"] str_find_append)

lemma ref_reasoning_boundary:
  assumes "str_find cl p = Some i"
  shows "ref_reasoning to tc cl (p @ f)
    = tags Reasoning (take i p) @ ref_text to tc (drop (i + length cl) p @ f)"
  using assms str_find_bound [OF assms]
  by (simp add: ref_reasoning_def str_find_append)



section \<open>Opening a span\<close>

text \<open>The tool markers of the formats that are streamed.\<close>

definition streamed_markers :: "(str \<times> str) set" where
  "streamed_markers = tool_markers ` {Hermes, Gemma, Laguna, NoTools}"

lemma streamed_markers_cases:
  assumes "(to, tc) \<in> streamed_markers"
  obtains "to = []" | "to = ''<tool_call>''" "tc = ''</tool_call>''"
  | "to = ''<|tool_call>''" "tc = ''<tool_call|>''"
  using assms by (auto simp: streamed_markers_def)

lemma streamed_close: "(to, tc) \<in> streamed_markers \<Longrightarrow> to \<noteq> [] \<Longrightarrow> tc \<noteq> []"
  by (auto elim!: streamed_markers_cases)

lemma streamed_open_head:
  "(to, tc) \<in> streamed_markers \<Longrightarrow> to \<noteq> [] \<Longrightarrow> hd to = CHR ''<'' \<and> (\<forall>c \<in> set to. byte c < 128)"
  by (auto elim!: streamed_markers_cases)

text \<open>No tool marker lies inside an opening reasoning marker.\<close>

lemma no_tool_in_open:
  assumes "(to, tc) \<in> streamed_markers" and "to \<noteq> []" and "(op, cl) \<in> set MARKER_PAIRS"
  shows "\<not> contains to op"
proof -
  have "\<not> contains ''<tool_call>'' ''<think>''" "\<not> contains ''<tool_call>'' ''<|channel>thought''"
    "\<not> contains ''<|tool_call>'' ''<think>''" "\<not> contains ''<|tool_call>'' ''<|channel>thought''"
    by code_simp+
  with assms show ?thesis by (auto simp: MARKER_PAIRS_def elim!: streamed_markers_cases)
qed

lemma find_open_Some:
  "find_open t = Some ((op, cl), body) \<longleftrightarrow> (op, cl) \<in> set MARKER_PAIRS \<and> t = op @ body"
  by (auto simp: find_open_def MARKER_PAIRS_def strip_prefix_Some split: option.splits)

lemma find_open_None: "find_open t = None \<longleftrightarrow> (\<forall>(op, cl) \<in> set MARKER_PAIRS. \<not> prefix op t)"
  by (auto simp: find_open_def find_map_None strip_prefix_None)

text \<open>
  A text that starts with no opening marker and is no proper prefix of one never opens a span,
  whatever follows.
\<close>

lemma find_open_append_None:
  assumes "find_open t = None"
    and "\<not> may_become_open t \<or> ((to, tc) \<in> streamed_markers \<and> to \<noteq> [] \<and> contains to t)"
  shows "find_open (t @ f) = None"
  unfolding find_open_None
proof clarify
  fix op cl assume m: "(op, cl) \<in> set MARKER_PAIRS" and pre: "prefix op (t @ f)"
  with assms(1) have "\<not> prefix op t" by (auto simp: find_open_None)
  with pre have "prefix t op" by (auto simp: prefix_append)
  then obtain z where "op = t @ z" by (auto simp: prefix_def)
  with m assms(2) no_tool_in_open [OF _ _ m, of to tc] show False
    by (auto simp: may_become_open_def starts_with_iff contains_append list_ex_iff)
qed

text \<open>In ordinary text an opening reasoning marker at the start wins; otherwise the tool marker.\<close>

definition tool_boundary :: "stream_classifier \<Rightarrow> (nat \<times> str \<times> boundary) option" where
  "tool_boundary c =
     (if sc_tool_open c = [] then None
      else map_option (\<lambda>i. (i, sc_tool_open c, ToolOpen)) (str_find (sc_tool_open c) (sc_raw_pending c)))"

lemma tool_not_in_leading:
  assumes "(to, tc) \<in> streamed_markers" and "to \<noteq> []" and "str_find to t = Some i"
  shows "leading t \<le> i"
proof (rule ccontr)
  assume "\<not> leading t \<le> i"
  then have i: "i < leading t" "i < length t" using leading_le [of t] by auto
  from assms(3) obtain z where "drop i t = to @ z" by (auto simp: str_find_Some prefix_def)
  then have "t ! i = hd to" using i(2) assms(2) by (metis hd_append2 hd_drop_conv_nth)
  moreover have "t ! i \<in> set (take (leading t) t)" using i by (metis in_set_conv_nth length_take min_less_iff_conj nth_take)
  ultimately show False
    using leading_bytes [of "t ! i" t] streamed_open_head [OF assms(1,2)] by auto
qed

lemma prefix_candidate_Some:
  "prefix_candidate t = Some cand \<longleftrightarrow> cand = trim_start t \<and> leading t \<le> MAX_PREFIX_WHITESPACE_BYTES"
  by (auto simp: prefix_candidate_def Let_def leading_def)

lemma find_boundary_Text:
  assumes "(sc_tool_open c, sc_tool_close c) \<in> streamed_markers" and "sc_state c = Text"
  shows "find_boundary c =
    (if sc_reasoning_prefix_possible c then
      (case prefix_candidate (sc_raw_pending c) of
         None \<Rightarrow> tool_boundary c
       | Some cand \<Rightarrow>
           (case find_open cand of
              None \<Rightarrow> tool_boundary c
            | Some ((op, cl), _) \<Rightarrow> Some (leading (sc_raw_pending c), op, ReasoningOpen cl)))
     else tool_boundary c)"
proof (cases "sc_reasoning_prefix_possible c \<and> prefix_candidate (sc_raw_pending c) \<noteq> None")
  case False
  then show ?thesis
    using assms by (auto simp: find_boundary_def tool_boundary_def choose_earlier_def Let_def split: option.splits)
next
  case True
  then obtain cand where cand: "prefix_candidate (sc_raw_pending c) = Some cand"
    and pos: "sc_reasoning_prefix_possible c" by blast
  then have lead: "length (sc_raw_pending c) - length cand = leading (sc_raw_pending c)"
    by (simp add: prefix_candidate_Some leading_def)
  have late: "\<not> i < leading (sc_raw_pending c)"
    if "sc_tool_open c \<noteq> []" "str_find (sc_tool_open c) (sc_raw_pending c) = Some i" for i
    using tool_not_in_leading [OF assms(1) that] by simp
  show ?thesis
    using assms(2) cand pos late
    by (auto simp: find_boundary_def tool_boundary_def choose_earlier_def Let_def lead
        MARKER_PAIRS_def find_open_def starts_with_def split: option.splits)
qed



section \<open>The transducer refines the reference\<close>

definition sc_ok :: "stream_classifier \<Rightarrow> bool" where
  "sc_ok c \<longleftrightarrow>
     (sc_tool_open c, sc_tool_close c) \<in> streamed_markers
     \<and> \<not> sc_defer_until_terminal c
     \<and> sc_display_pending c = sc_raw_pending c
     \<and> (sc_state c = Reasoning \<longrightarrow> sc_reasoning_close c \<in> snd ` set MARKER_PAIRS)
     \<and> (sc_state c = ToolCall \<longrightarrow> sc_tool_open c \<noteq> [])"

text \<open>What the pending text and a future text \<open>f\<close> mean in the current state.\<close>

definition ref_state :: "stream_classifier \<Rightarrow> str \<Rightarrow> (token_kind \<times> char) list" where
  "ref_state c f =
     (case sc_state c of
        Text \<Rightarrow>
          (if sc_reasoning_prefix_possible c
           then ref_reply (sc_tool_open c) (sc_tool_close c) (sc_raw_pending c @ f)
           else ref_text (sc_tool_open c) (sc_tool_close c) (sc_raw_pending c @ f))
      | Reasoning \<Rightarrow>
          ref_reasoning (sc_tool_open c) (sc_tool_close c) (sc_reasoning_close c) (sc_raw_pending c @ f)
      | ToolCall \<Rightarrow> ref_tool (sc_tool_open c) (sc_tool_close c) (sc_raw_pending c @ f))"

text \<open>
  While the reply may still open a reasoning span, its leading whitespace (with the future text) is
  within the bound and the pending text ends at a character.
\<close>

definition bounded_lead :: "stream_classifier \<Rightarrow> str \<Rightarrow> bool" where
  "bounded_lead c f \<longleftrightarrow>
     (sc_state c = Text \<and> sc_reasoning_prefix_possible c \<longrightarrow>
       utf8 (sc_raw_pending c) \<and> leading (sc_raw_pending c @ f) \<le> MAX_PREFIX_WHITESPACE_BYTES)"

lemma ref_reply_text:
  assumes "find_open (trim_start t) = None"
  shows "ref_reply to tc t = ref_text to tc t"
  using assms by (auto simp: ref_reply_def prefix_candidate_Some split: option.splits)

lemma bounded_lead_candidate:
  assumes "bounded_lead c f" and "sc_state c = Text" and "sc_reasoning_prefix_possible c"
  shows "prefix_candidate (sc_raw_pending c) = Some (trim_start (sc_raw_pending c))"
  using assms leading_append [of "sc_raw_pending c" f] leading_le [of "sc_raw_pending c"]
  by (auto simp: bounded_lead_def prefix_candidate_Some split: if_splits)

text \<open>Reading on after an opening reasoning marker, and after a tool marker.\<close>

lemma ref_state_open_marker:
  assumes "sc_state c = Text" and "sc_reasoning_prefix_possible c" and "bounded_lead c f"
    and "find_open (trim_start (sc_raw_pending c)) = Some ((op, cl), body)"
  shows "ref_state c f = ref_reasoning (sc_tool_open c) (sc_tool_close c) cl (body @ f)"
proof -
  let ?p = "sc_raw_pending c"
  have l: "utf8 ?p" "leading (?p @ f) \<le> MAX_PREFIX_WHITESPACE_BYTES"
    using assms(1-3) by (auto simp: bounded_lead_def)
  have op: "(op, cl) \<in> set MARKER_PAIRS" "trim_start ?p = op @ body"
    using assms(4) by (simp_all add: find_open_Some)
  have "trim_start ?p \<noteq> []" using op by (auto elim: marker_open_cases)
  then have "trim_start (?p @ f) = op @ body @ f"
    by (metis append.assoc l(1) op(2) trim_start_append)
  moreover from this have "find_open (trim_start (?p @ f)) = Some ((op, cl), body @ f)"
    using op(1) by (simp add: find_open_Some)
  moreover have "prefix_candidate (?p @ f) = Some (trim_start (?p @ f))"
    using l(2) by (simp add: prefix_candidate_Some)
  ultimately show ?thesis using assms(1,2) by (simp add: ref_state_def ref_reply_def)
qed

lemma ref_state_no_marker:
  assumes "sc_state c = Text" and "bounded_lead c f"
    and "sc_reasoning_prefix_possible c \<Longrightarrow>
      find_open (trim_start (sc_raw_pending c)) = None
      \<and> trim_start (sc_raw_pending c) \<noteq> []
      \<and> find_open (trim_start (sc_raw_pending c) @ f) = None"
  shows "ref_state c f = ref_text (sc_tool_open c) (sc_tool_close c) (sc_raw_pending c @ f)"
proof (cases "sc_reasoning_prefix_possible c")
  case True
  then have "utf8 (sc_raw_pending c)" using assms(1,2) by (simp add: bounded_lead_def)
  with True assms(3) have "find_open (trim_start (sc_raw_pending c @ f)) = None"
    by (simp add: trim_start_append)
  with True assms(1) show ?thesis by (simp add: ref_state_def ref_reply_text)
qed (use assms(1) in \<open>simp add: ref_state_def\<close>)

lemma tool_marker_no_open:
  assumes "(to, tc) \<in> streamed_markers" and "to \<noteq> []" and "str_find to p = Some i"
    and "find_open (trim_start p) = None"
  shows "trim_start p \<noteq> [] \<and> find_open (trim_start p @ f) = None"
proof -
  have "prefix to (drop (i - leading p) (trim_start p))"
    using assms(3) tool_not_in_leading [OF assms(1-3)]
    by (simp add: trim_start_leading str_find_Some)
  then have "contains to (trim_start p)"
    by (metis append_take_drop_id contains_iff prefix_def)
  then show ?thesis
    using find_open_append_None [OF assms(4), of to tc f] assms(1,2) by (auto simp: contains_iff)
qed

text \<open>The three shapes a boundary can have.\<close>

lemma find_boundary_cases:
  assumes "sc_ok c" and "find_boundary c = Some (i, m, b)"
  obtains (close) "sc_state c = Reasoning" "b = ReasoningClose" "m = sc_reasoning_close c"
      "str_find m (sc_raw_pending c) = Some i"
  | (tool_close) "sc_state c = ToolCall" "b = ToolClose" "m = sc_tool_close c" "m \<noteq> []"
      "str_find m (sc_raw_pending c) = Some i"
  | (opens) op cl body where "sc_state c = Text" "sc_reasoning_prefix_possible c"
      "b = ReasoningOpen cl" "m = op" "(op, cl) \<in> set MARKER_PAIRS"
      "find_open (trim_start (sc_raw_pending c)) = Some ((op, cl), body)"
      "drop (i + length m) (sc_raw_pending c) = body"
  | (tool) "sc_state c = Text" "b = ToolOpen" "m = sc_tool_open c" "m \<noteq> []"
      "str_find m (sc_raw_pending c) = Some i"
      "bounded_lead c f \<Longrightarrow> sc_reasoning_prefix_possible c \<Longrightarrow>
        find_open (trim_start (sc_raw_pending c)) = None"
proof -
  let ?p = "sc_raw_pending c"
  have markers: "(sc_tool_open c, sc_tool_close c) \<in> streamed_markers"
    using assms(1) by (simp add: sc_ok_def)
  show ?thesis
  proof (cases "sc_state c")
    case Reasoning
    with assms(2) show ?thesis by (intro close) (auto simp: find_boundary_def)
  next
    case ToolCall
    with assms show ?thesis
      by (intro tool_close)
        (auto simp: find_boundary_def sc_ok_def dest: streamed_close)
  next
    case Text
    note fb = find_boundary_Text [OF markers Text]
    show ?thesis
    proof (cases "is_reasoning_open b")
      case True
      with assms(2) obtain op cl body where o: "sc_reasoning_prefix_possible c"
        "find_open (trim_start ?p) = Some ((op, cl), body)"
        "i = leading ?p" "m = op" "b = ReasoningOpen cl"
        by (auto simp: fb tool_boundary_def prefix_candidate_Some split: if_splits option.splits)
      then have op: "(op, cl) \<in> set MARKER_PAIRS" "trim_start ?p = op @ body"
        by (simp_all add: find_open_Some)
      then have "drop (i + length m) ?p = body"
        using o(3,4) by (metis add.commute append_eq_conv_conj drop_drop trim_start_leading)
      with Text o op(1) show ?thesis by (intro opens [of cl op body])
    next
      case False
      with assms(2) have t: "tool_boundary c = Some (i, m, b)"
        by (auto simp: fb split: if_splits option.splits)
      have "find_open (trim_start ?p) = None"
        if "bounded_lead c f" "sc_reasoning_prefix_possible c"
        using bounded_lead_candidate [OF that(1) Text that(2)] assms(2) False that(2)
        by (auto simp: fb split: option.splits)
      with Text t show ?thesis by (intro tool) (auto simp: tool_boundary_def split: if_splits)
    qed
  qed
qed

text \<open>A boundary step.\<close>

lemma boundary_step:
  assumes "sc_ok c" and "find_boundary c = Some (i, m, b)"
    and "c1 = apply_boundary b (c\<lparr> sc_raw_pending := drop (i + length m) (sc_raw_pending c),
                                   sc_display_pending := drop (i + length m) (sc_raw_pending c) \<rparr>)"
  shows "sc_ok c1 \<and> bounded_lead c1 f \<and> (bounded_lead c f \<longrightarrow> ref_state c f =
      (if is_reasoning_open b then [] else tags (sc_state c) (take i (sc_raw_pending c)))
      @ ref_state c1 f)"
  using assms(1,2)
proof (cases rule: find_boundary_cases [where f = f])
  case close
  with assms(1,3) show ?thesis
    by (simp add: sc_ok_def bounded_lead_def ref_state_def ref_reasoning_boundary)
next
  case tool_close
  with assms(1,3) show ?thesis
    by (simp add: sc_ok_def bounded_lead_def ref_state_def ref_tool_boundary)
next
  case (opens op cl body)
  then have "bounded_lead c f \<longrightarrow>
      ref_state c f = ref_reasoning (sc_tool_open c) (sc_tool_close c) cl (body @ f)"
    using ref_state_open_marker by blast
  with opens assms(1,3) show ?thesis
    by (auto simp: sc_ok_def bounded_lead_def ref_state_def image_iff intro: bexI [of _ "(op, cl)"])
next
  case tool
  have "(sc_tool_open c, sc_tool_close c) \<in> streamed_markers" using assms(1) by (simp add: sc_ok_def)
  note no_open = tool_marker_no_open [OF this, of "sc_raw_pending c" i f]
  have "ref_state c f = ref_text (sc_tool_open c) (sc_tool_close c) (sc_raw_pending c @ f)"
    if "bounded_lead c f"
    by (rule ref_state_no_marker) (use tool that no_open in auto)
  with tool assms(1,3) show ?thesis
    by (auto simp: sc_ok_def bounded_lead_def ref_state_def ref_text_boundary)
qed

text \<open>A flushing step: nothing before the retained suffix can be part of a marker.\<close>

lemma retained_ascii:
  assumes "(to, tc) \<in> streamed_markers"
  shows "utf8 (drop (length p - marker_suffix_len p to) p)"
proof (cases "to = []")
  case False
  let ?k = "marker_suffix_len p to"
  have "drop (length p - ?k) p = take ?k to"
  proof -
    obtain z where z: "p = z @ take ?k to" and k: "?k \<le> length to"
      using marker_suffix_len_suffix [of p to] by (auto simp: suffix_def)
    have "length p - ?k = length z" using arg_cong [OF z, of length] k by simp
    then show ?thesis by (metis append_eq_conv_conj z)
  qed
  then show ?thesis
    using streamed_open_head [OF assms False] by (auto intro!: utf8_ascii dest: in_set_takeD)
qed (simp add: marker_suffix_len_def)

lemma leading_skip_ws: "trim_start s = [] \<Longrightarrow> leading (s @ t) = length s + leading t"
  using trim_start_length [of t] by (simp add: leading_def trim_start_append_ws)

lemma find_boundary_None_tool:
  assumes "(sc_tool_open c, sc_tool_close c) \<in> streamed_markers" and "sc_state c = Text"
    and "find_boundary c = None"
  shows "sc_tool_open c = [] \<or> str_find (sc_tool_open c) (sc_raw_pending c) = None"
  using assms by (auto simp: find_boundary_Text tool_boundary_def split: if_splits option.splits)

lemma flush_step_Text:
  assumes "sc_ok c" and "sc_state c = Text" and "find_boundary c = None"
    and n: "n = length (sc_raw_pending c) - partial_marker_suffix_len c" and "n \<noteq> 0"
    and c1: "c1 = c\<lparr> sc_raw_pending := drop n (sc_raw_pending c),
                     sc_display_pending := drop n (sc_raw_pending c) \<rparr>"
    and c2: "c2 = (if trim (take n (sc_raw_pending c)) \<noteq> []
                   then c1\<lparr> sc_reasoning_prefix_possible := False \<rparr> else c1)"
    and bl: "bounded_lead c f"
  shows "bounded_lead c2 f"
    and "ref_state c f = tags Text (take n (sc_raw_pending c)) @ ref_state c2 f"
proof -
  let ?p = "sc_raw_pending c" and ?to = "sc_tool_open c" and ?tc = "sc_tool_close c"
  let ?s = "take n ?p" and ?r = "drop n ?p"
  have markers: "(?to, ?tc) \<in> streamed_markers" using assms(1) by (simp add: sc_ok_def)
  have n_eq: "n = length ?p - marker_suffix_len ?p ?to"
    and shut: "sc_reasoning_prefix_possible c \<Longrightarrow> \<not> may_become_open (trim_start ?p)"
    using n assms(2,5) bounded_lead_candidate [OF bl assms(2)]
    by (auto simp: partial_marker_suffix_len_def Let_def max_def split: if_splits)
  have no: "find_open (trim_start ?p) = None \<and> trim_start ?p \<noteq> [] \<and> find_open (trim_start ?p @ f) = None"
    if pos: "sc_reasoning_prefix_possible c"
  proof -
    have "find_open (trim_start ?p) = None"
      using assms(3) pos bounded_lead_candidate [OF bl assms(2) pos]
      by (auto simp: find_boundary_Text [OF markers assms(2)] split: option.splits)
    then show ?thesis
      using shut [OF pos] find_open_append_None by (auto simp: may_become_open_def)
  qed
  have flush: "ref_text ?to ?tc (?p @ f) = tags Text ?s @ ref_text ?to ?tc (?r @ f)"
    using find_boundary_None_tool [OF markers assms(2,3)] n_eq by (rule ref_text_flush)
  have "bounded_lead c2 f \<and> ref_state c2 f = ref_text ?to ?tc (?r @ f)"
  proof (cases "sc_reasoning_prefix_possible c2")
    case False
    with assms(2) c1 c2 show ?thesis by (auto simp: bounded_lead_def ref_state_def split: if_splits)
  next
    case True
    with c1 c2 have pos: "sc_reasoning_prefix_possible c" and "trim ?s = []" by (auto split: if_splits)
    then have s: "trim_start ?s = []" by (intro trim_Nil)
    then have r: "trim_start ?r = trim_start ?p" and "leading (?p @ f) = length ?s + leading (?r @ f)"
      using trim_start_append_ws [OF s, of ?r] leading_skip_ws [OF s, of "?r @ f"]
      by (simp_all flip: append_assoc)
    then have lead: "leading (?r @ f) \<le> MAX_PREFIX_WHITESPACE_BYTES"
      using bl assms(2) pos by (simp add: bounded_lead_def)
    have c2_eq: "sc_raw_pending c2 = ?r" "sc_state c2 = Text" "sc_tool_open c2 = ?to" "sc_tool_close c2 = ?tc"
      using c1 c2 assms(2) by auto
    have "bounded_lead c2 f"
      using lead retained_ascii [OF markers, of ?p] by (simp add: bounded_lead_def c2_eq flip: n_eq)
    moreover from this have "ref_state c2 f = ref_text ?to ?tc (?r @ f)"
      using ref_state_no_marker [of c2 f] no [OF pos] by (simp add: c2_eq r)
    ultimately show ?thesis by simp
  qed
  then show "bounded_lead c2 f" "ref_state c f = tags Text ?s @ ref_state c2 f"
    using ref_state_no_marker [OF assms(2) bl no] flush by simp_all
qed

lemma flush_step:
  assumes "sc_ok c" and "find_boundary c = None"
    and "n = length (sc_raw_pending c) - partial_marker_suffix_len c" and "n \<noteq> 0"
    and "c1 = c\<lparr> sc_raw_pending := drop n (sc_raw_pending c),
                 sc_display_pending := drop n (sc_raw_pending c) \<rparr>"
    and "c2 = (if sc_state c = Text \<and> trim (take n (sc_raw_pending c)) \<noteq> []
               then c1\<lparr> sc_reasoning_prefix_possible := False \<rparr> else c1)"
  shows "sc_ok c2 \<and> (bounded_lead c f \<longrightarrow> bounded_lead c2 f
    \<and> ref_state c f = tags (sc_state c) (take n (sc_raw_pending c)) @ ref_state c2 f)"
proof (cases "sc_state c")
  case Text
  with assms flush_step_Text [OF assms(1) Text assms(2-5), of c2 f] show ?thesis
    by (auto simp: sc_ok_def)
next
  case Reasoning
  with assms show ?thesis
    by (auto simp: sc_ok_def bounded_lead_def ref_state_def find_boundary_def
        partial_marker_suffix_len_def ref_reasoning_flush)
next
  case ToolCall
  with assms show ?thesis
    by (auto simp: sc_ok_def bounded_lead_def ref_state_def find_boundary_def
        partial_marker_suffix_len_def ref_tool_flush)
qed

lemma find_boundary_empty:
  assumes "sc_ok c" and "sc_raw_pending c = []"
  shows "find_boundary c = None"
  using assms streamed_close [of "sc_tool_open c" "sc_tool_close c"]
  by (cases "sc_state c")
    (auto simp: sc_ok_def find_boundary_def MARKER_PAIRS_def prefix_candidate_def starts_with_def)

lemma split_display_same:
  "split_display_at_marker t t i m = (take i t, drop (i + length m) t)"
  "split_display_for_safe_prefix t t n = (take n t, drop n t)"
  by (simp_all add: split_display_at_marker_def split_display_for_safe_prefix_def)

text \<open>
  The loop invariant: the output together with what the pending and the future text mean never
  changes. The loop stops where no boundary is left in the pending text.
\<close>

lemma push_loop_refines:
  "sc_ok c \<Longrightarrow> push_loop c out = (out1, c1) \<Longrightarrow>
    sc_ok c1 \<and> find_boundary c1 = None
    \<and> (bounded_lead c f \<longrightarrow>
         bounded_lead c1 f \<and> tagged out1 @ ref_state c1 f = tagged out @ ref_state c f)"
proof (induction c out arbitrary: out1 c1 rule: push_loop.induct)
  case (1 c out)
  let ?p = "sc_raw_pending c"
  have disp: "sc_display_pending c = ?p" using "1.prems"(1) by (simp add: sc_ok_def)
  show ?case
  proof (cases "find_boundary c")
    case (Some r)
    then obtain i m b where r: "find_boundary c = Some (i, m, b)" by (cases r) auto
    let ?c = "apply_boundary b (c\<lparr> sc_raw_pending := drop (i + length m) ?p,
                                    sc_display_pending := drop (i + length m) ?p \<rparr>)"
    let ?o = "if is_reasoning_open b then out else push_nonempty out (sc_state c) (take i ?p)"
    let ?o2 = "if b = ToolOpen then ?o @ [\<lparr> ct_kind = ToolCall, ct_text = [] \<rparr>] else ?o"
    have step: "push_loop ?c ?o2 = (out1, c1)"
      using "1.prems"(2) r by (subst (asm) push_loop.simps) (simp add: disp split_display_same Let_def)
    note bs = boundary_step [OF "1.prems"(1) r refl, of f]
    have "tagged ?o2 = tagged out @ (if is_reasoning_open b then [] else tags (sc_state c) (take i ?p))"
      by simp
    moreover have "(take i ?p, drop (i + length m) ?p)
        = split_display_at_marker ?p (sc_display_pending c) i m"
      by (simp add: disp split_display_same)
    note "1.IH"(2) [OF r refl refl refl this refl refl refl]
    ultimately show ?thesis using bs step by auto
  next
    case None
    let ?n = "length ?p - partial_marker_suffix_len c"
    show ?thesis
    proof (cases "?n = 0")
      case True
      with None "1.prems" show ?thesis by (subst (asm) push_loop.simps) simp
    next
      case n: False
      let ?c1 = "c\<lparr> sc_raw_pending := drop ?n ?p, sc_display_pending := drop ?n ?p \<rparr>"
      let ?c2 = "if sc_state c = Text \<and> trim (take ?n ?p) \<noteq> []
                 then ?c1\<lparr> sc_reasoning_prefix_possible := False \<rparr> else ?c1"
      let ?o = "push_nonempty out (sc_state c) (take ?n ?p)"
      note fs = flush_step [OF "1.prems"(1) None refl n refl refl, of f]
      have loop: "(if partial_marker_suffix_len c = 0 then (?o, ?c2) else push_loop ?c2 ?o) = (out1, c1)"
        using "1.prems"(2) None n
        by (subst (asm) push_loop.simps) (simp add: disp split_display_same Let_def)
      show ?thesis
      proof (cases "partial_marker_suffix_len c = 0")
        case True
        with loop have e: "out1 = ?o" "c1 = ?c2" by auto
        then have "sc_raw_pending c1 = []" using True by simp
        with fs e show ?thesis by (auto simp: find_boundary_empty)
      next
        case False
        have "(take ?n ?p, drop ?n ?p) = split_display_for_safe_prefix ?p (sc_display_pending c) ?n"
          by (simp add: disp split_display_same)
        from "1.IH"(1) [OF None refl refl n refl this refl refl refl refl False, of out1 c1]
          fs loop False show ?thesis by auto
      qed
    qed
  qed
qed



section \<open>Whole replies\<close>

lemma push_refines:
  assumes "sc_ok c" and "push t t c = (out, c1)" and "utf8 t"
  shows "sc_ok c1 \<and> find_boundary c1 = None
    \<and> (bounded_lead c (t @ f) \<longrightarrow> bounded_lead c1 f \<and> tagged out @ ref_state c1 f = ref_state c (t @ f))"
proof -
  let ?c = "c\<lparr> sc_raw_pending := sc_raw_pending c @ t, sc_display_pending := sc_raw_pending c @ t \<rparr>"
  have "push_loop ?c [] = (out, c1)" and ok: "sc_ok ?c"
    using assms(1,2) by (auto simp: push_def sc_ok_def split: if_splits)
  from push_loop_refines [OF ok this(1), of f]
  show ?thesis
    using assms(3) by (auto simp: bounded_lead_def ref_state_def utf8_append split: token_kind.splits)
qed

lemma finish_drained:
  assumes "sc_ok c" and "find_boundary c = None" and "bounded_lead c []"
  shows "tagged (fst (finish c)) = ref_state c []"
proof -
  let ?p = "sc_raw_pending c"
  have markers: "(sc_tool_open c, sc_tool_close c) \<in> streamed_markers" using assms(1) by (simp add: sc_ok_def)
  have "ref_state c [] = tags (sc_state c) ?p"
  proof (cases "sc_state c")
    case Text
    have "sc_reasoning_prefix_possible c \<Longrightarrow> find_open (trim_start ?p) = None"
      using assms(2) bounded_lead_candidate [OF assms(3) Text]
      by (auto simp: find_boundary_Text [OF markers Text] split: option.splits)
    then have "ref_state c [] = ref_text (sc_tool_open c) (sc_tool_close c) ?p"
      using Text by (simp add: ref_state_def ref_reply_text)
    with Text find_boundary_None_tool [OF markers Text assms(2)] show ?thesis
      by (auto simp: ref_text.simps)
  next
    case Reasoning
    with assms(2) show ?thesis by (simp add: ref_state_def ref_reasoning_def find_boundary_def)
  next
    case ToolCall
    with assms(2) show ?thesis by (simp add: ref_state_def ref_tool.simps find_boundary_def)
  qed
  with assms(1) show ?thesis by (simp add: finish_def sc_ok_def Let_def)
qed

lemma classify_refines:
  "sc_ok c \<Longrightarrow> find_boundary c = None \<Longrightarrow> \<forall>p \<in> set pieces. utf8 p \<Longrightarrow> bounded_lead c (concat pieces) \<Longrightarrow>
    tagged (classify c (map (\<lambda>p. (p, p)) pieces)) = ref_state c (concat pieces)"
proof (induction pieces arbitrary: c)
  case Nil
  then show ?case by (simp add: classify_def finish_drained)
next
  case (Cons t pieces)
  obtain out c1 where step: "push t t c = (out, c1)" by force
  from push_refines [OF Cons.prems(1) step] Cons.prems have "sc_ok c1" "find_boundary c1 = None"
    and *: "bounded_lead c1 (concat pieces)"
      "tagged out @ ref_state c1 (concat pieces) = ref_state c (t @ concat pieces)"
    by auto
  from Cons.IH [OF this(1,2)] Cons.prems(3) *(1)
  have "tagged (classify c1 (map (\<lambda>p. (p, p)) pieces)) = ref_state c1 (concat pieces)" by simp
  with *(2) step show ?case by (auto simp: classify_def split: prod.splits)
qed

lemma classify_reply:
  assumes "fmt \<noteq> LlamaJson" and "\<forall>p \<in> set pieces. utf8 p"
    and "leading (concat pieces) \<le> MAX_PREFIX_WHITESPACE_BYTES"
  shows "tagged (classify (sc_new fmt) (map (\<lambda>p. (p, p)) pieces))
    = ref_reply (fst (tool_markers fmt)) (snd (tool_markers fmt)) (concat pieces)"
proof -
  have ok: "sc_ok (sc_new fmt)"
    using assms(1) by (cases fmt) (auto simp: sc_ok_def sc_new_def streamed_markers_def)
  have "find_boundary (sc_new fmt) = None"
    using ok by (rule find_boundary_empty) (simp add: sc_new_def)
  from classify_refines [OF ok this assms(2)] assms(3) show ?thesis
    by (simp add: bounded_lead_def ref_state_def sc_new_def)
qed



text \<open>The split of the finished reply, read as tags.\<close>

definition split_tags :: "str option \<times> str \<Rightarrow> (token_kind \<times> char) list" where
  "split_tags = (\<lambda>(reasoning, answer).
     tags Reasoning (case reasoning of None \<Rightarrow> [] | Some r \<Rightarrow> r) @ tags Text answer)"

lemma split_tags_nonempty: "split_tags (nonempty r, a) = tags Reasoning r @ tags Text a"
  by (simp add: split_tags_def nonempty_def)

lemma ref_no_tools: "ref_text [] [] t = tags Text t"
  by (simp add: ref_text.simps)

lemma split_tags_open:
  assumes "(op, cl) \<in> set MARKER_PAIRS"
  shows "map_option split_tags (split_at_markers MARKER_PAIRS (op @ body) False)
    = Some (ref_reasoning [] [] cl body)"
  by (simp add: split_at_markers_open [OF assms] ref_reasoning_def ref_no_tools split_tags_nonempty
      split: option.split)

lemma split_at_markers_find_open:
  "find_open t = None \<Longrightarrow> split_at_markers MARKER_PAIRS t dup = None"
  by (auto simp: find_open_None MARKER_PAIRS_def strip_prefix_None split: option.splits)

lemma ref_reply_split: "ref_reply [] [] t = split_tags (split_reasoning t)"
proof (cases "prefix_candidate t")
  case None
  then show ?thesis
    by (simp add: ref_reply_def split_reasoning_def split_reasoning_inner_def ref_no_tools split_tags_def)
next
  case (Some cand)
  show ?thesis
  proof (cases "find_open cand")
    case None
    with Some show ?thesis
      by (simp add: ref_reply_def split_reasoning_def split_reasoning_inner_def ref_no_tools
          split_tags_def split_at_markers_find_open)
  next
    case (Some r)
    obtain op cl body where r: "r = ((op, cl), body)" by (cases r) auto
    with Some have "(op, cl) \<in> set MARKER_PAIRS" and "cand = op @ body"
      by (simp_all add: find_open_Some)
    with split_tags_open [OF this(1), of body] Some r \<open>prefix_candidate t = Some cand\<close>
    show ?thesis
      by (auto simp: ref_reply_def split_reasoning_def split_reasoning_inner_def)
  qed
qed



text \<open>
  When the rendered prompt itself opened the span, the seeded stream agrees with the split of
  the reply with the opening marker put back in front, as the terminal path does it.
\<close>

theorem seeded_stream_agrees_with_split:
  assumes "(op, cl) \<in> set MARKER_PAIRS" and "\<forall>p \<in> set pieces. utf8 p"
  shows "tagged (classify (seed_reasoning cl (sc_new NoTools)) (map (\<lambda>p. (p, p)) pieces))
    = split_tags (split_reasoning (op @ concat pieces))"
proof -
  have ok: "sc_ok (seed_reasoning cl (sc_new NoTools))"
    using assms(1) by (force simp: sc_ok_def seed_reasoning_def sc_new_def streamed_markers_def)
  then have "tagged (classify (seed_reasoning cl (sc_new NoTools)) (map (\<lambda>p. (p, p)) pieces))
    = ref_reasoning [] [] cl (concat pieces)"
    using assms(2)
    by (subst classify_refines)
      (auto simp: bounded_lead_def ref_state_def seed_reasoning_def sc_new_def intro: find_boundary_empty)
  also have "\<dots> = split_tags (split_reasoning (op @ concat pieces))"
    using split_tags_open [OF assms(1), of "concat pieces"] prefix_candidate_open [OF assms(1), of "[]" "concat pieces"]
    by (auto simp: split_reasoning_def split_reasoning_inner_def)
  finally show ?thesis .
qed

theorem seeded_stream_agrees_with_split_witness:
  "tagged (classify (seed_reasoning ''</think>'' (sc_new NoTools)) (map (\<lambda>p. (p, p)) [''why</thi'', ''nk>so'']))
   = split_tags (split_reasoning (''<think>'' @ ''why</think>so''))"
proof -
  let ?ps = "[''why</thi'', ''nk>so'']"
  have "(''<think>'', ''</think>'') \<in> set MARKER_PAIRS" by (simp add: MARKER_PAIRS_def)
  moreover have "\<forall>p \<in> set ?ps. utf8 p" by code_simp
  ultimately show ?thesis using seeded_stream_agrees_with_split [of "''<think>''" "''</think>''" ?ps] by simp
qed

text \<open>
  The bound on leading whitespace is forgotten once the whitespace has been flushed: after 65
  streamed spaces an opening marker still starts a live reasoning span, while the split of the same
  finished reply finds no reasoning and keeps the marker in the answer. The 65 spaces are more than
  the prefix may hold, so the two disagree on the byte after the marker.
\<close>

theorem stream_forgets_flushed_whitespace:
  "tagged (classify (sc_new NoTools)
       (map (\<lambda>p. (p, p)) [replicate 65 (CHR '' ''), ''<think>a'']))
     = tags Text (replicate 65 (CHR '' '')) @ tags Reasoning ''a''
   \<and> split_reasoning (concat [replicate 65 (CHR '' ''), ''<think>a''])
     = (None, replicate 65 (CHR '' '') @ ''<think>a'')"
  by code_simp

end
