(* ===== verification/Engine_Types.thy ===== *)
theory Engine_Types
  imports Prelude "HOL-Library.Word"
begin

text \<open>
  Types the engine's components share: token identifiers, the engine's error type
  (\<open>src/src/engine/error.rs\<close>), and the tokenizer (\<open>src/src/engine/tokenizer.rs\<close>), whose methods
  \<open>encode\<close>, \<open>decode\<close> and \<open>decode_piece_raw\<close> only call the \<open>tokenizers\<close> library and are a parameter of
  the definitions that use them.
\<close>

type_synonym token_id = "32 word"

datatype engine_error =
    EMlx str | EIo str | EConfig str | EModel str | ETokenizer str | ETemplate str
  | EContextExceeded nat nat nat | ECapabilityUnavailable str str | ECancelled

record tokenizer =
  tk_encode :: "str \<Rightarrow> engine_error + token_id list"
  tk_decode :: "token_id list \<Rightarrow> engine_error + str"
  tk_decode_piece_raw :: "token_id \<Rightarrow> engine_error + str"

text \<open>The head of a list, if it has one (\<open>first\<close>, \<open>last\<close>).\<close>

fun first_of :: "'a list \<Rightarrow> 'a option" where
  "first_of [] = None"
| "first_of (x # xs) = Some x"

definition last_of :: "'a list \<Rightarrow> 'a option" where
  "last_of xs = (if xs = [] then None else Some (last xs))"

end
