(* ===== verification/Token_Emitter.thy ===== *)
theory Token_Emitter
  imports Engine_Types Streaming
begin

text \<open>
  The per-token display pipeline of the decode loop (\<open>TokenEmitter\<close> and \<open>StreamDecoder\<close> of
  \<open>src/src/engine/generate.rs\<close>): decoding, stop-token stripping, the filter for a duplicated forced
  close, marker classification and the caller's callback. The callback is a function on a caller
  state of type \<open>'c\<close>; the emitter carries that state. An operation that fails returns its error with
  the state it leaves.
\<close>

section \<open>Decoding\<close>

record decoded_piece =
  dp_raw :: str
  dp_display :: str

record stream_decoder =
  sd_ids :: "token_id list"
  sd_raw :: str
  sd_display :: str

definition sd_default :: stream_decoder where
  "sd_default = \<lparr> sd_ids = [], sd_raw = [], sd_display = [] \<rparr>"

definition REPLACEMENT :: str where
  "REPLACEMENT = [CHR 0xEF, CHR 0xBF, CHR 0xBD]"

definition decoder_take :: "stream_decoder \<Rightarrow> decoded_piece option \<times> stream_decoder" where
  "decoder_take s =
     (if sd_ids s = [] then (None, s)
      else (Some \<lparr> dp_raw = sd_raw s, dp_display = sd_display s \<rparr>,
            s\<lparr> sd_ids := [], sd_raw := [], sd_display := [] \<rparr>))"

definition decoder_finish :: "stream_decoder \<Rightarrow> decoded_piece option \<times> stream_decoder" where
  "decoder_finish s = decoder_take s"

definition decoder_next ::
  "tokenizer \<Rightarrow> token_id \<Rightarrow> str \<Rightarrow> stream_decoder
    \<Rightarrow> (engine_error + decoded_piece option) \<times> stream_decoder" where
  "decoder_next tk i raw s =
     (let s = s\<lparr> sd_ids := sd_ids s @ [i], sd_raw := sd_raw s @ raw \<rparr> in
      case tk_decode tk (sd_ids s) of
        Inl e \<Rightarrow> (Inl e, s)
      | Inr display \<Rightarrow>
          (let s = s\<lparr> sd_display := display \<rparr> in
           if ends_with REPLACEMENT (sd_display s) \<and> length (sd_ids s) < 4 then (Inr None, s)
           else (case decoder_take s of (piece, s) \<Rightarrow> (Inr piece, s))))"


section \<open>The emitter\<close>

record generated_token =
  gt_id :: token_id
  gt_text :: str
  gt_finished :: bool
  gt_completion_tokens :: nat
  gt_kind :: token_kind

type_synonym 'c callback = "generated_token \<Rightarrow> 'c \<Rightarrow> bool \<times> 'c"

datatype emit_outcome = EmitContinue str | EmitEos | EmitCancelled

record 'c token_emitter =
  te_eos_ids :: "token_id list"
  te_classifier :: stream_classifier
  te_decoder :: stream_decoder
  te_orphan_close :: "(str \<times> str \<times> str) option"
  te_emitted :: "token_id list"
  te_client :: 'c
  te_callback_open :: bool

definition te_new :: "token_id list \<Rightarrow> stream_classifier \<Rightarrow> 'c \<Rightarrow> 'c token_emitter" where
  "te_new eos_ids classifier client =
     \<lparr> te_eos_ids = eos_ids, te_classifier = classifier, te_decoder = sd_default, te_orphan_close = None,
       te_emitted = [], te_client = client, te_callback_open = True \<rparr>"

definition encode_close :: "tokenizer \<Rightarrow> str \<Rightarrow> engine_error + token_id list" where
  "encode_close tk marker = tk_encode tk marker"

definition arm_close_filters :: "str \<Rightarrow> 'c token_emitter \<Rightarrow> 'c token_emitter" where
  "arm_close_filters close_marker e = e\<lparr> te_orphan_close := Some (close_marker, [], []) \<rparr>"

text \<open>A call of the caller's callback.\<close>

definition call_on_token :: "'c callback \<Rightarrow> generated_token \<Rightarrow> 'c token_emitter \<Rightarrow> bool \<times> 'c token_emitter" where
  "call_on_token on_token t e =
     (case on_token t (te_client e) of
        (True, c) \<Rightarrow> (True, e\<lparr> te_client := c \<rparr>)
      | (False, c) \<Rightarrow> (False, e\<lparr> te_client := c, te_callback_open := False \<rparr>))"

definition send_empty :: "'c callback \<Rightarrow> token_id \<Rightarrow> bool \<Rightarrow> 'c token_emitter \<Rightarrow> bool \<times> 'c token_emitter" where
  "send_empty on_token i finished e =
     call_on_token on_token
       \<lparr> gt_id = i, gt_text = [], gt_finished = finished, gt_completion_tokens = length (te_emitted e),
         gt_kind = sc_state (te_classifier e) \<rparr> e"

fun send_each ::
  "'c callback \<Rightarrow> token_id \<Rightarrow> bool \<Rightarrow> classified_text list \<Rightarrow> 'c token_emitter \<Rightarrow> bool \<times> 'c token_emitter" where
  "send_each on_token i finished [] e = (True, e)"
| "send_each on_token i finished (segment # segments) e =
     (case call_on_token on_token
        \<lparr> gt_id = i, gt_text = ct_text segment, gt_finished = (finished \<and> segments = []),
          gt_completion_tokens = length (te_emitted e), gt_kind = ct_kind segment \<rparr> e of
        (False, e) \<Rightarrow> (False, e)
      | (True, e) \<Rightarrow> send_each on_token i finished segments e)"

definition send_segments ::
  "'c callback \<Rightarrow> token_id \<Rightarrow> bool \<Rightarrow> classified_text list \<Rightarrow> 'c token_emitter \<Rightarrow> bool \<times> 'c token_emitter" where
  "send_segments on_token i finished segments e =
     (if segments = [] then send_empty on_token i finished e else send_each on_token i finished segments e)"

definition display_after_forced_close :: "str \<Rightarrow> str \<Rightarrow> nat \<Rightarrow> str \<Rightarrow> str" where
  "display_after_forced_close raw display marker_at close =
     (if raw = display then drop (marker_at + length close) display
      else let visible = (case strip_prefix (take marker_at raw) display of Some v \<Rightarrow> v | None \<Rightarrow> display);
               raw_after = drop (marker_at + length close) raw
           in if visible = raw_after then visible
              else case strip_prefix close visible of Some v \<Rightarrow> v | None \<Rightarrow> visible)"

definition filter_post_budget_closes ::
  "str \<Rightarrow> str \<Rightarrow> 'c token_emitter \<Rightarrow> str \<times> 'c token_emitter" where
  "filter_post_budget_closes raw display e =
     (case te_orphan_close e of
        None \<Rightarrow> (display, e)
      | Some (close, raw_buffer, display_buffer) \<Rightarrow>
          (let e = e\<lparr> te_orphan_close := None \<rparr>;
               raw_buffer = raw_buffer @ raw; display_buffer = display_buffer @ display;
               candidate = trim_start raw_buffer;
               leading_bytes = length raw_buffer - length candidate
           in if leading_bytes \<le> MAX_FORCED_CLOSE_WHITESPACE_BYTES \<and> starts_with close candidate
              then (display_after_forced_close raw_buffer display_buffer leading_bytes close, e)
              else if (candidate = [] \<or> starts_with candidate close)
                  \<and> leading_bytes \<le> MAX_FORCED_CLOSE_WHITESPACE_BYTES
                  \<and> length raw_buffer \<le> length close + MAX_FORCED_CLOSE_WHITESPACE_BYTES
              then ([], e\<lparr> te_orphan_close := Some (close, raw_buffer, display_buffer) \<rparr>)
              else (display_buffer, e)))"

definition classifier_push :: "str \<Rightarrow> str \<Rightarrow> 'c token_emitter \<Rightarrow> classified_text list \<times> 'c token_emitter" where
  "classifier_push raw display e =
     (case push raw display (te_classifier e) of (segments, c) \<Rightarrow> (segments, e\<lparr> te_classifier := c \<rparr>))"

definition emit_decoded ::
  "'c callback \<Rightarrow> token_id \<Rightarrow> bool \<Rightarrow> decoded_piece \<Rightarrow> bool \<Rightarrow> 'c token_emitter \<Rightarrow> bool \<times> 'c token_emitter" where
  "emit_decoded on_token i finished piece apply_close_filters e =
     (case (if apply_close_filters then filter_post_budget_closes (dp_raw piece) (dp_display piece) e
            else (dp_display piece, e)) of
        (display, e) \<Rightarrow>
          (case classifier_push (dp_raw piece) display e of
             (segments, e) \<Rightarrow> send_segments on_token i finished segments e))"

text \<open>A stop token's own text is not shown.\<close>

definition strip_stop_text :: "bool \<Rightarrow> str \<Rightarrow> decoded_piece option \<Rightarrow> decoded_piece option" where
  "strip_stop_text finished raw_text decoded =
     (case decoded of
        None \<Rightarrow> None
      | Some piece \<Rightarrow>
          (if finished then
             (case strip_suffix raw_text (dp_display piece) of
                None \<Rightarrow> Some piece
              | Some rest \<Rightarrow> Some (piece\<lparr> dp_display := rest \<rparr>))
           else Some piece))"

definition emit_piece ::
  "'c callback \<Rightarrow> token_id \<Rightarrow> bool \<Rightarrow> decoded_piece option \<Rightarrow> bool \<Rightarrow> 'c token_emitter \<Rightarrow> bool \<times> 'c token_emitter" where
  "emit_piece on_token i finished decoded apply_close_filters e =
     (let e = e\<lparr> te_emitted := te_emitted e @ [i] \<rparr> in
      case decoded of
        Some piece \<Rightarrow> emit_decoded on_token i finished piece apply_close_filters e
      | None \<Rightarrow> send_empty on_token i finished e)"

definition emit ::
  "tokenizer \<Rightarrow> 'c callback \<Rightarrow> token_id \<Rightarrow> 'c token_emitter \<Rightarrow> (engine_error + emit_outcome) \<times> 'c token_emitter" where
  "emit tk on_token i e =
     (let finished = (i \<in> set (te_eos_ids e)) in
      case tk_decode_piece_raw tk i of
        Inl err \<Rightarrow> (Inl err, e)
      | Inr raw_text \<Rightarrow>
          (case decoder_next tk i raw_text (te_decoder e) of
             (Inl err, s) \<Rightarrow> (Inl err, e\<lparr> te_decoder := s \<rparr>)
           | (Inr decoded, s) \<Rightarrow>
               (case (if finished \<and> decoded = None then decoder_finish s else (decoded, s)) of
                  (decoded, s) \<Rightarrow>
                    (case emit_piece on_token i finished (strip_stop_text finished raw_text decoded) True
                        (e\<lparr> te_decoder := s \<rparr>) of
                       (keep_going, e) \<Rightarrow>
                         (Inr (if finished then EmitEos
                               else if \<not> keep_going then EmitCancelled else EmitContinue raw_text), e)))))"

definition emit_forced ::
  "tokenizer \<Rightarrow> 'c callback \<Rightarrow> token_id \<Rightarrow> 'c token_emitter \<Rightarrow> (engine_error + emit_outcome) \<times> 'c token_emitter" where
  "emit_forced tk on_token i e =
     (case tk_decode_piece_raw tk i of
        Inl err \<Rightarrow> (Inl err, e)
      | Inr raw_piece \<Rightarrow>
          (case decoder_next tk i raw_piece (te_decoder e) of
             (Inl err, s) \<Rightarrow> (Inl err, e\<lparr> te_decoder := s \<rparr>)
           | (Inr decoded, s) \<Rightarrow>
               (case emit_piece on_token i False decoded False (e\<lparr> te_decoder := s \<rparr>) of
                  (keep_going, e) \<Rightarrow>
                    (Inr (if keep_going then EmitContinue raw_piece else EmitCancelled), e))))"

text \<open>The terminal flush runs its steps while the caller keeps accepting.\<close>

fun while_open :: "bool \<times> 'c token_emitter \<Rightarrow> ('c token_emitter \<Rightarrow> bool \<times> 'c token_emitter) \<Rightarrow> bool \<times> 'c token_emitter" where
  "while_open (False, e) f = (False, e)"
| "while_open (True, e) f = f e"

definition flush_decoder :: "'c callback \<Rightarrow> token_id \<Rightarrow> 'c token_emitter \<Rightarrow> bool \<times> 'c token_emitter" where
  "flush_decoder on_token i e =
     (case decoder_finish (te_decoder e) of
        (None, s) \<Rightarrow> (True, e\<lparr> te_decoder := s \<rparr>)
      | (Some piece, s) \<Rightarrow> emit_decoded on_token i False piece True (e\<lparr> te_decoder := s \<rparr>))"

definition flush_orphan :: "'c callback \<Rightarrow> token_id \<Rightarrow> 'c token_emitter \<Rightarrow> bool \<times> 'c token_emitter" where
  "flush_orphan on_token i e =
     (case te_orphan_close e of
        None \<Rightarrow> (True, e)
      | Some (close, raw, display) \<Rightarrow>
          (case classifier_push raw display (e\<lparr> te_orphan_close := None \<rparr>) of
             (segments, e) \<Rightarrow> send_segments on_token i False segments e))"

definition flush_classifier :: "'c callback \<Rightarrow> token_id \<Rightarrow> 'c token_emitter \<Rightarrow> bool \<times> 'c token_emitter" where
  "flush_classifier on_token i e =
     (case finish (te_classifier e) of
        (segments, c) \<Rightarrow> send_segments on_token i False segments (e\<lparr> te_classifier := c \<rparr>))"

definition flush_terminal :: "'c callback \<Rightarrow> 'c token_emitter \<Rightarrow> 'c token_emitter" where
  "flush_terminal on_token e =
     (if \<not> te_callback_open e then e
      else let i = (case last_of (te_emitted e) of Some i \<Rightarrow> i | None \<Rightarrow> 0) in
        snd (while_open (while_open (flush_decoder on_token i e) (flush_orphan on_token i)) (flush_classifier on_token i)))"

definition into_emitted :: "'c callback \<Rightarrow> 'c token_emitter \<Rightarrow> token_id list \<times> 'c token_emitter" where
  "into_emitted on_token e = (let e = flush_terminal on_token e in (te_emitted e, e))"

end
