(* ===== verification/Token_Emitter_Correct.thy ===== *)
theory Token_Emitter_Correct
  imports Token_Emitter Streaming_Correct
begin

text \<open>
  What the emitter promises: a token is appended to the emitted ledger exactly when its callbacks
  are made, a failed emission leaves ledger and caller untouched, and what the caller is told is the
  classification of the text the tokens spell.
\<close>

section \<open>What emission leaves alone\<close>

definition same_ledger :: "'c token_emitter \<Rightarrow> 'c token_emitter \<Rightarrow> bool" where
  "same_ledger e e' \<longleftrightarrow> te_emitted e' = te_emitted e \<and> te_eos_ids e' = te_eos_ids e"

lemma same_ledger_refl [simp]: "same_ledger e e"
  by (simp add: same_ledger_def)

lemma same_ledger_trans: "same_ledger e e1 \<Longrightarrow> same_ledger e1 e2 \<Longrightarrow> same_ledger e e2"
  by (simp add: same_ledger_def)

named_theorems ledger_frame \<open>operations that leave the emitted ledger alone\<close>

lemma call_on_token_ledger [ledger_frame]: "same_ledger e (snd (call_on_token on_token t e))"
  by (auto simp: call_on_token_def same_ledger_def split: prod.splits bool.splits)

lemma send_empty_ledger [ledger_frame]: "same_ledger e (snd (send_empty on_token i f e))"
  unfolding send_empty_def by (rule ledger_frame)

lemma send_each_ledger [ledger_frame]: "same_ledger e (snd (send_each on_token i f segments e))"
proof (induction segments arbitrary: e)
  case (Cons s segments)
  let ?t = "\<lparr> gt_id = i, gt_text = ct_text s, gt_finished = (f \<and> segments = []),
    gt_completion_tokens = length (te_emitted e), gt_kind = ct_kind s \<rparr>"
  obtain b e1 where c: "call_on_token on_token ?t e = (b, e1)" by fastforce
  have "same_ledger e e1" using call_on_token_ledger [of e on_token ?t] by (simp add: c)
  then show ?case using Cons.IH [of e1] by (auto simp: c split: bool.splits intro: same_ledger_trans)
qed simp

lemma send_segments_ledger [ledger_frame]: "same_ledger e (snd (send_segments on_token i f segments e))"
  by (simp add: send_segments_def ledger_frame)

lemma filter_ledger [ledger_frame]: "same_ledger e (snd (filter_post_budget_closes raw display e))"
  by (auto simp: filter_post_budget_closes_def same_ledger_def Let_def split: option.splits)

lemma classifier_push_ledger [ledger_frame]: "same_ledger e (snd (classifier_push raw display e))"
  by (auto simp: classifier_push_def same_ledger_def split: prod.splits)

lemma emit_decoded_ledger [ledger_frame]: "same_ledger e (snd (emit_decoded on_token i f piece filt e))"
proof -
  obtain display e1 where 1: "(if filt then filter_post_budget_closes (dp_raw piece) (dp_display piece) e
      else (dp_display piece, e)) = (display, e1)" by fastforce
  obtain segments e2 where 2: "classifier_push (dp_raw piece) display e1 = (segments, e2)" by fastforce
  have "same_ledger e e1"
    using 1 filter_ledger [of e "dp_raw piece" "dp_display piece"] by (auto split: if_splits)
  moreover have "same_ledger e1 e2" using classifier_push_ledger [of e1 "dp_raw piece" display] by (simp add: 2)
  ultimately show ?thesis
    using send_segments_ledger [of e2 on_token i f segments]
    by (auto simp: emit_decoded_def 1 2 intro: same_ledger_trans)
qed

lemma emit_piece_ledger:
  "te_emitted (snd (emit_piece on_token i f decoded filt e)) = te_emitted e @ [i]
   \<and> te_eos_ids (snd (emit_piece on_token i f decoded filt e)) = te_eos_ids e"
proof -
  have "same_ledger (e\<lparr> te_emitted := te_emitted e @ [i] \<rparr>) (snd (emit_piece on_token i f decoded filt e))"
    by (simp add: emit_piece_def Let_def ledger_frame split: option.split)
  then show ?thesis by (simp add: same_ledger_def)
qed

lemma emit_Inl: "emit tk on_token i e = (Inl err, e') \<Longrightarrow> \<exists>s. e' = e\<lparr> te_decoder := s \<rparr>"
  by (auto simp: emit_def Let_def split: sum.splits prod.splits intro: exI [of _ "te_decoder e"])

lemma emit_Inr:
  assumes "emit tk on_token i e = (Inr r, e')"
  shows "te_emitted e' = te_emitted e @ [i]" "te_eos_ids e' = te_eos_ids e"
    "r = EmitEos \<longleftrightarrow> i \<in> set (te_eos_ids e)"
proof -
  obtain f decoded s k where 1: "emit_piece on_token i f decoded True (e\<lparr> te_decoder := s \<rparr>) = (k, e')"
    and 2: "r = EmitEos \<longleftrightarrow> i \<in> set (te_eos_ids e)"
    using assms by (auto simp: emit_def Let_def split: sum.splits prod.splits if_splits)
  show "te_emitted e' = te_emitted e @ [i]" "te_eos_ids e' = te_eos_ids e"
    using emit_piece_ledger [of on_token i f decoded True "e\<lparr> te_decoder := s \<rparr>"] by (simp_all add: 1)
  show "r = EmitEos \<longleftrightarrow> i \<in> set (te_eos_ids e)" by (rule 2)
qed

lemma emit_forced_Inl: "emit_forced tk on_token i e = (Inl err, e') \<Longrightarrow> \<exists>s. e' = e\<lparr> te_decoder := s \<rparr>"
  by (auto simp: emit_forced_def Let_def split: sum.splits prod.splits intro: exI [of _ "te_decoder e"])

lemma emit_forced_Inr:
  assumes "emit_forced tk on_token i e = (Inr r, e')"
  shows "te_emitted e' = te_emitted e @ [i]" "te_eos_ids e' = te_eos_ids e" "r \<noteq> EmitEos"
proof -
  obtain decoded s k where 1: "emit_piece on_token i False decoded False (e\<lparr> te_decoder := s \<rparr>) = (k, e')"
    and 2: "r \<noteq> EmitEos"
    using assms by (auto simp: emit_forced_def split: sum.splits prod.splits if_splits)
  show "te_emitted e' = te_emitted e @ [i]" "te_eos_ids e' = te_eos_ids e"
    using emit_piece_ledger [of on_token i False decoded False "e\<lparr> te_decoder := s \<rparr>"] by (simp_all add: 1)
  show "r \<noteq> EmitEos" by (rule 2)
qed

lemma arm_close_filters_ledger [ledger_frame]: "same_ledger e (arm_close_filters m e)"
  by (simp add: arm_close_filters_def same_ledger_def)

lemma while_open_ledger:
  assumes "same_ledger e (snd r)" "\<And>e. same_ledger e (snd (f e))"
  shows "same_ledger e (snd (while_open r f))"
  using assms by (cases "(r, f)" rule: while_open.cases) (auto intro: same_ledger_trans)

lemma flush_decoder_ledger [ledger_frame]: "same_ledger e (snd (flush_decoder on_token i e))"
proof -
  obtain d s where d: "decoder_finish (te_decoder e) = (d, s)" by fastforce
  have "same_ledger e (e\<lparr> te_decoder := s \<rparr>)" by (simp add: same_ledger_def)
  then show ?thesis using emit_decoded_ledger [of "e\<lparr> te_decoder := s \<rparr>"]
    by (auto simp: flush_decoder_def d split: option.split intro: same_ledger_trans)
qed

lemma flush_orphan_ledger [ledger_frame]: "same_ledger e (snd (flush_orphan on_token i e))"
proof (cases "te_orphan_close e")
  case (Some o')
  obtain close raw display where o': "o' = (close, raw, display)" by (cases o')
  obtain segments e' where p: "classifier_push raw display (e\<lparr> te_orphan_close := None \<rparr>) = (segments, e')" by fastforce
  have "same_ledger e e'"
    using classifier_push_ledger [of "e\<lparr> te_orphan_close := None \<rparr>" raw display] by (simp add: p same_ledger_def)
  then show ?thesis using send_segments_ledger [of e']
    by (auto simp: flush_orphan_def Some o' p intro: same_ledger_trans)
qed (simp add: flush_orphan_def)

lemma flush_classifier_ledger [ledger_frame]: "same_ledger e (snd (flush_classifier on_token i e))"
proof -
  obtain segments c where p: "finish (te_classifier e) = (segments, c)" by fastforce
  have "same_ledger e (e\<lparr> te_classifier := c \<rparr>)" by (simp add: same_ledger_def)
  then show ?thesis using send_segments_ledger [of "e\<lparr> te_classifier := c \<rparr>"]
    by (auto simp: flush_classifier_def p intro: same_ledger_trans)
qed

lemma flush_terminal_ledger [ledger_frame]: "same_ledger e (flush_terminal on_token e)"
  unfolding flush_terminal_def Let_def
  by (auto intro!: while_open_ledger ledger_frame)

text \<open>
  C30. Emission is exact: a token that cannot be decoded is not added to the emitted ledger and makes
  no callback; any other token is added at the end of the ledger, and emission reports the end of
  the reply exactly for a registered stop token. Flushing at the end of a reply adds no token.
\<close>

theorem emit_exact_ledger:
  "(case emit tk on_token i e of
      (Inl err, e') \<Rightarrow> te_emitted e' = te_emitted e \<and> te_client e' = te_client e \<and> te_classifier e' = te_classifier e
    | (Inr r, e') \<Rightarrow> te_emitted e' = te_emitted e @ [i] \<and> (r = EmitEos \<longleftrightarrow> i \<in> set (te_eos_ids e)))
   \<and> (case emit_forced tk on_token i e of
      (Inl err, e') \<Rightarrow> te_emitted e' = te_emitted e \<and> te_client e' = te_client e \<and> te_classifier e' = te_classifier e
    | (Inr r, e') \<Rightarrow> te_emitted e' = te_emitted e @ [i] \<and> r \<noteq> EmitEos)
   \<and> fst (into_emitted on_token e) = te_emitted e"
proof (intro conjI)
  show "case emit tk on_token i e of
      (Inl err, e') \<Rightarrow> te_emitted e' = te_emitted e \<and> te_client e' = te_client e \<and> te_classifier e' = te_classifier e
    | (Inr r, e') \<Rightarrow> te_emitted e' = te_emitted e @ [i] \<and> (r = EmitEos \<longleftrightarrow> i \<in> set (te_eos_ids e))"
    by (auto split: prod.splits sum.splits dest: emit_Inl emit_Inr)
  show "case emit_forced tk on_token i e of
      (Inl err, e') \<Rightarrow> te_emitted e' = te_emitted e \<and> te_client e' = te_client e \<and> te_classifier e' = te_classifier e
    | (Inr r, e') \<Rightarrow> te_emitted e' = te_emitted e @ [i] \<and> r \<noteq> EmitEos"
    by (auto split: prod.splits sum.splits dest: emit_forced_Inl emit_forced_Inr)
  show "fst (into_emitted on_token e) = te_emitted e"
    using flush_terminal_ledger [of e on_token] by (simp add: into_emitted_def Let_def same_ledger_def)
qed



section \<open>What the caller is shown\<close>

definition record_token :: "generated_token list callback" where
  "record_token t c = (True, c @ [t])"

definition delivered :: "generated_token list \<Rightarrow> (token_kind \<times> char) list" where
  "delivered c = concat (map (\<lambda>t. tags (gt_kind t) (gt_text t)) c)"

fun emit_all :: "tokenizer \<Rightarrow> 'c callback \<Rightarrow> token_id list \<Rightarrow> 'c token_emitter \<Rightarrow> 'c token_emitter" where
  "emit_all tk on_token [] e = e"
| "emit_all tk on_token (i # ids) e = emit_all tk on_token ids (snd (emit tk on_token i e))"

text \<open>A token that spells a text of whole characters.\<close>

definition spells :: "tokenizer \<Rightarrow> (token_id \<Rightarrow> str) \<Rightarrow> token_id \<Rightarrow> bool" where
  "spells tk wd i \<longleftrightarrow> tk_decode_piece_raw tk i = Inr (wd i) \<and> tk_decode tk [i] = Inr (wd i)
     \<and> \<not> ends_with REPLACEMENT (wd i)"

text \<open>Nothing is held back in the decoder or the duplicate filter, and the caller still listens.\<close>

definition idle :: "'c token_emitter \<Rightarrow> bool" where
  "idle e \<longleftrightarrow> te_decoder e = sd_default \<and> te_orphan_close e = None \<and> te_callback_open e"

lemma call_record [simp]:
  "call_on_token record_token t e = (True, e\<lparr> te_client := te_client e @ [t] \<rparr>)"
  by (simp add: call_on_token_def record_token_def)

lemma send_each_record:
  "\<exists>c. send_each record_token i f segments e = (True, e\<lparr> te_client := te_client e @ c \<rparr>) \<and> delivered c = tagged segments"
proof (induction segments arbitrary: e)
  case Nil
  show ?case by (intro exI [of _ "[]"]) (simp add: delivered_def tagged_def)
next
  case (Cons s segments)
  let ?t = "\<lparr> gt_id = i, gt_text = ct_text s, gt_finished = (f \<and> segments = []),
    gt_completion_tokens = length (te_emitted e), gt_kind = ct_kind s \<rparr>"
  obtain c where "send_each record_token i f segments (e\<lparr> te_client := te_client e @ [?t] \<rparr>)
      = (True, e\<lparr> te_client := te_client e @ [?t] @ c \<rparr>)" "delivered c = tagged segments"
    using Cons.IH [of "e\<lparr> te_client := te_client e @ [?t] \<rparr>"] by auto
  then show ?case
    by (intro exI [of _ "?t # c"]) (simp add: delivered_def tagged_def)
qed

lemma send_segments_record:
  "\<exists>c. send_segments record_token i f segments e = (True, e\<lparr> te_client := te_client e @ c \<rparr>) \<and> delivered c = tagged segments"
proof (cases "segments = []")
  case True
  then show ?thesis
    by (auto simp: send_segments_def send_empty_def delivered_def tagged_def tags_def)
next
  case False
  then show ?thesis using send_each_record by (simp add: send_segments_def)
qed

lemma delivered_Nil [simp]: "delivered [] = []"
  by (simp add: delivered_def)

lemma delivered_append [simp]: "delivered (a @ b) = delivered a @ delivered b"
  by (simp add: delivered_def)

lemma emit_idle:
  assumes "idle e" "spells tk wd i" "i \<notin> set (te_eos_ids e)"
  shows "idle (snd (emit tk record_token i e)) \<and> te_eos_ids (snd (emit tk record_token i e)) = te_eos_ids e
    \<and> te_emitted (snd (emit tk record_token i e)) = te_emitted e @ [i]
    \<and> te_classifier (snd (emit tk record_token i e)) = snd (push (wd i) (wd i) (te_classifier e))
    \<and> delivered (te_client (snd (emit tk record_token i e)))
        = delivered (te_client e) @ tagged (fst (push (wd i) (wd i) (te_classifier e)))"
proof -
  have dn: "decoder_next tk i (wd i) (te_decoder e)
      = (Inr (Some \<lparr> dp_raw = wd i, dp_display = wd i \<rparr>), sd_default)"
    using assms by (simp add: decoder_next_def idle_def spells_def sd_default_def Let_def decoder_take_def)
  let ?e1 = "e\<lparr> te_decoder := sd_default, te_emitted := te_emitted e @ [i],
    te_classifier := snd (push (wd i) (wd i) (te_classifier e)) \<rparr>"
  obtain c where c: "send_segments record_token i False (fst (push (wd i) (wd i) (te_classifier e))) ?e1
      = (True, ?e1\<lparr> te_client := te_client e @ c \<rparr>)"
    "delivered c = tagged (fst (push (wd i) (wd i) (te_classifier e)))"
    using send_segments_record [of i False "fst (push (wd i) (wd i) (te_classifier e))" ?e1] by auto
  have "emit_piece record_token i False (Some \<lparr> dp_raw = wd i, dp_display = wd i \<rparr>) True (e\<lparr> te_decoder := sd_default \<rparr>)
      = (True, ?e1\<lparr> te_client := te_client e @ c \<rparr>)"
    using assms(1) c(1)
    by (simp add: emit_piece_def emit_decoded_def filter_post_budget_closes_def idle_def classifier_push_def case_prod_beta)
  then have "emit tk record_token i e = (Inr (EmitContinue (wd i)), ?e1\<lparr> te_client := te_client e @ c \<rparr>)"
    using assms(2,3) by (simp add: emit_def spells_def dn strip_stop_text_def)
  then show ?thesis using assms(1) c(2) by (simp add: idle_def)
qed

lemma emit_all_idle:
  assumes "idle e" "\<forall>i \<in> set ids. spells tk wd i \<and> i \<notin> set (te_eos_ids e)"
  shows "idle (emit_all tk record_token ids e)
    \<and> te_emitted (emit_all tk record_token ids e) = te_emitted e @ ids
    \<and> te_classifier (emit_all tk record_token ids e)
        = snd (push_all (map (\<lambda>i. (wd i, wd i)) ids) (te_classifier e))
    \<and> delivered (te_client (emit_all tk record_token ids e))
        = delivered (te_client e) @ tagged (fst (push_all (map (\<lambda>i. (wd i, wd i)) ids) (te_classifier e)))"
  using assms
proof (induction ids arbitrary: e)
  case Nil
  then show ?case by (simp add: tagged_def)
next
  case (Cons i ids)
  note step = emit_idle [of e tk wd i]
  show ?case using step Cons.prems Cons.IH [of "snd (emit tk record_token i e)"]
    by (auto simp: tagged_def split: prod.splits)
qed

lemma flush_idle:
  assumes "idle e"
  shows "delivered (te_client (flush_terminal record_token e))
    = delivered (te_client e) @ tagged (fst (finish (te_classifier e)))"
proof -
  define i where "i = (case last_of (te_emitted e) of Some i \<Rightarrow> i | None \<Rightarrow> 0)"
  let ?e = "e\<lparr> te_classifier := snd (finish (te_classifier e)) \<rparr>"
  obtain c where "send_segments record_token i False (fst (finish (te_classifier e))) ?e
      = (True, ?e\<lparr> te_client := te_client e @ c \<rparr>)" "delivered c = tagged (fst (finish (te_classifier e)))"
    using send_segments_record [of i False "fst (finish (te_classifier e))" ?e] by auto
  then have "flush_classifier record_token i e = (True, ?e\<lparr> te_client := te_client e @ c \<rparr>)"
    "delivered c = tagged (fst (finish (te_classifier e)))"
    by (simp_all add: flush_classifier_def case_prod_beta)
  moreover have "flush_decoder record_token i e = (True, e)"
    using assms by (cases e) (simp add: flush_decoder_def decoder_finish_def decoder_take_def idle_def sd_default_def)
  moreover have "flush_orphan record_token i e = (True, e)" "te_callback_open e"
    using assms by (simp_all add: flush_orphan_def idle_def)
  ultimately show ?thesis by (simp add: flush_terminal_def i_def [symmetric])
qed



end
