(* ===== verification/Sampling.thy ===== *)
theory Sampling
  imports Engine_Types Complex_Main
begin

text \<open>
  Token sampling (\<open>src/src/engine/sampling.rs\<close>) in exact arithmetic: an \<open>f32\<close> or \<open>f64\<close> is a rational,
  rounding, infinities and NaN are outside the model, so the finiteness tests of the code are always
  passed and its sign and mass tests remain. The random generator is a state of type \<open>'g\<close>; \<open>gen\<close>
  draws a uniform number from it. Numbers formatted into error messages are left out. The
  device operations that make a probability row from logits are not modelled; a row starts as the
  softmax output.
\<close>

section \<open>Configuration\<close>

record sampling_config =
  cfg_temperature :: rat
  cfg_top_p :: rat
  cfg_top_k :: "int option"
  cfg_seed :: "nat option"

definition default_sampling :: sampling_config where
  "default_sampling = \<lparr> cfg_temperature = 0, cfg_top_p = 1, cfg_top_k = None, cfg_seed = None \<rparr>"

record 'g sampler =
  smp_config :: sampling_config
  smp_rng :: 'g

type_synonym 'g uniform = "'g \<Rightarrow> rat \<times> 'g"

definition is_greedy :: "'g sampler \<Rightarrow> bool" where
  "is_greedy s \<longleftrightarrow> cfg_temperature (smp_config s) \<le> 0"

definition spec_err :: "str \<Rightarrow> engine_error" where
  "spec_err msg = EModel (''sampling: '' @ msg)"


section \<open>Filters\<close>

definition validate_probability_mass :: "rat list \<Rightarrow> str \<Rightarrow> str \<Rightarrow> engine_error + rat" where
  "validate_probability_mass probs caller stage =
     (if list_ex (\<lambda>p. p < 0) probs
      then Inl (spec_err (caller @ '' produced invalid '' @ stage @ '' probability''))
      else let total = sum_list probs in
        if total \<le> 0 then Inl (spec_err (caller @ '' invariant violated: '' @ stage @ '' mass''))
        else Inr total)"

text \<open>\<open>select_nth_unstable_by\<close> in descending order: the \<open>k\<close>-th largest value.\<close>

definition kth_largest :: "rat list \<Rightarrow> nat \<Rightarrow> rat" where
  "kth_largest probs k = rev (sort probs) ! (k - 1)"

definition top_k_filter :: "rat list \<Rightarrow> nat \<Rightarrow> rat list" where
  "top_k_filter probs k =
     (if k = 0 \<or> k \<ge> length probs then probs
      else let threshold = kth_largest probs k in map (\<lambda>p. if p < threshold then 0 else p) probs)"

text \<open>Ranks are counted from the largest; the cut comes after the first that reaches the mass.\<close>

fun top_p_cutoff :: "rat \<Rightarrow> rat \<Rightarrow> rat \<Rightarrow> nat \<Rightarrow> (nat \<times> rat) list \<Rightarrow> nat" where
  "top_p_cutoff top_p mass cumulative rank [] = rank"
| "top_p_cutoff top_p mass cumulative rank ((i, p) # indexed) =
     (let cumulative = cumulative + p / mass in
      if cumulative \<ge> top_p then rank + 1 else top_p_cutoff top_p mass cumulative (rank + 1) indexed)"

definition top_p_filter :: "rat list \<Rightarrow> rat \<Rightarrow> rat list" where
  "top_p_filter probs top_p =
     (let indexed = sort_key (\<lambda>(i, p). - p) (List.enumerate 0 probs);
          total = sum_list probs
      in if total \<le> 0 then probs
         else let keep = map fst (take (top_p_cutoff top_p total 0 0 indexed) indexed)
           in map (\<lambda>(i, p). if i \<in> set keep then p else 0) (List.enumerate 0 probs))"

definition filter_and_normalize_probability_row ::
  "sampling_config \<Rightarrow> rat list \<Rightarrow> str \<Rightarrow> engine_error + rat list" where
  "filter_and_normalize_probability_row cfg probs caller =
     (case validate_probability_mass probs caller ''softmax'' of
        Inl e \<Rightarrow> Inl e
      | Inr _ \<Rightarrow>
          (let probs = (case cfg_top_k cfg of
                 Some k \<Rightarrow> (if k > 0 then top_k_filter probs (nat k) else probs) | None \<Rightarrow> probs);
               probs = (if cfg_top_p cfg < 1 then top_p_filter probs (cfg_top_p cfg) else probs)
           in case validate_probability_mass probs caller ''post-filter'' of
                Inl e \<Rightarrow> Inl e
              | Inr mass \<Rightarrow> Inr (map (\<lambda>p. p / mass) probs)))"

definition finish_batched_probability_row :: "'g sampler \<Rightarrow> rat list \<Rightarrow> engine_error + rat list" where
  "finish_batched_probability_row s probs =
     filter_and_normalize_probability_row (smp_config s) probs ''batched probs''"


section \<open>Drawing a token\<close>

fun cdf_walk :: "rat \<Rightarrow> nat \<Rightarrow> rat list \<Rightarrow> nat option" where
  "cdf_walk draw i [] = None"
| "cdf_walk draw i (p # probs) =
     (let draw = draw - p in
      if 0 < p \<and> draw \<le> 0 then Some i else cdf_walk draw (i + 1) probs)"

text \<open>\<open>max_by\<close> returns the last of several largest entries.\<close>

fun last_max :: "nat \<Rightarrow> (nat \<times> rat) option \<Rightarrow> rat list \<Rightarrow> nat" where
  "last_max i best [] = (case best of None \<Rightarrow> 0 | Some (j, _) \<Rightarrow> j)"
| "last_max i best (p # probs) =
     last_max (i + 1)
       (case best of None \<Rightarrow> Some (i, p) | Some (j, q) \<Rightarrow> (if q \<le> p then Some (i, p) else best)) probs"

definition sample_from_probs ::
  "'g uniform \<Rightarrow> rat list \<Rightarrow> 'g sampler \<Rightarrow> (engine_error + token_id) \<times> 'g sampler" where
  "sample_from_probs gen probs s =
     (if probs = [] then (Inl (spec_err ''sample_from_probs() requires a non-empty distribution''), s)
      else if list_ex (\<lambda>p. p < 0) probs
      then (Inl (spec_err ''sample_from_probs() got invalid probability''), s)
      else let total = sum_list probs in
        if total \<le> 0 then (Inl (spec_err ''sample_from_probs() invariant violated: total mass''), s)
        else case gen (smp_rng s) of
          (u, g) \<Rightarrow>
            (Inr (word_of_nat (case cdf_walk (u * total) 0 probs of
                                 Some i \<Rightarrow> i | None \<Rightarrow> last_max 0 None probs)),
             s\<lparr> smp_rng := g \<rparr>))"


section \<open>Speculative verification\<close>

record spec_verdict =
  sv_accepted :: nat
  sv_next :: token_id

definition verify_greedy :: "token_id list \<Rightarrow> token_id list \<Rightarrow> engine_error + spec_verdict" where
  "verify_greedy drafts target_argmax =
     (if length target_argmax \<noteq> length drafts + 1
      then Inl (spec_err ''verify_greedy() expects target_argmax.len() == drafts.len() + 1'')
      else case find (\<lambda>i. drafts ! i \<noteq> target_argmax ! i) [0..<length drafts] of
        Some i \<Rightarrow> Inr \<lparr> sv_accepted = i, sv_next = target_argmax ! i \<rparr>
      | None \<Rightarrow> Inr \<lparr> sv_accepted = length drafts, sv_next = target_argmax ! length drafts \<rparr>)"

record accept_verdict =
  av_accepted :: nat
  av_successor :: "rat list"

definition validate_speculative_row :: "str \<Rightarrow> nat \<Rightarrow> bool \<Rightarrow> rat list \<Rightarrow> engine_error option" where
  "validate_speculative_row name vocab validate_values row =
     (if length row \<noteq> vocab then Some (spec_err (''speculative verification '' @ name @ '' has length''))
      else if \<not> validate_values then None
      else if list_ex (\<lambda>v. v < 0) row
      then Some (spec_err (''speculative verification '' @ name @ '' expected finite and non-negative''))
      else if \<bar>sum_list row - 1\<bar> > 1 / 1000
      then Some (spec_err (''speculative verification '' @ name @ '' sums to''))
      else None)"

definition validate_speculative_rows :: "str \<Rightarrow> rat list list \<Rightarrow> nat \<Rightarrow> bool \<Rightarrow> engine_error option" where
  "validate_speculative_rows name rows vocab validate_values =
     find_map (validate_speculative_row name vocab validate_values) rows"

definition validate_speculative_inputs ::
  "token_id list \<Rightarrow> rat list list \<Rightarrow> rat list list \<Rightarrow> bool \<Rightarrow> engine_error + nat" where
  "validate_speculative_inputs drafts draft_probs target validate_values =
     (if length target \<noteq> length drafts + 1
      then Inl (spec_err ''speculative verification expects target.len() == drafts.len() + 1'')
      else if length draft_probs \<noteq> length drafts
      then Inl (spec_err ''speculative verification expects one draft_probs row per draft'')
      else let vocab = length (hd target) in
        if vocab = 0 then Inl (spec_err ''speculative verification got an empty target distribution'')
        else case validate_speculative_rows ''target'' target vocab validate_values of
          Some e \<Rightarrow> Inl e
        | None \<Rightarrow>
            (case validate_speculative_rows ''draft_probs'' draft_probs vocab validate_values of
               Some e \<Rightarrow> Inl e
             | None \<Rightarrow>
                 (if list_ex (\<lambda>d. unat d \<ge> vocab) drafts
                  then Inl (spec_err ''speculative verification draft token is out of bounds'')
                  else Inr vocab)))"

definition accept_ratio :: "rat \<Rightarrow> rat \<Rightarrow> rat" where
  "accept_ratio p_d q_d = min (p_d / q_d) 1"

definition residual_row :: "rat list \<Rightarrow> rat list \<Rightarrow> rat list" where
  "residual_row target_row draft_row = map (\<lambda>(p, q). max (p - q) 0) (zip target_row draft_row)"

definition residual_dist :: "rat list \<Rightarrow> rat list \<Rightarrow> rat list" where
  "residual_dist target_row draft_row =
     (let residual64 = residual_row target_row draft_row
      in map (\<lambda>r. r / sum_list residual64) residual64)"

fun verify_loop ::
  "'g uniform \<Rightarrow> nat \<Rightarrow> token_id list \<Rightarrow> rat list list \<Rightarrow> rat list list \<Rightarrow> 'g
    \<Rightarrow> (engine_error + accept_verdict) \<times> 'g" where
  "verify_loop gen i (d # drafts) (draft_row # draft_probs) (target_row # target) g =
     (let q_d = draft_row ! unat d; p_d = target_row ! unat d in
      if q_d = 0 then (Inl (spec_err ''verify_accept() invariant violated: zero draft probability''), g)
      else case gen g of
        (u, g) \<Rightarrow>
          (if u < accept_ratio p_d q_d then verify_loop gen (i + 1) drafts draft_probs target g
           else if sum_list (residual_row target_row draft_row) \<le> 0
           then (Inl (spec_err ''verify_accept() invariant violated: residual mass is zero''), g)
           else (Inr \<lparr> av_accepted = i, av_successor = residual_dist target_row draft_row \<rparr>, g)))"
| "verify_loop gen i drafts draft_probs target g =
     (Inr \<lparr> av_accepted = i, av_successor = hd target \<rparr>, g)"

definition verify_accept_inner ::
  "'g uniform \<Rightarrow> token_id list \<Rightarrow> rat list list \<Rightarrow> rat list list \<Rightarrow> bool \<Rightarrow> 'g sampler
    \<Rightarrow> (engine_error + accept_verdict) \<times> 'g sampler" where
  "verify_accept_inner gen drafts draft_probs target validate_values s =
     (case validate_speculative_inputs drafts draft_probs target validate_values of
        Inl e \<Rightarrow> (Inl e, s)
      | Inr vocab \<Rightarrow>
          (case verify_loop gen 0 drafts draft_probs target (smp_rng s) of
             (r, g) \<Rightarrow> (r, s\<lparr> smp_rng := g \<rparr>)))"

definition verify_accept ::
  "'g uniform \<Rightarrow> token_id list \<Rightarrow> rat list list \<Rightarrow> rat list list \<Rightarrow> 'g sampler
    \<Rightarrow> (engine_error + accept_verdict) \<times> 'g sampler" where
  "verify_accept gen drafts draft_probs target s = verify_accept_inner gen drafts draft_probs target True s"

text \<open>\<open>cfg!(debug_assertions)\<close> is the parameter \<open>debug\<close>.\<close>

definition verify_accept_trusted ::
  "'g uniform \<Rightarrow> bool \<Rightarrow> token_id list \<Rightarrow> rat list list \<Rightarrow> rat list list \<Rightarrow> 'g sampler
    \<Rightarrow> (engine_error + accept_verdict) \<times> 'g sampler" where
  "verify_accept_trusted gen debug drafts draft_probs target s =
     verify_accept_inner gen drafts draft_probs target debug s"

end
