(* ===== verification/Sampling_Correct.thy ===== *)
theory Sampling_Correct
  imports Sampling "HOL-Library.Sublist"
begin

text \<open>
  What sampling promises: rows are distributions, a draw inverts the cumulative distribution, greedy
  verification accepts the longest agreeing prefix, and speculative verification leaves the
  distribution of the emitted token exactly the target's.
\<close>

section \<open>Greedy verification\<close>

lemma prefix_mismatch:
  "length ts = length drafts \<Longrightarrow>
    find (\<lambda>i. drafts ! i \<noteq> (ts @ [t]) ! i) [0..<length drafts]
      = (if length (longest_common_prefix drafts ts) = length drafts then None
         else Some (length (longest_common_prefix drafts ts)))"
proof (induction drafts ts rule: longest_common_prefix.induct)
  case (1 x xs y ys)
  have up: "[0..<Suc (length xs)] = 0 # map Suc [0..<length xs]"
    by (metis upt_conv_Cons map_Suc_upt zero_less_Suc)
  have m: "find P (map Suc ns) = map_option Suc (find (\<lambda>i. P (Suc i)) ns)" for P ns
    by (induction ns) auto
  show ?case using 1 by (auto simp: up m simp del: upt_Suc)
qed auto

text \<open>
  C33. Greedy verification accepts exactly the drafts up to the first that differs from the target's
  choice, and continues with the target's own choice at that position.
\<close>

theorem verify_greedy_longest_prefix:
  assumes "length ts = length drafts"
  shows "verify_greedy drafts (ts @ [t])
    = (let n = length (longest_common_prefix drafts ts)
       in Inr \<lparr> sv_accepted = n, sv_next = (ts @ [t]) ! n \<rparr>)"
  using assms prefix_mismatch [OF assms, of t] by (simp add: verify_greedy_def Let_def)

theorem verify_greedy_longest_prefix_witness:
  "verify_greedy [3, 5, 7] ([3, 5, 9] @ [1]) = Inr \<lparr> sv_accepted = 2, sv_next = 9 \<rparr>"
  using verify_greedy_longest_prefix [of "[3, 5, 9]" "[3, 5, 7]" 1] by simp


section \<open>Drawing\<close>

lemma cdf_walk_bounds:
  assumes "\<forall>p \<in> set ps. 0 \<le> p" "cdf_walk d i ps = Some k"
  shows "i \<le> k \<and> k - i < length ps \<and> 0 < ps ! (k - i) \<and> d \<le> sum_list (take (Suc (k - i)) ps)
    \<and> (sum_list (take (k - i) ps) < d \<or> sum_list (take (k - i) ps) = 0)"
  using assms
proof (induction ps arbitrary: d i)
  case (Cons p ps)
  show ?case
  proof (cases "0 < p \<and> d - p \<le> 0")
    case True
    then show ?thesis using Cons.prems by (auto simp: Let_def)
  next
    case False
    then have w: "cdf_walk (d - p) (i + 1) ps = Some k" using Cons.prems(2) by (auto simp: Let_def split: if_splits)
    note IH = Cons.IH [OF _ w]
    then have "Suc i \<le> k" using Cons.prems(1) by auto
    then obtain n where k: "k = Suc i + n" using le_Suc_ex by blast
    show ?thesis using IH False Cons.prems(1) by (auto simp: k)
  qed
qed simp

lemma cdf_walk_total:
  assumes "\<forall>p \<in> set ps. 0 \<le> p" "d < sum_list ps"
  shows "\<exists>k. cdf_walk d i ps = Some k \<or> d < 0"
  using assms
proof (induction ps arbitrary: d i)
  case (Cons p ps)
  show ?case
  proof (cases "0 < p \<and> d - p \<le> 0")
    case False
    then show ?thesis using Cons.IH [of "d - p" "i + 1"] Cons.prems by (auto simp: Let_def)
  qed (auto simp: Let_def)
qed auto

text \<open>
  C34. A draw inverts the cumulative distribution: for a uniform number \<open>u\<close> in \<open>[0, 1)\<close> the token
  returned has positive probability, and \<open>u\<close> times the row's mass lies in that token's interval of
  partial sums, whose width is its probability.
\<close>

theorem sample_from_probs_inverts_cdf:
  assumes "\<forall>p \<in> set probs. 0 \<le> p" "0 < sum_list probs" "length probs \<le> 2 ^ 32"
    and "gen (smp_rng s) = (u, g)" "0 \<le> u" "u < 1"
  shows "\<exists>i < length probs. sample_from_probs gen probs s = (Inr (word_of_nat i), s\<lparr> smp_rng := g \<rparr>)
    \<and> unat (word_of_nat i :: token_id) = i \<and> 0 < probs ! i
    \<and> u * sum_list probs \<le> sum_list (take (Suc i) probs)
    \<and> (sum_list (take i probs) < u * sum_list probs \<or> sum_list (take i probs) = 0)"
proof -
  have d: "0 \<le> u * sum_list probs" "u * sum_list probs < sum_list probs"
    using assms(2,5,6) by simp_all
  obtain i where w: "cdf_walk (u * sum_list probs) 0 probs = Some i"
    using cdf_walk_total [OF assms(1) d(2), of 0] d(1) by auto
  have ne: "probs \<noteq> []" using assms(2) by auto
  have "\<not> list_ex (\<lambda>p. p < 0) probs" using assms(1) by (auto simp: list_ex_iff)
  then have "sample_from_probs gen probs s = (Inr (word_of_nat i), s\<lparr> smp_rng := g \<rparr>)"
    using w ne assms(2,4) by (simp add: sample_from_probs_def)
  moreover have "i < length probs" using cdf_walk_bounds [OF assms(1) w] by simp
  moreover have "unat (word_of_nat i :: token_id) = i"
    using \<open>i < length probs\<close> assms(3) by (simp add: unat_of_nat)
  ultimately show ?thesis using cdf_walk_bounds [OF assms(1) w] by auto
qed

theorem sample_from_probs_inverts_cdf_witness:
  "\<exists>i < length [1 / 4, 0, 3 / 4 :: rat]. sample_from_probs (\<lambda>g. (1 / 2, g)) [1 / 4, 0, 3 / 4]
      \<lparr> smp_config = default_sampling, smp_rng = () \<rparr>
    = (Inr (word_of_nat i), \<lparr> smp_config = default_sampling, smp_rng = () \<rparr>)
    \<and> 0 < [1 / 4, 0, 3 / 4 :: rat] ! i"
proof -
  let ?ps = "[1 / 4, 0, 3 / 4 :: rat]"
  let ?s = "\<lparr> smp_config = default_sampling, smp_rng = () \<rparr>"
  have nonneg: "\<forall>p \<in> set ?ps. 0 \<le> p" and mass: "0 < sum_list ?ps" and len: "length ?ps \<le> 2 ^ 32" by simp_all
  have u: "(0::rat) \<le> 1 / 2" "(1 / 2 :: rat) < 1" by simp_all
  from sample_from_probs_inverts_cdf [where gen = "\<lambda>g. (1 / 2, g)" and s = ?s, OF nonneg mass len refl u]
  obtain i where i: "i < length ?ps" "0 < ?ps ! i" "sample_from_probs (\<lambda>g. (1 / 2, g)) ?ps ?s
    = (Inr (word_of_nat i), ?s\<lparr> smp_rng := smp_rng ?s \<rparr>)" by blast
  have r: "?s\<lparr> smp_rng := smp_rng ?s \<rparr> = ?s" by simp
  show ?thesis using i unfolding r by blast
qed


section \<open>Rows are distributions\<close>

definition is_dist :: "rat list \<Rightarrow> bool" where
  "is_dist ps \<longleftrightarrow> (\<forall>p \<in> set ps. 0 \<le> p) \<and> sum_list ps = 1"

lemma sum_list_nth: "sum_list (ps :: rat list) = (\<Sum>i<length ps. ps ! i)"
  by (simp add: sum_list_sum_nth atLeast0LessThan)

lemma sum_list_pos:
  assumes "\<forall>p \<in> set ps. 0 \<le> p" "x \<in> set ps" "0 < (x :: rat)"
  shows "0 < sum_list ps"
proof -
  have "x \<le> sum_list ps" using assms(1,2) by (simp add: member_le_sum_list)
  then show ?thesis using assms(3) by simp
qed

lemma validate_probability_mass_Inr:
  "validate_probability_mass ps c g = Inr mass \<longleftrightarrow>
    (\<forall>p \<in> set ps. 0 \<le> p) \<and> 0 < mass \<and> mass = sum_list ps"
  by (fastforce simp: validate_probability_mass_def list_ex_iff Let_def not_less not_le split: if_splits)

lemma map_divide_dist:
  assumes "\<forall>p \<in> set ps. 0 \<le> p" "0 < sum_list ps"
  shows "is_dist (map (\<lambda>p. p / sum_list ps) ps)"
proof -
  have "sum_list (map (\<lambda>p. p / m) qs) = sum_list qs / m" for m :: rat and qs
    by (induction qs) (simp_all add: add_divide_distrib)
  then show ?thesis using assms by (auto simp: is_dist_def)
qed

text \<open>A filter keeps or zeroes each entry; what it keeps includes a largest one.\<close>

definition filters :: "rat list \<Rightarrow> rat list \<Rightarrow> bool" where
  "filters ps qs \<longleftrightarrow> length qs = length ps \<and> (\<forall>i < length ps. qs ! i = ps ! i \<or> qs ! i = 0)
    \<and> (\<exists>i < length ps. qs ! i = ps ! i \<and> (\<forall>j < length ps. ps ! j \<le> ps ! i))"

lemma filters_nonneg: "filters ps qs \<Longrightarrow> \<forall>p \<in> set ps. 0 \<le> p \<Longrightarrow> \<forall>q \<in> set qs. 0 \<le> q"
  unfolding filters_def by (metis in_set_conv_nth order_refl)

lemma filters_mass:
  assumes "filters ps qs" "\<forall>p \<in> set ps. 0 \<le> p" "0 < sum_list ps"
  shows "0 < sum_list qs"
proof -
  obtain i where i: "i < length ps" "qs ! i = ps ! i" "\<forall>j < length ps. ps ! j \<le> ps ! i"
    and l: "length qs = length ps" using assms(1) by (auto simp: filters_def)
  have "0 < ps ! i"
  proof (rule ccontr)
    assume "\<not> 0 < ps ! i"
    then have "\<forall>j < length ps. ps ! j = 0" using i(3) assms(2) by (metis antisym_conv2 nth_mem order_trans not_le)
    then show False using assms(3) by (simp add: sum_list_nth)
  qed
  moreover have "qs ! i \<in> set qs" using i(1) l by (metis nth_mem)
  ultimately show ?thesis using sum_list_pos [OF filters_nonneg [OF assms(1,2)], of "qs ! i"] i by simp
qed

lemma filters_refl: "ps \<noteq> [] \<Longrightarrow> filters ps ps"
proof -
  assume ne: "ps \<noteq> []"
  have "Max (set ps) \<in> set ps" using ne by simp
  then obtain i where "i < length ps" "ps ! i = Max (set ps)" by (metis in_set_conv_nth)
  then show "filters ps ps" by (auto simp: filters_def intro!: exI [of _ i])
qed

lemma kth_largest_le_max:
  assumes "0 < k" "k \<le> length ps"
  shows "kth_largest ps k \<le> Max (set ps)"
proof -
  have "kth_largest ps k \<in> set (rev (sort ps))" unfolding kth_largest_def using assms by (intro nth_mem) simp
  then show ?thesis by simp
qed

lemma top_k_filters: "ps \<noteq> [] \<Longrightarrow> filters ps (top_k_filter ps k)"
proof -
  assume ne: "ps \<noteq> []"
  have "Max (set ps) \<in> set ps" using ne by simp
  then obtain i where i: "i < length ps" "ps ! i = Max (set ps)" by (metis in_set_conv_nth)
  show ?thesis
  proof (cases "k = 0 \<or> length ps \<le> k")
    case True
    then show ?thesis using filters_refl [OF ne] by (auto simp: top_k_filter_def)
  next
    case False
    then have "kth_largest ps k \<le> ps ! i" using kth_largest_le_max [of k ps] i by simp
    then show ?thesis using False i by (auto simp: top_k_filter_def filters_def Let_def intro!: exI [of _ i])
  qed
qed

lemma top_p_cutoff_pos: "xs \<noteq> [] \<Longrightarrow> r < top_p_cutoff t m c r xs"
  by (induction t m c r xs rule: top_p_cutoff.induct) (fastforce simp: Let_def)+

lemma top_p_filters:
  assumes ne: "ps \<noteq> []"
  shows "filters ps (top_p_filter ps t)"
proof (cases "sum_list ps \<le> 0")
  case True
  then show ?thesis using filters_refl [OF ne] by (simp add: top_p_filter_def Let_def)
next
  case False
  let ?f = "\<lambda>(i :: nat, p :: rat). - p"
  define ix where "ix = sort_key ?f (List.enumerate 0 ps)"
  define keep where "keep = map fst (take (top_p_cutoff t (sum_list ps) 0 0 ix) ix)"
  have mem: "set ix = set (List.enumerate 0 ps)" by (simp add: ix_def)
  then have "ix \<noteq> []" using ne by (metis list.set_intros(1) length_enumerate length_0_conv set_empty2)
  then obtain i p rest where ix: "ix = (i, p) # rest" by (metis neq_Nil_conv surj_pair)
  have "(i, p) \<in> set (List.enumerate 0 ps)" using mem ix by auto
  then have i: "i < length ps" "ps ! i = p" by (auto simp: in_set_enumerate_eq)
  have sorted: "sorted (map ?f ix)" unfolding ix_def by (rule sorted_sort_key)
  have "ps ! j \<le> p" if "j < length ps" for j
  proof -
    have "(j, ps ! j) \<in> set ix" using that mem by (auto simp: in_set_enumerate_eq)
    then show ?thesis using sorted ix by (auto simp: split: prod.splits)
  qed
  moreover have "i \<in> set keep"
  proof -
    obtain n where "top_p_cutoff t (sum_list ps) 0 0 ix = Suc n"
      using top_p_cutoff_pos [of ix 0 t "sum_list ps" 0] ix gr0_implies_Suc by blast
    then show ?thesis using ix by (simp add: keep_def)
  qed
  moreover have "top_p_filter ps t = map (\<lambda>(i, p). if i \<in> set keep then p else 0) (List.enumerate 0 ps)"
    using False by (simp add: top_p_filter_def Let_def ix_def keep_def case_prod_beta)
  ultimately show ?thesis using i
    by (auto simp: filters_def nth_enumerate_eq intro!: exI [of _ i])
qed

lemma filters_trans_mass:
  assumes "filters ps qs" "filters qs rs" "\<forall>p \<in> set ps. 0 \<le> p" "0 < sum_list ps"
  shows "length rs = length ps \<and> (\<forall>i < length ps. rs ! i = ps ! i \<or> rs ! i = 0) \<and> (\<forall>r \<in> set rs. 0 \<le> r) \<and> 0 < sum_list rs"
  using assms filters_nonneg [OF assms(1,3)] filters_mass [OF assms(1,3,4)]
    filters_nonneg [OF assms(2)] filters_mass [OF assms(2)]
  unfolding filters_def by metis

text \<open>
  C32. A sampled row is a distribution: from any softmax row without negative entries and with positive
  mass, top-k and top-p filtering and normalisation give, without error, a row of the same length that
  sums to one, each of whose entries is zero or the softmax entry over the surviving mass.
\<close>

theorem sampled_row_is_distribution:
  assumes "\<forall>p \<in> set probs. 0 \<le> p" "0 < sum_list probs"
  shows "\<exists>row mass. finish_batched_probability_row s probs = Inr row \<and> is_dist row \<and> 0 < mass
    \<and> length row = length probs \<and> (\<forall>i < length probs. row ! i = 0 \<or> row ! i = probs ! i / mass)"
proof -
  define cfg where "cfg = smp_config s"
  define ks where "ks = (case cfg_top_k cfg of
    Some k \<Rightarrow> (if k > 0 then top_k_filter probs (nat k) else probs) | None \<Rightarrow> probs)"
  define qs where "qs = (if cfg_top_p cfg < 1 then top_p_filter ks (cfg_top_p cfg) else ks)"
  have ne: "probs \<noteq> []" using assms(2) by auto
  have k: "filters probs ks"
    using top_k_filters [OF ne] filters_refl [OF ne] by (simp add: ks_def split: option.split)
  then have "ks \<noteq> []" using ne by (auto simp: filters_def)
  then have "filters ks qs" using top_p_filters filters_refl by (simp add: qs_def)
  note q = filters_trans_mass [OF k this assms]
  have v1: "validate_probability_mass probs c g = Inr (sum_list probs)" for c g
    using assms by (simp add: validate_probability_mass_Inr)
  have v2: "validate_probability_mass qs c g = Inr (sum_list qs)" for c g
    using q by (simp add: validate_probability_mass_Inr)
  have "finish_batched_probability_row s probs = Inr (map (\<lambda>p. p / sum_list qs) qs)"
    unfolding finish_batched_probability_row_def filter_and_normalize_probability_row_def Let_def v1 sum.case
      cfg_def [symmetric] ks_def [symmetric] qs_def [symmetric] v2 ..
  then show ?thesis using q map_divide_dist [of qs] by fastforce
qed

theorem sampled_row_is_distribution_witness:
  "\<exists>row. finish_batched_probability_row
      \<lparr> smp_config = default_sampling\<lparr> cfg_top_k := Some 2, cfg_top_p := 1 / 2 \<rparr>, smp_rng = () \<rparr>
      [1 / 5, 1 / 2, 3 / 10] = Inr row \<and> is_dist row"
proof -
  have "\<forall>p \<in> set [1 / 5, 1 / 2, 3 / 10 :: rat]. 0 \<le> p" "0 < sum_list [1 / 5, 1 / 2, 3 / 10 :: rat]"
    by simp_all
  from sampled_row_is_distribution [OF this] show ?thesis by blast
qed


section \<open>Speculative verification\<close>

lemma accept_ratio_mult: "0 \<le> p \<Longrightarrow> 0 \<le> q \<Longrightarrow> q * accept_ratio p q = min p q"
  by (auto simp: accept_ratio_def min_def field_simps)

lemma residual_nth:
  "i < length p \<Longrightarrow> length q = length p \<Longrightarrow> residual_row p q ! i = max (p ! i - q ! i) 0"
  by (simp add: residual_row_def)

lemma residual_length [simp]: "length (residual_row p q) = min (length p) (length q)"
  by (simp add: residual_row_def)

lemma residual_nonneg: "\<forall>r \<in> set (residual_row p q). 0 \<le> r"
  by (auto simp: residual_row_def)

text \<open>The mass the drafts lose is the mass the residual gains.\<close>

lemma residual_mass:
  assumes "is_dist p" "is_dist q" "length q = length p"
  shows "sum_list (residual_row p q) = (\<Sum>d<length p. q ! d - min (p ! d) (q ! d))"
proof -
  have "sum_list (residual_row p q) - (\<Sum>d<length p. q ! d - min (p ! d) (q ! d))
    = (\<Sum>d<length p. p ! d - q ! d)"
    unfolding sum_list_nth using assms(3)
    by (simp add: residual_nth flip: sum_subtractf) (rule sum.cong, auto simp: max_def min_def)
  also have "\<dots> = 0" using assms by (simp add: is_dist_def sum_list_nth sum_subtractf)
  finally show ?thesis by simp
qed

lemma rejection_has_residual:
  assumes "is_dist p" "is_dist q" "length q = length p" "d < length p"
    and "\<not> u < accept_ratio (p ! d) (q ! d)" "u < 1" "q ! d \<noteq> 0"
  shows "0 < sum_list (residual_row p q)"
proof -
  have nn: "0 \<le> p ! i" "0 \<le> q ! i" if "i < length p" for i
    using assms(1-3) that by (simp_all add: is_dist_def)
  have "p ! d / q ! d < 1" using assms(5,6) by (simp add: accept_ratio_def min_def split: if_splits)
  then have "p ! d < q ! d" using assms(7) nn(2) [OF assms(4)] by (simp add: divide_less_eq)
  then have "0 < (\<Sum>i<length p. q ! i - min (p ! i) (q ! i))"
    using assms(4) by (intro sum_pos2 [of _ d]) (auto simp: min_def)
  then show ?thesis by (simp add: residual_mass [OF assms(1-3)])
qed

lemma residual_is_dist: "0 < sum_list (residual_row p q) \<Longrightarrow> is_dist (residual_dist p q)"
  unfolding residual_dist_def Let_def by (intro map_divide_dist residual_nonneg)

lemma verify_loop_sound:
  assumes "length target = length drafts + 1" "length draft_probs = length drafts"
    and "\<forall>row \<in> set target \<union> set draft_probs. is_dist row \<and> length row = v"
    and "\<forall>i < length drafts. unat (drafts ! i) < v \<and> draft_probs ! i ! unat (drafts ! i) \<noteq> 0"
    and "\<forall>g. 0 \<le> fst (gen g) \<and> fst (gen g) < 1"
  shows "\<exists>a g'. verify_loop gen i drafts draft_probs target g
      = (Inr \<lparr> av_accepted = i + a, av_successor =
          (if a = length drafts then target ! a else residual_dist (target ! a) (draft_probs ! a)) \<rparr>, g')
    \<and> a \<le> length drafts
    \<and> is_dist (if a = length drafts then target ! a else residual_dist (target ! a) (draft_probs ! a))"
  using assms(1-4)
proof (induction drafts arbitrary: i draft_probs target g)
  case Nil
  then show ?case by (cases target) auto
next
  case (Cons d drafts)
  from Cons.prems obtain q qs p ps where eq: "draft_probs = q # qs" "target = p # ps"
    by (cases draft_probs; cases target) auto
  obtain u g' where g: "gen g = (u, g')" by (cases "gen g")
  have u: "u < 1" using assms(5) g by (metis fst_conv)
  have d: "unat d < length p" "q ! unat d \<noteq> 0" using Cons.prems(3,4) eq by auto
  have pq: "is_dist p" "is_dist q" "length q = length p" using Cons.prems(3) eq by auto
  show ?case
  proof (cases "u < accept_ratio (p ! unat d) (q ! unat d)")
    case True
    have "\<forall>i < length drafts. unat (drafts ! i) < v \<and> qs ! i ! unat (drafts ! i) \<noteq> 0"
      using Cons.prems(4) eq by (metis Suc_less_eq length_Cons nth_Cons_Suc)
    then obtain a g'' where IH: "verify_loop gen (i + 1) drafts qs ps g'
        = (Inr \<lparr> av_accepted = i + 1 + a, av_successor =
            (if a = length drafts then ps ! a else residual_dist (ps ! a) (qs ! a)) \<rparr>, g'')"
      "a \<le> length drafts" "is_dist (if a = length drafts then ps ! a else residual_dist (ps ! a) (qs ! a))"
      using Cons.IH [of ps qs "i + 1" g'] Cons.prems(1-3) eq by auto
    show ?thesis
      by (rule exI [of _ "Suc a"], rule exI [of _ g''])
        (use IH True d g eq in \<open>cases "a = length drafts", simp_all add: Let_def\<close>)
  next
    case False
    note m = rejection_has_residual [OF pq d(1) False u d(2)]
    show ?thesis
      by (rule exI [of _ 0], rule exI [of _ g'])
        (use False m residual_is_dist [OF m] d g eq in \<open>simp add: Let_def\<close>)
  qed
qed

lemma validate_row_dist:
  assumes "is_dist row" "length row = v"
  shows "validate_speculative_row name v b row = None"
proof -
  have "\<not> list_ex (\<lambda>v. v < 0) row" using assms(1) by (auto simp: is_dist_def list_ex_iff not_less)
  then show ?thesis using assms by (simp add: validate_speculative_row_def is_dist_def)
qed

lemma validate_rows_dist:
  "\<forall>row \<in> set rows. is_dist row \<and> length row = v \<Longrightarrow> validate_speculative_rows name rows v b = None"
  unfolding validate_speculative_rows_def by (induction rows) (simp_all add: validate_row_dist)

lemma validate_inputs_dist:
  assumes "length target = length drafts + 1" "length draft_probs = length drafts"
    and "\<forall>row \<in> set target \<union> set draft_probs. is_dist row \<and> length row = v"
    and "\<forall>i < length drafts. unat (drafts ! i) < v \<and> draft_probs ! i ! unat (drafts ! i) \<noteq> 0"
  shows "validate_speculative_inputs drafts draft_probs target b = Inr v"
proof -
  obtain p ps where t: "target = p # ps" using assms(1) by (cases target) auto
  then have p: "is_dist p" "length p = v" using assms(3) by auto
  then have "v \<noteq> 0" by (auto simp: is_dist_def)
  moreover have "\<not> list_ex (\<lambda>d. unat d \<ge> v) drafts"
    using assms(4) by (auto simp: list_ex_iff in_set_conv_nth not_le)
  moreover have "validate_speculative_rows n target v b = None" "validate_speculative_rows n draft_probs v b = None" for n
    using assms(3) by (simp_all add: validate_rows_dist)
  ultimately show ?thesis
    using assms(1,2) p(2) by (simp add: validate_speculative_inputs_def t)
qed



lemma residual_exact:
  assumes "is_dist p" "is_dist q" "length q = length p" "t < length p"
  shows "q ! t * accept_ratio (p ! t) (q ! t)
    + (\<Sum>d<length p. q ! d * (1 - accept_ratio (p ! d) (q ! d))) * residual_dist p q ! t = p ! t"
proof -
  define m where "m = sum_list (residual_row p q)"
  have nn: "0 \<le> p ! i" "0 \<le> q ! i" if "i < length p" for i
    using assms(1-3) that by (simp_all add: is_dist_def)
  then have acc: "q ! i * accept_ratio (p ! i) (q ! i) = min (p ! i) (q ! i)" if "i < length p" for i
    using that by (simp add: accept_ratio_mult)
  have m: "(\<Sum>d<length p. q ! d * (1 - accept_ratio (p ! d) (q ! d))) = m"
    unfolding m_def residual_mass [OF assms(1-3)] by (rule sum.cong) (simp_all add: right_diff_distrib acc)
  have r: "residual_dist p q ! t = max (p ! t - q ! t) 0 / m"
    using assms(3,4) by (simp add: residual_dist_def Let_def m_def residual_nth)
  have "max (p ! t - q ! t) 0 = 0" if "m = 0"
  proof -
    have "\<forall>x \<in> set (residual_row p q). x = 0"
      using that residual_nonneg [of p q] by (simp add: m_def sum_list_nonneg_eq_0_iff)
    moreover have "residual_row p q ! t \<in> set (residual_row p q)" using assms(3,4) by simp
    ultimately show ?thesis using residual_nth [OF assms(4,3)] by simp
  qed
  then have "m * (max (p ! t - q ! t) 0 / m) = max (p ! t - q ! t) 0" by (cases "m = 0") simp_all
  then show ?thesis unfolding m r acc [OF assms(4)] by (simp add: max_def min_def)
qed

lemma verify_one:
  assumes "is_dist p" "is_dist q" "is_dist b" "length q = length p" "length b = length p"
    and "unat d < length p" "q ! unat d \<noteq> 0" "gen (smp_rng s) = (u, g)" "u < 1"
  shows "verify_accept gen [d] [q] [p, b] s
    = (Inr (if u < accept_ratio (p ! unat d) (q ! unat d)
            then \<lparr> av_accepted = 1, av_successor = b \<rparr>
            else \<lparr> av_accepted = 0, av_successor = residual_dist p q \<rparr>), s\<lparr> smp_rng := g \<rparr>)"
proof -
  have "validate_speculative_inputs [d] [q] [p, b] True = Inr (length p)"
    by (rule validate_inputs_dist) (use assms in auto)
  moreover have "\<not> sum_list (residual_row p q) \<le> 0" if "\<not> u < accept_ratio (p ! unat d) (q ! unat d)"
    using rejection_has_residual [OF assms(1,2,4,6) that assms(9,7)] by simp
  ultimately show ?thesis using assms(7,8)
    by (simp add: verify_accept_def verify_accept_inner_def Let_def)
qed

text \<open>
  C11. Speculative sampling leaves the target's distribution unchanged. For a draft \<open>d\<close> and a uniform
  number \<open>u\<close> the code accepts exactly when \<open>u\<close> is below the acceptance ratio and otherwise continues
  with the residual; so when \<open>d\<close> is drawn from \<open>q\<close>, a token \<open>t\<close> comes out as an accepted draft or from
  the residual with total probability \<open>p ! t\<close>.
\<close>

theorem speculative_sampling_exact:
  assumes "is_dist p" "is_dist q" "is_dist b" "length q = length p" "length b = length p"
  shows "(\<forall>d u g. unat d < length p \<and> q ! unat d \<noteq> 0 \<and> gen (smp_rng s) = (u, g) \<and> u < 1 \<longrightarrow>
      verify_accept gen [d] [q] [p, b] s
      = (Inr (if u < accept_ratio (p ! unat d) (q ! unat d)
              then \<lparr> av_accepted = 1, av_successor = b \<rparr>
              else \<lparr> av_accepted = 0, av_successor = residual_dist p q \<rparr>), s\<lparr> smp_rng := g \<rparr>))
    \<and> (\<forall>t < length p. q ! t * accept_ratio (p ! t) (q ! t)
      + (\<Sum>d<length p. q ! d * (1 - accept_ratio (p ! d) (q ! d))) * residual_dist p q ! t = p ! t)"
  by (intro conjI allI impI; (elim conjE)?; rule verify_one [OF assms] residual_exact [OF assms(1,2,4)]; assumption)

theorem speculative_sampling_exact_witness:
  "3 / 4 * accept_ratio (1 / 4) (3 / 4)
      + (3 / 4 * (1 - accept_ratio (1 / 4) (3 / 4)) + 1 / 4 * (1 - accept_ratio (3 / 4) (1 / 4)))
        * residual_dist [1 / 4, 3 / 4] [3 / 4, 1 / 4] ! 0 = 1 / 4"
proof -
  have d: "is_dist [1 / 4, 3 / 4]" "is_dist [3 / 4, 1 / 4]" "is_dist [1, 0]" by (simp_all add: is_dist_def)
  have l: "length [3 / 4, 1 / 4 :: rat] = length [1 / 4, 3 / 4 :: rat]"
    "length [1, 0 :: rat] = length [1 / 4, 3 / 4 :: rat]" by simp_all
  have t: "0 < length [1 / 4, 3 / 4 :: rat]" by simp
  have s: "(\<Sum>d<length [1 / 4, 3 / 4 :: rat]. f d) = f 0 + f 1" for f :: "nat \<Rightarrow> rat"
    by (simp add: eval_nat_numeral)
  show ?thesis
    using speculative_sampling_exact [OF d l, where gen = "\<lambda>g. (0, g)"
      and s = "\<lparr> smp_config = default_sampling, smp_rng = () \<rparr>", THEN conjunct2, rule_format, OF t]
    unfolding s by simp
qed

end
