(* ===== verification/Kv_Cache.thy ===== *)
theory Kv_Cache
  imports Prelude
begin

text \<open>
  Per-layer caches (\<open>src/src/engine/models/cache.rs\<close>, \<open>src/src/engine/models/mtp.rs\<close>) and the mask
  sliding-window layers put over them (\<open>src/src/engine/ops.rs\<close>, used by
  \<open>src/src/engine/models/gemma3.rs\<close> and \<open>laguna.rs\<close>).

  An MLX array of shape \<open>[B, H, L, D]\<close> is the list of its \<open>L\<close> rows along the position axis; what a
  row holds is the type parameter \<open>'a\<close>. Every call of an array operation may fail: \<open>bad\<close> says at
  which of the named sites it does, so an operation returns its error together with the state it
  leaves behind. Positions are \<open>i32\<close> in the source and \<open>int\<close> here; \<open>append_fits_i32\<close> shows that no
  position leaves the range as long as the history is shorter than \<open>2^31 - 256\<close>.
\<close>

section \<open>Key/value caches\<close>

record 'a kv_cache =
  kv_keys :: "'a list option"
  kv_values :: "'a list option"
  kv_offset :: int
  kv_window :: "int option"
  kv_start :: int

datatype cache_error =
    OpFailed | AllocationDisappeared | DiscardedByTrim | NotYetFed | KindMismatch | WrongCacheKind

definition KV_GROWTH_STEP :: int where
  "KV_GROWTH_STEP = 256"

definition kv_new :: "'a kv_cache" where
  "kv_new = \<lparr> kv_keys = None, kv_values = None, kv_offset = 0, kv_window = None, kv_start = 0 \<rparr>"

definition windowed :: "int \<Rightarrow> 'a kv_cache" where
  "windowed w = kv_new\<lparr> kv_window := Some (max w 1) \<rparr>"

definition buffer_capacity :: "'a kv_cache \<Rightarrow> int" where
  "buffer_capacity c = (case kv_keys c of None \<Rightarrow> 0 | Some k \<Rightarrow> int (length k))"

text \<open>\<open>ops::slice\<close> and \<open>ops::slice_update\<close> along the position axis; an update of another length than
  its slot is refused.\<close>

definition slice :: "'a list \<Rightarrow> int \<Rightarrow> int \<Rightarrow> 'a list" where
  "slice buf from until = take (nat until - nat from) (drop (nat from) buf)"

definition slice_update :: "'a list \<Rightarrow> 'a list \<Rightarrow> int \<Rightarrow> int \<Rightarrow> 'a list option" where
  "slice_update buf upd from until =
     (if nat until \<le> length buf \<and> length upd = nat until - nat from
      then Some (take (nat from) buf @ upd @ drop (nat until) buf) else None)"

definition grown_capacity :: "int \<Rightarrow> int" where
  "grown_capacity needed = (needed + KV_GROWTH_STEP - 1) div KV_GROWTH_STEP * KV_GROWTH_STEP"

datatype trim_site = TrimZerosK | TrimZerosV | TrimSliceK | TrimSliceV | TrimStoreK | TrimStoreV

datatype kv_site =
    Pre trim_site | GrowZerosK | GrowZerosV | GrowStoreK | GrowStoreV
  | WriteK | WriteV | ViewK | ViewV | Post trim_site

text \<open>A fallible array operation: an injected failure, or a shape the operation refuses.\<close>

definition attempt :: "bool \<Rightarrow> 'b option \<Rightarrow> 'b option" where
  "attempt fails r = (if fails then None else r)"

definition trim_buffers ::
  "(trim_site \<Rightarrow> bool) \<Rightarrow> 'a \<Rightarrow> int \<Rightarrow> int \<Rightarrow> int \<Rightarrow> 'a list \<Rightarrow> 'a list \<Rightarrow> 'a kv_cache
    \<Rightarrow> cache_error option \<times> 'a kv_cache" where
  "trim_buffers bad z keep drp retained old_k old_v c =
     (let c = c\<lparr> kv_keys := None, kv_values := None \<rparr>;
          fresh = replicate (nat (grown_capacity keep)) z
      in if bad TrimZerosK \<or> bad TrimZerosV \<or> bad TrimSliceK \<or> bad TrimSliceV then (Some OpFailed, c)
      else case attempt (bad TrimStoreK) (slice_update fresh (slice old_k drp retained) 0 keep) of
        None \<Rightarrow> (Some OpFailed, c)
      | Some k \<Rightarrow>
          (let c = c\<lparr> kv_keys := Some k \<rparr>
           in case attempt (bad TrimStoreV) (slice_update fresh (slice old_v drp retained) 0 keep) of
                None \<Rightarrow> (Some OpFailed, c)
              | Some v \<Rightarrow> (None, c\<lparr> kv_values := Some v \<rparr>)))"

definition trim_to_window ::
  "(trim_site \<Rightarrow> bool) \<Rightarrow> 'a \<Rightarrow> int \<Rightarrow> 'a kv_cache \<Rightarrow> cache_error option \<times> 'a kv_cache" where
  "trim_to_window bad z added c =
     (case kv_window c of
        None \<Rightarrow> (None, c)
      | Some window \<Rightarrow>
          (let retained = kv_offset c - kv_start c
           in if retained + added \<le> window + KV_GROWTH_STEP then (None, c)
           else let keep = min (max (window - added) 0) retained; drp = retained - keep
           in if drp \<le> 0 then (None, c)
           else case
               (case (kv_keys c, kv_values c) of
                  (Some old_k, Some old_v) \<Rightarrow>
                    (if 0 < keep then trim_buffers bad z keep drp retained old_k old_v c
                     else (None, c\<lparr> kv_keys := None, kv_values := None \<rparr>))
                | _ \<Rightarrow> (None, c\<lparr> kv_keys := None, kv_values := None \<rparr>))
             of (Some e, c) \<Rightarrow> (Some e, c)
              | (None, c) \<Rightarrow> (None, c\<lparr> kv_start := kv_start c + drp \<rparr>)))"

text \<open>The growth step: a larger zeroed buffer, with the filled prefix copied over.\<close>

definition grow ::
  "(kv_site \<Rightarrow> bool) \<Rightarrow> 'a \<Rightarrow> int \<Rightarrow> int \<Rightarrow> 'a kv_cache \<Rightarrow> cache_error option \<times> 'a kv_cache" where
  "grow bad z prev needed c =
     (if needed > buffer_capacity c then
        (let fresh = replicate (nat (grown_capacity needed)) z
         in if bad GrowZerosK \<or> bad GrowZerosV then (Some OpFailed, c)
         else case (kv_keys c, kv_values c) of
           (Some old_k, Some old_v) \<Rightarrow>
             (if prev > 0 then
                (let c = c\<lparr> kv_keys := None, kv_values := None \<rparr>
                 in case attempt (bad GrowStoreK) (slice_update fresh (slice old_k 0 prev) 0 prev) of
                      None \<Rightarrow> (Some OpFailed, c)
                    | Some k \<Rightarrow>
                        (case attempt (bad GrowStoreV) (slice_update fresh (slice old_v 0 prev) 0 prev) of
                           None \<Rightarrow> (Some OpFailed, c)
                         | Some v \<Rightarrow> (None, c\<lparr> kv_keys := Some k, kv_values := Some v \<rparr>)))
              else (None, c\<lparr> kv_keys := Some fresh, kv_values := Some fresh \<rparr>))
         | _ \<Rightarrow> (None, c\<lparr> kv_keys := Some fresh, kv_values := Some fresh \<rparr>))
      else (None, c))"

definition update_and_fetch ::
  "(kv_site \<Rightarrow> bool) \<Rightarrow> 'a \<Rightarrow> 'a list \<Rightarrow> 'a list \<Rightarrow> 'a kv_cache
    \<Rightarrow> (cache_error + 'a list \<times> 'a list) \<times> 'a kv_cache" where
  "update_and_fetch bad z ks vs c =
     (let added = int (length ks)
      in case trim_to_window (\<lambda>s. bad (Pre s)) z added c of
        (Some e, c) \<Rightarrow> (Inl e, c)
      | (None, c) \<Rightarrow>
        (let prev = kv_offset c - kv_start c; needed = prev + added
         in case grow bad z prev needed c of
           (Some e, c) \<Rightarrow> (Inl e, c)
         | (None, c) \<Rightarrow>
           (case kv_keys c of
              None \<Rightarrow> (Inl AllocationDisappeared, c)
            | Some buf_k \<Rightarrow>
              (let c = c\<lparr> kv_keys := None \<rparr>
               in case kv_values c of
                 None \<Rightarrow> (Inl AllocationDisappeared, c)
               | Some buf_v \<Rightarrow>
                 (let c = c\<lparr> kv_values := None \<rparr>
                  in case attempt (bad WriteK) (slice_update buf_k ks prev needed) of
                    None \<Rightarrow> (Inl OpFailed, c)
                  | Some buf_k \<Rightarrow>
                    (case attempt (bad WriteV) (slice_update buf_v vs prev needed) of
                       None \<Rightarrow> (Inl OpFailed, c)
                     | Some buf_v \<Rightarrow>
                       (let c = c\<lparr> kv_offset := kv_start c + needed \<rparr>
                        in if bad ViewK \<or> bad ViewV then (Inl OpFailed, c)
                        else let full_k = slice buf_k 0 needed; full_v = slice buf_v 0 needed;
                          c = c\<lparr> kv_keys := Some buf_k, kv_values := Some buf_v \<rparr>
                        in case trim_to_window (\<lambda>s. bad (Post s)) z 0 c of
                          (Some e, c) \<Rightarrow> (Inl e, c)
                        | (None, c) \<Rightarrow> (Inr (full_k, full_v), c))))))))"

definition truncate_to :: "int \<Rightarrow> 'a kv_cache \<Rightarrow> cache_error option \<times> 'a kv_cache" where
  "truncate_to off c =
     (if off < kv_start c then (Some DiscardedByTrim, c)
      else if off > kv_offset c then (Some NotYetFed, c)
      else (None, c\<lparr> kv_offset := off \<rparr>))"

definition would_trim :: "int \<Rightarrow> 'a kv_cache \<Rightarrow> bool" where
  "would_trim added c =
     (case kv_window c of
        None \<Rightarrow> False
      | Some window \<Rightarrow> (kv_offset c - kv_start c) + added > window + KV_GROWTH_STEP)"

definition kv_is_pristine :: "'a kv_cache \<Rightarrow> bool" where
  "kv_is_pristine c \<longleftrightarrow> kv_offset c = kv_start c \<and> kv_keys c = None"


section \<open>The history a cache stands for\<close>

definition rows :: "'a list option \<Rightarrow> 'a list" where
  "rows buf = (case buf of None \<Rightarrow> [] | Some b \<Rightarrow> b)"

definition retained_len :: "'a kv_cache \<Rightarrow> nat" where
  "retained_len c = nat (kv_offset c - kv_start c)"

text \<open>
  The cache stands for the rows \<open>hk\<close>, \<open>hv\<close> appended since it was created (less those rolled back):
  it holds those from \<open>kv_start\<close> on, in order, at the front of its two buffers.
\<close>

definition kv_rep :: "'a kv_cache \<Rightarrow> 'a list \<Rightarrow> 'a list \<Rightarrow> bool" where
  "kv_rep c hk hv \<longleftrightarrow>
     kv_offset c = int (length hk) \<and> length hv = length hk
     \<and> 0 \<le> kv_start c \<and> kv_start c \<le> kv_offset c
     \<and> (kv_keys c = None \<longleftrightarrow> kv_values c = None) \<and> length (rows (kv_keys c)) = length (rows (kv_values c))
     \<and> retained_len c \<le> length (rows (kv_keys c))
     \<and> take (retained_len c) (rows (kv_keys c)) = drop (nat (kv_start c)) hk
     \<and> take (retained_len c) (rows (kv_values c)) = drop (nat (kv_start c)) hv
     \<and> (case kv_window c of None \<Rightarrow> kv_start c = 0 | Some w \<Rightarrow> 1 \<le> w)"

text \<open>The first position an append returns: where the trim before it leaves the cache.\<close>

definition view_start :: "int \<Rightarrow> 'a kv_cache \<Rightarrow> int" where
  "view_start added c =
     (if would_trim added c
      then kv_offset c - min (max (the (kv_window c) - added) 0) (kv_offset c - kv_start c)
      else kv_start c)"

text \<open>The same on the three numbers it depends on.\<close>

definition trimmed_start :: "int option \<Rightarrow> int \<Rightarrow> int \<Rightarrow> int \<Rightarrow> int" where
  "trimmed_start window start off added =
     (case window of
        None \<Rightarrow> start
      | Some w \<Rightarrow> (if off - start + added > w + KV_GROWTH_STEP
                   then off - min (max (w - added) 0) (off - start) else start))"

lemma view_start_eq: "view_start added c = trimmed_start (kv_window c) (kv_start c) (kv_offset c) added"
  by (simp add: view_start_def trimmed_start_def would_trim_def split: option.splits)

lemma kv_rep_new: "kv_rep kv_new [] []"
  by (simp add: kv_rep_def kv_new_def rows_def retained_len_def)

lemma kv_rep_windowed: "kv_rep (windowed w) [] []"
  by (simp add: kv_rep_def windowed_def kv_new_def rows_def retained_len_def)

lemma slice_prefix: "slice b 0 n = take (nat n) b"
  by (simp add: slice_def)

lemma grown_capacity_ge: "n \<le> grown_capacity n"
proof -
  have "n + 255 - (n + 255) mod 256 = (n + 255) div 256 * 256"
    by (simp add: minus_mod_eq_div_mult)
  moreover have "(n + 255) mod 256 < 256" by simp
  ultimately show ?thesis unfolding grown_capacity_def KV_GROWTH_STEP_def by linarith
qed

lemma kv_repD:
  assumes "kv_rep c hk hv"
  shows "kv_offset c = int (length hk)" "length hv = length hk" "0 \<le> kv_start c"
    "kv_start c \<le> kv_offset c" "kv_offset c - kv_start c = int (retained_len c)"
    "length hk - nat (kv_start c) = retained_len c"
    "nat (kv_start c) + retained_len c = length hk"
  using assms by (auto simp: kv_rep_def retained_len_def)

lemma store_front:
  assumes "length u = nat m" and "m \<le> n"
  shows "slice_update (replicate (nat n) z) u 0 m = Some (u @ replicate (nat n - nat m) z)"
  using assms by (simp add: slice_update_def nat_mono)

lemma slice_tail:
  assumes "take r b = drop s h" and "r \<le> length b" and "d \<le> int r" and "0 \<le> d"
  shows "slice b d (int r) = drop (s + nat d) h"
proof -
  have "slice b d (int r) = drop (nat d) (take r b)"
    using assms(3,4) by (simp add: slice_def drop_take)
  then show ?thesis using assms(1) by (simp add: add.commute)
qed

lemma kv_buffers:
  assumes "kv_rep c hk hv" and "0 < retained_len c"
  obtains bk bv where "kv_keys c = Some bk" "kv_values c = Some bv"
    "length bv = length bk" "retained_len c \<le> length bk"
    "take (retained_len c) bk = drop (nat (kv_start c)) hk"
    "take (retained_len c) bv = drop (nat (kv_start c)) hv"
  using assms that
  by (cases "kv_keys c"; cases "kv_values c") (auto simp: kv_rep_def rows_def)

lemma trim_buffers_ok:
  assumes "take r bk = drop s hk" and "take r bv = drop s hv"
    and "r \<le> length bk" and "length bv = length bk"
    and "length hk = s + r" and "length hv = s + r"
    and "0 < keep" and "keep \<le> int r"
  shows "\<exists>pad. trim_buffers (\<lambda>_. False) z keep (int r - keep) (int r) bk bv c =
    (None, c\<lparr> kv_keys := Some (drop (s + nat (int r - keep)) hk @ pad),
             kv_values := Some (drop (s + nat (int r - keep)) hv @ pad) \<rparr>)"
proof -
  let ?d = "int r - keep"
  have d: "?d \<le> int r" "0 \<le> ?d" using assms(7,8) by simp_all
  have len: "s + r - (s + nat ?d) = nat keep" using assms(7,8) by simp
  have "slice_update (replicate (nat (grown_capacity keep)) z) (slice bk ?d (int r)) 0 keep
      = Some (drop (s + nat ?d) hk @ replicate (nat (grown_capacity keep) - nat keep) z)"
    unfolding slice_tail[OF assms(1,3) d]
    by (rule store_front) (use assms(5) len grown_capacity_ge in simp_all)
  moreover have "slice_update (replicate (nat (grown_capacity keep)) z) (slice bv ?d (int r)) 0 keep
      = Some (drop (s + nat ?d) hv @ replicate (nat (grown_capacity keep) - nat keep) z)"
    unfolding slice_tail[OF assms(2) assms(3)[folded assms(4)] d]
    by (rule store_front) (use assms(6) len grown_capacity_ge in simp_all)
  ultimately show ?thesis by (auto simp: trim_buffers_def attempt_def Let_def)
qed

lemma kv_rep_front:
  assumes "kv_keys c = Some (drop (nat (kv_start c)) hk @ padk)"
    and "kv_values c = Some (drop (nat (kv_start c)) hv @ padv)" and "length padk = length padv"
    and "kv_offset c = int (length hk)" and "length hv = length hk"
    and "0 \<le> kv_start c" and "kv_start c \<le> kv_offset c"
    and "case kv_window c of None \<Rightarrow> kv_start c = 0 | Some w \<Rightarrow> 1 \<le> w"
  shows "kv_rep c hk hv"
proof -
  have "retained_len c = length hk - nat (kv_start c)"
    using assms(4,6) by (simp add: retained_len_def nat_diff_distrib')
  then show ?thesis using assms by (simp add: kv_rep_def rows_def)
qed

lemma kv_rep_window: "kv_rep c hk hv \<Longrightarrow> case kv_window c of None \<Rightarrow> kv_start c = 0 | Some w \<Rightarrow> 1 \<le> w"
  by (simp add: kv_rep_def)

lemma kv_rep_emptied:
  assumes "kv_keys c = None" and "kv_values c = None" and "kv_start c = kv_offset c"
    and "kv_offset c = int (length hk)" and "length hv = length hk"
    and "case kv_window c of None \<Rightarrow> kv_start c = 0 | Some w \<Rightarrow> 1 \<le> w"
  shows "kv_rep c hk hv"
  using assms by (simp add: kv_rep_def rows_def retained_len_def)

lemma fire_drops:
  assumes "w + KV_GROWTH_STEP < int r + added" and "1 \<le> w" and "0 < r"
  shows "0 \<le> min (max (w - added) 0) (int r)" "min (max (w - added) 0) (int r) \<le> int r"
    "min (max (w - added) 0) (int r) < int r"
  using assms unfolding KV_GROWTH_STEP_def by linarith+

lemma trim_to_window_empty:
  assumes "kv_rep c hk hv" and "retained_len c = 0"
  shows "trim_to_window bad z added c = (None, c) \<and> view_start added c = kv_start c"
  using kv_repD(5)[OF assms(1)] assms(2)
  by (auto simp: trim_to_window_def view_start_def Let_def would_trim_def split: option.splits)

lemma trim_to_window_fires:
  assumes rep: "kv_rep c hk hv" and fire: "would_trim added c" and pos: "0 < retained_len c"
  shows "\<exists>c'. trim_to_window (\<lambda>_. False) z added c = (None, c') \<and> kv_rep c' hk hv
    \<and> kv_start c' = view_start added c \<and> kv_offset c' = kv_offset c \<and> kv_window c' = kv_window c"
proof -
  let ?r = "retained_len c"
  note D = kv_repD[OF rep]
  obtain w where w: "kv_window c = Some w" and f: "w + KV_GROWTH_STEP < int ?r + added"
    using fire D(5) by (auto simp: would_trim_def split: option.splits)
  have w1: "1 \<le> w" using rep w by (simp add: kv_rep_def)
  define keep where "keep = min (max (w - added) 0) (int ?r)"
  have keep: "0 \<le> keep" "keep \<le> int ?r" and drp: "keep < int ?r"
    using fire_drops[OF f w1 pos] unfolding keep_def by blast+
  have vs: "view_start added c = kv_start c + (int ?r - keep)"
    using fire w D(5) by (simp add: view_start_def keep_def)
  from kv_buffers[OF rep pos] obtain bk bv where b: "kv_keys c = Some bk" "kv_values c = Some bv"
    "length bv = length bk" "?r \<le> length bk"
    "take ?r bk = drop (nat (kv_start c)) hk" "take ?r bv = drop (nat (kv_start c)) hv" by blast
  have unf: "trim_to_window (\<lambda>_. False) z added c =
      (case (if 0 < keep then trim_buffers (\<lambda>_. False) z keep (int ?r - keep) (int ?r) bk bv c
             else (None, c\<lparr> kv_keys := None, kv_values := None \<rparr>))
       of (Some e, c) \<Rightarrow> (Some e, c) | (None, c) \<Rightarrow> (None, c\<lparr> kv_start := kv_start c + (int ?r - keep) \<rparr>))"
    using w f drp D(5) b(1,2) by (simp add: trim_to_window_def keep_def[symmetric] Let_def)
  show ?thesis
  proof (cases "0 < keep")
    case True
    have n: "nat (kv_start c + (int ?r - keep)) = nat (kv_start c) + nat (int ?r - keep)"
      using D(3) drp by (simp add: nat_add_distrib)
    obtain pad where pad: "trim_buffers (\<lambda>_. False) z keep (int ?r - keep) (int ?r) bk bv c =
      (None, c\<lparr> kv_keys := Some (drop (nat (kv_start c) + nat (int ?r - keep)) hk @ pad),
               kv_values := Some (drop (nat (kv_start c) + nat (int ?r - keep)) hv @ pad) \<rparr>)"
      using trim_buffers_ok[OF b(5,6,4,3) _ _ True keep(2)] D(2,7) by metis
    have "kv_rep (c\<lparr> kv_keys := Some (drop (nat (kv_start c + (int ?r - keep))) hk @ pad),
               kv_values := Some (drop (nat (kv_start c + (int ?r - keep))) hv @ pad),
               kv_start := kv_start c + (int ?r - keep) \<rparr>) hk hv"
      by (rule kv_rep_front) (use D(1-5) drp keep w w1 in simp_all)
    then show ?thesis unfolding unf pad n vs by (simp add: True)
  next
    case False
    then have "keep = 0" using keep by simp
    have "kv_rep (c\<lparr> kv_keys := None, kv_values := None, kv_start := kv_start c + (int ?r - keep) \<rparr>) hk hv"
      by (rule kv_rep_emptied) (use D(1-5) \<open>keep = 0\<close> w w1 in simp_all)
    then show ?thesis unfolding unf vs by (simp add: False)
  qed
qed

lemma trim_to_window_ok:
  assumes rep: "kv_rep c hk hv"
  shows "\<exists>c'. trim_to_window (\<lambda>_. False) z added c = (None, c') \<and> kv_rep c' hk hv
    \<and> kv_start c' = view_start added c \<and> kv_offset c' = kv_offset c \<and> kv_window c' = kv_window c"
proof (cases "would_trim added c \<and> 0 < retained_len c")
  case True
  then show ?thesis using trim_to_window_fires[OF rep] by blast
next
  case False
  then show ?thesis using rep trim_to_window_empty[OF rep]
    by (cases "retained_len c = 0")
      (auto simp: trim_to_window_def would_trim_def view_start_def Let_def split: option.splits)
qed

section \<open>Appending\<close>

lemma grow_prefix:
  assumes "take r b = drop s h" and "r \<le> length b" and "int r \<le> needed"
  shows "slice_update (replicate (nat (grown_capacity needed)) z) (slice b 0 (int r)) 0 (int r)
    = Some (drop s h @ replicate (nat (grown_capacity needed) - r) z)"
proof -
  have "length (take r b) = nat (int r)" "int r \<le> grown_capacity needed"
    using assms(2,3) grown_capacity_ge[of needed] by simp_all
  from store_front[OF this, of z] show ?thesis using assms(1) by (simp add: slice_prefix)
qed

lemma grow_ok:
  assumes rep: "kv_rep c hk hv" and needed: "int (retained_len c) \<le> needed" "0 < needed"
  shows "\<exists>c' bk bv. grow (\<lambda>_. False) z (int (retained_len c)) needed c = (None, c') \<and> kv_rep c' hk hv
    \<and> kv_keys c' = Some bk \<and> kv_values c' = Some bv \<and> nat needed \<le> length bk
    \<and> kv_start c' = kv_start c \<and> kv_offset c' = kv_offset c \<and> kv_window c' = kv_window c"
proof (cases "needed > buffer_capacity c")
  case False
  then obtain bk bv where b: "kv_keys c = Some bk" "kv_values c = Some bv"
    using needed rep by (cases "kv_keys c"; cases "kv_values c") (auto simp: buffer_capacity_def kv_rep_def)
  have "grow (\<lambda>_. False) z (int (retained_len c)) needed c = (None, c)"
    using False by (simp add: grow_def)
  then show ?thesis using False rep b by (auto simp: buffer_capacity_def)
next
  case True
  let ?r = "retained_len c" and ?n = "nat (grown_capacity needed)"
  note D = kv_repD[OF rep]
  have n: "nat needed \<le> ?n" using grown_capacity_ge[of needed] by simp
  let ?c = "c\<lparr> kv_keys := Some (drop (nat (kv_start c)) hk @ replicate (?n - ?r) z),
              kv_values := Some (drop (nat (kv_start c)) hv @ replicate (?n - ?r) z) \<rparr>"
  have "grow (\<lambda>_. False) z (int ?r) needed c = (None, ?c)"
  proof (cases "?r = 0")
    case True
    then have "drop (nat (kv_start c)) hk = []" "drop (nat (kv_start c)) hv = []" using D(2,7) by simp_all
    then show ?thesis using \<open>needed > buffer_capacity c\<close> True
      by (simp add: grow_def Let_def split: option.splits)
  next
    case False
    then have pos: "0 < ?r" by simp
    from kv_buffers[OF rep pos] obtain bk bv where b: "kv_keys c = Some bk" "kv_values c = Some bv"
      "length bv = length bk" "?r \<le> length bk"
      "take ?r bk = drop (nat (kv_start c)) hk" "take ?r bv = drop (nat (kv_start c)) hv" by blast
    show ?thesis
      using True pos b(1,2) grow_prefix[OF b(5,4) needed(1)] grow_prefix[OF b(6) b(4)[folded b(3)] needed(1)]
      by (simp add: grow_def attempt_def Let_def)
  qed
  moreover have "kv_rep ?c hk hv"
    by (rule kv_rep_front) (use D(1-4) kv_rep_window[OF rep] in \<open>simp_all split: option.splits\<close>)
  moreover have "nat needed \<le> length (drop (nat (kv_start c)) hk @ replicate (?n - ?r) z)"
    using D(6) n needed(1) by simp
  ultimately show ?thesis by auto
qed

lemma write_ok:
  assumes "take r b = drop s h" and "r \<le> length b" and "nat (int r + int (length us)) \<le> length b"
    and "length h = s + r"
  shows "slice_update b us (int r) (int r + int (length us))
    = Some (drop s (h @ us) @ drop (r + length us) b)"
  using assms by (simp add: slice_update_def nat_add_distrib)

lemma view_of_write: "length h = s + r \<Longrightarrow> slice (drop s (h @ us) @ pad) 0 (int r + int (length us)) = drop s (h @ us)"
  by (simp add: slice_prefix nat_add_distrib)

lemma kv_rep_written:
  assumes "kv_rep c hk hv" and "length us = length vs" and "length padk = length padv"
  shows "kv_rep (c\<lparr> kv_offset := kv_start c + (int (retained_len c) + int (length us)),
     kv_keys := Some (drop (nat (kv_start c)) (hk @ us) @ padk),
     kv_values := Some (drop (nat (kv_start c)) (hv @ vs) @ padv) \<rparr>) (hk @ us) (hv @ vs)"
  by (rule kv_rep_front[where padk = padk and padv = padv])
    (use kv_repD[OF assms(1)] assms kv_rep_window[OF assms(1)] in \<open>simp_all split: option.splits\<close>)

text \<open>
  An append without a failing array operation: the view is the retained history followed by the
  new rows, and the cache left behind stands for the extended history.
\<close>

lemma update_and_fetch_ok:
  assumes rep: "kv_rep c hk hv" and len: "length us = length vs" and ne: "us \<noteq> []"
  shows "\<exists>c'. update_and_fetch (\<lambda>_. False) z us vs c =
      (Inr (drop (nat (view_start (int (length us)) c)) (hk @ us),
            drop (nat (view_start (int (length us)) c)) (hv @ vs)), c')
    \<and> kv_rep c' (hk @ us) (hv @ vs) \<and> kv_window c' = kv_window c
    \<and> kv_start c' = trimmed_start (kv_window c) (view_start (int (length us)) c)
        (kv_offset c + int (length us)) 0"
proof -
  let ?n = "int (length us)"
  obtain c1 where c1: "trim_to_window (\<lambda>_. False) z ?n c = (None, c1)" "kv_rep c1 hk hv"
    "kv_start c1 = view_start ?n c" "kv_offset c1 = kv_offset c" "kv_window c1 = kv_window c"
    using trim_to_window_ok[OF rep] by blast
  have npos: "int (retained_len c1) \<le> int (retained_len c1) + ?n" "0 < int (retained_len c1) + ?n"
    using ne by (simp, cases us, simp_all)
  note D1 = kv_repD[OF c1(2)]
  let ?r = "retained_len c1" and ?s = "nat (kv_start c1)"
  obtain c2 bk bv where c2: "grow (\<lambda>_. False) z (int ?r) (int ?r + ?n) c1 = (None, c2)" "kv_rep c2 hk hv"
    "kv_keys c2 = Some bk" "kv_values c2 = Some bv" "nat (int ?r + ?n) \<le> length bk"
    "kv_start c2 = kv_start c1" "kv_offset c2 = kv_offset c1" "kv_window c2 = kv_window c1"
    using grow_ok[OF c1(2), of "int ?r + ?n" z] npos by auto
  have r2: "retained_len c2 = ?r" using c2(6,7) by (simp add: retained_len_def)
  have b: "length bv = length bk" "?r \<le> length bk" "take ?r bk = drop ?s hk" "take ?r bv = drop ?s hv"
    using c2(2,3,4,6) r2 by (simp_all add: kv_rep_def rows_def)
  have lens: "length hk = ?s + ?r" "length hv = ?s + ?r" using D1(2,7) by simp_all
  have nbv: "nat (int ?r + int (length vs)) \<le> length bv" using b(1) c2(5) len by simp
  note wk = write_ok[OF b(3,2) c2(5) lens(1)]
    and wv = write_ok[OF b(4) b(2)[folded b(1)] nbv lens(2)]
  let ?c3 = "c2\<lparr> kv_offset := kv_start c2 + (int ?r + ?n),
                kv_keys := Some (drop ?s (hk @ us) @ drop (?r + length us) bk),
                kv_values := Some (drop ?s (hv @ vs) @ drop (?r + length vs) bv) \<rparr>"
  have rep3: "kv_rep ?c3 (hk @ us) (hv @ vs)"
    using kv_rep_written[OF c2(2) len, of "drop (?r + length us) bk" "drop (?r + length vs) bv"]
    unfolding c2(6) r2 using b(1) len by simp
  obtain c4 where c4: "trim_to_window (\<lambda>_. False) z 0 ?c3 = (None, c4)" "kv_rep c4 (hk @ us) (hv @ vs)"
    "kv_start c4 = view_start 0 ?c3" "kv_window c4 = kv_window ?c3"
    using trim_to_window_ok[OF rep3] by blast
  have off: "kv_start c2 + (int ?r + ?n) = kv_offset c + ?n" using D1(5) c1(4) c2(6) by simp
  have "kv_start c4 = trimmed_start (kv_window c2) (kv_start c2) (kv_start c2 + (int ?r + ?n)) 0"
    using c4(3) by (simp add: view_start_eq[of 0])
  then have st: "kv_start c4 = trimmed_start (kv_window c) (view_start ?n c) (kv_offset c + ?n) 0"
    unfolding off using c1(3,5) c2(6,8) by simp
  have "update_and_fetch (\<lambda>_. False) z us vs c =
      (Inr (drop ?s (hk @ us), drop ?s (hv @ vs)), c4)"
    using c1(1) c2(1,3,4,6) wk wv len D1(5) c4(1)
      view_of_write[OF lens(1), of us] view_of_write[OF lens(2), of vs]
    by (simp add: update_and_fetch_def attempt_def Let_def)
  then show ?thesis
    using c4(2,4) c1(3,5) c2(8) st by simp
qed

section \<open>Positions stay in range\<close>

lemma append_fits_i32:
  assumes "kv_rep c hk hv" and "int (length hk) + added + 256 < 2 ^ 31" and "0 \<le> added"
    and "\<forall>w. kv_window c = Some w \<longrightarrow> w + 256 < 2 ^ 31"
  shows "kv_offset c - kv_start c + added < 2 ^ 31"
    and "kv_offset c - kv_start c + added + KV_GROWTH_STEP - 1 < 2 ^ 31"
    and "kv_start c + (kv_offset c - kv_start c + added) < 2 ^ 31"
    and "grown_capacity (kv_offset c - kv_start c + added) < 2 ^ 31"
    and "\<forall>w. kv_window c = Some w \<longrightarrow> w + KV_GROWTH_STEP < 2 ^ 31 \<and> - (2 ^ 31) \<le> w - added"
proof -
  note D = kv_repD[OF assms(1)]
  have n: "kv_offset c - kv_start c + added + 256 < 2 ^ 31" using D(1,3) assms(2) by linarith
  show "kv_offset c - kv_start c + added < 2 ^ 31"
    "kv_offset c - kv_start c + added + KV_GROWTH_STEP - 1 < 2 ^ 31"
    "kv_start c + (kv_offset c - kv_start c + added) < 2 ^ 31"
    using n assms(2) D(1) unfolding KV_GROWTH_STEP_def by linarith+
  have "(m + 255) div 256 * 256 \<le> m + 255" for m :: int
    using minus_mod_eq_div_mult[of "m + 255" 256] by (smt (verit) pos_mod_sign)
  then show "grown_capacity (kv_offset c - kv_start c + added) < 2 ^ 31"
    using n unfolding grown_capacity_def KV_GROWTH_STEP_def by (smt (verit))
  show "\<forall>w. kv_window c = Some w \<longrightarrow> w + KV_GROWTH_STEP < 2 ^ 31 \<and> - (2 ^ 31) \<le> w - added"
    using assms kv_rep_window[OF assms(1)] by (auto simp: KV_GROWTH_STEP_def)
qed

end
