(* ===== verification/Sliding_Attention.thy ===== *)
theory Sliding_Attention
  imports Kv_Cache
begin

text \<open>
  Sliding-window attention: the mask of \<open>src/src/engine/ops.rs\<close> (\<open>sliding_window_mask\<close>) and the cache
  handling of the attention layers that use it (\<open>forward\<close> of the attention modules of
  \<open>src/src/engine/models/gemma3.rs\<close> and \<open>laguna.rs\<close>), reduced to which retained rows each query
  attends to. The reference is plain: the query at position \<open>q\<close> attends to the last \<open>window\<close>
  positions up to \<open>q\<close>.
\<close>

definition sliding_window_mask :: "nat \<Rightarrow> nat \<Rightarrow> int \<Rightarrow> int \<Rightarrow> int \<Rightarrow> bool list list" where
  "sliding_window_mask seq_len kv_len off key_start window =
     map (\<lambda>i. map (\<lambda>j.
        let diff = (off + int i) - (key_start + int j) in 0 \<le> diff \<and> diff < window) [0..<kv_len])
       [0..<seq_len]"

text \<open>The rows a query's mask row leaves visible.\<close>

definition attended :: "bool list \<Rightarrow> 'a list \<Rightarrow> 'a list" where
  "attended m keys = map snd (filter fst (zip m keys))"

text \<open>
  One attention layer: the offset is read before the append, the start of the keys after it, and
  the mask is built from both.
\<close>

definition sliding_attention ::
  "int \<Rightarrow> (kv_site \<Rightarrow> bool) \<Rightarrow> 'a \<Rightarrow> 'a list \<Rightarrow> 'a list \<Rightarrow> 'a kv_cache
    \<Rightarrow> (cache_error + ('a \<times> 'a) list list) \<times> 'a kv_cache" where
  "sliding_attention window bad z ks vs c =
     (let off = kv_offset c
      in case update_and_fetch bad z ks vs c of
        (Inl e, c) \<Rightarrow> (Inl e, c)
      | (Inr (keys, values), c) \<Rightarrow>
          (let mask = sliding_window_mask (length ks) (length keys) off (kv_start c) window
           in (Inr (map (\<lambda>m. attended m (zip keys values)) mask), c)))"

definition ref_attended :: "nat \<Rightarrow> 'a list \<Rightarrow> nat \<Rightarrow> 'a list" where
  "ref_attended window history q = drop (Suc q - window) (take (Suc q) history)"


section \<open>Which rows a mask row selects\<close>

lemma attended_select:
  assumes "n = length ks"
  shows "attended (map P [0..<n]) ks = map (\<lambda>j. ks ! j) (filter P [0..<n])"
proof -
  have "zip (map P [0..<n]) ks = map (\<lambda>j. (P j, ks ! j)) [0..<n]"
    using assms by (intro nth_equalityI) auto
  then show ?thesis by (simp add: attended_def filter_map o_def)
qed

lemma filter_interval: "filter (\<lambda>j. a \<le> j \<and> j < b) [0..<n] = [a..<min b n]"
proof (induction n)
  case (Suc n)
  then show ?case by (auto simp: min_def le_Suc_eq upt_conv_Nil)
qed simp

lemma map_nth_interval: "b \<le> length ks \<Longrightarrow> map (\<lambda>j. ks ! j) [a..<b] = drop a (take b ks)"
  by (rule nth_equalityI) auto

text \<open>A mask row over keys that start where the mask says they do.\<close>

lemma attended_aligned:
  assumes "s + length ks > q" and "s \<le> q" and "1 \<le> w"
  shows "attended (map (\<lambda>j. let diff = int q - (int s + int j) in 0 \<le> diff \<and> diff < int w) [0..<length ks]) ks
    = drop (Suc q - w - s) (take (Suc q - s) ks)"
proof -
  have "(\<lambda>j. let diff = int q - (int s + int j) in 0 \<le> diff \<and> diff < int w)
      = (\<lambda>j. Suc q - w - s \<le> j \<and> j < Suc q - s)"
    using assms by (intro ext) (auto simp: Let_def)
  then show ?thesis
    using assms by (simp add: attended_select filter_interval min_def map_nth_interval)
qed


section \<open>Aligned appends\<close>

text \<open>The history from \<open>kv_start\<close> on holds all a query at the next position can attend to.\<close>

definition window_covered :: "'a kv_cache \<Rightarrow> bool" where
  "window_covered c \<longleftrightarrow>
     (case kv_window c of None \<Rightarrow> True | Some w \<Rightarrow> kv_start c = 0 \<or> kv_start c + w \<le> kv_offset c + 1)"

lemma window_covered_append:
  assumes rep: "kv_rep c hk hv" and cov: "window_covered c" and n: "0 \<le> n"
    and fin: "kv_start c' = trimmed_start (kv_window c) (view_start n c) (kv_offset c + n) 0"
    and off: "kv_offset c' = kv_offset c + n" and win: "kv_window c' = kv_window c"
  shows "window_covered c'"
proof (cases "kv_window c")
  case (Some w)
  note D = kv_repD[OF rep]
  have w: "1 \<le> w" using rep Some by (simp add: kv_rep_def)
  have "kv_start c = 0 \<or> kv_start c + w \<le> kv_offset c + 1" using cov Some by (simp add: window_covered_def)
  then have v: "view_start n c = 0 \<or> view_start n c + w \<le> kv_offset c + n + 1"
    using n D(3-5) Some by (simp add: view_start_def would_trim_def KV_GROWTH_STEP_def) arith
  have "kv_start c' = 0 \<or> kv_start c' + w \<le> kv_offset c' + 1"
    using v n w D(3-5) Some unfolding fin off trimmed_start_def KV_GROWTH_STEP_def by simp
  then show ?thesis using Some win by (simp add: window_covered_def)
qed (simp add: window_covered_def win)

lemma zip_drop_append:
  "length hk = length hv \<Longrightarrow> length us = length vs \<Longrightarrow>
    zip (drop s (hk @ us)) (drop s (hv @ vs)) = drop s (zip (hk @ us) (hv @ vs))"
  by (simp add: drop_zip)

lemma drop_take_covered:
  assumes "s \<le> Suc q - w" 
  shows "drop (Suc q - w - s) (take (Suc q - s) (drop s h)) = ref_attended w h q"
proof -
  have "Suc q - w - s + s = Suc q - w" using assms by simp
  then show ?thesis using assms unfolding ref_attended_def by (simp only: drop_drop take_drop le_add_diff_inverse2)
qed

lemma sliding_attention_unfold:
  assumes rep: "kv_rep c hk hv" and len: "length us = length vs" and ne: "us \<noteq> []"
    and s: "view_start (int (length us)) c = int s"
    and e: "trimmed_start (kv_window c) (int s) (int (length hk) + int (length us)) 0 = int t"
  shows "\<exists>c'. sliding_attention w (\<lambda>_. False) z us vs c =
      (Inr (map (\<lambda>i. attended
          (map (\<lambda>j. let diff = int (length hk + i) - (int t + int j) in 0 \<le> diff \<and> diff < w)
            [0..<length (drop s (zip (hk @ us) (hv @ vs)))])
          (drop s (zip (hk @ us) (hv @ vs)))) [0..<length us]), c')
    \<and> kv_rep c' (hk @ us) (hv @ vs) \<and> (window_covered c \<longrightarrow> window_covered c')"
proof -
  note D = kv_repD[OF rep]
  obtain c' where u: "update_and_fetch (\<lambda>_. False) z us vs c =
      (Inr (drop s (hk @ us), drop s (hv @ vs)), c')" "kv_rep c' (hk @ us) (hv @ vs)" "kv_start c' = int t" "kv_window c' = kv_window c"
    using update_and_fetch_ok[OF rep len ne, of z] unfolding s D(1) e by auto
  have "window_covered c \<longrightarrow> window_covered c'"
    using window_covered_append[OF rep, of "int (length us)" c'] u(2-4) s e D(1) kv_repD(1)[OF u(2)]
    by simp
  moreover
  have "length (drop s (zip (hk @ us) (hv @ vs))) = length (drop s (hk @ us))"
    using D(2) len by simp
  ultimately show ?thesis
    using u len D(1,2) by (simp add: sliding_attention_def sliding_window_mask_def Let_def o_def drop_zip)
qed

section \<open>What each query attends to\<close>

lemma sliding_row:
  assumes "view_start (int (length us)) c = int s" and "s \<le> Suc (length hk + i) - w"
    and "i < length us" and "length hv = length hk" and "length us = length vs" and "s \<le> length hk" and "1 \<le> w"
  shows "attended
      (map (\<lambda>j. let diff = int (length hk + i) - (int s + int j) in 0 \<le> diff \<and> diff < int w)
        [0..<length (drop s (zip (hk @ us) (hv @ vs)))]) (drop s (zip (hk @ us) (hv @ vs)))
    = ref_attended w (zip (hk @ us) (hv @ vs)) (length hk + i)"
proof -
  let ?ks = "drop s (zip (hk @ us) (hv @ vs))"
  have "length hk + i < s + length ?ks" "s \<le> length hk + i" using assms(3-6) by simp_all
  from attended_aligned[OF this assms(7)] show ?thesis using drop_take_covered[OF assms(2)] by simp
qed

lemma aligned_start:
  assumes rep: "kv_rep c hk hv" and w: "kv_window c = Some w" and cov: "window_covered c"
    and n: "1 \<le> n" and one: "n = 1 \<or> \<not> would_trim n c"
  shows "0 \<le> view_start n c \<and> view_start n c \<le> kv_offset c
    \<and> (view_start n c = 0 \<or> view_start n c + w \<le> kv_offset c + 1)
    \<and> trimmed_start (Some w) (view_start n c) (kv_offset c + n) 0 = view_start n c"
proof (cases "would_trim n c")
  case True
  then have "view_start n c = kv_offset c - (w - 1)" "n = 1" "1 \<le> w" "w - 1 \<le> kv_offset c"
    using one w kv_repD(3,5)[OF rep] rep
    by (auto simp: view_start_def would_trim_def KV_GROWTH_STEP_def kv_rep_def)
  then show ?thesis by (simp add: trimmed_start_def KV_GROWTH_STEP_def)
next
  case False
  then show ?thesis using w n cov kv_repD(3,4)[OF rep]
    by (auto simp: view_start_def would_trim_def trimmed_start_def window_covered_def)
qed

text \<open>
  C20. As long as an append is a single token, or fires no window trim, a sliding-window layer
  attends exactly as the reference says: every query sees the last \<open>window\<close> rows of the whole
  history up to itself, however often the buffer has been trimmed, grown or rolled back before.
  The cache still covers the window afterwards, so the next append is exact again.
\<close>

theorem sliding_attention_exact:
  assumes "kv_rep c hk hv" and "kv_window c = Some (int w)" and "window_covered c"
    and "length us = length vs" and "us \<noteq> []"
    and "length us = 1 \<or> \<not> would_trim (int (length us)) c"
  shows "\<exists>c'. sliding_attention (int w) (\<lambda>_. False) z us vs c =
      (Inr (map (\<lambda>i. ref_attended w (zip (hk @ us) (hv @ vs)) (length hk + i)) [0..<length us]), c')
    \<and> kv_rep c' (hk @ us) (hv @ vs) \<and> window_covered c'"
proof -
  let ?n = "int (length us)"
  note D = kv_repD[OF assms(1)]
  have n: "1 \<le> ?n" using assms(5) by (cases us) simp_all
  have w: "1 \<le> w" using assms(1,2) by (simp add: kv_rep_def)
  note A = aligned_start[OF assms(1,2,3) n] 
  obtain s where s: "view_start ?n c = int s"
    using A assms(6) zero_le_imp_eq_int by (metis of_nat_1 of_nat_eq_iff)
  have s': "s \<le> length hk" "s = 0 \<or> s + w \<le> Suc (length hk)"
    "trimmed_start (kv_window c) (int s) (int (length hk) + ?n) 0 = int s"
    using A assms(2,6) D(1) unfolding s by auto
  obtain c' where c': "sliding_attention (int w) (\<lambda>_. False) z us vs c =
      (Inr (map (\<lambda>i. attended
          (map (\<lambda>j. let diff = int (length hk + i) - (int s + int j) in 0 \<le> diff \<and> diff < int w)
            [0..<length (drop s (zip (hk @ us) (hv @ vs)))])
          (drop s (zip (hk @ us) (hv @ vs)))) [0..<length us]), c')"
    "kv_rep c' (hk @ us) (hv @ vs)" "window_covered c'"
    using sliding_attention_unfold[OF assms(1,4,5) s s'(3), of "int w" z] assms(3) by blast
  have "attended
      (map (\<lambda>j. let diff = int (length hk + i) - (int s + int j) in 0 \<le> diff \<and> diff < int w)
        [0..<length (drop s (zip (hk @ us) (hv @ vs)))]) (drop s (zip (hk @ us) (hv @ vs)))
    = ref_attended w (zip (hk @ us) (hv @ vs)) (length hk + i)" if "i < length us" for i
    by (rule sliding_row[OF s _ that D(2) assms(4) s'(1) w]) (use s'(2) in auto)
  then show ?thesis using c' by (intro exI[of _ c']) (simp cong: map_cong)
qed

theorem sliding_attention_exact_witness:
  "\<exists>c'. sliding_attention 2 (\<lambda>_. False) (0::nat) [7] [8]
      (snd (update_and_fetch (\<lambda>_. False) 0 [1, 2, 3] [4, 5, 6] (windowed 2)))
    = (Inr [[(3, 6), (7, 8)]], c')"
proof -
  have u: "snd (update_and_fetch (\<lambda>_. False) (0::nat) [1, 2, 3] [4, 5, 6] (windowed 2)) =
      \<lparr> kv_keys = Some ([1, 2, 3] @ replicate 253 0), kv_values = Some ([4, 5, 6] @ replicate 253 0),
        kv_offset = 3, kv_window = Some 2, kv_start = 0 \<rparr>" (is "_ = ?c")
    by (simp add: update_and_fetch_def windowed_def kv_new_def trim_to_window_def grow_def attempt_def
        buffer_capacity_def slice_update_def slice_def grown_capacity_def KV_GROWTH_STEP_def Let_def)
  have "kv_rep ?c [1, 2, 3] [4, 5, 6]"
    by (simp add: kv_rep_def rows_def retained_len_def)
  from sliding_attention_exact[OF this, of 2 "[7]" "[8]" 0]
  show ?thesis unfolding u by (auto simp: window_covered_def ref_attended_def)
qed

text \<open>
  A prompt longer than the window plus the growth slack that is fed in one append trims the
  cache after the view has been taken, and the layer then builds its mask from the new start: every
  query except the last \<open>window\<close> of them attends to no row at all, not even to its own, although the
  view holds all of them.
\<close>

theorem long_prompt_attends_to_nothing:
  assumes "1 \<le> w" and "w + 256 < length us" and "length us = length vs" and "i < length us - w"
  shows "\<exists>rs c'. sliding_attention (int w) (\<lambda>_. False) z us vs (windowed (int w)) = (Inr rs, c')
    \<and> length rs = length us \<and> rs ! i = [] \<and> ref_attended w (zip us vs) i \<noteq> []"
proof -
  let ?n = "int (length us)"
  have ne: "us \<noteq> []" using assms(2) by auto
  have s: "view_start ?n (windowed (int w)) = int 0"
    by (simp add: view_start_def windowed_def kv_new_def)
  have t: "trimmed_start (kv_window (windowed (int w))) (int 0) (int (length []) + ?n) 0 = int (length us - w)"
    using assms(1,2) by (simp add: trimmed_start_def windowed_def kv_new_def KV_GROWTH_STEP_def)
  obtain c' where c': "sliding_attention (int w) (\<lambda>_. False) z us vs (windowed (int w)) =
      (Inr (map (\<lambda>i. attended
          (map (\<lambda>j. let diff = int i - (int (length us - w) + int j) in 0 \<le> diff \<and> diff < int w)
            [0..<length (zip us vs)]) (zip us vs)) [0..<length us]), c')"
    using sliding_attention_unfold[OF kv_rep_windowed assms(3) ne s t, of "int w" z] by auto
  have "filter (\<lambda>j. let diff = int i - (int (length us - w) + int j) in 0 \<le> diff \<and> diff < int w)
      [0..<length (zip us vs)] = []"
    using assms(2,4) by (auto simp: filter_empty_conv Let_def)
  then have "attended (map (\<lambda>j. let diff = int i - (int (length us - w) + int j) in 0 \<le> diff \<and> diff < int w)
            [0..<length (zip us vs)]) (zip us vs) = []"
    by (simp add: attended_select)
  moreover have "ref_attended w (zip us vs) i \<noteq> []"
    using assms by (simp add: ref_attended_def)
  ultimately show ?thesis using c' assms(4) by auto
qed

theorem long_prompt_attends_to_nothing_witness:
  "\<exists>rs c'. sliding_attention 16 (\<lambda>_. False) (0::nat) (replicate 300 1) (replicate 300 2) (windowed 16)
      = (Inr rs, c') \<and> length rs = 300 \<and> rs ! 0 = []"
  using long_prompt_attends_to_nothing[of 16 "replicate 300 (1::nat)" "replicate 300 2" 0 0] by auto

text \<open>
  When an append of more than one token makes the trim fire, the trim keeps only
  \<open>window - added\<close> rows, so the first query of the append sees \<open>added - 1\<close> rows fewer than its
  window holds (only itself when the append is as long as the window).
\<close>

theorem chunk_trim_loses_context:
  assumes "kv_rep c hk hv" and "kv_window c = Some (int w)" and "2 \<le> w"
    and "length us = length vs" and "2 \<le> length us" and "length us \<le> w + 256"
    and "would_trim (int (length us)) c"
  shows "\<exists>rs c'. sliding_attention (int w) (\<lambda>_. False) z us vs c = (Inr rs, c')
    \<and> length (rs ! 0) = Suc (w - length us)
    \<and> length (ref_attended w (zip (hk @ us) (hv @ vs)) (length hk)) = min w (Suc (length hk))
    \<and> length (rs ! 0) < length (ref_attended w (zip (hk @ us) (hv @ vs)) (length hk))"
proof -
  let ?n = "length us"
  note D = kv_repD[OF assms(1)]
  have fire: "w + 256 < retained_len c + ?n"
    using assms(2,7) D(5) by (simp add: would_trim_def KV_GROWTH_STEP_def)
  define s where "s = length hk - (w - ?n)"
  have r: "retained_len c \<le> length hk" using D(7) by simp
  have sh: "w - ?n < length hk" using fire r assms(6) by linarith
  have vs: "view_start (int ?n) c = int s"
    using assms(7,2) D(1,5) fire r sh by (simp add: view_start_def s_def)
  have cap: "int ?n + int (w - ?n) \<le> int w + 256" using assms(6) by arith
  have ts: "trimmed_start (kv_window c) (int s) (int (length hk) + int ?n) 0 = int s"
    using assms(2) sh cap by (simp add: trimmed_start_def KV_GROWTH_STEP_def s_def)
  have ne: "us \<noteq> []" using assms(5) by auto
  let ?ks = "drop s (zip (hk @ us) (hv @ vs))"
  let ?row = "\<lambda>i. attended
      (map (\<lambda>j. let diff = int (length hk + i) - (int s + int j) in 0 \<le> diff \<and> diff < int w)
        [0..<length ?ks]) ?ks"
  obtain c' where c': "sliding_attention (int w) (\<lambda>_. False) z us vs c = (Inr (map ?row [0..<?n]), c')"
    using sliding_attention_unfold[OF assms(1,4) ne vs ts, of "int w" z] by blast
  have sl: "s \<le> length hk" "s + length ?ks > length hk" using assms(4,5) D(2) by (auto simp: s_def)
  have row: "?row 0 = drop (Suc (length hk) - w - s) (take (Suc (length hk) - s) ?ks)"
    using attended_aligned[OF sl(2,1), of w] assms(3) by simp
  have len: "length (zip (hk @ us) (hv @ vs)) = length hk + ?n" using D(2) assms(4) by simp
  have l0: "length (?row 0) = Suc (w - ?n)"
    unfolding row using len sh assms(3,5) by (simp add: s_def)
  have lr: "length (ref_attended w (zip (hk @ us) (hv @ vs)) (length hk)) = min w (Suc (length hk))"
    using len assms(5) by (simp add: ref_attended_def)
  have "Suc (w - ?n) < min w (Suc (length hk))" using sh assms(3,5) by simp
  moreover have "map ?row [0..<?n] ! 0 = ?row 0"
  proof -
    have "[0..<?n] = 0 # [1..<?n]" using upt_conv_Cons[of 0 ?n] ne by simp
    then show ?thesis by (simp only: list.map nth_Cons_0)
  qed
  ultimately show ?thesis using c' l0 lr by (intro exI conjI) (rule c', simp_all only:)
qed

text \<open>Two 512-token prefill chunks through a window of 512: the second chunk starts blind.\<close>

theorem chunk_trim_loses_context_witness:
  "\<exists>rs c'. sliding_attention 512 (\<lambda>_. False) (0::nat) (replicate 512 3) (replicate 512 4)
      \<lparr> kv_keys = Some (replicate 512 1), kv_values = Some (replicate 512 2),
        kv_offset = 512, kv_window = Some 512, kv_start = 0 \<rparr> = (Inr rs, c') \<and> length (rs ! 0) = 1"
proof -
  let ?c = "\<lparr> kv_keys = Some (replicate 512 1), kv_values = Some (replicate 512 2),
        kv_offset = 512, kv_window = Some 512, kv_start = 0 \<rparr> :: nat kv_cache"
  have "kv_rep ?c (replicate 512 1) (replicate 512 2)"
    by (simp add: kv_rep_def rows_def retained_len_def)
  from chunk_trim_loses_context[OF this, of 512 "replicate 512 3" "replicate 512 4" 0]
  show ?thesis by (auto simp: would_trim_def KV_GROWTH_STEP_def)
qed

end
