(* ===== verification/Layer_Cache.thy ===== *)
theory Layer_Cache
  imports Kv_Cache "HOL-Library.Sublist"
begin

text \<open>
  The three kinds of layer cache and their rollback (\<open>LayerCache\<close>, \<open>LayerRollback\<close> of
  \<open>src/src/engine/models/cache.rs\<close>), and the caches of the multi-token-prediction module
  (\<open>MtpCaches\<close> of \<open>src/src/engine/models/mtp.rs\<close>). Recurrent state arrays are of the type
  parameter \<open>'b\<close>: the code only stores, clones and swaps them.
\<close>

section \<open>Layer caches\<close>

record 'b gated_delta_cache =
  gd_conv_state :: "'b option"
  gd_recur_state :: "'b option"

record ('a, 'b) dhara_cache =
  dh_attn :: "'a kv_cache"
  dh_canon_a :: "'b option"
  dh_canon_b_q :: "'b option"
  dh_canon_b_k :: "'b option"
  dh_canon_b_v :: "'b option"
  dh_canon_c :: "'b option"
  dh_canon_d :: "'b option"

datatype ('a, 'b) layer_cache =
    Attention "'a kv_cache"
  | GatedDelta "'b gated_delta_cache"
  | Dhara "('a, 'b) dhara_cache"

datatype 'b layer_rollback =
    RbAttention int
  | RbGatedDelta "'b option" "'b option"
  | RbDhara int "'b option" "'b option" "'b option" "'b option" "'b option" "'b option"

definition new_gated_delta :: "('a, 'b) layer_cache" where
  "new_gated_delta = GatedDelta \<lparr> gd_conv_state = None, gd_recur_state = None \<rparr>"

definition new_dhara :: "('a, 'b) layer_cache" where
  "new_dhara = Dhara \<lparr> dh_attn = kv_new, dh_canon_a = None, dh_canon_b_q = None, dh_canon_b_k = None,
     dh_canon_b_v = None, dh_canon_c = None, dh_canon_d = None \<rparr>"

definition new_attention :: "('a, 'b) layer_cache" where
  "new_attention = Attention kv_new"

definition new_attention_windowed :: "int \<Rightarrow> ('a, 'b) layer_cache" where
  "new_attention_windowed window = Attention (windowed window)"

fun as_attention :: "('a, 'b) layer_cache \<Rightarrow> cache_error + 'a kv_cache" where
  "as_attention (Attention c) = Inr c"
| "as_attention _ = Inl WrongCacheKind"

fun as_gated_delta :: "('a, 'b) layer_cache \<Rightarrow> cache_error + 'b gated_delta_cache" where
  "as_gated_delta (GatedDelta c) = Inr c"
| "as_gated_delta _ = Inl WrongCacheKind"

fun as_dhara :: "('a, 'b) layer_cache \<Rightarrow> cache_error + ('a, 'b) dhara_cache" where
  "as_dhara (Dhara c) = Inr c"
| "as_dhara _ = Inl WrongCacheKind"

fun kind_name :: "('a, 'b) layer_cache \<Rightarrow> str" where
  "kind_name (Attention _) = ''attention''"
| "kind_name (GatedDelta _) = ''gated-delta''"
| "kind_name (Dhara _) = ''dhara''"

fun rollback_kind_name :: "'b layer_rollback \<Rightarrow> str" where
  "rollback_kind_name (RbAttention _) = ''attention''"
| "rollback_kind_name (RbGatedDelta _ _) = ''gated-delta''"
| "rollback_kind_name (RbDhara _ _ _ _ _ _ _) = ''dhara''"

fun rollback_state :: "('a, 'b) layer_cache \<Rightarrow> 'b layer_rollback" where
  "rollback_state (Attention c) = RbAttention (kv_offset c)"
| "rollback_state (GatedDelta c) = RbGatedDelta (gd_conv_state c) (gd_recur_state c)"
| "rollback_state (Dhara c) = RbDhara (kv_offset (dh_attn c)) (dh_canon_a c) (dh_canon_b_q c)
     (dh_canon_b_k c) (dh_canon_b_v c) (dh_canon_c c) (dh_canon_d c)"

fun rollback :: "'b layer_rollback \<Rightarrow> ('a, 'b) layer_cache \<Rightarrow> cache_error option \<times> ('a, 'b) layer_cache" where
  "rollback (RbAttention off) (Attention c) = map_prod id Attention (truncate_to off c)"
| "rollback (RbGatedDelta conv recur) (GatedDelta c) =
     (None, GatedDelta (c\<lparr> gd_conv_state := conv, gd_recur_state := recur \<rparr>))"
| "rollback (RbDhara off a bq bk bv cc d) (Dhara c) =
     (let c = c\<lparr> dh_canon_a := a, dh_canon_b_q := bq, dh_canon_b_k := bk, dh_canon_b_v := bv,
                 dh_canon_c := cc, dh_canon_d := d \<rparr>;
          (r, attn) = truncate_to off (dh_attn c)
      in (r, Dhara (c\<lparr> dh_attn := attn \<rparr>)))"
| "rollback _ c = (Some KindMismatch, c)"

fun layer_is_pristine :: "('a, 'b) layer_cache \<Rightarrow> bool" where
  "layer_is_pristine (Attention c) = kv_is_pristine c"
| "layer_is_pristine (GatedDelta c) = (gd_conv_state c = None \<and> gd_recur_state c = None)"
| "layer_is_pristine (Dhara c) =
     (kv_is_pristine (dh_attn c) \<and> dh_canon_a c = None \<and> dh_canon_b_q c = None
      \<and> dh_canon_b_k c = None \<and> dh_canon_b_v c = None \<and> dh_canon_c c = None \<and> dh_canon_d c = None)"

fun is_attention :: "('a, 'b) layer_cache \<Rightarrow> bool" where
  "is_attention (Attention _) = True"
| "is_attention _ = False"

definition needs_refeed :: "('a, 'b) layer_cache list \<Rightarrow> bool" where
  "needs_refeed caches = list_ex (\<lambda>c. \<not> is_attention c) caches"


section \<open>The prediction module's caches\<close>

fun mtp_truncate_to :: "nat \<Rightarrow> ('a, 'b) layer_cache list \<Rightarrow> cache_error option \<times> ('a, 'b) layer_cache list" where
  "mtp_truncate_to pairs_fed [] = (None, [])"
| "mtp_truncate_to pairs_fed (l # ls) =
     (case (case l of Attention kv \<Rightarrow> map_prod id Attention (truncate_to (int pairs_fed) kv)
                    | _ \<Rightarrow> (None, l)) of
        (Some e, l) \<Rightarrow> (Some e, l # ls)
      | (None, l) \<Rightarrow> map_prod id (Cons l) (mtp_truncate_to pairs_fed ls))"

definition mtp_pairs_fed :: "('a, 'b) layer_cache list \<Rightarrow> nat" where
  "mtp_pairs_fed caches =
     (case find_map (\<lambda>l. case l of Attention kv \<Rightarrow> Some (nat (kv_offset kv)) | _ \<Rightarrow> None) caches of
        Some n \<Rightarrow> n | None \<Rightarrow> 0)"


text \<open>The poolable snapshot \<open>MtpState\<close>; its frontier row is an array the model only carries.\<close>

record ('a, 'b, 'r) mtp_state =
  mtp_caches :: "('a, 'b) layer_cache list"
  mtp_pairs :: nat
  mtp_frontier :: 'r

section \<open>Stores with an append and a cut\<close>

text \<open>
  What speculative decoding asks of an attention cache: an append returns a view of the history
  that ends in the new rows, and a cut back to a position that is still held leaves exactly the
  rows before it.
\<close>

locale history_store =
  fixes rep :: "'s \<Rightarrow> 'r list \<Rightarrow> bool"
    and append_rows :: "'r list \<Rightarrow> 's \<Rightarrow> 'r list option \<times> 's"
    and cut :: "nat \<Rightarrow> 's \<Rightarrow> 'e option \<times> 's"
    and low :: "'s \<Rightarrow> nat"
  assumes append_law: "rep s h \<Longrightarrow> us \<noteq> [] \<Longrightarrow>
      \<exists>v s'. append_rows us s = (Some v, s') \<and> rep s' (h @ us) \<and> suffix v (h @ us) \<and> suffix us v"
    and cut_law: "rep s h \<Longrightarrow> low s \<le> n \<Longrightarrow> n \<le> length h \<Longrightarrow>
      \<exists>s'. cut n s = (None, s') \<and> rep s' (take n h) \<and> low s' = low s"
    and cut_low: "rep s h \<Longrightarrow> n < low s \<Longrightarrow> \<exists>e. cut n s = (Some e, s)"
    and low_le: "rep s h \<Longrightarrow> low s \<le> length h"
begin

text \<open>Rows appended and rejected never show up in a later view.\<close>

lemma rejected_rows_never_leak:
  assumes "rep s h" and "us \<noteq> []" and "ws \<noteq> []"
    and "low (snd (append_rows us s)) \<le> length h"
  shows "\<exists>v s'. append_rows ws (snd (cut (length h) (snd (append_rows us s)))) = (Some v, s')
    \<and> rep s' (h @ ws) \<and> suffix v (h @ ws) \<and> suffix ws v"
proof -
  obtain s1 where s1: "snd (append_rows us s) = s1" "rep s1 (h @ us)"
    using append_law[OF assms(1,2)] by auto
  then obtain s2 where "snd (cut (length h) s1) = s2" "rep s2 h"
    using cut_law[OF s1(2), of "length h"] assms(4) by auto
  then show ?thesis using append_law[OF _ assms(3)] s1(1) by auto
qed

end

text \<open>The key/value cache as such a store, its rows being the pairs of a key and a value row.\<close>

definition kv_pairs_rep :: "'a kv_cache \<Rightarrow> ('a \<times> 'a) list \<Rightarrow> bool" where
  "kv_pairs_rep c h \<longleftrightarrow> kv_rep c (map fst h) (map snd h)"

definition kv_append_pairs :: "'a \<Rightarrow> ('a \<times> 'a) list \<Rightarrow> 'a kv_cache \<Rightarrow> ('a \<times> 'a) list option \<times> 'a kv_cache" where
  "kv_append_pairs z us c =
     (case update_and_fetch (\<lambda>_. False) z (map fst us) (map snd us) c of
        (Inl e, c) \<Rightarrow> (None, c)
      | (Inr (k, v), c) \<Rightarrow> (Some (zip k v), c))"

lemma view_start_bounds:
  assumes "kv_rep c hk hv"
  shows "0 \<le> view_start n c \<and> view_start n c \<le> kv_offset c"
  using kv_repD(3,4,5)[OF assms] by (auto simp: view_start_def)

lemma zip_drop_pairs: "zip (drop n (map fst h)) (drop n (map snd h)) = drop n h"
  by (simp add: zip_map_fst_snd flip: drop_zip)

lemma kv_append_pairs_ok:
  assumes "kv_pairs_rep c h" and "us \<noteq> []"
  shows "\<exists>c'. kv_append_pairs z us c = (Some (drop (nat (view_start (int (length us)) c)) (h @ us)), c')
    \<and> kv_pairs_rep c' (h @ us)"
proof -
  obtain c' where "update_and_fetch (\<lambda>_. False) z (map fst us) (map snd us) c =
      (Inr (drop (nat (view_start (int (length us)) c)) (map fst h @ map fst us),
            drop (nat (view_start (int (length us)) c)) (map snd h @ map snd us)), c')"
    "kv_rep c' (map fst h @ map fst us) (map snd h @ map snd us)"
    using update_and_fetch_ok[OF assms(1)[unfolded kv_pairs_rep_def], of "map fst us" "map snd us" z]
      assms(2) by auto
  then show ?thesis
    by (simp add: kv_append_pairs_def kv_pairs_rep_def zip_drop_pairs flip: map_append del: drop_append)
qed

lemma truncate_to_ok:
  assumes rep: "kv_rep c hk hv" and n: "kv_start c \<le> int n" "n \<le> length hk"
  shows "truncate_to (int n) c = (None, c\<lparr> kv_offset := int n \<rparr>)
    \<and> kv_rep (c\<lparr> kv_offset := int n \<rparr>) (take n hk) (take n hv)"
proof
  note D = kv_repD[OF rep]
  show "truncate_to (int n) c = (None, c\<lparr> kv_offset := int n \<rparr>)"
    using n D(1) by (simp add: truncate_to_def)
  let ?r = "n - nat (kv_start c)"
  have r: "retained_len (c\<lparr> kv_offset := int n \<rparr>) = ?r" "?r \<le> retained_len c"
    using n D(3,6) by (auto simp: retained_len_def)
  have sn: "nat (kv_start c) \<le> n" using n(1) by simp
  have t: "take ?r b = drop (nat (kv_start c)) (take n h)"
    if "take (retained_len c) b = drop (nat (kv_start c)) h" for b h :: "'a list"
    using arg_cong[OF that, of "take ?r"] r(2) sn by (simp add: take_drop min_def)
  show "kv_rep (c\<lparr> kv_offset := int n \<rparr>) (take n hk) (take n hv)"
    using rep n r t unfolding kv_rep_def by (auto split: option.splits)
qed

interpretation kv: history_store kv_pairs_rep "kv_append_pairs z"
    "\<lambda>n. truncate_to (int n)" "\<lambda>c. nat (kv_start c)"
proof
  fix s :: "'a kv_cache" and h us :: "('a \<times> 'a) list" assume "kv_pairs_rep s h" "us \<noteq> []"
  from kv_append_pairs_ok[OF this, of z] show "\<exists>v s'. kv_append_pairs z us s = (Some v, s')
    \<and> kv_pairs_rep s' (h @ us) \<and> suffix v (h @ us) \<and> suffix us v"
    using view_start_bounds[OF \<open>kv_pairs_rep s h\<close>[unfolded kv_pairs_rep_def], of "int (length us)"]
      kv_repD(1)[OF \<open>kv_pairs_rep s h\<close>[unfolded kv_pairs_rep_def]]
    by (auto simp: suffix_drop intro!: suffixI)
next
  fix s :: "'a kv_cache" and h :: "('a \<times> 'a) list" and n assume a: "kv_pairs_rep s h" "nat (kv_start s) \<le> n" "n \<le> length h"
  then show "\<exists>s'. truncate_to (int n) s = (None, s') \<and> kv_pairs_rep s' (take n h) \<and> nat (kv_start s') = nat (kv_start s)"
    using truncate_to_ok[of s "map fst h" "map snd h" n] by (simp add: kv_pairs_rep_def take_map)
next
  fix s :: "'a kv_cache" and h :: "('a \<times> 'a) list" and n assume "kv_pairs_rep s h" "n < nat (kv_start s)"
  then have "int n < kv_start s" by linarith
  then show "\<exists>e. truncate_to (int n) s = (Some e, s)" by (simp add: truncate_to_def)
next
  fix s :: "'a kv_cache" and h :: "('a \<times> 'a) list" assume "kv_pairs_rep s h"
  then show "nat (kv_start s) \<le> length h" using kv_repD(1,4) by (fastforce simp: kv_pairs_rep_def)
qed

section \<open>Rolling layers back\<close>

text \<open>What a layer cache stands for: the history of its attention part and its recurrent states.\<close>

fun layer_history :: "('a, 'b) layer_cache \<Rightarrow> ('a \<times> 'a) list \<Rightarrow> 'b option list \<Rightarrow> bool" where
  "layer_history (Attention c) h st \<longleftrightarrow> kv_pairs_rep c h \<and> st = []"
| "layer_history (GatedDelta c) h st \<longleftrightarrow> h = [] \<and> st = [gd_conv_state c, gd_recur_state c]"
| "layer_history (Dhara c) h st \<longleftrightarrow> kv_pairs_rep (dh_attn c) h
     \<and> st = [dh_canon_a c, dh_canon_b_q c, dh_canon_b_k c, dh_canon_b_v c, dh_canon_c c, dh_canon_d c]"

fun layer_low :: "('a, 'b) layer_cache \<Rightarrow> nat" where
  "layer_low (Attention c) = nat (kv_start c)"
| "layer_low (GatedDelta c) = 0"
| "layer_low (Dhara c) = nat (kv_start (dh_attn c))"

lemma truncate_to_history:
  assumes "kv_pairs_rep c h" and "kv_pairs_rep c' (h @ us)"
  shows "nat (kv_start c') \<le> length h \<Longrightarrow>
      \<exists>s. truncate_to (kv_offset c) c' = (None, s) \<and> kv_pairs_rep s h"
    and "length h < nat (kv_start c') \<Longrightarrow> truncate_to (kv_offset c) c' = (Some DiscardedByTrim, c')"
proof -
  have off: "kv_offset c = int (length h)"
    using assms(1) by (simp add: kv_pairs_rep_def kv_repD(1))
  show "nat (kv_start c') \<le> length h \<Longrightarrow>
      \<exists>s. truncate_to (kv_offset c) c' = (None, s) \<and> kv_pairs_rep s h"
    using kv.cut_law[OF assms(2), of "length h"] off by auto
  show "length h < nat (kv_start c') \<Longrightarrow> truncate_to (kv_offset c) c' = (Some DiscardedByTrim, c')"
    unfolding off truncate_to_def by simp
qed

text \<open>
  C29. A snapshot taken before speculation undoes it: whatever a layer was fed since, rolling it
  back restores the attention history and every recurrent state of the snapshot, provided no window
  trim has discarded a position before the snapshot. If one has, the rollback reports that, and a
  snapshot of another kind of layer is refused without touching the cache.
\<close>

theorem rollback_restores:
  assumes "layer_history l h st" and "layer_history l' (h @ us) st'"
  shows "if kind_name l' \<noteq> kind_name l then rollback (rollback_state l) l' = (Some KindMismatch, l')
     else if layer_low l' \<le> length h
       then \<exists>l''. rollback (rollback_state l) l' = (None, l'') \<and> layer_history l'' h st
       else fst (rollback (rollback_state l) l') = Some DiscardedByTrim"
proof (cases "kind_name l' = kind_name l")
  case False
  then show ?thesis by (cases l; cases l') simp_all
next
  case True
  show ?thesis
  proof (cases l)
    case (Attention c)
    with True obtain c' where "l' = Attention c'" by (cases l') auto
    with Attention assms show ?thesis using truncate_to_history[of c h c' us]
      by (cases "nat (kv_start c') \<le> length h") (auto simp: not_le)
  next
    case (GatedDelta c)
    with True obtain c' where "l' = GatedDelta c'" by (cases l') auto
    with GatedDelta assms show ?thesis by simp
  next
    case (Dhara c)
    with True obtain c' where "l' = Dhara c'" by (cases l') auto
    with Dhara assms show ?thesis using truncate_to_history[of "dh_attn c" h "dh_attn c'" us]
      by (cases "nat (kv_start (dh_attn c')) \<le> length h") (auto simp: not_le)
  qed
qed

text \<open>A gated-delta layer whose state was overwritten, and the same snapshot on an attention layer.\<close>

theorem rollback_restores_witness:
  "\<exists>l''. rollback (rollback_state (GatedDelta \<lparr> gd_conv_state = Some (1::nat), gd_recur_state = Some 2 \<rparr>))
      (GatedDelta \<lparr> gd_conv_state = Some 5, gd_recur_state = Some 6 \<rparr> :: (nat, nat) layer_cache) = (None, l'')
    \<and> layer_history l'' [] [Some 1, Some 2]"
  using rollback_restores[of "GatedDelta \<lparr> gd_conv_state = Some (1::nat), gd_recur_state = Some 2 \<rparr> :: (nat, nat) layer_cache"
      "[]" "[Some 1, Some 2]" "GatedDelta \<lparr> gd_conv_state = Some 5, gd_recur_state = Some 6 \<rparr>" "[]" "[Some 5, Some 6]"]
  by simp

text \<open>
  C26. After a speculative append is cut back, later views of the cache never contain a rejected
  row: they end in the newly appended rows and otherwise repeat the committed history.
\<close>

theorem rejected_kv_rows_never_leak:
  assumes "kv_pairs_rep c h" and "us \<noteq> []" and "ws \<noteq> []"
    and "kv_start (snd (kv_append_pairs z us c)) \<le> int (length h)"
  shows "\<exists>v c'. kv_append_pairs z ws
      (snd (truncate_to (int (length h)) (snd (kv_append_pairs z us c)))) = (Some v, c')
    \<and> kv_pairs_rep c' (h @ ws) \<and> suffix v (h @ ws) \<and> suffix ws v"
  by (rule kv.rejected_rows_never_leak) (use assms in auto)

theorem rejected_kv_rows_never_leak_witness:
  "\<exists>v c'. kv_append_pairs 0 [(7, 8)]
      (snd (truncate_to 0 (snd (kv_append_pairs 0 [(1::nat, 2), (3, 4)] kv_new)))) = (Some v, c')
    \<and> suffix v [(7, 8)] \<and> suffix [(7, 8)] v"
  using rejected_kv_rows_never_leak[of "kv_new" "[]" "[(1::nat, 2), (3, 4)]" "[(7, 8)]" 0] kv_rep_new
  by (auto simp: kv_pairs_rep_def kv_append_pairs_def update_and_fetch_def kv_new_def trim_to_window_def
      grow_def attempt_def buffer_capacity_def slice_update_def slice_def grown_capacity_def
      KV_GROWTH_STEP_def Let_def)

end
