(* ===== verification/Prompt_Cache.thy ===== *)
theory Prompt_Cache
  imports Layer_Cache Engine_Types
begin

text \<open>
  The prompt-cache pool (\<open>src/src/engine/prompt_cache.rs\<close>): cached prefixes with their layer caches,
  found by longest exact prefix, bounded by an entry count and a token budget, expired by idle time.
  Instants are the clock readings an operation makes, in the order it makes them; the clock is in
  arbitrary units and \<open>duration_since\<close> saturates at zero as in the standard library.
\<close>

section \<open>Entries and configuration\<close>

record ('a, 'b, 'r) cache_entry =
  ce_ids :: "token_id list"
  ce_caches :: "('a, 'b) layer_cache list"
  ce_fed_images :: nat
  ce_fed_audios :: nat
  ce_last_used :: nat
  ce_pinned :: bool
  ce_mtp :: "('a, 'b, 'r) mtp_state option"

record prompt_cache_config =
  pc_max_entries :: nat
  pc_max_total_tokens :: nat
  pc_ttl :: nat
  pc_min_cacheable_tokens :: nat

record ('a, 'b, 'r) prompt_cache_pool =
  pool_entries :: "('a, 'b, 'r) cache_entry list"
  pool_max_entries :: nat
  pool_max_total_tokens :: nat
  pool_ttl :: nat
  pool_min_cacheable_tokens :: nat

definition DEFAULT_MAX_ENTRIES :: nat where
  "DEFAULT_MAX_ENTRIES = 4"

definition DEFAULT_MAX_TOTAL_TOKENS :: nat where
  "DEFAULT_MAX_TOTAL_TOKENS = 16384"

text \<open>Durations are in seconds here, as the default TTL is given.\<close>

definition default_config :: prompt_cache_config where
  "default_config =
     \<lparr> pc_max_entries = DEFAULT_MAX_ENTRIES, pc_max_total_tokens = DEFAULT_MAX_TOTAL_TOKENS,
       pc_ttl = 5 * 60, pc_min_cacheable_tokens = 8 \<rparr>"

definition with_token_budget :: "nat \<Rightarrow> nat \<Rightarrow> nat \<Rightarrow> nat \<Rightarrow> ('a, 'b, 'r) prompt_cache_pool" where
  "with_token_budget max_entries max_total_tokens ttl min_cacheable_tokens =
     \<lparr> pool_entries = [], pool_max_entries = max_entries, pool_max_total_tokens = max_total_tokens,
       pool_ttl = ttl, pool_min_cacheable_tokens = min_cacheable_tokens \<rparr>"

definition pool_new :: "nat \<Rightarrow> nat \<Rightarrow> nat \<Rightarrow> ('a, 'b, 'r) prompt_cache_pool" where
  "pool_new max_entries ttl min_cacheable_tokens =
     with_token_budget max_entries DEFAULT_MAX_TOTAL_TOKENS ttl min_cacheable_tokens"

definition from_config :: "prompt_cache_config \<Rightarrow> ('a, 'b, 'r) prompt_cache_pool" where
  "from_config c =
     with_token_budget (pc_max_entries c) (pc_max_total_tokens c) (pc_ttl c) (pc_min_cacheable_tokens c)"

definition with_defaults :: "('a, 'b, 'r) prompt_cache_pool" where
  "with_defaults = from_config default_config"


section \<open>Operations\<close>

definition is_prefix :: "token_id list \<Rightarrow> token_id list \<Rightarrow> bool" where
  "is_prefix shorter longer \<longleftrightarrow>
     length shorter \<le> length longer \<and> shorter = take (length shorter) longer"

definition aligned_mtp :: "nat \<Rightarrow> ('a, 'b, 'r) mtp_state option \<Rightarrow> ('a, 'b, 'r) mtp_state option" where
  "aligned_mtp ids_len mtp =
     (case mtp of
        Some state \<Rightarrow> (if mtp_pairs state + 1 \<noteq> ids_len then None else mtp)
      | None \<Rightarrow> mtp)"

definition USIZE_MAX :: nat where
  "USIZE_MAX = 2 ^ 64 - 1"

definition saturating_add :: "nat \<Rightarrow> nat \<Rightarrow> nat" where
  "saturating_add a b = min (a + b) USIZE_MAX"

lemma saturating_add_code [code]:
  "saturating_add a b = (if int a + int b \<le> 18446744073709551615 then a + b else USIZE_MAX)"
  by (auto simp: saturating_add_def USIZE_MAX_def)

definition total_tokens :: "('a, 'b, 'r) cache_entry list \<Rightarrow> nat" where
  "total_tokens entries = foldl (\<lambda>total e. saturating_add total (length (ce_ids e))) 0 entries"

definition evict_expired :: "nat \<Rightarrow> ('a, 'b, 'r) prompt_cache_pool \<Rightarrow> ('a, 'b, 'r) prompt_cache_pool" where
  "evict_expired now p =
     p\<lparr> pool_entries := filter (\<lambda>e. ce_pinned e \<or> now - ce_last_used e < pool_ttl p) (pool_entries p) \<rparr>"

text \<open>\<open>min_by_key\<close> over the entries that satisfy \<open>P\<close>: the index of the first least recently used.\<close>

definition min_last_used :: "(('a, 'b, 'r) cache_entry \<Rightarrow> bool) \<Rightarrow> ('a, 'b, 'r) cache_entry list \<Rightarrow> nat option" where
  "min_last_used P entries =
     foldl (\<lambda>best i. case best of
              None \<Rightarrow> Some i
            | Some b \<Rightarrow> (if ce_last_used (entries ! i) < ce_last_used (entries ! b) then Some i else Some b))
       None (filter (\<lambda>i. P (entries ! i)) [0..<length entries])"

definition victim :: "('a, 'b, 'r) cache_entry list \<Rightarrow> nat option" where
  "victim entries =
     (case min_last_used (\<lambda>e. \<not> ce_pinned e) entries of
        Some i \<Rightarrow> Some i
      | None \<Rightarrow> min_last_used (\<lambda>_. True) entries)"

definition remove_at :: "nat \<Rightarrow> 'x list \<Rightarrow> 'x list" where
  "remove_at i xs = take i xs @ drop (Suc i) xs"

definition over_capacity :: "nat \<Rightarrow> nat \<Rightarrow> ('a, 'b, 'r) cache_entry list \<Rightarrow> bool" where
  "over_capacity max_entries max_total entries \<longleftrightarrow>
     length entries > max_entries \<or> total_tokens entries > max_total"

lemma min_last_used_aux:
  assumes "foldl (\<lambda>best i. case best of None \<Rightarrow> Some i
            | Some b \<Rightarrow> (if f i < f b then Some i else Some b)) acc is = Some r"
  shows "(r \<in> set is \<or> acc = Some r) \<and> (\<forall>j \<in> set is. (f r :: nat) \<le> f j)
    \<and> (\<forall>b. acc = Some b \<longrightarrow> f r \<le> f b)"
  using assms
proof (induction "is" arbitrary: acc)
  case (Cons i "is")
  show ?case
  proof (cases acc)
    case None
    with Cons.prems Cons.IH[of "Some i"] show ?thesis by auto
  next
    case (Some b)
    with Cons.prems Cons.IH[of "if f i < f b then Some i else Some b"] show ?thesis
      by (cases "f i < f b") auto
  qed
qed simp

lemma min_last_used_None_aux:
  "foldl (\<lambda>best i. case best of None \<Rightarrow> Some i
            | Some b \<Rightarrow> (if (f i :: nat) < f b then Some i else Some b)) acc is = None
    \<longleftrightarrow> acc = None \<and> is = []"
  by (induction "is" arbitrary: acc) (auto split: option.splits)

lemma min_last_used_Some:
  assumes "min_last_used P es = Some i"
  shows "i < length es \<and> P (es ! i)
    \<and> (\<forall>j < length es. P (es ! j) \<longrightarrow> ce_last_used (es ! i) \<le> ce_last_used (es ! j))"
  using min_last_used_aux[OF assms[unfolded min_last_used_def]] by auto

lemma min_last_used_None: "min_last_used P es = None \<longleftrightarrow> (\<forall>e \<in> set es. \<not> P e)"
  unfolding min_last_used_def min_last_used_None_aux
  by (auto simp: filter_empty_conv all_set_conv_all_nth)

lemma victim_bound: "victim es = Some i \<Longrightarrow> i < length es"
  by (auto simp: victim_def dest: min_last_used_Some split: option.splits)

lemma victim_None: "victim es = None \<longleftrightarrow> es = []"
proof
  assume "victim es = None"
  then have "min_last_used (\<lambda>_. True) es = None" by (simp add: victim_def split: option.splits)
  then show "es = []" by (cases es) (auto simp: min_last_used_None)
qed (simp add: victim_def min_last_used_def)

lemma victim_Nil: "victim [] = None"
  by (simp add: victim_None)

function evict_loop :: "nat \<Rightarrow> nat \<Rightarrow> ('a, 'b, 'r) cache_entry list \<Rightarrow> ('a, 'b, 'r) cache_entry list" where
  "evict_loop max_entries max_total entries =
     (if over_capacity max_entries max_total entries
      then (case victim entries of
              Some i \<Rightarrow> evict_loop max_entries max_total (remove_at i entries)
            | None \<Rightarrow> entries)
      else entries)"
  by pat_completeness auto

termination
  by (relation "measure (\<lambda>(_, _, es). length es)") (auto simp: remove_at_def dest: victim_bound)

declare evict_loop.simps [simp del]

definition evict_lru_if_over_capacity :: "('a, 'b, 'r) prompt_cache_pool \<Rightarrow> ('a, 'b, 'r) prompt_cache_pool" where
  "evict_lru_if_over_capacity p =
     p\<lparr> pool_entries := evict_loop (pool_max_entries p) (pool_max_total_tokens p) (pool_entries p) \<rparr>"

definition find_best :: "bool \<Rightarrow> token_id list \<Rightarrow> ('a, 'b, 'r) cache_entry list \<Rightarrow> nat option" where
  "find_best require_mtp ids entries =
     foldl (\<lambda>best i. let e = entries ! i in
              if ce_ids e \<noteq> [] \<and> is_prefix (ce_ids e) ids \<and> (\<not> require_mtp \<or> ce_mtp e \<noteq> None)
                 \<and> (case best of Some b \<Rightarrow> length (ce_ids e) > length (ce_ids (entries ! b)) | None \<Rightarrow> True)
              then Some i else best)
       None [0..<length entries]"

definition find_longest_compatible_prefix ::
  "nat \<Rightarrow> nat \<Rightarrow> token_id list \<Rightarrow> bool \<Rightarrow> ('a, 'b, 'r) prompt_cache_pool
    \<Rightarrow> (('a, 'b, 'r) cache_entry \<times> nat) option \<times> ('a, 'b, 'r) prompt_cache_pool" where
  "find_longest_compatible_prefix now_expire now_touch ids require_mtp p =
     (let p = evict_expired now_expire p
      in case find_best require_mtp ids (pool_entries p) of
           None \<Rightarrow> (None, p)
         | Some idx \<Rightarrow>
             (let e = (pool_entries p ! idx)\<lparr> ce_last_used := now_touch \<rparr>
              in (Some (e, length (ce_ids e)), p\<lparr> pool_entries := (pool_entries p)[idx := e] \<rparr>)))"

definition find_longest_prefix ::
  "nat \<Rightarrow> nat \<Rightarrow> token_id list \<Rightarrow> ('a, 'b, 'r) prompt_cache_pool
    \<Rightarrow> (('a, 'b, 'r) cache_entry \<times> nat) option \<times> ('a, 'b, 'r) prompt_cache_pool" where
  "find_longest_prefix now_expire now_touch ids p =
     find_longest_compatible_prefix now_expire now_touch ids False p"

text \<open>\<open>entries.iter_mut().find(|e| is_prefix(&e.ids, &ids))\<close>, updated in place.\<close>

fun update_first :: "('x \<Rightarrow> bool) \<Rightarrow> ('x \<Rightarrow> 'x) \<Rightarrow> 'x list \<Rightarrow> 'x list" where
  "update_first P f [] = []"
| "update_first P f (x # xs) = (if P x then f x # xs else x # update_first P f xs)"

definition insert_or_update ::
  "nat \<Rightarrow> nat \<Rightarrow> token_id list \<Rightarrow> ('a, 'b) layer_cache list \<Rightarrow> nat \<Rightarrow> nat \<Rightarrow> bool
    \<Rightarrow> ('a, 'b, 'r) mtp_state option \<Rightarrow> ('a, 'b, 'r) prompt_cache_pool \<Rightarrow> ('a, 'b, 'r) prompt_cache_pool" where
  "insert_or_update now_expire now ids caches fed_images fed_audios pinned mtp p =
     (let mtp = aligned_mtp (length ids) mtp;
          p = evict_expired now_expire p;
          extends = (\<lambda>e. is_prefix (ce_ids e) ids)
      in if length ids < pool_min_cacheable_tokens p \<and> \<not> list_ex extends (pool_entries p) then p
      else if list_ex extends (pool_entries p) then
        evict_lru_if_over_capacity (p\<lparr> pool_entries :=
          update_first extends
            (\<lambda>e. e\<lparr> ce_ids := ids, ce_caches := caches, ce_fed_images := fed_images,
                    ce_fed_audios := fed_audios, ce_last_used := now,
                    ce_pinned := ce_pinned e \<or> pinned, ce_mtp := mtp \<rparr>)
            (pool_entries p) \<rparr>)
      else
        evict_lru_if_over_capacity (p\<lparr> pool_entries := pool_entries p @
          [\<lparr> ce_ids = ids, ce_caches = caches, ce_fed_images = fed_images, ce_fed_audios = fed_audios,
             ce_last_used = now, ce_pinned = pinned, ce_mtp = mtp \<rparr>] \<rparr>))"

definition pool_len :: "('a, 'b, 'r) prompt_cache_pool \<Rightarrow> nat" where
  "pool_len p = length (pool_entries p)"

definition pool_is_empty :: "('a, 'b, 'r) prompt_cache_pool \<Rightarrow> bool" where
  "pool_is_empty p \<longleftrightarrow> pool_entries p = []"

section \<open>Lookup\<close>

definition compatible :: "bool \<Rightarrow> token_id list \<Rightarrow> ('a, 'b, 'r) cache_entry \<Rightarrow> bool" where
  "compatible require_mtp ids e \<longleftrightarrow>
     ce_ids e \<noteq> [] \<and> is_prefix (ce_ids e) ids \<and> (\<not> require_mtp \<or> ce_mtp e \<noteq> None)"

lemma is_prefix_iff: "is_prefix xs ys \<longleftrightarrow> prefix xs ys"
  unfolding is_prefix_def using take_is_prefix[of "length xs" ys]
  by (metis append_eq_conv_conj prefix_def prefix_length_le)

definition best_upto :: "bool \<Rightarrow> token_id list \<Rightarrow> ('a, 'b, 'r) cache_entry list \<Rightarrow> nat \<Rightarrow> nat option" where
  "best_upto r ids es n =
     foldl (\<lambda>best i. if compatible r ids (es ! i)
                 \<and> (case best of Some b \<Rightarrow> length (ce_ids (es ! i)) > length (ce_ids (es ! b)) | None \<Rightarrow> True)
              then Some i else best) None [0..<n]"

lemma find_best_eq: "find_best r ids es = best_upto r ids es (length es)"
  by (simp add: find_best_def best_upto_def compatible_def Let_def conj_assoc)

lemma best_upto_spec:
  "case best_upto r ids es n of
     None \<Rightarrow> \<forall>j < n. \<not> compatible r ids (es ! j)
   | Some b \<Rightarrow> b < n \<and> compatible r ids (es ! b)
       \<and> (\<forall>j < n. compatible r ids (es ! j) \<longrightarrow> length (ce_ids (es ! j)) \<le> length (ce_ids (es ! b)))
       \<and> (\<forall>j < b. compatible r ids (es ! j) \<longrightarrow> length (ce_ids (es ! j)) < length (ce_ids (es ! b)))"
proof (induction n)
  case (Suc n)
  have step: "best_upto r ids es (Suc n) = (let best = best_upto r ids es n in
      if compatible r ids (es ! n)
         \<and> (case best of Some b \<Rightarrow> length (ce_ids (es ! n)) > length (ce_ids (es ! b)) | None \<Rightarrow> True)
      then Some n else best)"
    unfolding best_upto_def by (simp only: upt_Suc foldl_append foldl.simps Let_def zero_le if_True)
  show ?case using Suc unfolding step
    by (cases "best_upto r ids es n") (auto simp: less_Suc_eq)
qed (simp add: best_upto_def)

lemma find_best_Some:
  assumes "find_best r ids es = Some b"
  shows "b < length es" "compatible r ids (es ! b)"
    "\<And>e. e \<in> set es \<Longrightarrow> compatible r ids e \<Longrightarrow> length (ce_ids e) \<le> length (ce_ids (es ! b))"
    "\<And>j. j < b \<Longrightarrow> compatible r ids (es ! j) \<Longrightarrow> length (ce_ids (es ! j)) < length (ce_ids (es ! b))"
  using best_upto_spec[where r = r and ids = ids and es = es and n = "length es"] assms
  by (auto simp: find_best_eq in_set_conv_nth)

lemma find_best_None: "find_best r ids es = None \<longleftrightarrow> (\<forall>e \<in> set es. \<not> compatible r ids e)"
  using best_upto_spec[where r = r and ids = ids and es = es and n = "length es"]
  by (fastforce simp: find_best_eq in_set_conv_nth split: option.splits)

text \<open>Entries a lookup may still serve: pinned, or idle for less than the TTL.\<close>

definition live :: "nat \<Rightarrow> ('a, 'b, 'r) prompt_cache_pool \<Rightarrow> ('a, 'b, 'r) cache_entry \<Rightarrow> bool" where
  "live now p e \<longleftrightarrow> e \<in> set (pool_entries p) \<and> (ce_pinned e \<or> now - ce_last_used e < pool_ttl p)"

lemma evict_expired_live: "e \<in> set (pool_entries (evict_expired now p)) \<longleftrightarrow> live now p e"
  by (auto simp: evict_expired_def live_def)

text \<open>
  C28. A lookup returns a live entry whose ids are a nonempty prefix of the query (with a prediction
  snapshot when the caller speculates), as long as any such entry, together with exactly its length;
  it returns nothing only if there is none. The only change to the pool besides dropping expired
  entries is the refreshed age of the entry it serves, so incompatible entries keep ageing.
\<close>

theorem lookup_longest_prefix:
  "case find_longest_compatible_prefix t1 t2 ids require_mtp p of
     (None, p') \<Rightarrow> (\<forall>e. live t1 p e \<longrightarrow> \<not> compatible require_mtp ids e) \<and> p' = evict_expired t1 p
   | (Some (e, n), p') \<Rightarrow>
       (\<exists>i < length (pool_entries (evict_expired t1 p)).
          let e0 = pool_entries (evict_expired t1 p) ! i in
          live t1 p e0 \<and> compatible require_mtp ids e0
          \<and> (\<forall>e1. live t1 p e1 \<and> compatible require_mtp ids e1 \<longrightarrow> length (ce_ids e1) \<le> length (ce_ids e0))
          \<and> e = e0\<lparr> ce_last_used := t2 \<rparr> \<and> n = length (ce_ids e) \<and> take n ids = ce_ids e
          \<and> p' = (evict_expired t1 p)\<lparr> pool_entries := (pool_entries (evict_expired t1 p))[i := e] \<rparr>)"
proof (cases "find_best require_mtp ids (pool_entries (evict_expired t1 p))")
  case None
  then have "find_longest_compatible_prefix t1 t2 ids require_mtp p = (None, evict_expired t1 p)"
    by (simp add: find_longest_compatible_prefix_def)
  then show ?thesis using None by (simp add: find_best_None evict_expired_live)
next
  case (Some b)
  note F = find_best_Some[OF Some]
  let ?es = "pool_entries (evict_expired t1 p)"
  have "live t1 p (?es ! b)" using nth_mem[OF F(1)] by (simp only: evict_expired_live)
  moreover have "take (length (ce_ids (?es ! b))) ids = ce_ids (?es ! b)"
    using F(2) by (simp add: compatible_def is_prefix_def)
  moreover have "find_longest_compatible_prefix t1 t2 ids require_mtp p =
      (Some ((?es ! b)\<lparr> ce_last_used := t2 \<rparr>, length (ce_ids (?es ! b))),
       (evict_expired t1 p)\<lparr> pool_entries := ?es[b := (?es ! b)\<lparr> ce_last_used := t2 \<rparr>] \<rparr>)"
    using Some by (simp add: find_longest_compatible_prefix_def Let_def)
  ultimately show ?thesis
    using F(1-3) by (auto simp: Let_def evict_expired_live intro!: exI[of _ b])
qed

lemma find_longest_prefix_eq: "find_longest_prefix t1 t2 ids p = find_longest_compatible_prefix t1 t2 ids False p"
  by (simp add: find_longest_prefix_def)

theorem lookup_longest_prefix_witness:
  "let p = \<lparr> pool_entries =
          [\<lparr> ce_ids = [1, 2], ce_caches = [], ce_fed_images = 0, ce_fed_audios = 0, ce_last_used = 5,
             ce_pinned = False, ce_mtp = None \<rparr>,
           \<lparr> ce_ids = [1, 2, 3], ce_caches = [], ce_fed_images = 0, ce_fed_audios = 0, ce_last_used = 4,
             ce_pinned = False, ce_mtp = None \<rparr> :: (nat, nat, nat) cache_entry],
        pool_max_entries = 4, pool_max_total_tokens = 100, pool_ttl = 7, pool_min_cacheable_tokens = 1 \<rparr>
   in \<exists>e. fst (find_longest_compatible_prefix 10 10 [1, 2, 3, 4] False p) = Some (e, 3) \<and> ce_ids e = [1, 2, 3]"
  using lookup_longest_prefix[where ?t1.0 = 10 and ?t2.0 = 10 and ids = "[1, 2, 3, 4]" and require_mtp = False and p =
      "\<lparr> pool_entries =
          [\<lparr> ce_ids = [1, 2], ce_caches = [], ce_fed_images = 0, ce_fed_audios = 0, ce_last_used = 5,
             ce_pinned = False, ce_mtp = None \<rparr>,
           \<lparr> ce_ids = [1, 2, 3], ce_caches = [], ce_fed_images = 0, ce_fed_audios = 0, ce_last_used = 4,
             ce_pinned = False, ce_mtp = None \<rparr> :: (nat, nat, nat) cache_entry],
        pool_max_entries = 4, pool_max_total_tokens = 100, pool_ttl = 7, pool_min_cacheable_tokens = 1 \<rparr>"]
  by (simp add: find_longest_compatible_prefix_def evict_expired_def find_best_def
      is_prefix_def upt_conv_Cons live_def compatible_def Let_def)

section \<open>Capacity and alignment\<close>

text \<open>What every pool the engine can reach satisfies.\<close>

definition mtp_aligned :: "('a, 'b, 'r) cache_entry \<Rightarrow> bool" where
  "mtp_aligned e \<longleftrightarrow> (\<forall>m. ce_mtp e = Some m \<longrightarrow> mtp_pairs m + 1 = length (ce_ids e))"

definition pool_ok :: "('a, 'b, 'r) prompt_cache_pool \<Rightarrow> bool" where
  "pool_ok p \<longleftrightarrow>
     \<not> over_capacity (pool_max_entries p) (pool_max_total_tokens p) (pool_entries p)
     \<and> (\<forall>e \<in> set (pool_entries p). mtp_aligned e)"

lemma foldl_saturating_mono:
  "a \<le> b \<Longrightarrow> foldl (\<lambda>t e. saturating_add t (f e)) a xs \<le> foldl (\<lambda>t e. saturating_add t (f e)) b xs"
  by (induction xs arbitrary: a b) (auto simp: saturating_add_def min_def)

lemma total_tokens_eq: "total_tokens es = min (sum_list (map (\<lambda>e. length (ce_ids e)) es)) USIZE_MAX"
proof -
  have "foldl (\<lambda>t e. saturating_add t (length (ce_ids e))) (min a USIZE_MAX) es
      = min (a + sum_list (map (\<lambda>e. length (ce_ids e)) es)) USIZE_MAX" for a
  proof (induction es arbitrary: a)
    case (Cons e es)
    have "saturating_add (min a USIZE_MAX) (length (ce_ids e)) = min (a + length (ce_ids e)) USIZE_MAX"
      by (auto simp: saturating_add_def min_def)
    then show ?case using Cons.IH[of "a + length (ce_ids e)"] by (simp add: add.assoc)
  qed simp
  from this[of 0] show ?thesis by (simp add: total_tokens_def)
qed

lemma total_tokens_filter: "total_tokens (filter P es) \<le> total_tokens es"
proof -
  have "sum_list (map (\<lambda>e. length (ce_ids e)) (filter P es)) \<le> sum_list (map (\<lambda>e. length (ce_ids e)) es)"
    by (induction es) auto
  then show ?thesis by (simp add: total_tokens_eq min.coboundedI1 min_le_iff_disj)
qed

lemma over_capacity_filter: "\<not> over_capacity m t es \<Longrightarrow> \<not> over_capacity m t (filter P es)"
  using total_tokens_filter[of P es] length_filter_le[of P es]
  by (meson order.trans not_le over_capacity_def)

lemma evict_loop_fits: "\<not> over_capacity m t (evict_loop m t es)"
proof (induction m t es rule: evict_loop.induct)
  case (1 m t es)
  show ?case
  proof (cases "over_capacity m t es")
    case True
    then obtain i where i: "victim es = Some i"
      using victim_None[of es] by (cases "victim es") (auto simp: over_capacity_def total_tokens_def)
    show ?thesis using 1[OF True i] True i by (subst evict_loop.simps) simp
  qed (subst evict_loop.simps, simp)
qed

lemma evict_loop_subset: "set (evict_loop m t es) \<subseteq> set es"
proof (induction m t es rule: evict_loop.induct)
  case (1 m t es)
  show ?case
  proof (cases "over_capacity m t es \<and> victim es \<noteq> None")
    case True
    then obtain i where "victim es = Some i" by auto
    moreover have "set (remove_at i es) \<subseteq> set es"
      unfolding remove_at_def using set_take_subset set_drop_subset by fastforce
    ultimately show ?thesis using 1 True by (subst evict_loop.simps) auto
  qed (subst evict_loop.simps, auto split: option.splits)
qed

lemma pool_ok_fresh: "pool_ok (with_token_budget m t ttl k)"
  by (simp add: pool_ok_def with_token_budget_def over_capacity_def total_tokens_def)

lemma pool_ok_evict_expired: "pool_ok p \<Longrightarrow> pool_ok (evict_expired now p)"
  by (auto simp: pool_ok_def evict_expired_def over_capacity_filter)

lemma total_tokens_map:
  assumes "map ce_ids es = map ce_ids es'"
  shows "total_tokens es = total_tokens es'"
proof -
  have "map (\<lambda>e. length (ce_ids e)) es = map length (map ce_ids es)" by simp
  also have "\<dots> = map (\<lambda>e. length (ce_ids e)) es'" unfolding assms by simp
  finally show ?thesis by (simp only: total_tokens_eq)
qed

lemma pool_ok_find:
  assumes "pool_ok p"
  shows "pool_ok (snd (find_longest_compatible_prefix t1 t2 ids r p))"
proof (cases "find_best r ids (pool_entries (evict_expired t1 p))")
  case None
  then show ?thesis using pool_ok_evict_expired[OF assms]
    by (simp add: find_longest_compatible_prefix_def)
next
  case (Some b)
  let ?es = "pool_entries (evict_expired t1 p)" and ?e = "(pool_entries (evict_expired t1 p) ! b)\<lparr> ce_last_used := t2 \<rparr>"
  have b: "b < length ?es" by (rule find_best_Some[OF Some])
  have "total_tokens (?es[b := ?e]) = total_tokens ?es"
    by (rule total_tokens_map) (simp add: map_update b list_update_same_conv)
  then have "\<not> over_capacity (pool_max_entries (evict_expired t1 p)) (pool_max_total_tokens (evict_expired t1 p)) (?es[b := ?e])"
    using pool_ok_evict_expired[OF assms] by (simp add: pool_ok_def over_capacity_def)
  moreover have "mtp_aligned ?e"
    using pool_ok_evict_expired[OF assms, of t1] nth_mem[OF b] by (simp add: pool_ok_def mtp_aligned_def)
  then have "\<forall>e \<in> set (?es[b := ?e]). mtp_aligned e"
    using pool_ok_evict_expired[OF assms, of t1] set_update_subset_insert[of ?es b ?e]
    by (fastforce simp: pool_ok_def)
  ultimately show ?thesis
    using Some by (simp add: find_longest_compatible_prefix_def Let_def pool_ok_def)
qed

lemma set_update_first: "set (update_first P f es) \<subseteq> set es \<union> f ` set es"
  by (induction es) auto

lemma aligned_mtp_ok: "aligned_mtp n mtp = Some m \<Longrightarrow> mtp_pairs m + 1 = n"
  by (auto simp: aligned_mtp_def split: option.splits if_splits)

lemma pool_ok_evict_lru:
  assumes "\<forall>e \<in> set (pool_entries p). mtp_aligned e"
  shows "pool_ok (evict_lru_if_over_capacity p)"
proof -
  have "\<forall>e \<in> set (evict_loop m t (pool_entries p)). mtp_aligned e" for m t
    using assms evict_loop_subset by blast
  then show ?thesis by (simp add: pool_ok_def evict_lru_if_over_capacity_def evict_loop_fits)
qed

lemma pool_ok_insert:
  assumes "pool_ok p"
  shows "pool_ok (insert_or_update t1 t2 ids caches fi fa pin mtp p)"
proof -
  let ?p = "evict_expired t1 p" and ?mtp = "aligned_mtp (length ids) mtp"
  let ?ext = "\<lambda>e. is_prefix (ce_ids e) ids"
  let ?upd = "\<lambda>e. e\<lparr> ce_ids := ids, ce_caches := caches, ce_fed_images := fi, ce_fed_audios := fa,
      ce_last_used := t2, ce_pinned := ce_pinned e \<or> pin, ce_mtp := ?mtp \<rparr>"
  have ok: "pool_ok ?p" by (rule pool_ok_evict_expired[OF assms])
  then have al: "\<forall>e \<in> set (pool_entries ?p). mtp_aligned e" by (simp add: pool_ok_def)
  have new: "mtp_aligned (?upd e)" for e by (auto simp: mtp_aligned_def dest: aligned_mtp_ok)
  have "\<forall>e \<in> set (update_first ?ext ?upd (pool_entries ?p)). mtp_aligned e"
    using set_update_first[of ?ext ?upd "pool_entries ?p"] al new by blast
  moreover have "mtp_aligned \<lparr> ce_ids = ids, ce_caches = caches, ce_fed_images = fi, ce_fed_audios = fa,
      ce_last_used = t2, ce_pinned = pin, ce_mtp = ?mtp \<rparr>"
    by (auto simp: mtp_aligned_def dest: aligned_mtp_ok)
  ultimately show ?thesis
    using ok al unfolding insert_or_update_def Let_def by (auto intro!: pool_ok_evict_lru)
qed

text \<open>The calls a session makes on its pool, in any order, from an empty pool.\<close>

inductive reachable_pool :: "nat \<Rightarrow> nat \<Rightarrow> nat \<Rightarrow> nat \<Rightarrow> ('a, 'b, 'r) prompt_cache_pool \<Rightarrow> bool"
  for m t ttl k where
  fresh: "reachable_pool m t ttl k (with_token_budget m t ttl k)"
| looked_up: "reachable_pool m t ttl k p
    \<Longrightarrow> reachable_pool m t ttl k (snd (find_longest_compatible_prefix t1 t2 ids r p))"
| inserted: "reachable_pool m t ttl k p
    \<Longrightarrow> reachable_pool m t ttl k (insert_or_update t1 t2 ids caches fi fa pin mtp p)"

lemma pool_limits [simp]:
  "pool_max_entries (snd (find_longest_compatible_prefix t1 t2 ids r p)) = pool_max_entries p"
  "pool_max_total_tokens (snd (find_longest_compatible_prefix t1 t2 ids r p)) = pool_max_total_tokens p"
  "pool_max_entries (insert_or_update t1 t2 ids caches fi fa pin mtp p) = pool_max_entries p"
  "pool_max_total_tokens (insert_or_update t1 t2 ids caches fi fa pin mtp p) = pool_max_total_tokens p"
  by (simp_all add: find_longest_compatible_prefix_def insert_or_update_def Let_def evict_expired_def
      evict_lru_if_over_capacity_def split: option.splits)

text \<open>
  C21. However the pool is used, it never holds more entries than configured, never more tokens than
  its residency budget, and every prediction snapshot it holds covers exactly one pair fewer than
  its entry has ids: a misaligned snapshot handed in is dropped, never stored.
\<close>

theorem reachable_pool_bounded:
  assumes "reachable_pool m t ttl k p"
  shows "length (pool_entries p) \<le> m \<and> total_tokens (pool_entries p) \<le> t
    \<and> (\<forall>e \<in> set (pool_entries p). \<forall>s. ce_mtp e = Some s \<longrightarrow> mtp_pairs s + 1 = length (ce_ids e))"
proof -
  from assms have "pool_ok p \<and> pool_max_entries p = m \<and> pool_max_total_tokens p = t"
    by induction (auto simp: pool_ok_fresh pool_ok_find pool_ok_insert, simp_all add: with_token_budget_def)
  then show ?thesis by (auto simp: pool_ok_def over_capacity_def mtp_aligned_def)
qed

theorem reachable_pool_bounded_witness:
  "let p = insert_or_update 0 0 [1, 2, 3] [] 0 0 False (Some \<lparr> mtp_caches = [], mtp_pairs = 1, mtp_frontier = 0 \<rparr>)
     (with_token_budget 2 10 5 1 :: (nat, nat, nat) prompt_cache_pool)
   in length (pool_entries p) \<le> 2 \<and> total_tokens (pool_entries p) \<le> 10"
  unfolding Let_def using reachable_pool_bounded[OF reachable_pool.inserted[OF reachable_pool.fresh[of 2 10 5 1]]]
  by blast

section \<open>What an insert leaves for the next lookup\<close>

text \<open>A strictly more recent entry than all others survives eviction as long as it fits alone.\<close>

definition newest_at :: "('a, 'b, 'r) cache_entry \<Rightarrow> ('a, 'b, 'r) cache_entry list \<Rightarrow> ('a, 'b, 'r) cache_entry list
    \<Rightarrow> bool" where
  "newest_at e xs ys \<longleftrightarrow> \<not> ce_pinned e
     \<and> (\<forall>x \<in> set xs \<union> set ys. \<not> ce_pinned x \<and> ce_last_used x < ce_last_used e)"

lemma victim_oldest:
  assumes "newest_at e xs ys" and "victim (xs @ e # ys) = Some i" and "xs @ ys \<noteq> []"
  shows "i \<noteq> length xs"
proof
  assume i: "i = length xs"
  obtain x where x: "x \<in> set xs \<union> set ys" using assms(3) by (cases xs; cases ys) auto
  then obtain j where j: "j < length (xs @ e # ys)" "(xs @ e # ys) ! j = x" by (metis Un_iff in_set_conv_nth list.set_intros(2) set_append)
  have "\<forall>z \<in> set (xs @ e # ys). \<not> ce_pinned z" using assms(1) by (auto simp: newest_at_def)
  then have "min_last_used (\<lambda>e. \<not> ce_pinned e) (xs @ e # ys) \<noteq> None"
    by (simp add: min_last_used_None)
  then have "min_last_used (\<lambda>e. \<not> ce_pinned e) (xs @ e # ys) = Some i"
    using assms(2) by (auto simp: victim_def)
  from min_last_used_Some[OF this] have "ce_last_used e \<le> ce_last_used x"
    using j i x assms(1) by (auto simp: newest_at_def nth_append)
  moreover have "ce_last_used x < ce_last_used e" using x assms(1) unfolding newest_at_def by blast
  ultimately show False by simp
qed

lemma remove_other:
  assumes "i \<noteq> length xs" and "i < length (xs @ e # ys)"
  obtains xs' ys' where "remove_at i (xs @ e # ys) = xs' @ e # ys'" "set xs' \<subseteq> set xs" "set ys' \<subseteq> set ys"
proof (cases "i < length xs")
  case True
  then have "remove_at i (xs @ e # ys) = (take i xs @ drop (Suc i) xs) @ e # ys"
    by (simp add: remove_at_def)
  moreover have "set (take i xs @ drop (Suc i) xs) \<subseteq> set xs"
    using set_take_subset set_drop_subset by fastforce
  ultimately show ?thesis using that by blast
next
  case False
  then obtain k where k: "i = length xs + Suc k" using assms(1) by (metis less_iff_Suc_add linorder_neqE_nat add_Suc_right)
  then have "remove_at i (xs @ e # ys) = xs @ e # (take k ys @ drop (Suc k) ys)"
    by (simp add: remove_at_def)
  moreover have "set (take k ys @ drop (Suc k) ys) \<subseteq> set ys"
    using set_take_subset set_drop_subset by fastforce
  ultimately show ?thesis using that by blast
qed

lemma newest_at_subset: "newest_at e xs ys \<Longrightarrow> set xs' \<subseteq> set xs \<Longrightarrow> set ys' \<subseteq> set ys \<Longrightarrow> newest_at e xs' ys'"
  by (auto simp: newest_at_def)

lemma evict_loop_newest:
  assumes "es = xs @ e # ys" and "newest_at e xs ys"
  shows "(if over_capacity m t [e] then evict_loop m t es = []
          else \<exists>xs' ys'. evict_loop m t es = xs' @ e # ys' \<and> set xs' \<subseteq> set xs \<and> set ys' \<subseteq> set ys)"
  using assms
proof (induction m t es arbitrary: xs ys rule: evict_loop.induct)
  case (1 m t es)
  show ?case
  proof (cases "over_capacity m t es")
    case False
    then have "\<not> over_capacity m t [e]"
      using 1(2) by (auto simp: over_capacity_def total_tokens_eq min_le_iff_disj)
    moreover have "evict_loop m t es = es" using False by (subst evict_loop.simps) simp
    ultimately show ?thesis using 1(2) by auto
  next
    case True
    then obtain i where i: "victim es = Some i" using victim_None[of es] 1(2) by (cases "victim es") auto
    have step: "evict_loop m t es = evict_loop m t (remove_at i es)"
      using True i by (subst evict_loop.simps) simp
    show ?thesis
    proof (cases "xs @ ys = []")
      case True
      then have "es = [e]" "i = 0" using 1(2) victim_bound[OF i] by simp_all
      then show ?thesis using step \<open>over_capacity m t es\<close>
        by (simp add: remove_at_def evict_loop.simps[of m t "[]"] victim_Nil)
    next
      case False
      have ne: "i \<noteq> length xs" using victim_oldest[OF 1(3) _ False] i 1(2) by simp
      obtain xs' ys' where r: "remove_at i es = xs' @ e # ys'" "set xs' \<subseteq> set xs" "set ys' \<subseteq> set ys"
        using remove_other[OF ne] victim_bound[OF i] 1(2) by metis
      show ?thesis
        unfolding step using 1(1)[OF True i r(1) newest_at_subset[OF 1(3) r(2,3)]] r(2,3)
        by (auto split: if_splits) blast+
    qed
  qed
qed

lemma update_first_split:
  assumes "list_ex P es"
  shows "\<exists>xs x ys. es = xs @ x # ys \<and> (\<forall>z \<in> set xs. \<not> P z) \<and> P x \<and> update_first P f es = xs @ f x # ys"
  using assms
proof (induction es)
  case (Cons a es)
  show ?case
  proof (cases "P a")
    case True
    then show ?thesis by (intro exI[of _ "[]"]) auto
  next
    case False
    with Cons obtain xs x ys where "es = xs @ x # ys" "\<forall>z \<in> set xs. \<not> P z" "P x"
      "update_first P f es = xs @ f x # ys" by auto
    with False show ?thesis by (intro exI[of _ "a # xs"] exI[of _ x] exI[of _ ys]) simp
  qed
qed simp

text \<open>The entry an insert leaves, before capacity is enforced.\<close>

lemma insert_entry:
  fixes p :: "('a, 'b, 'r) prompt_cache_pool"
  assumes old: "\<forall>e \<in> set (pool_entries p). \<not> ce_pinned e \<and> ce_last_used e < now"
    and min: "pool_min_cacheable_tokens p \<le> length ids"
  obtains xs ys and e :: "('a, 'b, 'r) cache_entry"
  where "pool_entries (insert_or_update t1 now ids caches fi fa False mtp p)
      = evict_loop (pool_max_entries p) (pool_max_total_tokens p) (xs @ e # ys)"
    "ce_ids e = ids" "ce_caches e = caches" "ce_fed_images e = fi" "ce_fed_audios e = fa"
    "ce_mtp e = aligned_mtp (length ids) mtp" "ce_last_used e = now" "newest_at e xs ys"
    "\<forall>x \<in> set xs. \<not> is_prefix (ce_ids x) ids"
proof -
  let ?p = "evict_expired t1 p" and ?mtp = "aligned_mtp (length ids) mtp"
  let ?ext = "\<lambda>e. is_prefix (ce_ids e) ids"
  let ?upd = "\<lambda>e. e\<lparr> ce_ids := ids, ce_caches := caches, ce_fed_images := fi, ce_fed_audios := fa,
      ce_last_used := now, ce_pinned := ce_pinned e \<or> False, ce_mtp := ?mtp \<rparr>"
  let ?new = "\<lparr> ce_ids = ids, ce_caches = caches, ce_fed_images = fi, ce_fed_audios = fa,
      ce_last_used = now, ce_pinned = False, ce_mtp = ?mtp \<rparr>"
  have same: "pool_max_entries ?p = pool_max_entries p" "pool_max_total_tokens ?p = pool_max_total_tokens p"
    "pool_min_cacheable_tokens ?p = pool_min_cacheable_tokens p"
    by (simp_all add: evict_expired_def)
  have old': "\<forall>e \<in> set (pool_entries ?p). \<not> ce_pinned e \<and> ce_last_used e < now"
    using old by (auto simp: evict_expired_def)
  show thesis
  proof (cases "list_ex ?ext (pool_entries ?p)")
    case True
    from update_first_split[OF this, of ?upd] obtain xs x ys where s:
      "pool_entries ?p = xs @ x # ys" "\<forall>z \<in> set xs. \<not> ?ext z"
      "update_first ?ext ?upd (pool_entries ?p) = xs @ ?upd x # ys" by auto
    have "newest_at (?upd x) xs ys" using old' s(1) by (auto simp: newest_at_def)
    moreover have "pool_entries (insert_or_update t1 now ids caches fi fa False mtp p)
      = evict_loop (pool_max_entries p) (pool_max_total_tokens p) (xs @ ?upd x # ys)"
      using True min same s(3) by (simp add: insert_or_update_def Let_def evict_lru_if_over_capacity_def)
    ultimately show ?thesis using that[of xs "?upd x" ys] s(2) by simp
  next
    case False
    have "newest_at ?new (pool_entries ?p) []" using old' by (auto simp: newest_at_def)
    moreover have "pool_entries (insert_or_update t1 now ids caches fi fa False mtp p)
      = evict_loop (pool_max_entries p) (pool_max_total_tokens p) (pool_entries ?p @ [?new])"
      using False min same by (simp add: insert_or_update_def Let_def evict_lru_if_over_capacity_def)
    ultimately show ?thesis using that[of "pool_entries ?p" ?new "[]"] False by (auto simp: list_ex_iff)
  qed
qed

lemma find_best_first:
  assumes "\<forall>x \<in> set xs. \<not> is_prefix (ce_ids x) ids" and "ce_ids e = ids" and "compatible r ids e"
  shows "find_best r ids (xs @ e # ys) = Some (length xs)"
proof (cases "find_best r ids (xs @ e # ys)")
  case None
  then show ?thesis using assms(3) by (simp add: find_best_None)
next
  case (Some b)
  note F = find_best_Some[OF Some]
  have e: "(xs @ e # ys) ! length xs = e" by simp
  have "\<not> b < length xs"
    using F(2) assms(1) by (metis compatible_def nth_append nth_mem)
  moreover have "length (ce_ids ((xs @ e # ys) ! b)) \<le> length ids"
    using F(2) by (simp add: compatible_def is_prefix_def)
  then have "\<not> length xs < b" using F(4)[of "length xs"] e assms(2,3) by force
  ultimately show ?thesis using Some by simp
qed



text \<open>
  A lineage longer than the whole token budget cannot be cached, and inserting it does not leave
  the other entries alone: eviction removes every older entry first and the new one last, so the
  pool is empty afterwards.
\<close>

theorem oversized_insert_flushes_pool:
  assumes "\<forall>e \<in> set (pool_entries p). \<not> ce_pinned e \<and> ce_last_used e < now"
    and "pool_min_cacheable_tokens p \<le> length ids"
    and "pool_max_total_tokens p < length ids" and "length ids \<le> USIZE_MAX"
  shows "pool_entries (insert_or_update t1 now ids caches fi fa False mtp p) = []"
proof -
  obtain xs ys e where e: "pool_entries (insert_or_update t1 now ids caches fi fa False mtp p)
      = evict_loop (pool_max_entries p) (pool_max_total_tokens p) (xs @ e # ys)"
    "ce_ids e = ids" "newest_at e xs ys"
    by (rule insert_entry[OF assms(1,2)])
  have "over_capacity (pool_max_entries p) (pool_max_total_tokens p) [e]"
    using assms(3,4) e(2) by (simp add: over_capacity_def total_tokens_eq)
  then show ?thesis using evict_loop_newest[OF refl e(3)] e(1) by metis
qed

theorem oversized_insert_flushes_pool_witness:
  "pool_entries (insert_or_update 1 1 [1, 2, 3] [] 0 0 False None
     \<lparr> pool_entries = [\<lparr> ce_ids = [9], ce_caches = [], ce_fed_images = 0, ce_fed_audios = 0,
          ce_last_used = 0, ce_pinned = False, ce_mtp = None \<rparr> :: (nat, nat, nat) cache_entry],
       pool_max_entries = 4, pool_max_total_tokens = 2, pool_ttl = 7, pool_min_cacheable_tokens = 1 \<rparr>) = []"
  by (rule oversized_insert_flushes_pool) (simp_all add: USIZE_MAX_def)

end
