(* ===== verification/Json.thy ===== *)
theory Json
  imports Prelude Complex_Main "HOL-Library.List_Lexorder"
begin

text \<open>
  JSON values as the engine handles them (\<open>serde_json::Value\<close>, whose objects are maps ordered by
  key), the duplicate-rejecting deserialiser, and the exact comparison of numbers and values of
  \<open>src/src/engine/tools.rs\<close>.

  A number is an unsigned 64-bit integer, a negative signed one, or a finite double. A finite double
  stands for a rational number, and the code only compares it, tests its sign and truncates it, so
  the model carries that rational; the two zeros, which no comparison tells apart, coincide.
\<close>

section \<open>Values\<close>

datatype number = PosInt nat | NegInt int | Float rat

datatype json =
    JNull | JBool bool | JNumber number | JString str
  | JArray "json list" | JObject "(str \<times> json) list"

type_synonym object = "(str \<times> json) list"

definition wf_number :: "number \<Rightarrow> bool" where
  "wf_number n =
     (case n of PosInt u \<Rightarrow> u < 2 ^ 64 | NegInt i \<Rightarrow> - (2 ^ 63) \<le> i \<and> i < 0 | Float q \<Rightarrow> True)"

fun wf_json :: "json \<Rightarrow> bool" where
  "wf_json (JNumber n) \<longleftrightarrow> wf_number n"
| "wf_json (JArray xs) \<longleftrightarrow> (\<forall>x \<in> set xs. wf_json x)"
| "wf_json (JObject kvs) \<longleftrightarrow> sorted_wrt (<) (map fst kvs) \<and> (\<forall>kv \<in> set kvs. wf_json (snd kv))"
| "wf_json _ \<longleftrightarrow> True"

text \<open>The ordered map's operations.\<close>

fun obj_insert :: "str \<Rightarrow> json \<Rightarrow> object \<Rightarrow> object" where
  "obj_insert k v [] = [(k, v)]"
| "obj_insert k v ((k', v') # kvs) =
     (if k = k' then (k, v) # kvs
      else if k < k' then (k, v) # (k', v') # kvs
      else (k', v') # obj_insert k v kvs)"

definition obj_get :: "str \<Rightarrow> object \<Rightarrow> json option" where
  "obj_get k kvs = map_of kvs k"

definition obj_contains :: "str \<Rightarrow> object \<Rightarrow> bool" where
  "obj_contains k kvs \<longleftrightarrow> obj_get k kvs \<noteq> None"

definition obj_remove :: "str \<Rightarrow> object \<Rightarrow> json option \<times> object" where
  "obj_remove k kvs = (obj_get k kvs, filter (\<lambda>kv. fst kv \<noteq> k) kvs)"

fun as_object :: "json \<Rightarrow> object option" where
  "as_object (JObject kvs) = Some kvs" | "as_object _ = None"

fun as_array :: "json \<Rightarrow> json list option" where
  "as_array (JArray xs) = Some xs" | "as_array _ = None"

fun as_str :: "json \<Rightarrow> str option" where
  "as_str (JString s) = Some s" | "as_str _ = None"

fun as_bool :: "json \<Rightarrow> bool option" where
  "as_bool (JBool b) = Some b" | "as_bool _ = None"

fun as_number :: "json \<Rightarrow> number option" where
  "as_number (JNumber n) = Some n" | "as_number _ = None"

fun num_as_i64 :: "number \<Rightarrow> int option" where
  "num_as_i64 (PosInt u) = (if int u \<le> 2 ^ 63 - 1 then Some (int u) else None)"
| "num_as_i64 (NegInt i) = Some i"
| "num_as_i64 (Float q) = None"

fun num_as_u64 :: "number \<Rightarrow> nat option" where
  "num_as_u64 (PosInt u) = Some u"
| "num_as_u64 _ = None"

definition as_u64 :: "json \<Rightarrow> nat option" where
  "as_u64 v = (case as_number v of None \<Rightarrow> None | Some n \<Rightarrow> num_as_u64 n)"


section \<open>The duplicate-rejecting deserialiser\<close>

text \<open>
  What the JSON parser hands to \<open>StrictValueVisitor\<close>, object entries in document order. The parser
  itself is a library function, the parameter \<open>from_str\<close> of the definitions that use it.
\<close>

datatype raw_json =
    RUnit | RBool bool | RI64 int | RU64 nat | RF64 "rat option" | RStr str
  | RSeq "raw_json list" | RMap "(str \<times> raw_json) list"

type_synonym json_parser = "str \<Rightarrow> raw_json option"

text \<open>\<open>Value::from\<close> on integers: a negative \<open>i64\<close> keeps its sign, anything else is unsigned.\<close>

definition number_from_i64 :: "int \<Rightarrow> number" where
  "number_from_i64 i = (if i < 0 then NegInt i else PosInt (nat i))"

fun strict_value :: "raw_json \<Rightarrow> json option" and
    strict_seq :: "raw_json list \<Rightarrow> json list option" and
    strict_map :: "(str \<times> raw_json) list \<Rightarrow> object \<Rightarrow> object option" where
  "strict_value RUnit = Some JNull"
| "strict_value (RBool b) = Some (JBool b)"
| "strict_value (RI64 i) = Some (JNumber (number_from_i64 i))"
| "strict_value (RU64 u) = Some (JNumber (PosInt u))"
| "strict_value (RF64 q) = map_option (\<lambda>q. JNumber (Float q)) q"
| "strict_value (RStr s) = Some (JString s)"
| "strict_value (RSeq xs) = map_option JArray (strict_seq xs)"
| "strict_value (RMap kvs) = map_option JObject (strict_map kvs [])"
| "strict_seq [] = Some []"
| "strict_seq (x # xs) =
     (case strict_value x of
        None \<Rightarrow> None
      | Some v \<Rightarrow> map_option (Cons v) (strict_seq xs))"
| "strict_map [] values = Some values"
| "strict_map ((key, x) # kvs) values =
     (if obj_contains key values then None
      else case strict_value x of
        None \<Rightarrow> None
      | Some v \<Rightarrow> strict_map kvs (obj_insert key v values))"

definition parse_strict_json :: "json_parser \<Rightarrow> str \<Rightarrow> json option" where
  "parse_strict_json from_str raw =
     (case from_str raw of None \<Rightarrow> None | Some r \<Rightarrow> strict_value r)"


section \<open>Exact comparison\<close>

datatype ordering = Less | Equal | Greater

definition cmp :: "'a::linorder \<Rightarrow> 'a \<Rightarrow> ordering" where
  "cmp a b = (if a < b then Less else if a = b then Equal else Greater)"

fun reverse_ordering :: "ordering \<Rightarrow> ordering" where
  "reverse_ordering Less = Greater"
| "reverse_ordering Equal = Equal"
| "reverse_ordering Greater = Less"

datatype exact_number = Signed int | Unsigned nat | ExactFloat rat

definition exact_number :: "number \<Rightarrow> exact_number" where
  "exact_number n =
     (case num_as_i64 n of
        Some i \<Rightarrow> Signed i
      | None \<Rightarrow>
          (case num_as_u64 n of
             Some u \<Rightarrow> Unsigned u
           | None \<Rightarrow> (case n of Float q \<Rightarrow> ExactFloat q | PosInt u \<Rightarrow> Unsigned u | NegInt i \<Rightarrow> Signed i)))"

definition float_trunc :: "rat \<Rightarrow> int" where
  "float_trunc q = (if q < 0 then - \<lfloor>- q\<rfloor> else \<lfloor>q\<rfloor>)"

definition float_fract :: "rat \<Rightarrow> rat" where
  "float_fract q = q - of_int (float_trunc q)"

definition signed_float_cmp :: "int \<Rightarrow> rat \<Rightarrow> ordering" where
  "signed_float_cmp integer float =
     (if float < - (2 ^ 63) then Greater
      else if 2 ^ 63 \<le> float then Less
      else case cmp integer (float_trunc float) of
             Equal \<Rightarrow> (if float_fract float > 0 then Less
                       else if float_fract float < 0 then Greater else Equal)
           | other \<Rightarrow> other)"

definition unsigned_float_cmp :: "nat \<Rightarrow> rat \<Rightarrow> ordering" where
  "unsigned_float_cmp integer float =
     (if float < 0 then Greater
      else if 2 ^ 64 \<le> float then Less
      else case cmp integer (nat (float_trunc float)) of
             Equal \<Rightarrow> (if float_fract float > 0 then Less else Equal)
           | other \<Rightarrow> other)"

text \<open>On finite numbers every comparison is defined, so the result is the ordering itself.\<close>

definition number_cmp :: "number \<Rightarrow> number \<Rightarrow> ordering" where
  "number_cmp l r =
     (case (exact_number l, exact_number r) of
        (Signed l, Signed r) \<Rightarrow> cmp l r
      | (Unsigned l, Unsigned r) \<Rightarrow> cmp l r
      | (Signed l, Unsigned r) \<Rightarrow> (if l < 0 then Less else cmp (nat l) r)
      | (Unsigned l, Signed r) \<Rightarrow> (if r < 0 then Greater else cmp l (nat r))
      | (Signed l, ExactFloat r) \<Rightarrow> signed_float_cmp l r
      | (ExactFloat l, Signed r) \<Rightarrow> reverse_ordering (signed_float_cmp r l)
      | (Unsigned l, ExactFloat r) \<Rightarrow> unsigned_float_cmp l r
      | (ExactFloat l, Unsigned r) \<Rightarrow> reverse_ordering (unsigned_float_cmp r l)
      | (ExactFloat l, ExactFloat r) \<Rightarrow> cmp l r)"

lemma size_elem: "x \<in> set xs \<Longrightarrow> size x < size (JArray xs)"
  by (induction xs) auto

lemma size_member: "kv \<in> set kvs \<Longrightarrow> size (snd kv) < size (JObject kvs)"
  by (induction kvs) (auto simp: size_prod_simp)

lemma map_of_member: "map_of kvs k = Some v \<Longrightarrow> size v < size (JObject kvs)"
  using size_member[of "(k, v)" kvs] map_of_SomeD[of kvs k v] by simp

function json_equal :: "json \<Rightarrow> json \<Rightarrow> bool" where
  "json_equal (JNumber l) (JNumber r) \<longleftrightarrow> number_cmp l r = Equal"
| "json_equal (JArray l) (JArray r) \<longleftrightarrow>
     length l = length r \<and> (\<forall>p \<in> set (zip l r). json_equal (fst p) (snd p))"
| "json_equal (JObject l) (JObject r) \<longleftrightarrow>
     length l = length r
     \<and> (\<forall>kv \<in> set l. case obj_get (fst kv) r of None \<Rightarrow> False | Some w \<Rightarrow> json_equal (snd kv) w)"
| "json_equal JNull r \<longleftrightarrow> r = JNull"
| "json_equal (JBool b) r \<longleftrightarrow> r = JBool b"
| "json_equal (JString s) r \<longleftrightarrow> r = JString s"
| "json_equal (JNumber l) JNull \<longleftrightarrow> False"
| "json_equal (JNumber l) (JBool b) \<longleftrightarrow> False"
| "json_equal (JNumber l) (JString s) \<longleftrightarrow> False"
| "json_equal (JNumber l) (JArray r) \<longleftrightarrow> False"
| "json_equal (JNumber l) (JObject r) \<longleftrightarrow> False"
| "json_equal (JArray l) JNull \<longleftrightarrow> False"
| "json_equal (JArray l) (JBool b) \<longleftrightarrow> False"
| "json_equal (JArray l) (JString s) \<longleftrightarrow> False"
| "json_equal (JArray l) (JNumber n) \<longleftrightarrow> False"
| "json_equal (JArray l) (JObject r) \<longleftrightarrow> False"
| "json_equal (JObject l) JNull \<longleftrightarrow> False"
| "json_equal (JObject l) (JBool b) \<longleftrightarrow> False"
| "json_equal (JObject l) (JString s) \<longleftrightarrow> False"
| "json_equal (JObject l) (JNumber n) \<longleftrightarrow> False"
| "json_equal (JObject l) (JArray r) \<longleftrightarrow> False"
  by pat_completeness auto

termination
proof (relation "measure (\<lambda>(l, r). size l)", goal_cases)
  case (2 l r p)
  then have "fst p \<in> set l" using set_zip_leftD[of "fst p" "snd p" l r] by simp
  from size_elem[OF this] show ?case by (simp add: case_prod_beta)
next
  case (3 l r kv w)
  from size_member[OF 3(1)] show ?case by simp
qed simp

section \<open>Comparison is exact\<close>

definition num_val :: "number \<Rightarrow> rat" where
  "num_val n = (case n of PosInt u \<Rightarrow> of_nat u | NegInt i \<Rightarrow> of_int i | Float q \<Rightarrow> q)"

definition exact_val :: "exact_number \<Rightarrow> rat" where
  "exact_val e = (case e of Signed i \<Rightarrow> of_int i | Unsigned u \<Rightarrow> of_nat u | ExactFloat q \<Rightarrow> q)"

lemma exact_number_val: "exact_val (exact_number n) = num_val n"
  by (cases n) (auto simp: exact_number_def exact_val_def num_val_def)

lemma cmp_of_int: "cmp a b = cmp (rat_of_int a) (rat_of_int b)"
  by (simp add: cmp_def)

lemma cmp_of_nat: "cmp a b = cmp (rat_of_nat a) (rat_of_nat b)"
  by (simp add: cmp_def)

lemma cmp_reverse: "reverse_ordering (cmp a b) = cmp b a"
  by (auto simp: cmp_def)

lemma cmp_Equal [simp]: "cmp a b = Equal \<longleftrightarrow> a = b"
  by (auto simp: cmp_def)

text \<open>Comparing with the truncated float and then looking at its fraction decides the comparison.\<close>

lemma trunc_cases:
  obtains (nonneg) "0 \<le> q" "float_trunc q = \<lfloor>q\<rfloor>" "0 \<le> float_fract q" "float_fract q < 1"
      "q = of_int (float_trunc q) + float_fract q" "0 \<le> float_trunc q"
  | (neg) "q < 0" "float_trunc q = \<lceil>q\<rceil>" "-1 < float_fract q" "float_fract q \<le> 0"
      "q = of_int (float_trunc q) + float_fract q" "float_trunc q \<le> 0"
proof (cases "q < 0")
  case True
  then have "float_trunc q = \<lceil>q\<rceil>" by (simp add: float_trunc_def ceiling_def)
  moreover have "of_int \<lceil>q\<rceil> - 1 < q" "q \<le> of_int \<lceil>q\<rceil>"
    using ceiling_correct[of q] by auto
  moreover have "\<lceil>q\<rceil> \<le> 0" using True by (simp add: ceiling_le_iff)
  ultimately show ?thesis using neg True by (simp add: float_fract_def)
next
  case False
  then have "float_trunc q = \<lfloor>q\<rfloor>" by (simp add: float_trunc_def)
  moreover have "of_int \<lfloor>q\<rfloor> \<le> q" "q < of_int \<lfloor>q\<rfloor> + 1"
    using floor_correct[of q] by auto
  ultimately show ?thesis using nonneg False by (simp add: float_fract_def)
qed

lemma signed_float_cmp_exact:
  assumes "- (2 ^ 63) \<le> i" and "i < 2 ^ 63"
  shows "signed_float_cmp i q = cmp (of_int i) q"
proof -
  have lo: "q < - (2 ^ 63) \<Longrightarrow> q < of_int i"
    using assms(1) of_int_le_iff[of "- (2 ^ 63)" i, where ?'a = rat] by simp
  have hi: "2 ^ 63 \<le> q \<Longrightarrow> of_int i < q"
    using assms(2) of_int_less_iff[of i "2 ^ 63", where ?'a = rat] by simp
  have mid: "(case cmp i (float_trunc q) of Equal \<Rightarrow> (if float_fract q > 0 then Less
      else if float_fract q < 0 then Greater else Equal) | other \<Rightarrow> other) = cmp (of_int i) q"
  proof (cases q rule: trunc_cases)
    case nonneg
    have "i < float_trunc q \<Longrightarrow> rat_of_int i < q" "float_trunc q < i \<Longrightarrow> q < rat_of_int i"
      using nonneg(2) by (simp_all add: less_floor_iff floor_less_iff)
    then show ?thesis using nonneg(3,5) by (auto simp: cmp_def)
  next
    case neg
    have "i < float_trunc q \<Longrightarrow> rat_of_int i < q" "float_trunc q < i \<Longrightarrow> q < rat_of_int i"
      using neg(2) by (simp_all add: less_ceiling_iff ceiling_less_iff)
    then show ?thesis using neg(4,5) by (auto simp: cmp_def)
  qed
  show ?thesis
    unfolding signed_float_cmp_def using lo hi mid by (auto simp: cmp_def)
qed

lemma unsigned_float_cmp_exact:
  assumes "u < 2 ^ 64"
  shows "unsigned_float_cmp u q = cmp (of_nat u) q"
proof -
  have lo: "q < 0 \<Longrightarrow> q < of_nat u" by (meson less_le_trans of_nat_0_le_iff)
  have hi: "2 ^ 64 \<le> q \<Longrightarrow> of_nat u < q"
    using assms of_nat_less_iff[of u "2 ^ 64", where ?'a = rat] by simp
  have mid: "(case cmp u (nat (float_trunc q)) of Equal \<Rightarrow> (if float_fract q > 0 then Less else Equal)
      | other \<Rightarrow> other) = cmp (of_nat u) q" if "\<not> q < 0"
  proof (cases q rule: trunc_cases)
    case nonneg
    have n: "int (nat (float_trunc q)) = float_trunc q" using nonneg(6) by simp
    have "rat_of_nat u < q" if "u < nat (float_trunc q)"
    proof -
      have "int u < \<lfloor>q\<rfloor>" using that n nonneg(2) by linarith
      then show ?thesis by (simp add: less_floor_iff)
    qed
    moreover have "q < rat_of_nat u" if "nat (float_trunc q) < u"
    proof -
      have "\<lfloor>q\<rfloor> < int u" using that n nonneg(2) by linarith
      then show ?thesis by (simp add: floor_less_iff)
    qed
    moreover have "u = nat (float_trunc q) \<Longrightarrow> rat_of_nat u = of_int (float_trunc q)"
      using n by (metis of_int_of_nat_eq)
    ultimately show ?thesis using nonneg(3,5) by (auto simp: cmp_def)
  next
    case neg
    then show ?thesis using that by simp
  qed
  show ?thesis
    unfolding unsigned_float_cmp_def using lo hi mid by (auto simp: cmp_def)
qed

definition wf_exact :: "exact_number \<Rightarrow> bool" where
  "wf_exact e = (case e of Signed i \<Rightarrow> - (2 ^ 63) \<le> i \<and> i < 2 ^ 63 | Unsigned u \<Rightarrow> u < 2 ^ 64 | ExactFloat q \<Rightarrow> True)"

lemma wf_exact_number: "wf_number n \<Longrightarrow> wf_exact (exact_number n)"
  by (cases n) (auto simp: wf_number_def wf_exact_def exact_number_def)

lemma number_cmp_val:
  assumes "wf_number l" and "wf_number r"
  shows "number_cmp l r = cmp (num_val l) (num_val r)"
proof -
  have sn: "(if i < 0 then Less else cmp (nat i) u) = cmp (rat_of_int i) (of_nat u)" for i u
  proof (cases "i < 0")
    case True
    then have "rat_of_int i < of_nat u" by (meson less_le_trans of_int_less_0_iff of_nat_0_le_iff)
    then show ?thesis using True by (simp add: cmp_def)
  next
    case False
    then show ?thesis by (simp add: cmp_of_nat)
  qed
  have ns: "(if i < 0 then Greater else cmp u (nat i)) = cmp (of_nat u) (rat_of_int i)" for i u
    using arg_cong[OF sn[of i u], of reverse_ordering] by (auto simp: cmp_reverse split: if_splits)
  have "number_cmp l r = cmp (exact_val (exact_number l)) (exact_val (exact_number r))"
    using wf_exact_number[OF assms(1)] wf_exact_number[OF assms(2)]
    by (cases "exact_number l"; cases "exact_number r")
      (simp_all add: number_cmp_def wf_exact_def exact_val_def sn ns signed_float_cmp_exact
        unsigned_float_cmp_exact cmp_reverse, simp_all add: cmp_def)
  then show ?thesis by (simp add: exact_number_val)
qed

text \<open>
  C39. Numbers of any two representations (unsigned, negative, floating point) are compared by their
  exact values: no conversion to a double rounds a 64-bit integer on the way.
\<close>

theorem number_cmp_exact:
  assumes "wf_number l" and "wf_number r"
  shows "number_cmp l r = cmp (num_val l) (num_val r)"
  using assms by (rule number_cmp_val)

theorem number_cmp_exact_witness:
  "number_cmp (PosInt 9223372036854775807) (Float 9223372036854775808) = Less"
  using number_cmp_exact[of "PosInt 9223372036854775807" "Float 9223372036854775808"]
  by (simp add: wf_number_def num_val_def cmp_def)


section \<open>Equality is equality of canonical forms\<close>

datatype canonical =
    CNull | CBool bool | CNum rat | CStr str | CArr "canonical list" | CObj "(str \<times> canonical) list"

fun canon :: "json \<Rightarrow> canonical" where
  "canon JNull = CNull"
| "canon (JBool b) = CBool b"
| "canon (JNumber n) = CNum (num_val n)"
| "canon (JString s) = CStr s"
| "canon (JArray xs) = CArr (map canon xs)"
| "canon (JObject kvs) = CObj (map (\<lambda>kv. (fst kv, canon (snd kv))) kvs)"

lemma number_cmp_Equal: "wf_number l \<Longrightarrow> wf_number r \<Longrightarrow> number_cmp l r = Equal \<longleftrightarrow> num_val l = num_val r"
  by (simp add: number_cmp_val)

lemma sorted_keys_equal:
  assumes "sorted_wrt (<) (map fst l)" and "sorted_wrt (<) (map fst r)" and "length l = length r"
    and "\<forall>kv \<in> set l. fst kv \<in> set (map fst r)"
  shows "map fst l = (map fst r :: 'k::linorder list)"
proof -
  have d: "distinct (map fst l)" "distinct (map fst r)"
    using assms(1,2) strict_sorted_iff by blast+
  have "set (map fst l) \<subseteq> set (map fst r)" using assms(4) by auto
  moreover have "card (set (map fst l)) = card (set (map fst r))"
    using d assms(3) by (simp only: distinct_card length_map)
  ultimately have "set (map fst l) = set (map fst r)" by (simp add: card_subset_eq)
  then show ?thesis using assms(1,2) by (simp add: strict_sorted_equal)
qed

lemma object_equal:
  assumes "sorted_wrt (<) (map fst l)" and "sorted_wrt (<) (map fst r)"
    and E: "\<And>kv w. kv \<in> set l \<Longrightarrow> map_of r (fst kv) = Some w \<Longrightarrow> E (snd kv) w \<longleftrightarrow> f (snd kv) = f w"
  shows "(length l = length r \<and> (\<forall>kv \<in> set l. case map_of r (fst kv) of None \<Rightarrow> False | Some w \<Rightarrow> E (snd kv) w))
    \<longleftrightarrow> map (\<lambda>kv. (fst kv, f (snd kv))) l = map (\<lambda>kv. (fst (kv :: 'k::linorder \<times> 'v), f (snd kv))) r"
    (is "?L \<longleftrightarrow> ?R")
proof
  have dr: "distinct (map fst r)" using assms(2) strict_sorted_iff by blast
  {
    assume L: ?L
    then have "map_of r (fst kv) \<noteq> None" if "kv \<in> set l" for kv
      using that by (auto split: option.splits)
    then have "\<forall>kv \<in> set l. fst kv \<in> set (map fst r)" by (metis map_of_eq_None_iff image_set)
    with L have keys: "map fst l = map fst r" by (intro sorted_keys_equal assms) simp_all
    show ?R
    proof (rule nth_equalityI)
      fix i assume "i < length (map (\<lambda>kv. (fst kv, f (snd kv))) l)"
      then have i: "i < length l" "i < length r" using L by simp_all
      have k: "fst (l ! i) = fst (r ! i)" using keys i by (metis nth_map)
      then have m: "map_of r (fst (l ! i)) = Some (snd (r ! i))"
        using dr i by (metis map_of_is_SomeI nth_mem prod.collapse)
      then have "E (snd (l ! i)) (snd (r ! i))" using L i by (metis (no_types, lifting) nth_mem option.simps(5))
      then show "map (\<lambda>kv. (fst kv, f (snd kv))) l ! i = map (\<lambda>kv. (fst kv, f (snd kv))) r ! i"
        using E[OF nth_mem[OF i(1)] m] i k by simp
    qed (use L in simp)
  }
  {
    assume R: ?R
    then have len: "length l = length r" by (metis length_map)
    have keys: "map fst l = map fst r" using arg_cong[OF R, of "map fst"] by (simp add: comp_def)
    have "\<exists>w. map_of r (fst kv) = Some w \<and> E (snd kv) w" if kv: "kv \<in> set l" for kv
    proof -
      obtain i where i: "i < length l" "kv = l ! i" using kv by (auto simp: in_set_conv_nth)
      then have k: "i < length r" "fst kv = fst (r ! i)"
        using arg_cong[OF keys, of "\<lambda>x. x ! i"] len by simp_all
      then have m: "map_of r (fst kv) = Some (snd (r ! i))"
        using dr nth_mem[OF k(1)] by (simp add: map_of_eq_Some_iff)
      have "f (snd kv) = f (snd (r ! i))"
        using arg_cong[OF R, of "\<lambda>x. snd (x ! i)"] i k by simp
      then have "E (snd kv) (snd (r ! i))" using E[OF kv m] by blast
      then show ?thesis using m by blast
    qed
    then show ?L using len by fastforce
  }
qed

text \<open>
  C38. Two well-formed values are equal for the schema keywords exactly when they have the same
  canonical form: numbers by value whatever their representation, arrays elementwise, objects as
  maps. The comparison is therefore an equivalence, and no two values it tells apart denote the
  same data.
\<close>

theorem json_equal_canonical:
  assumes "wf_json l" and "wf_json r"
  shows "json_equal l r \<longleftrightarrow> canon l = canon r"
  using assms
proof (induction l r rule: json_equal.induct)
  case (1 l r)
  then show ?case by (simp add: number_cmp_Equal)
next
  case (2 l r)
  have "json_equal (fst p) (snd p) \<longleftrightarrow> canon (fst p) = canon (snd p)" if "p \<in> set (zip l r)" for p
    using 2 that set_zip_leftD[of "fst p" "snd p" l r] set_zip_rightD[of "fst p" "snd p" l r] by simp
  then have "(length l = length r \<and> (\<forall>p \<in> set (zip l r). json_equal (fst p) (snd p)))
    \<longleftrightarrow> list_all2 (\<lambda>v w. canon v = canon w) l r"
    by (simp add: list_all2_iff case_prod_beta)
  also have "\<dots> \<longleftrightarrow> map canon l = map canon r"
    by (auto simp: list_all2_conv_all_nth list_eq_iff_nth_eq)
  finally show ?case by simp
next
  case (3 l r)
  have "json_equal (snd kv) w \<longleftrightarrow> canon (snd kv) = canon w"
    if "kv \<in> set l" "map_of r (fst kv) = Some w" for kv w
  proof -
    have "wf_json w" "wf_json (snd kv)" using 3(2,3) that(1) map_of_SomeD[OF that(2)] by auto
    then show ?thesis using 3(1)[of kv w] that by (simp add: obj_get_def)
  qed
  then show ?case using object_equal[of l r json_equal canon] 3 by (simp add: obj_get_def)
next
  case (4 r) then show ?case by (cases r) auto
next
  case (5 b r) then show ?case by (cases r) auto
next
  case (6 s r) then show ?case by (cases r) auto
qed auto

theorem json_equal_canonical_witness:
  "json_equal (JObject [(''a'', JNumber (PosInt 1)), (''b'', JNull)])
     (JObject [(''a'', JNumber (Float 1)), (''b'', JNull)])"
  using json_equal_canonical[of "JObject [(''a'', JNumber (PosInt 1)), (''b'', JNull)]"
      "JObject [(''a'', JNumber (Float 1)), (''b'', JNull)]"]
  by (simp add: wf_number_def num_val_def less_char_def)

end
