(* ===== verification/Tool_Schema.thy ===== *)
theory Tool_Schema
  imports Json
begin

text \<open>
  The JSON-Schema vocabulary tool arguments are checked against (\<open>src/src/engine/tools.rs\<close>,
  \<open>validate_tool_schema\<close>, \<open>bounded_instance\<close>, \<open>schema_accepts\<close> and their helpers). The mutable
  validation budget is the state threaded through the calls: a validator maps the remaining budget
  to its result and the budget left. A definition that validates one node takes the recursive call
  on its children as the parameter \<open>child\<close>; the recursive functions tie the knot at depth \<open>+ 1\<close>.
\<close>

section \<open>Limits and results\<close>

definition MAX_TOOL_ARGUMENTS :: nat where "MAX_TOOL_ARGUMENTS = 256"
definition MAX_SCHEMA_ENUM_VALUES :: nat where "MAX_SCHEMA_ENUM_VALUES = 256"
definition MAX_SCHEMA_DEPTH :: nat where "MAX_SCHEMA_DEPTH = 64"
definition MAX_SCHEMA_NODES :: nat where "MAX_SCHEMA_NODES = 4096"
definition MAX_INSTANCE_NODES :: nat where "MAX_INSTANCE_NODES = 8192"

text \<open>The error messages, by what they say.\<close>

datatype schema_error =
    StructuralLimits | NotObjectOrBoolean | UnsupportedKeyword str | UnknownType str
  | BadTypeKeyword | TypeEntryNotString | TypeEntriesNotUnique | BadEnum | EnumLimits
  | EnumNotUnique | ConstLimits | MustBeNonemptyArray str | MustBeObject str | MustBeArray str
  | EntriesNotStrings str | EntriesNotUnique str | MustBeNonnegativeInteger str
  | MustBeBoolean str | MustBeNumber str | MustBeString str | MinimumExceedsMaximum
  | AnnotationLimits | InKeyword str schema_error

type_synonym check = "schema_error option"

text \<open>Checks run in order until one fails, with and without the budget.\<close>

fun first_error :: "check list \<Rightarrow> check" where
  "first_error [] = None"
| "first_error (c # cs) = (case c of Some e \<Rightarrow> Some e | None \<Rightarrow> first_error cs)"

fun seq_checks :: "(nat \<Rightarrow> check \<times> nat) list \<Rightarrow> nat \<Rightarrow> check \<times> nat" where
  "seq_checks [] b = (None, b)"
| "seq_checks (c # cs) b = (case c b of (Some e, b) \<Rightarrow> (Some e, b) | (None, b) \<Rightarrow> seq_checks cs b)"

definition pure_check :: "check \<Rightarrow> nat \<Rightarrow> check \<times> nat" where
  "pure_check c b = (c, b)"

definition require :: "bool \<Rightarrow> schema_error \<Rightarrow> check" where
  "require ok e = (if ok then None else Some e)"


section \<open>Bounded instances\<close>

fun bounded_instance :: "json \<Rightarrow> nat \<Rightarrow> nat \<Rightarrow> bool \<times> nat" and
    bounded_elems :: "json list \<Rightarrow> nat \<Rightarrow> nat \<Rightarrow> bool \<times> nat" and
    bounded_members :: "(str \<times> json) list \<Rightarrow> nat \<Rightarrow> nat \<Rightarrow> bool \<times> nat" where
  "bounded_instance v depth nodes =
     (if depth > MAX_SCHEMA_DEPTH then (False, nodes)
      else if nodes = 0 then (False, nodes)
      else case v of
        JArray xs \<Rightarrow> (if length xs \<le> MAX_TOOL_ARGUMENTS then bounded_elems xs (depth + 1) (nodes - 1)
                       else (False, nodes - 1))
      | JObject kvs \<Rightarrow> (if length kvs \<le> MAX_TOOL_ARGUMENTS then bounded_members kvs (depth + 1) (nodes - 1)
                          else (False, nodes - 1))
      | _ \<Rightarrow> (True, nodes - 1))"
| "bounded_elems [] depth nodes = (True, nodes)"
| "bounded_elems (x # xs) depth nodes =
     (case bounded_instance x depth nodes of
        (False, nodes) \<Rightarrow> (False, nodes)
      | (True, nodes) \<Rightarrow> bounded_elems xs depth nodes)"
| "bounded_members [] depth nodes = (True, nodes)"
| "bounded_members ((k, x) # kvs) depth nodes =
     (case bounded_instance x depth nodes of
        (False, nodes) \<Rightarrow> (False, nodes)
      | (True, nodes) \<Rightarrow> bounded_members kvs depth nodes)"

declare bounded_instance.simps [simp del]

definition is_bounded :: "json \<Rightarrow> bool" where
  "is_bounded v = fst (bounded_instance v 0 MAX_INSTANCE_NODES)"


section \<open>Validating a schema\<close>

definition supported_schema_keyword :: "str \<Rightarrow> bool" where
  "supported_schema_keyword k \<longleftrightarrow> k \<in> set
     [''type'', ''enum'', ''const'', ''allOf'', ''anyOf'', ''oneOf'', ''not'', ''if'', ''then'',
      ''else'', ''properties'', ''required'', ''additionalProperties'', ''propertyNames'',
      ''minProperties'', ''maxProperties'', ''dependentRequired'', ''dependentSchemas'',
      ''prefixItems'', ''items'', ''contains'', ''minContains'', ''maxContains'', ''minItems'',
      ''maxItems'', ''uniqueItems'', ''minLength'', ''maxLength'', ''minimum'', ''maximum'',
      ''exclusiveMinimum'', ''exclusiveMaximum'', ''title'', ''description'', ''default'',
      ''examples'', ''$comment'', ''deprecated'', ''readOnly'', ''writeOnly'']"

definition valid_schema_type :: "str \<Rightarrow> bool" where
  "valid_schema_type k \<longleftrightarrow> k \<in> set
     [''null'', ''boolean'', ''object'', ''array'', ''number'', ''string'', ''integer'']"

fun check_kinds :: "json list \<Rightarrow> str list \<Rightarrow> check" where
  "check_kinds [] seen = None"
| "check_kinds (kind # kinds) seen =
     (case as_str kind of
        None \<Rightarrow> Some TypeEntryNotString
      | Some k \<Rightarrow>
          (if \<not> valid_schema_type k then Some (UnknownType k)
           else if k \<in> set seen then Some TypeEntriesNotUnique
           else check_kinds kinds (k # seen)))"

definition validate_schema_types :: "json \<Rightarrow> check" where
  "validate_schema_types types =
     (case as_str types of
        Some kind \<Rightarrow> require (valid_schema_type kind) (UnknownType kind)
      | None \<Rightarrow>
          (case as_array types of
             None \<Rightarrow> Some BadTypeKeyword
           | Some kinds \<Rightarrow>
               (if kinds \<noteq> [] \<and> length kinds \<le> 7 then check_kinds kinds [] else Some BadTypeKeyword)))"

fun check_enum_values :: "json list \<Rightarrow> json list \<Rightarrow> check" where
  "check_enum_values previous [] = None"
| "check_enum_values previous (v # vs) =
     (if \<not> is_bounded v then Some EnumLimits
      else if list_ex (\<lambda>p. json_equal p v) previous then Some EnumNotUnique
      else check_enum_values (previous @ [v]) vs)"

definition validate_enum :: "object \<Rightarrow> check" where
  "validate_enum object =
     (case obj_get ''enum'' object of
        None \<Rightarrow> None
      | Some values \<Rightarrow>
          (case as_array values of
             None \<Rightarrow> Some BadEnum
           | Some vs \<Rightarrow> (if vs \<noteq> [] \<and> length vs \<le> MAX_SCHEMA_ENUM_VALUES then check_enum_values [] vs
                         else Some BadEnum)))"

fun check_strings :: "str \<Rightarrow> bool \<Rightarrow> json list \<Rightarrow> str list \<Rightarrow> check" where
  "check_strings keyword unique [] seen = None"
| "check_strings keyword unique (v # vs) seen =
     (case as_str v of
        None \<Rightarrow> Some (EntriesNotStrings keyword)
      | Some s \<Rightarrow>
          (if unique \<and> s \<in> set seen then Some (EntriesNotUnique keyword)
           else check_strings keyword unique vs (s # seen)))"

definition validate_string_array_keyword :: "object \<Rightarrow> str \<Rightarrow> bool \<Rightarrow> check" where
  "validate_string_array_keyword object keyword unique =
     (case obj_get keyword object of
        None \<Rightarrow> None
      | Some values \<Rightarrow>
          (case as_array values of
             None \<Rightarrow> Some (MustBeArray keyword)
           | Some vs \<Rightarrow> (if length vs \<le> MAX_TOOL_ARGUMENTS then check_strings keyword unique vs []
                         else Some (MustBeArray keyword))))"

definition validate_dependent_required :: "object \<Rightarrow> check" where
  "validate_dependent_required object =
     (case obj_get ''dependentRequired'' object of
        None \<Rightarrow> None
      | Some dependencies \<Rightarrow>
          (case as_object dependencies of
             None \<Rightarrow> Some (MustBeObject ''dependentRequired'')
           | Some deps \<Rightarrow> first_error
               (map (\<lambda>kv. validate_string_array_keyword [(''required'', snd kv)] ''required'' True) deps)))"

definition validate_nonnegative_integer_keywords :: "object \<Rightarrow> str list \<Rightarrow> check" where
  "validate_nonnegative_integer_keywords object keywords = first_error
     (map (\<lambda>k. case obj_get k object of
              None \<Rightarrow> None
            | Some v \<Rightarrow> require (as_u64 v \<noteq> None) (MustBeNonnegativeInteger k)) keywords)"

definition get_u64 :: "str \<Rightarrow> object \<Rightarrow> nat option" where
  "get_u64 k object = (case obj_get k object of None \<Rightarrow> None | Some v \<Rightarrow> as_u64 v)"

definition get_number :: "str \<Rightarrow> object \<Rightarrow> number option" where
  "get_number k object = (case obj_get k object of None \<Rightarrow> None | Some v \<Rightarrow> as_number v)"

definition validate_min_max_pair :: "object \<Rightarrow> str \<Rightarrow> str \<Rightarrow> check" where
  "validate_min_max_pair object minimum maximum =
     (case (get_u64 minimum object, get_u64 maximum object) of
        (Some lo, Some hi) \<Rightarrow> require (lo \<le> hi) MinimumExceedsMaximum
      | _ \<Rightarrow> None)"

definition validate_numeric_bounds :: "object \<Rightarrow> check" where
  "validate_numeric_bounds object = first_error
     (map (\<lambda>(minimum, maximum).
        case (get_number minimum object, get_number maximum object) of
          (Some lo, Some hi) \<Rightarrow> require (number_cmp lo hi \<noteq> Greater) MinimumExceedsMaximum
        | _ \<Rightarrow> None)
       [(''minimum'', ''maximum''), (''exclusiveMinimum'', ''exclusiveMaximum'')])"

definition check_keyword :: "(json \<Rightarrow> bool) \<Rightarrow> (str \<Rightarrow> schema_error) \<Rightarrow> object \<Rightarrow> str \<Rightarrow> check" where
  "check_keyword P err object k =
     (case obj_get k object of None \<Rightarrow> None | Some v \<Rightarrow> require (P v) (err k))"

definition validate_schema_annotations :: "object \<Rightarrow> check" where
  "validate_schema_annotations object = first_error
     (map (check_keyword (\<lambda>v. as_str v \<noteq> None) MustBeString object) [''title'', ''description'', ''$comment'']
      @ [check_keyword (\<lambda>v. as_array v \<noteq> None) MustBeArray object ''examples'']
      @ map (\<lambda>v. require (is_bounded v) AnnotationLimits)
          ((case obj_get ''examples'' object of
              Some (JArray vs) \<Rightarrow> vs | _ \<Rightarrow> [])
           @ (case obj_get ''default'' object of Some v \<Rightarrow> [v] | None \<Rightarrow> []))
      @ map (check_keyword (\<lambda>v. as_bool v \<noteq> None) MustBeBoolean object) [''deprecated'', ''readOnly'', ''writeOnly''])"

text \<open>Validating a list of child schemas, the budget running through them.\<close>

fun each_child :: "(json \<Rightarrow> nat \<Rightarrow> check \<times> nat) \<Rightarrow> json list \<Rightarrow> nat \<Rightarrow> check \<times> nat" where
  "each_child child [] b = (None, b)"
| "each_child child (c # cs) b =
     (case child c b of (Some e, b) \<Rightarrow> (Some e, b) | (None, b) \<Rightarrow> each_child child cs b)"

definition validate_schema_array ::
  "(json \<Rightarrow> nat \<Rightarrow> check \<times> nat) \<Rightarrow> object \<Rightarrow> str \<Rightarrow> nat \<Rightarrow> check \<times> nat" where
  "validate_schema_array child object keyword b =
     (case obj_get keyword object of
        None \<Rightarrow> (None, b)
      | Some schemas \<Rightarrow>
          (case as_array schemas of
             None \<Rightarrow> (Some (MustBeNonemptyArray keyword), b)
           | Some cs \<Rightarrow> (if cs \<noteq> [] then each_child child cs b
                         else (Some (MustBeNonemptyArray keyword), b))))"

definition validate_schema_child ::
  "(json \<Rightarrow> nat \<Rightarrow> check \<times> nat) \<Rightarrow> object \<Rightarrow> str \<Rightarrow> nat \<Rightarrow> check \<times> nat" where
  "validate_schema_child child object keyword b =
     (case obj_get keyword object of
        None \<Rightarrow> (None, b)
      | Some c \<Rightarrow> map_prod (map_option (InKeyword keyword)) id (child c b))"

definition validate_schema_map ::
  "(json \<Rightarrow> nat \<Rightarrow> check \<times> nat) \<Rightarrow> object \<Rightarrow> str \<Rightarrow> nat \<Rightarrow> check \<times> nat" where
  "validate_schema_map child object keyword b =
     (case obj_get keyword object of
        None \<Rightarrow> (None, b)
      | Some children \<Rightarrow>
          (case as_object children of
             None \<Rightarrow> (Some (MustBeObject keyword), b)
           | Some kvs \<Rightarrow> each_child child (map snd kvs) b))"

definition validate_prefix_items ::
  "(json \<Rightarrow> nat \<Rightarrow> check \<times> nat) \<Rightarrow> object \<Rightarrow> nat \<Rightarrow> check \<times> nat" where
  "validate_prefix_items child object b =
     (case obj_get ''prefixItems'' object of
        None \<Rightarrow> (None, b)
      | Some children \<Rightarrow>
          (case as_array children of
             None \<Rightarrow> (Some (MustBeArray ''prefixItems''), b)
           | Some cs \<Rightarrow> each_child child cs b))"

definition validate_schema_object ::
  "(json \<Rightarrow> nat \<Rightarrow> check \<times> nat) \<Rightarrow> object \<Rightarrow> nat \<Rightarrow> check \<times> nat" where
  "validate_schema_object child object = seq_checks
     ([pure_check (first_error (map (\<lambda>kv. require (supported_schema_keyword (fst kv)) (UnsupportedKeyword (fst kv))) object)),
       pure_check (case obj_get ''type'' object of None \<Rightarrow> None | Some types \<Rightarrow> validate_schema_types types),
       pure_check (validate_enum object),
       pure_check (case obj_get ''const'' object of None \<Rightarrow> None | Some v \<Rightarrow> require (is_bounded v) ConstLimits)]
      @ map (validate_schema_array child object) [''allOf'', ''anyOf'', ''oneOf'']
      @ map (validate_schema_child child object)
          [''not'', ''if'', ''then'', ''else'', ''items'', ''contains'', ''propertyNames'', ''additionalProperties'']
      @ map (validate_schema_map child object) [''properties'', ''dependentSchemas'']
      @ [validate_prefix_items child object,
         pure_check (first_error
           ([validate_string_array_keyword object ''required'' True,
             validate_dependent_required object,
             validate_nonnegative_integer_keywords object
               [''minLength'', ''maxLength'', ''minItems'', ''maxItems'', ''minContains'', ''maxContains'',
                ''minProperties'', ''maxProperties''],
             check_keyword (\<lambda>v. as_bool v \<noteq> None) MustBeBoolean object ''uniqueItems'']
            @ map (check_keyword (\<lambda>v. as_number v \<noteq> None) MustBeNumber object)
                [''minimum'', ''maximum'', ''exclusiveMinimum'', ''exclusiveMaximum'']
            @ [validate_min_max_pair object ''minLength'' ''maxLength'',
               validate_min_max_pair object ''minItems'' ''maxItems'',
               validate_min_max_pair object ''minContains'' ''maxContains'',
               validate_min_max_pair object ''minProperties'' ''maxProperties'',
               validate_numeric_bounds object,
               validate_schema_annotations object]))])"

function validate_schema_node :: "json \<Rightarrow> nat \<Rightarrow> nat \<Rightarrow> check \<times> nat" where
  "validate_schema_node schema depth budget =
     (if depth > MAX_SCHEMA_DEPTH \<or> budget = 0 then (Some StructuralLimits, budget)
      else case schema of
        JBool b \<Rightarrow> (None, budget - 1)
      | JObject object \<Rightarrow>
          validate_schema_object (\<lambda>c b. validate_schema_node c (depth + 1) b) object (budget - 1)
      | _ \<Rightarrow> (Some NotObjectOrBoolean, budget - 1))"
  by pat_completeness auto
termination
  by (relation "measure (\<lambda>(_, depth, _). MAX_SCHEMA_DEPTH + 1 - depth)") auto

declare validate_schema_node.simps [simp del]

definition validate_tool_schema :: "json \<Rightarrow> check" where
  "validate_tool_schema schema = fst (validate_schema_node schema 0 MAX_SCHEMA_NODES)"

end
