(* ===== verification/Schema_Accept.thy ===== *)
theory Schema_Accept
  imports Tool_Schema
begin

text \<open>
  Acceptance of an instance by a schema (\<open>schema_accepts\<close> and its helpers in
  \<open>src/src/engine/tools.rs\<close>) with the mutable budget threaded through every call in evaluation
  order, against the budget-free meaning of the vocabulary.
\<close>

section \<open>Acceptance with a budget\<close>

text \<open>A validator on the budget, and the short-circuiting connectives the code writes.\<close>

type_synonym budgeted = "nat \<Rightarrow> bool \<times> nat"

definition pure_test :: "bool \<Rightarrow> budgeted" where
  "pure_test r b = (r, b)"

definition not_test :: "budgeted \<Rightarrow> budgeted" where
  "not_test f b = (case f b of (r, b) \<Rightarrow> (\<not> r, b))"

definition and_test :: "budgeted \<Rightarrow> budgeted \<Rightarrow> budgeted" where
  "and_test f g b = (case f b of (False, b) \<Rightarrow> (False, b) | (True, b) \<Rightarrow> g b)"

fun all_test :: "('x \<Rightarrow> budgeted) \<Rightarrow> 'x list \<Rightarrow> budgeted" where
  "all_test f [] b = (True, b)"
| "all_test f (x # xs) b = (case f x b of (False, b) \<Rightarrow> (False, b) | (True, b) \<Rightarrow> all_test f xs b)"

fun any_test :: "('x \<Rightarrow> budgeted) \<Rightarrow> 'x list \<Rightarrow> budgeted" where
  "any_test f [] b = (False, b)"
| "any_test f (x # xs) b = (case f x b of (True, b) \<Rightarrow> (True, b) | (False, b) \<Rightarrow> any_test f xs b)"

text \<open>\<open>filter(..).count()\<close> looks at every element.\<close>

fun count_test :: "('x \<Rightarrow> budgeted) \<Rightarrow> 'x list \<Rightarrow> nat \<Rightarrow> nat \<times> nat" where
  "count_test f [] b = (0, b)"
| "count_test f (x # xs) b =
     (case f x b of (r, b) \<Rightarrow> (case count_test f xs b of (n, b) \<Rightarrow> ((if r then Suc n else n), b)))"

definition schemas_of :: "str \<Rightarrow> object \<Rightarrow> json list option" where
  "schemas_of keyword object = (case obj_get keyword object of None \<Rightarrow> None | Some v \<Rightarrow> as_array v)"

definition members_of :: "str \<Rightarrow> object \<Rightarrow> object option" where
  "members_of keyword object = (case obj_get keyword object of None \<Rightarrow> None | Some v \<Rightarrow> as_object v)"

definition schema_array_matches :: "json list option \<Rightarrow> (json \<Rightarrow> budgeted) \<Rightarrow> budgeted" where
  "schema_array_matches schemas predicate b =
     (case schemas of None \<Rightarrow> (True, b) | Some cs \<Rightarrow> all_test predicate cs b)"

definition schema_array_any_matches :: "json list option \<Rightarrow> (json \<Rightarrow> budgeted) \<Rightarrow> budgeted" where
  "schema_array_any_matches schemas predicate b =
     (case schemas of None \<Rightarrow> (True, b) | Some cs \<Rightarrow> any_test predicate cs b)"

definition schema_array_one_matches :: "json list option \<Rightarrow> (json \<Rightarrow> budgeted) \<Rightarrow> budgeted" where
  "schema_array_one_matches schemas predicate b =
     (case schemas of
        None \<Rightarrow> (True, b)
      | Some cs \<Rightarrow> (case count_test predicate cs b of (n, b) \<Rightarrow> (n = 1, b)))"

fun num_is_integral :: "number \<Rightarrow> bool" where
  "num_is_integral (Float q) \<longleftrightarrow> float_fract q = 0"
| "num_is_integral _ \<longleftrightarrow> True"

definition schema_type_matches :: "str \<Rightarrow> json \<Rightarrow> bool" where
  "schema_type_matches kind v =
     (if kind = ''null'' then v = JNull
      else if kind = ''boolean'' then as_bool v \<noteq> None
      else if kind = ''object'' then as_object v \<noteq> None
      else if kind = ''array'' then as_array v \<noteq> None
      else if kind = ''number'' then as_number v \<noteq> None
      else if kind = ''string'' then as_str v \<noteq> None
      else if kind = ''integer'' then (case as_number v of None \<Rightarrow> False | Some n \<Rightarrow> num_is_integral n)
      else False)"

definition schema_type_accepts :: "json \<Rightarrow> json \<Rightarrow> bool" where
  "schema_type_accepts types v =
     (case as_str types of
        Some kind \<Rightarrow> schema_type_matches kind v
      | None \<Rightarrow>
          (case as_array types of
             None \<Rightarrow> False
           | Some kinds \<Rightarrow> list_ex (\<lambda>k. case as_str k of None \<Rightarrow> False | Some s \<Rightarrow> schema_type_matches s v) kinds))"

definition within_usize_bounds :: "nat \<Rightarrow> json option \<Rightarrow> json option \<Rightarrow> bool" where
  "within_usize_bounds n minimum maximum \<longleftrightarrow>
     (case minimum of None \<Rightarrow> True | Some v \<Rightarrow> (case as_u64 v of None \<Rightarrow> True | Some lo \<Rightarrow> \<not> n < lo))
     \<and> (case maximum of None \<Rightarrow> True | Some v \<Rightarrow> (case as_u64 v of None \<Rightarrow> True | Some hi \<Rightarrow> \<not> n > hi))"

definition schema_accepts_string :: "object \<Rightarrow> str \<Rightarrow> bool" where
  "schema_accepts_string schema s =
     within_usize_bounds (length (filter (\<lambda>c. \<not> is_cont c) s)) (obj_get ''minLength'' schema) (obj_get ''maxLength'' schema)"

definition schema_accepts_number :: "object \<Rightarrow> number \<Rightarrow> bool" where
  "schema_accepts_number schema n =
     (\<not> ((case get_number ''minimum'' schema of None \<Rightarrow> False | Some m \<Rightarrow> number_cmp n m = Less)
       \<or> (case get_number ''maximum'' schema of None \<Rightarrow> False | Some m \<Rightarrow> number_cmp n m = Greater)
       \<or> (case get_number ''exclusiveMinimum'' schema of None \<Rightarrow> False | Some m \<Rightarrow> number_cmp n m \<in> {Less, Equal})
       \<or> (case get_number ''exclusiveMaximum'' schema of None \<Rightarrow> False | Some m \<Rightarrow> number_cmp n m \<in> {Greater, Equal})))"

text \<open>\<open>required\<close>, and the lists of \<open>dependentRequired\<close>: every entry is a string and a key.\<close>

definition all_keys_present :: "json \<Rightarrow> object \<Rightarrow> bool" where
  "all_keys_present required inst =
     (case as_array required of
        None \<Rightarrow> False
      | Some names \<Rightarrow> \<not> list_ex (\<lambda>n. case as_str n of None \<Rightarrow> True | Some k \<Rightarrow> \<not> obj_contains k inst) names)"

definition schema_accepts_object ::
  "(json \<Rightarrow> json \<Rightarrow> budgeted) \<Rightarrow> object \<Rightarrow> json \<Rightarrow> object \<Rightarrow> budgeted" where
  "schema_accepts_object child schema inst_value inst =
     and_test (pure_test (within_usize_bounds (length inst) (obj_get ''minProperties'' schema) (obj_get ''maxProperties'' schema)
       \<and> (case obj_get ''required'' schema of None \<Rightarrow> True | Some r \<Rightarrow> all_keys_present r inst)))
     (and_test (case obj_get ''propertyNames'' schema of
         None \<Rightarrow> pure_test True
       | Some names \<Rightarrow> all_test (\<lambda>kv. child names (JString (fst kv))) inst)
     (and_test (all_test (\<lambda>kv.
         case (case members_of ''properties'' schema of None \<Rightarrow> None | Some ps \<Rightarrow> obj_get (fst kv) ps) of
           Some property \<Rightarrow> child property (snd kv)
         | None \<Rightarrow>
             (case obj_get ''additionalProperties'' schema of
                Some additional \<Rightarrow> child additional (snd kv)
              | None \<Rightarrow> pure_test True)) inst)
     (and_test (pure_test (case members_of ''dependentRequired'' schema of
         None \<Rightarrow> True
       | Some deps \<Rightarrow> list_all (\<lambda>kv. obj_contains (fst kv) inst \<longrightarrow> all_keys_present (snd kv) inst) deps))
     (case members_of ''dependentSchemas'' schema of
         None \<Rightarrow> pure_test True
       | Some deps \<Rightarrow> all_test (\<lambda>kv. if obj_contains (fst kv) inst then child (snd kv) inst_value
                                     else pure_test True) deps))))"

text \<open>\<open>uniqueItems\<close>: no element equals an earlier one.\<close>

fun has_duplicate :: "json list \<Rightarrow> json list \<Rightarrow> bool" where
  "has_duplicate previous [] = False"
| "has_duplicate previous (v # vs) =
     (list_ex (\<lambda>p. json_equal p v) previous \<or> has_duplicate (previous @ [v]) vs)"

definition U64_MAX :: nat where "U64_MAX = 2 ^ 64 - 1"

definition schema_accepts_array ::
  "(json \<Rightarrow> json \<Rightarrow> budgeted) \<Rightarrow> object \<Rightarrow> json list \<Rightarrow> budgeted" where
  "schema_accepts_array child schema inst =
     (let prefix_items = (case schemas_of ''prefixItems'' schema of None \<Rightarrow> [] | Some cs \<Rightarrow> cs) in
      and_test (pure_test (within_usize_bounds (length inst) (obj_get ''minItems'' schema) (obj_get ''maxItems'' schema)
        \<and> \<not> (obj_get ''uniqueItems'' schema = Some (JBool True) \<and> has_duplicate [] inst)))
      (and_test (all_test (\<lambda>p. child (snd p) (fst p)) (zip inst prefix_items))
      (and_test (case obj_get ''items'' schema of
          None \<Rightarrow> pure_test True
        | Some items \<Rightarrow> all_test (child items) (drop (length prefix_items) inst))
      (case obj_get ''contains'' schema of
          None \<Rightarrow> pure_test True
        | Some c \<Rightarrow> (\<lambda>b. case count_test (child c) inst b of (matches, b) \<Rightarrow>
            (let minimum = (case get_u64 ''minContains'' schema of None \<Rightarrow> 1 | Some n \<Rightarrow> n);
                 maximum = (case get_u64 ''maxContains'' schema of None \<Rightarrow> U64_MAX | Some n \<Rightarrow> n)
             in (if matches > U64_MAX then False else \<not> (matches < minimum \<or> matches > maximum), b)))))))"

definition schema_accepts_node ::
  "(json \<Rightarrow> json \<Rightarrow> budgeted) \<Rightarrow> object \<Rightarrow> json \<Rightarrow> budgeted" where
  "schema_accepts_node child object inst =
     and_test (pure_test
       (\<not> ((case obj_get ''const'' object of None \<Rightarrow> False | Some expected \<Rightarrow> \<not> json_equal expected inst)
         \<or> (case obj_get ''enum'' object of
              None \<Rightarrow> False
            | Some values \<Rightarrow> (case as_array values of
                None \<Rightarrow> True | Some vs \<Rightarrow> \<not> list_ex (\<lambda>v. json_equal v inst) vs))
         \<or> (case obj_get ''type'' object of None \<Rightarrow> False | Some types \<Rightarrow> \<not> schema_type_accepts types inst))))
     (and_test (schema_array_matches (schemas_of ''allOf'' object) (\<lambda>c. child c inst))
     (and_test (schema_array_any_matches (schemas_of ''anyOf'' object) (\<lambda>c. child c inst))
     (and_test (schema_array_one_matches (schemas_of ''oneOf'' object) (\<lambda>c. child c inst))
     (and_test (case obj_get ''not'' object of None \<Rightarrow> pure_test True | Some c \<Rightarrow> not_test (child c inst))
     (and_test (case obj_get ''if'' object of
         None \<Rightarrow> pure_test True
       | Some condition \<Rightarrow> (\<lambda>b. case child condition inst b of (condition_matches, b) \<Rightarrow>
           (case obj_get (if condition_matches then ''then'' else ''else'') object of
              None \<Rightarrow> (True, b)
            | Some c \<Rightarrow> child c inst b)))
     (case inst of
        JObject values \<Rightarrow> schema_accepts_object child object inst values
      | JArray values \<Rightarrow> schema_accepts_array child object values
      | JString s \<Rightarrow> pure_test (schema_accepts_string object s)
      | JNumber n \<Rightarrow> pure_test (schema_accepts_number object n)
      | _ \<Rightarrow> pure_test True))))))"

function schema_accepts :: "json \<Rightarrow> json \<Rightarrow> nat \<Rightarrow> budgeted" where
  "schema_accepts schema inst depth budget =
     (if depth > MAX_SCHEMA_DEPTH \<or> budget = 0 then (False, budget)
      else case schema of
        JBool accepts \<Rightarrow> (accepts, budget - 1)
      | JObject object \<Rightarrow>
          schema_accepts_node (\<lambda>c i b. schema_accepts c i (depth + 1) b) object inst (budget - 1)
      | _ \<Rightarrow> (False, budget - 1))"
  by pat_completeness auto
termination
  by (relation "measure (\<lambda>(_, _, depth, _). MAX_SCHEMA_DEPTH + 1 - depth)") auto

declare schema_accepts.simps [simp del]

definition arguments_satisfy_schema :: "json \<Rightarrow> json \<Rightarrow> bool" where
  "arguments_satisfy_schema schema arguments =
     (if validate_tool_schema schema \<noteq> None \<or> as_object arguments = None then False
      else if \<not> fst (bounded_instance arguments 0 MAX_INSTANCE_NODES) then False
      else fst (schema_accepts schema arguments 0 MAX_INSTANCE_NODES))"

end
