(* ===== verification/Schema_Meaning.thy ===== *)
theory Schema_Meaning
  imports Schema_Accept
begin

text \<open>
  The budget-free meaning of the schema vocabulary, and the proof that the budgeted acceptance of
  \<open>src/src/engine/tools.rs\<close> computes it whenever the budget is not used up.
\<close>

section \<open>Meaning\<close>

definition constant_ok :: "object \<Rightarrow> json \<Rightarrow> bool" where
  "constant_ok object v \<longleftrightarrow>
     (case obj_get ''const'' object of None \<Rightarrow> True | Some c \<Rightarrow> json_equal c v)
     \<and> (case obj_get ''enum'' object of
          None \<Rightarrow> True | Some vs \<Rightarrow> \<exists>xs. vs = JArray xs \<and> (\<exists>x \<in> set xs. json_equal x v))
     \<and> (case obj_get ''type'' object of None \<Rightarrow> True | Some t \<Rightarrow> schema_type_accepts t v)"

definition sizes_ok :: "object \<Rightarrow> json \<Rightarrow> bool" where
  "sizes_ok object v \<longleftrightarrow>
     (case v of
        JObject vs \<Rightarrow>
          within_usize_bounds (length vs) (obj_get ''minProperties'' object) (obj_get ''maxProperties'' object)
          \<and> (case obj_get ''required'' object of None \<Rightarrow> True | Some r \<Rightarrow> all_keys_present r vs)
          \<and> (case members_of ''dependentRequired'' object of
               None \<Rightarrow> True
             | Some deps \<Rightarrow> \<forall>kv \<in> set deps. obj_contains (fst kv) vs \<longrightarrow> all_keys_present (snd kv) vs)
      | JArray vs \<Rightarrow>
          within_usize_bounds (length vs) (obj_get ''minItems'' object) (obj_get ''maxItems'' object)
          \<and> (obj_get ''uniqueItems'' object = Some (JBool True) \<longrightarrow> \<not> has_duplicate [] vs)
      | JString s \<Rightarrow> schema_accepts_string object s
      | JNumber n \<Rightarrow> schema_accepts_number object n
      | _ \<Rightarrow> True)"

text \<open>The schema a member of an object instance is checked against.\<close>

definition member_schema :: "object \<Rightarrow> str \<Rightarrow> json option" where
  "member_schema object k =
     (case (case members_of ''properties'' object of None \<Rightarrow> None | Some ps \<Rightarrow> obj_get k ps) of
        Some c \<Rightarrow> Some c
      | None \<Rightarrow> obj_get ''additionalProperties'' object)"

definition item_schemas :: "object \<Rightarrow> json list" where
  "item_schemas object = (case schemas_of ''prefixItems'' object of None \<Rightarrow> [] | Some cs \<Rightarrow> cs)"

text \<open>Every schema a schema object holds, in any applicator keyword.\<close>

definition opt_list :: "'x list option \<Rightarrow> 'x list" where
  "opt_list xs = (case xs of None \<Rightarrow> [] | Some ys \<Rightarrow> ys)"

definition opt_elem :: "'x option \<Rightarrow> 'x list" where
  "opt_elem x = (case x of None \<Rightarrow> [] | Some y \<Rightarrow> [y])"

lemma in_opt_list [simp]: "y \<in> set (opt_list xs) \<longleftrightarrow> (\<exists>ys. xs = Some ys \<and> y \<in> set ys)"
  by (cases xs) (auto simp: opt_list_def)

lemma in_image_opt_list: "y \<in> f ` set (opt_list xs) \<longleftrightarrow> (\<exists>ys. xs = Some ys \<and> y \<in> f ` set ys)"
  by (cases xs) (auto simp: opt_list_def)

lemma in_opt_elem [simp]: "y \<in> set (opt_elem x) \<longleftrightarrow> x = Some y"
  by (cases x) (auto simp: opt_elem_def)

definition array_keys :: "str list" where
  "array_keys = [''allOf'', ''anyOf'', ''oneOf'', ''prefixItems'']"

definition child_keys :: "str list" where
  "child_keys = [''not'', ''if'', ''then'', ''else'', ''items'', ''contains'', ''propertyNames'', ''additionalProperties'']"

definition map_keys :: "str list" where
  "map_keys = [''properties'', ''dependentSchemas'']"

lemmas keyword_defs = array_keys_def child_keys_def map_keys_def

definition subschemas :: "object \<Rightarrow> json list" where
  "subschemas object =
     concat (map (\<lambda>k. opt_list (schemas_of k object)) array_keys)
     @ concat (map (\<lambda>k. opt_elem (obj_get k object)) child_keys)
     @ concat (map (\<lambda>k. map snd (opt_list (members_of k object))) map_keys)"

lemma subschemas_cases:
  assumes "c \<in> set (subschemas object)"
  obtains (arr) k cs where "k \<in> set array_keys" "schemas_of k object = Some cs" "c \<in> set cs"
  | (one) k where "k \<in> set child_keys" "obj_get k object = Some c"
  | (mp) k kvs where "k \<in> set map_keys" "members_of k object = Some kvs" "c \<in> snd ` set kvs"
proof -
  have "(\<exists>k \<in> set array_keys. c \<in> set (opt_list (schemas_of k object)))
    \<or> (\<exists>k \<in> set child_keys. c \<in> set (opt_elem (obj_get k object)))
    \<or> (\<exists>k \<in> set map_keys. c \<in> snd ` set (opt_list (members_of k object)))"
    using assms unfolding subschemas_def by simp
  then show ?thesis unfolding in_image_opt_list in_opt_list in_opt_elem using that by blast
qed

lemma subschemas_size:
  assumes "c \<in> set (subschemas object)"
  shows "size c < size (JObject object)"
proof -
  have g: "size v < size (JObject object)" if "obj_get k object = Some v" for k v
    using that unfolding obj_get_def by (rule map_of_member)
  have a: "size d < size (JObject object)" if s: "schemas_of k object = Some cs" "d \<in> set cs" for k cs d
  proof -
    obtain v where v: "obj_get k object = Some v" "as_array v = Some cs"
      using s(1) by (auto simp: schemas_of_def split: option.splits)
    then have "v = JArray cs" by (cases v) auto
    then show ?thesis using g[OF v(1)] size_elem[OF s(2)] by simp
  qed
  have m: "size (snd kv) < size (JObject object)" if s: "members_of k object = Some kvs" "kv \<in> set kvs" for k kvs kv
  proof -
    obtain v where v: "obj_get k object = Some v" "as_object v = Some kvs"
      using s(1) by (auto simp: members_of_def split: option.splits)
    then have "v = JObject kvs" by (cases v) auto
    then show ?thesis using g[OF v(1)] size_member[OF s(2)] by simp
  qed
  show ?thesis using assms by (cases rule: subschemas_cases) (auto simp del: json.size dest: a g m)
qed

lemma subschemasI:
  "k \<in> set array_keys \<Longrightarrow> schemas_of k object = Some cs \<Longrightarrow> c \<in> set cs \<Longrightarrow> c \<in> set (subschemas object)"
  "k \<in> set child_keys \<Longrightarrow> obj_get k object = Some c \<Longrightarrow> c \<in> set (subschemas object)"
  "k \<in> set map_keys \<Longrightarrow> members_of k object = Some kvs \<Longrightarrow> kv \<in> set kvs \<Longrightarrow> snd kv \<in> set (subschemas object)"
  unfolding subschemas_def by (simp_all add: in_image_opt_list) blast+

lemma mem_keys [simp]:
  "k \<in> set array_keys \<longleftrightarrow> k \<in> {''allOf'', ''anyOf'', ''oneOf'', ''prefixItems''}"
  "k \<in> set child_keys \<longleftrightarrow>
     k \<in> {''not'', ''if'', ''then'', ''else'', ''items'', ''contains'', ''propertyNames'', ''additionalProperties''}"
  "k \<in> set map_keys \<longleftrightarrow> k \<in> {''properties'', ''dependentSchemas''}"
  by (simp_all only: keyword_defs list.set)

lemma schemas_of_sub:
  assumes "schemas_of k object = Some cs" and "c \<in> set cs"
    and "k \<in> set array_keys"
  shows "c \<in> set (subschemas object)"
  by (rule subschemasI(1)) (rule assms)+

lemma obj_get_sub:
  assumes "obj_get k object = Some c"
    and "k \<in> set child_keys"
  shows "c \<in> set (subschemas object)"
  by (rule subschemasI(2)) (rule assms)+

lemma members_of_sub:
  assumes "members_of k object = Some kvs" and "kv \<in> set kvs" and "k \<in> set map_keys"
  shows "snd kv \<in> set (subschemas object)"
  by (rule subschemasI(3)) (rule assms)+

lemma member_schema_sub:
  assumes "member_schema object k = Some c"
  shows "c \<in> set (subschemas object)"
proof (cases "case members_of ''properties'' object of None \<Rightarrow> None | Some ps \<Rightarrow> obj_get k ps")
  case None
  then show ?thesis using assms obj_get_sub[of "''additionalProperties''" object c] by (simp add: member_schema_def)
next
  case (Some d)
  then obtain ps where "members_of ''properties'' object = Some ps" "map_of ps k = Some c"
    using assms by (auto simp: member_schema_def obj_get_def split: option.splits)
  then show ?thesis using members_of_sub[of "''properties''" object ps "(k, c)"] map_of_SomeD[of ps k c] by simp
qed

lemma item_schemas_sub: "c \<in> set (item_schemas object) \<Longrightarrow> c \<in> set (subschemas object)"
  using schemas_of_sub[of "''prefixItems''" object] by (auto simp: item_schemas_def opt_list_def[symmetric])

text \<open>What a schema object says of an instance, given what its subschemas say.\<close>

definition combined_ok :: "(json \<Rightarrow> json \<Rightarrow> bool) \<Rightarrow> object \<Rightarrow> json \<Rightarrow> bool" where
  "combined_ok A object v \<longleftrightarrow>
     (\<forall>cs. schemas_of ''allOf'' object = Some cs \<longrightarrow> (\<forall>c \<in> set cs. A c v))
     \<and> (\<forall>cs. schemas_of ''anyOf'' object = Some cs \<longrightarrow> (\<exists>c \<in> set cs. A c v))
     \<and> (\<forall>cs. schemas_of ''oneOf'' object = Some cs \<longrightarrow> length (filter (\<lambda>c. A c v) cs) = 1)
     \<and> (\<forall>c. obj_get ''not'' object = Some c \<longrightarrow> \<not> A c v)
     \<and> (\<forall>c. obj_get ''if'' object = Some c \<longrightarrow>
          (\<forall>d. obj_get (if A c v then ''then'' else ''else'') object = Some d \<longrightarrow> A d v))"

definition members_ok :: "(json \<Rightarrow> json \<Rightarrow> bool) \<Rightarrow> object \<Rightarrow> json \<Rightarrow> object \<Rightarrow> bool" where
  "members_ok A object v vs \<longleftrightarrow>
     (\<forall>kv \<in> set vs.
        (\<forall>c. obj_get ''propertyNames'' object = Some c \<longrightarrow> A c (JString (fst kv)))
        \<and> (\<forall>c. member_schema object (fst kv) = Some c \<longrightarrow> A c (snd kv)))
     \<and> (\<forall>deps. members_of ''dependentSchemas'' object = Some deps \<longrightarrow>
          (\<forall>kv \<in> set deps. obj_contains (fst kv) vs \<longrightarrow> A (snd kv) v))"

definition items_ok :: "(json \<Rightarrow> json \<Rightarrow> bool) \<Rightarrow> object \<Rightarrow> json list \<Rightarrow> bool" where
  "items_ok A object vs \<longleftrightarrow>
     (\<forall>p \<in> set (zip vs (item_schemas object)). A (snd p) (fst p))
     \<and> (\<forall>c. obj_get ''items'' object = Some c \<longrightarrow>
          (\<forall>x \<in> set (drop (length (item_schemas object)) vs). A c x))
     \<and> (\<forall>c. obj_get ''contains'' object = Some c \<longrightarrow>
          (let n = length (filter (A c) vs) in
           (case get_u64 ''minContains'' object of None \<Rightarrow> 1 | Some m \<Rightarrow> m) \<le> n
           \<and> n \<le> (case get_u64 ''maxContains'' object of None \<Rightarrow> U64_MAX | Some m \<Rightarrow> m)
           \<and> n \<le> U64_MAX))"

definition object_meaning :: "(json \<Rightarrow> json \<Rightarrow> bool) \<Rightarrow> object \<Rightarrow> json \<Rightarrow> bool" where
  "object_meaning A object v \<longleftrightarrow>
     constant_ok object v \<and> sizes_ok object v \<and> combined_ok A object v
     \<and> (case v of JObject vs \<Rightarrow> members_ok A object v vs | JArray vs \<Rightarrow> items_ok A object vs | _ \<Rightarrow> True)"

text \<open>It only depends on what the subschemas say.\<close>

lemma combined_ok_mono:
  assumes AB: "\<And>c w. c \<in> set (subschemas object) \<Longrightarrow> A c w = B c w"
  shows "combined_ok A object v \<Longrightarrow> combined_ok B object v"
proof -
  have a: "A c w = B c w" if "schemas_of k object = Some cs" "c \<in> set cs"
      "k \<in> set array_keys" for k cs c w
    using AB schemas_of_sub[OF that] by blast
  have o: "A c w = B c w" if "obj_get k object = Some c"
      "k \<in> set child_keys" for k c w
    using AB obj_get_sub[OF that] by blast
  have f: "filter (\<lambda>c. A c v) cs = filter (\<lambda>c. B c v) cs" if "schemas_of ''oneOf'' object = Some cs" for cs
    using a[OF that] by (intro filter_cong) auto
  assume c: "combined_ok A object v"
  show "combined_ok B object v"
    unfolding combined_ok_def
  proof (intro conjI allI impI)
    fix cs assume s: "schemas_of ''allOf'' object = Some cs"
    then show "\<forall>c \<in> set cs. B c v" using c a[OF s] by (simp add: combined_ok_def)
  next
    fix cs assume s: "schemas_of ''anyOf'' object = Some cs"
    then show "\<exists>c \<in> set cs. B c v" using c a[OF s] by (auto simp: combined_ok_def)
  next
    fix cs assume s: "schemas_of ''oneOf'' object = Some cs"
    then show "length (filter (\<lambda>c. B c v) cs) = 1" using c f[OF s] by (simp add: combined_ok_def)
  next
    fix d assume s: "obj_get ''not'' object = Some d"
    then show "\<not> B d v" using c o[OF s] by (simp add: combined_ok_def)
  next
    fix d e assume s: "obj_get ''if'' object = Some d"
      and t: "obj_get (if B d v then ''then'' else ''else'') object = Some e"
    have "A d v = B d v" "A e v = B e v" using o[OF s] o[OF t] by simp_all
    then show "B e v" using c s t by (simp add: combined_ok_def)
  qed
qed

lemma members_ok_mono:
  assumes AB: "\<And>c w. c \<in> set (subschemas object) \<Longrightarrow> A c w = B c w"
  shows "members_ok A object v vs \<Longrightarrow> members_ok B object v vs"
  using AB obj_get_sub[of "''propertyNames''" object] member_schema_sub[of object]
    members_of_sub[of "''dependentSchemas''" object]
  unfolding members_ok_def by simp

lemma items_ok_mono:
  assumes AB: "\<And>c w. c \<in> set (subschemas object) \<Longrightarrow> A c w = B c w"
  shows "items_ok A object vs \<Longrightarrow> items_ok B object vs"
proof -
  have "A (snd p) (fst p) = B (snd p) (fst p)" if "p \<in> set (zip vs (item_schemas object))" for p
    using that set_zip_rightD[of "fst p" "snd p"] item_schemas_sub AB by simp
  moreover have "A c = B c" if k: "obj_get k object = Some c" "k \<in> {''items'', ''contains''}" for k c
  proof -
    have "c \<in> set (subschemas object)" by (rule obj_get_sub[OF k(1)]) (use k(2) in auto)
    then show ?thesis using AB by blast
  qed
  ultimately show "items_ok A object vs \<Longrightarrow> items_ok B object vs"
    unfolding items_ok_def by simp
qed

lemma object_meaning_cong [fundef_cong]:
  assumes "object = object'" and "v = v'"
    and AB: "\<And>c w. c \<in> set (subschemas object') \<Longrightarrow> A c w = B c w"
  shows "object_meaning A object v = object_meaning B object' v'"
proof -
  note BA = AB[symmetric]
  have "combined_ok A object' v' = combined_ok B object' v'"
    using combined_ok_mono[of object' A B v', OF AB] combined_ok_mono[of object' B A v', OF BA] by blast
  moreover have "members_ok A object' w vs = members_ok B object' w vs" for w vs
    using members_ok_mono[of object' A B w vs, OF AB] members_ok_mono[of object' B A w vs, OF BA] by blast
  moreover have "items_ok A object' vs = items_ok B object' vs" for vs
    using items_ok_mono[of object' A B vs, OF AB] items_ok_mono[of object' B A vs, OF BA] by blast
  ultimately show ?thesis using assms(1,2) by (simp add: object_meaning_def split: json.splits)
qed

function accepts :: "json \<Rightarrow> json \<Rightarrow> bool" where
  "accepts schema v =
     (case schema of
        JBool a \<Rightarrow> a
      | JObject object \<Rightarrow> object_meaning (\<lambda>c w. accepts c w) object v
      | _ \<Rightarrow> False)"
  by pat_completeness auto
termination
  by (relation "measure (\<lambda>(schema, _). size schema)") (auto dest!: subschemas_size)

declare accepts.simps [simp del]

section \<open>A budget that lasts computes the meaning\<close>

text \<open>
  A budgeted test computes a truth value if it never raises the budget and, when some budget is
  left at its end, its result is that value.
\<close>

definition computes :: "budgeted \<Rightarrow> bool \<Rightarrow> bool" where
  "computes f P \<longleftrightarrow> (\<forall>b. snd (f b) \<le> b \<and> (0 < snd (f b) \<longrightarrow> fst (f b) = P))"

lemma computesI:
  "(\<And>b r b'. f b = (r, b') \<Longrightarrow> b' \<le> b \<and> (0 < b' \<longrightarrow> r = P)) \<Longrightarrow> computes f P"
  unfolding computes_def by (metis prod.collapse)

lemma computesD: "computes f P \<Longrightarrow> f b = (r, b') \<Longrightarrow> b' \<le> b \<and> (0 < b' \<longrightarrow> r = P)"
  unfolding computes_def by (metis fst_conv snd_conv)

lemma computes_pure: "computes (pure_test P) P"
  by (simp add: computes_def pure_test_def)

lemma computes_not: "computes f P \<Longrightarrow> computes (not_test f) (\<not> P)"
  by (auto simp: computes_def not_test_def split: prod.split) (metis fst_conv snd_conv)+

lemma computes_and:
  assumes f: "computes f P" and g: "computes g Q"
  shows "computes (and_test f g) (P \<and> Q)"
proof (rule computesI)
  fix b r b' assume h: "and_test f g b = (r, b')"
  obtain r1 b1 where f1: "f b = (r1, b1)" by fastforce
  note F = computesD[OF f f1]
  show "b' \<le> b \<and> (0 < b' \<longrightarrow> r = (P \<and> Q))"
  proof (cases r1)
    case True
    then have "g b1 = (r, b')" using h f1 by (simp add: and_test_def)
    from computesD[OF g this] F True show ?thesis by auto
  next
    case False
    then show ?thesis using h f1 F by (auto simp: and_test_def)
  qed
qed

lemma computes_all:
  assumes "\<And>x. x \<in> set xs \<Longrightarrow> computes (f x) (P x)"
  shows "computes (all_test f xs) (\<forall>x \<in> set xs. P x)"
  using assms
proof (induction xs)
  case Nil
  then show ?case by (simp add: computes_def)
next
  case (Cons x xs)
  have "all_test f (x # xs) = and_test (f x) (all_test f xs)"
    by (rule ext) (simp add: and_test_def)
  then show ?case using computes_and[of "f x" "P x" "all_test f xs"] Cons by simp
qed

lemma any_test_all: "any_test f xs = not_test (all_test (\<lambda>x. not_test (f x)) xs)"
proof
  show "any_test f xs b = not_test (all_test (\<lambda>x. not_test (f x)) xs) b" for b
    by (induction xs arbitrary: b) (auto simp: not_test_def split: prod.splits bool.splits)
qed

lemma computes_any:
  assumes "\<And>x. x \<in> set xs \<Longrightarrow> computes (f x) (P x)"
  shows "computes (any_test f xs) (\<exists>x \<in> set xs. P x)"
proof -
  have "computes (all_test (\<lambda>x. not_test (f x)) xs) (\<forall>x \<in> set xs. \<not> P x)"
    by (intro computes_all computes_not assms)
  from computes_not[OF this] show ?thesis unfolding any_test_all by simp
qed

lemma count_test_computes:
  assumes "\<And>x. x \<in> set xs \<Longrightarrow> computes (f x) (P x)" and "count_test f xs b = (n, b')"
  shows "b' \<le> b \<and> (0 < b' \<longrightarrow> n = length (filter P xs))"
  using assms
proof (induction xs arbitrary: b n b')
  case (Cons x xs)
  obtain r b1 where f1: "f x b = (r, b1)" by fastforce
  obtain m where m: "count_test f xs b1 = (m, b')" "n = (if r then Suc m else m)"
    using Cons.prems(2) f1 by (auto split: prod.splits)
  have "b1 \<le> b \<and> (0 < b1 \<longrightarrow> r = P x)" using computesD[OF Cons.prems(1)[of x] f1] by simp
  moreover have "b' \<le> b1 \<and> (0 < b' \<longrightarrow> m = length (filter P xs))"
    by (rule Cons.IH[OF _ m(1)]) (simp add: Cons.prems(1))
  ultimately show ?case using m(2) by auto
qed simp

lemma computes_count:
  assumes "\<And>x. x \<in> set xs \<Longrightarrow> computes (f x) (P x)"
  shows "computes (\<lambda>b. case count_test f xs b of (n, b) \<Rightarrow> (Q n, b)) (Q (length (filter P xs)))"
proof (rule computesI)
  fix b r b' assume h: "(case count_test f xs b of (n, b) \<Rightarrow> (Q n, b)) = (r, b')"
  obtain n b1 where n: "count_test f xs b = (n, b1)" by fastforce
  from count_test_computes[OF assms n] h n
  show "b' \<le> b \<and> (0 < b' \<longrightarrow> r = Q (length (filter P xs)))" by auto
qed

lemma computes_option:
  assumes "\<And>c. x = Some c \<Longrightarrow> computes (f c) (P c)"
  shows "computes (case x of None \<Rightarrow> pure_test True | Some c \<Rightarrow> f c) (\<forall>c. x = Some c \<longrightarrow> P c)"
  using assms computes_pure[of True] by (cases x) simp_all

lemma computes_cong: "computes f P \<Longrightarrow> P = Q \<Longrightarrow> computes f Q"
  by simp

lemmas computes_intros = computes_and computes_pure computes_option computes_not computes_all

text \<open>One node, for a child validator that computes the meaning of every subschema.\<close>

lemma combined_computes:
  assumes ch: "\<And>c w. c \<in> set (subschemas object) \<Longrightarrow> computes (child c w) (A c w)"
  shows "computes
     (and_test (schema_array_matches (schemas_of ''allOf'' object) (\<lambda>c. child c v))
     (and_test (schema_array_any_matches (schemas_of ''anyOf'' object) (\<lambda>c. child c v))
     (and_test (schema_array_one_matches (schemas_of ''oneOf'' object) (\<lambda>c. child c v))
     (and_test (case obj_get ''not'' object of None \<Rightarrow> pure_test True | Some c \<Rightarrow> not_test (child c v))
     (case obj_get ''if'' object of
         None \<Rightarrow> pure_test True
       | Some condition \<Rightarrow> (\<lambda>b. case child condition v b of (condition_matches, b) \<Rightarrow>
           (case obj_get (if condition_matches then ''then'' else ''else'') object of
              None \<Rightarrow> (True, b)
            | Some c \<Rightarrow> child c v b))))))) (combined_ok A object v)"
proof -
  have all: "computes (schema_array_matches (schemas_of ''allOf'' object) (\<lambda>c. child c v))
      (\<forall>cs. schemas_of ''allOf'' object = Some cs \<longrightarrow> (\<forall>c \<in> set cs. A c v))"
  proof (cases "schemas_of ''allOf'' object")
    case (Some cs)
    then show ?thesis using computes_all[of cs "\<lambda>c. child c v" "\<lambda>c. A c v"] ch schemas_of_sub[OF Some]
      by (simp add: schema_array_matches_def[abs_def])
  qed (simp add: schema_array_matches_def computes_def)
  have any: "computes (schema_array_any_matches (schemas_of ''anyOf'' object) (\<lambda>c. child c v))
      (\<forall>cs. schemas_of ''anyOf'' object = Some cs \<longrightarrow> (\<exists>c \<in> set cs. A c v))"
  proof (cases "schemas_of ''anyOf'' object")
    case (Some cs)
    then show ?thesis using computes_any[of cs "\<lambda>c. child c v" "\<lambda>c. A c v"] ch schemas_of_sub[OF Some]
      by (simp add: schema_array_any_matches_def[abs_def])
  qed (simp add: schema_array_any_matches_def computes_def)
  have one: "computes (schema_array_one_matches (schemas_of ''oneOf'' object) (\<lambda>c. child c v))
      (\<forall>cs. schemas_of ''oneOf'' object = Some cs \<longrightarrow> length (filter (\<lambda>c. A c v) cs) = 1)"
  proof (cases "schemas_of ''oneOf'' object")
    case (Some cs)
    then show ?thesis
      using computes_count[of cs "\<lambda>c. child c v" "\<lambda>c. A c v" "\<lambda>n. n = 1"] ch schemas_of_sub[OF Some]
      by (simp add: schema_array_one_matches_def[abs_def])
  qed (simp add: schema_array_one_matches_def computes_def)
  have neg: "computes (case obj_get ''not'' object of None \<Rightarrow> pure_test True | Some c \<Rightarrow> not_test (child c v))
      (\<forall>c. obj_get ''not'' object = Some c \<longrightarrow> \<not> A c v)"
    by (rule computes_option, rule computes_not, rule ch, erule obj_get_sub) simp
  have cond: "computes (case obj_get ''if'' object of
         None \<Rightarrow> pure_test True
       | Some condition \<Rightarrow> (\<lambda>b. case child condition v b of (condition_matches, b) \<Rightarrow>
           (case obj_get (if condition_matches then ''then'' else ''else'') object of
              None \<Rightarrow> (True, b)
            | Some c \<Rightarrow> child c v b)))
      (\<forall>c. obj_get ''if'' object = Some c \<longrightarrow>
          (\<forall>d. obj_get (if A c v then ''then'' else ''else'') object = Some d \<longrightarrow> A d v))"
  proof (rule computes_option, rule computesI)
    fix c b r b'
    assume c: "obj_get ''if'' object = Some c" and h: "(case child c v b of (condition_matches, b) \<Rightarrow>
           (case obj_get (if condition_matches then ''then'' else ''else'') object of
              None \<Rightarrow> (True, b) | Some c \<Rightarrow> child c v b)) = (r, b')"
    obtain m b1 where m: "child c v b = (m, b1)" by fastforce
    have M: "b1 \<le> b \<and> (0 < b1 \<longrightarrow> m = A c v)" using computesD[OF ch[OF obj_get_sub[OF c]] m] by simp
    show "b' \<le> b \<and> (0 < b' \<longrightarrow>
        r = (\<forall>d. obj_get (if A c v then ''then'' else ''else'') object = Some d \<longrightarrow> A d v))"
    proof (cases "obj_get (if m then ''then'' else ''else'') object")
      case None
      then show ?thesis using h m M by auto
    next
      case (Some d)
      then have "child d v b1 = (r, b')" using h m by simp
      moreover have "computes (child d v) (A d v)" by (rule ch[OF obj_get_sub[OF Some]]) auto
      ultimately have "b' \<le> b1 \<and> (0 < b' \<longrightarrow> r = A d v)" by (rule computesD[rotated])
      then show ?thesis using Some M by auto
    qed
  qed
  show ?thesis
    unfolding combined_ok_def
    by (intro computes_and all any one neg cond)
qed

lemma object_computes:
  assumes ch: "\<And>c w. c \<in> set (subschemas object) \<Longrightarrow> computes (child c w) (A c w)"
  shows "computes (schema_accepts_object child object v vs)
    (sizes_ok object (JObject vs) \<and> members_ok A object v vs)"
proof (rule computes_cong)
  have member: "(case (case members_of ''properties'' object of None \<Rightarrow> None | Some ps \<Rightarrow> obj_get k ps) of
           Some property \<Rightarrow> child property w
         | None \<Rightarrow> (case obj_get ''additionalProperties'' object of
                Some additional \<Rightarrow> child additional w | None \<Rightarrow> pure_test True))
      = (case member_schema object k of None \<Rightarrow> pure_test True | Some c \<Rightarrow> child c w)" for k w
    by (simp add: member_schema_def split: option.splits)
  have deps: "computes (case members_of ''dependentSchemas'' object of
         None \<Rightarrow> pure_test True
       | Some deps \<Rightarrow> all_test (\<lambda>kv. if obj_contains (fst kv) vs then child (snd kv) v else pure_test True) deps)
      (\<forall>deps. members_of ''dependentSchemas'' object = Some deps \<longrightarrow>
          (\<forall>kv \<in> set deps. obj_contains (fst kv) vs \<longrightarrow> A (snd kv) v))"
  proof (rule computes_option, rule computes_all)
    fix ds kv assume d: "members_of ''dependentSchemas'' object = Some ds" "kv \<in> set ds"
    have "computes (child (snd kv) v) (A (snd kv) v)" by (rule ch[OF members_of_sub[OF d]]) simp
    then show "computes (if obj_contains (fst kv) vs then child (snd kv) v else pure_test True)
        (obj_contains (fst kv) vs \<longrightarrow> A (snd kv) v)"
      using computes_pure[of True] by (cases "obj_contains (fst kv) vs") simp_all
  qed
  have names: "computes (child c w) (A c w)" if "obj_get ''propertyNames'' object = Some c" for c w
    by (rule ch[OF obj_get_sub[OF that]]) simp
  have members: "computes (child c w) (A c w)" if "member_schema object k = Some c" for k c w
    by (rule ch[OF member_schema_sub[OF that]])
  show "computes (schema_accepts_object child object v vs)
    ((within_usize_bounds (length vs) (obj_get ''minProperties'' object) (obj_get ''maxProperties'' object)
       \<and> (case obj_get ''required'' object of None \<Rightarrow> True | Some r \<Rightarrow> all_keys_present r vs))
     \<and> (\<forall>c. obj_get ''propertyNames'' object = Some c \<longrightarrow> (\<forall>kv \<in> set vs. A c (JString (fst kv))))
     \<and> (\<forall>kv \<in> set vs. \<forall>c. member_schema object (fst kv) = Some c \<longrightarrow> A c (snd kv))
     \<and> (case members_of ''dependentRequired'' object of None \<Rightarrow> True
        | Some deps \<Rightarrow> list_all (\<lambda>kv. obj_contains (fst kv) vs \<longrightarrow> all_keys_present (snd kv) vs) deps)
     \<and> (\<forall>deps. members_of ''dependentSchemas'' object = Some deps \<longrightarrow>
          (\<forall>kv \<in> set deps. obj_contains (fst kv) vs \<longrightarrow> A (snd kv) v)))"
    unfolding schema_accepts_object_def member
    by (intro computes_and computes_pure deps computes_option[of "obj_get ''propertyNames'' object"]
        computes_option[of "member_schema object _"] computes_all names members) assumption+
qed (auto simp: sizes_ok_def members_ok_def list_all_iff split: option.splits)

lemma array_computes:
  assumes ch: "\<And>c w. c \<in> set (subschemas object) \<Longrightarrow> computes (child c w) (A c w)"
  shows "computes (schema_accepts_array child object vs) (sizes_ok object (JArray vs) \<and> items_ok A object vs)"
proof (rule computes_cong)
  let ?lo = "case get_u64 ''minContains'' object of None \<Rightarrow> 1 | Some m \<Rightarrow> m"
    and ?hi = "case get_u64 ''maxContains'' object of None \<Rightarrow> U64_MAX | Some m \<Rightarrow> m"
  have contains: "computes (\<lambda>b. case count_test (child c) vs b of (matches, b) \<Rightarrow>
        (let minimum = ?lo; maximum = ?hi
         in (if matches > U64_MAX then False else \<not> (matches < minimum \<or> matches > maximum), b)))
      (?lo \<le> length (filter (A c) vs) \<and> length (filter (A c) vs) \<le> ?hi \<and> length (filter (A c) vs) \<le> U64_MAX)"
    if "obj_get ''contains'' object = Some c" for c
  proof -
    have "computes (child c w) (A c w)" for w by (rule ch[OF obj_get_sub[OF that]]) simp
    from computes_count[of vs "child c" "A c" "\<lambda>n. ?lo \<le> n \<and> n \<le> ?hi \<and> n \<le> U64_MAX", OF this]
    show ?thesis by (rule back_subst[of "\<lambda>f. computes f _"])
      (rule ext, auto simp: Let_def not_less not_le split: prod.splits)
  qed
  have zipped: "computes (child (snd p) (fst p)) (A (snd p) (fst p))" if "p \<in> set (zip vs (item_schemas object))" for p
    using ch item_schemas_sub set_zip_rightD[of "fst p" "snd p"] that by simp
  show "computes (schema_accepts_array child object vs)
     ((within_usize_bounds (length vs) (obj_get ''minItems'' object) (obj_get ''maxItems'' object)
        \<and> \<not> (obj_get ''uniqueItems'' object = Some (JBool True) \<and> has_duplicate [] vs))
      \<and> (\<forall>p \<in> set (zip vs (item_schemas object)). A (snd p) (fst p))
      \<and> (\<forall>c. obj_get ''items'' object = Some c \<longrightarrow> (\<forall>x \<in> set (drop (length (item_schemas object)) vs). A c x))
      \<and> (\<forall>c. obj_get ''contains'' object = Some c \<longrightarrow>
          ?lo \<le> length (filter (A c) vs) \<and> length (filter (A c) vs) \<le> ?hi \<and> length (filter (A c) vs) \<le> U64_MAX))"
    unfolding schema_accepts_array_def item_schemas_def[symmetric] Let_def[of "item_schemas object"]
    by (intro computes_and computes_pure computes_option computes_all contains zipped ch obj_get_sub)
      (assumption | simp)+
qed (auto simp: sizes_ok_def items_ok_def Let_def)

lemma node_computes:
  assumes ch: "\<And>c w. c \<in> set (subschemas object) \<Longrightarrow> computes (child c w) (A c w)"
  shows "computes (schema_accepts_node child object v) (object_meaning A object v)"
proof -
  have const: "(\<not> ((case obj_get ''const'' object of None \<Rightarrow> False | Some expected \<Rightarrow> \<not> json_equal expected v)
         \<or> (case obj_get ''enum'' object of
              None \<Rightarrow> False
            | Some values \<Rightarrow> (case as_array values of
                None \<Rightarrow> True | Some vs \<Rightarrow> \<not> list_ex (\<lambda>x. json_equal x v) vs))
         \<or> (case obj_get ''type'' object of None \<Rightarrow> False | Some types \<Rightarrow> \<not> schema_type_accepts types v)))
      = constant_ok object v"
    unfolding constant_ok_def
    by (auto simp: list_ex_iff split: option.splits elim!: as_array.elims)
  have assoc: "and_test f (and_test g h) = and_test (and_test f g) h" for f g h :: budgeted
    by (rule ext) (simp add: and_test_def split: prod.splits bool.splits)
  have inst: "computes (case v of
        JObject values \<Rightarrow> schema_accepts_object child object v values
      | JArray values \<Rightarrow> schema_accepts_array child object values
      | JString s \<Rightarrow> pure_test (schema_accepts_string object s)
      | JNumber n \<Rightarrow> pure_test (schema_accepts_number object n)
      | _ \<Rightarrow> pure_test True)
     (sizes_ok object v \<and> (case v of JObject vs \<Rightarrow> members_ok A object v vs | JArray vs \<Rightarrow> items_ok A object vs | _ \<Rightarrow> True))"
    using object_computes[of object child A] array_computes[of object child A] ch computes_pure
    by (cases v) (simp_all add: sizes_ok_def)
  show ?thesis
    unfolding schema_accepts_node_def const
    using computes_and[OF computes_pure computes_and[OF combined_computes[of object child A v, OF ch] inst]]
    by (simp add: assoc object_meaning_def conj_ac)
qed

text \<open>Schemas whose nesting stays within the depth limit, starting at depth \<open>d\<close>.\<close>

function within_depth :: "json \<Rightarrow> nat \<Rightarrow> bool" where
  "within_depth schema d \<longleftrightarrow>
     (if d > MAX_SCHEMA_DEPTH then False
      else case schema of
        JObject object \<Rightarrow> (\<forall>c \<in> set (subschemas object). within_depth c (d + 1))
      | _ \<Rightarrow> True)"
  by pat_completeness auto
termination
  by (relation "measure (\<lambda>(_, d). MAX_SCHEMA_DEPTH + 1 - d)") auto

declare within_depth.simps [simp del]

lemma leaf_computes:
  assumes "\<nexists>object. schema = JObject object" and "d \<le> MAX_SCHEMA_DEPTH"
  shows "computes (schema_accepts schema v d) (accepts schema v)"
proof -
  have "schema_accepts schema v d b = (if b = 0 then (False, 0) else (accepts schema v, b - 1))" for b
    using assms by (subst schema_accepts.simps, subst accepts.simps) (cases schema; simp)
  then show ?thesis by (simp add: computes_def)
qed

lemma schema_accepts_computes:
  assumes "within_depth schema d"
  shows "computes (schema_accepts schema v d) (accepts schema v)"
  using assms
proof (induction "MAX_SCHEMA_DEPTH - d" arbitrary: schema v d rule: less_induct)
  case less
  have d: "d \<le> MAX_SCHEMA_DEPTH" using less.prems by (subst (asm) within_depth.simps) (simp split: if_splits)
  show ?case
  proof (cases "\<exists>object. schema = JObject object")
    case False
    then show ?thesis using leaf_computes d by blast
  next
    case True
    then obtain object where o: "schema = JObject object" by blast
    have node: "computes (schema_accepts_node (\<lambda>c i b. schema_accepts c i (d + 1) b) object v) (object_meaning accepts object v)"
    proof (rule node_computes)
      fix c w assume "c \<in> set (subschemas object)"
      then have c: "within_depth c (d + 1)"
        using less.prems o by (subst (asm) within_depth.simps) (simp split: if_splits)
      then have "d + 1 \<le> MAX_SCHEMA_DEPTH" by (subst (asm) within_depth.simps) (simp split: if_splits)
      then show "computes (\<lambda>b. schema_accepts c w (d + 1) b) (accepts c w)"
        using less.hyps[OF _ c] by simp
    qed
    have "schema_accepts schema v d b = (if b = 0 then (False, 0)
        else schema_accepts_node (\<lambda>c i b. schema_accepts c i (d + 1) b) object v (b - 1))" for b
      using d unfolding o by (subst schema_accepts.simps) simp
    moreover have "accepts schema v = object_meaning accepts object v"
      unfolding o by (subst accepts.simps) simp
    ultimately show ?thesis
      using node by (simp add: computes_def) (metis diff_le_self order.trans)
  qed
qed

lemma seq_checks_None: "seq_checks cs b = (None, b') \<Longrightarrow> c \<in> set cs \<Longrightarrow> \<exists>b1 b2. c b1 = (None, b2)"
  by (induction cs arbitrary: b) (auto split: prod.splits option.splits)

lemma each_child_None: "each_child child cs b = (None, b') \<Longrightarrow> c \<in> set cs \<Longrightarrow> \<exists>b1 b2. child c b1 = (None, b2)"
  by (induction cs arbitrary: b) (auto split: prod.splits option.splits)

lemma validated_children:
  assumes "validate_schema_object child object b = (None, b')" and "c \<in> set (subschemas object)"
  shows "\<exists>b1 b2. child c b1 = (None, b2)"
proof -
  have arrays: "\<exists>b1 b2. child c b1 = (None, b2)"
    if "validate_schema_array child object k b1 = (None, b2)" "schemas_of k object = Some cs" "c \<in> set cs" for k cs b1 b2
    using that each_child_None[of child cs b1 b2 c]
    by (auto simp: validate_schema_array_def schemas_of_def split: option.splits if_splits)
  have singles: "\<exists>b1 b2. child c b1 = (None, b2)"
    if "validate_schema_child child object k b1 = (None, b2)" "obj_get k object = Some c" for k b1 b2
    using that by (cases "child c b1") (auto simp: validate_schema_child_def)
  have maps: "\<exists>b1 b2. child c b1 = (None, b2)"
    if "validate_schema_map child object k b1 = (None, b2)" "members_of k object = Some kvs" "c \<in> snd ` set kvs" for k kvs b1 b2
    using that each_child_None[of child "map snd kvs" b1 b2 c]
    by (auto simp: validate_schema_map_def members_of_def split: option.splits)
  have prefixes: "\<exists>b1 b2. child c b1 = (None, b2)"
    if "validate_prefix_items child object b1 = (None, b2)" "schemas_of ''prefixItems'' object = Some cs" "c \<in> set cs" for cs b1 b2
    using that each_child_None[of child cs b1 b2 c]
    by (auto simp: validate_prefix_items_def schemas_of_def split: option.splits if_splits)
  note S = seq_checks_None[OF assms(1)[unfolded validate_schema_object_def]]
  have A: "\<exists>b1 b2. validate_schema_array child object k b1 = (None, b2)" if "k \<in> {''allOf'', ''anyOf'', ''oneOf''}" for k
    by (rule S) (use that in auto)
  have O: "\<exists>b1 b2. validate_schema_child child object k b1 = (None, b2)"
    if "k \<in> set child_keys" for k
    by (rule S) (use that in auto)
  have M: "\<exists>b1 b2. validate_schema_map child object k b1 = (None, b2)" if "k \<in> set map_keys" for k
    by (rule S) (use that in auto)
  have P: "\<exists>b1 b2. validate_prefix_items child object b1 = (None, b2)" by (rule S) simp
  show ?thesis
    using assms(2)
  proof (cases rule: subschemas_cases)
    case (arr k cs)
    then consider "k \<in> {''allOf'', ''anyOf'', ''oneOf''}" | "k = ''prefixItems''" by auto
    then show ?thesis
    proof cases
      case 1
      then show ?thesis using A[of k] arrays[OF _ arr(2,3)] by blast
    next
      case 2
      then show ?thesis using P prefixes[of _ _ cs] arr(2,3) by blast
    qed
  next
    case (one k)
    then show ?thesis using O[of k] singles[of k] by blast
  next
    case (mp k kvs)
    then show ?thesis using M[of k] maps[OF _ mp(2,3)] by blast
  qed
qed

lemma validated_within_depth:
  assumes "validate_schema_node schema d b = (None, b')"
  shows "within_depth schema d"
  using assms
proof (induction "MAX_SCHEMA_DEPTH - d" arbitrary: schema d b b' rule: less_induct)
  case less
  have d: "d \<le> MAX_SCHEMA_DEPTH"
    using less.prems by (subst (asm) validate_schema_node.simps) (simp split: if_splits)
  have "within_depth c (d + 1)" if "schema = JObject object" "c \<in> set (subschemas object)" for object c
  proof -
    have "validate_schema_object (\<lambda>c b. validate_schema_node c (d + 1) b) object (b - 1) = (None, b')"
      using less.prems that(1) by (subst (asm) validate_schema_node.simps) (simp split: if_splits)
    from validated_children[OF this that(2)] obtain b1 b2 where v: "validate_schema_node c (d + 1) b1 = (None, b2)"
      by blast
    then have "d + 1 \<le> MAX_SCHEMA_DEPTH"
      by (subst (asm) validate_schema_node.simps) (simp split: if_splits)
    then show ?thesis using less.hyps[OF _ v] by simp
  qed
  then show ?case using d by (subst within_depth.simps) (simp split: json.splits)
qed

text \<open>
  C23. For arguments within the size limits and a schema the validator admits, the check accepts
  exactly the arguments the schema means to accept, as long as the validation budget is not used up:
  the order of evaluation, the short cuts and the shared budget never change the answer.
\<close>

theorem arguments_satisfy_schema_exact:
  assumes "validate_tool_schema schema = None" and "arguments = JObject vs" and "is_bounded arguments"
    and "0 < snd (schema_accepts schema arguments 0 MAX_INSTANCE_NODES)"
  shows "arguments_satisfy_schema schema arguments \<longleftrightarrow> accepts schema arguments"
proof -
  have "within_depth schema 0"
    using assms(1) validated_within_depth[of schema 0 MAX_SCHEMA_NODES]
    by (cases "validate_schema_node schema 0 MAX_SCHEMA_NODES") (auto simp: validate_tool_schema_def)
  from schema_accepts_computes[OF this, of arguments] show ?thesis
    using assms by (simp add: computes_def arguments_satisfy_schema_def is_bounded_def)
qed

lemma validate_bool:
  "validate_schema_node (JBool a) d b =
     (if d > MAX_SCHEMA_DEPTH \<or> b = 0 then (Some StructuralLimits, b) else (None, b - 1))"
  by (subst validate_schema_node.simps) simp

lemma validate_object:
  "validate_schema_node (JObject object) d b =
     (if d > MAX_SCHEMA_DEPTH \<or> b = 0 then (Some StructuralLimits, b)
      else validate_schema_object (\<lambda>c b. validate_schema_node c (d + 1) b) object (b - 1))"
  by (subst validate_schema_node.simps) simp

lemma schema_accepts_bool:
  "schema_accepts (JBool a) v d b =
     (if d > MAX_SCHEMA_DEPTH \<or> b = 0 then (False, b) else (a, b - 1))"
  by (subst schema_accepts.simps) simp

lemma schema_accepts_node_object:
  "schema_accepts (JObject object) v d b =
     (if d > MAX_SCHEMA_DEPTH \<or> b = 0 then (False, b)
      else schema_accepts_node (\<lambda>c i b. schema_accepts c i (d + 1) b) object v (b - 1))"
  by (subst schema_accepts.simps) simp

lemmas validate_eval =
  validate_bool validate_object validate_schema_object_def pure_check_def require_def
  supported_schema_keyword_def validate_enum_def validate_schema_array_def validate_schema_child_def
  validate_schema_map_def validate_prefix_items_def validate_string_array_keyword_def
  validate_dependent_required_def obj_get_def validate_nonnegative_integer_keywords_def
  check_keyword_def validate_min_max_pair_def get_u64_def get_number_def validate_numeric_bounds_def
  validate_schema_annotations_def MAX_SCHEMA_DEPTH_def

lemmas accept_eval =
  obj_get_def schema_accepts_bool schema_accepts_node_object schema_accepts_node_def and_test_def
  pure_test_def schema_array_matches_def schema_array_any_matches_def schema_array_one_matches_def
  schemas_of_def not_test_def schema_accepts_object_def schema_accepts_array_def
  within_usize_bounds_def members_of_def MAX_SCHEMA_DEPTH_def

theorem arguments_satisfy_schema_exact_witness:
  "arguments_satisfy_schema (JObject [(''not'', JBool False)]) (JObject [])
     \<longleftrightarrow> accepts (JObject [(''not'', JBool False)]) (JObject [])"
proof -
  have "validate_tool_schema (JObject [(''not'', JBool False)]) = None"
    by (simp add: validate_tool_schema_def validate_eval MAX_SCHEMA_NODES_def)
  moreover have "is_bounded (JObject [])"
    by (simp add: is_bounded_def bounded_instance.simps MAX_INSTANCE_NODES_def)
  moreover have "0 < snd (schema_accepts (JObject [(''not'', JBool False)]) (JObject []) 0 MAX_INSTANCE_NODES)"
    by (simp add: MAX_INSTANCE_NODES_def accept_eval)
  ultimately show ?thesis by (rule arguments_satisfy_schema_exact[OF _ refl])
qed

section \<open>A budget that runs out fails open\<close>

text \<open>
  The schema asks for an object that is accepted by nothing (\<open>"not": true\<close>), behind an \<open>allOf\<close>
  whose evaluation uses up the budget exactly: 256 array elements at 31 nodes each, the nodes on the
  way to them, and 253 trivial schemas.
\<close>

definition greedy_items :: json where
  "greedy_items = JObject [(''allOf'', JArray (replicate 30 (JBool True)))]"

definition greedy_schema :: json where
  "greedy_schema = JObject
     [(''allOf'', JArray (JObject [(''properties'', JObject [(''x'', JObject [(''items'', greedy_items)])])]
        # replicate 253 (JBool True))),
      (''not'', JBool True)]"

definition greedy_arguments :: json where
  "greedy_arguments = JObject [(''x'', JArray (replicate 256 JNull))]"

lemma each_child_replicate:
  assumes "\<And>b. k \<le> b \<Longrightarrow> child c b = (None, b - k)" and "n * k \<le> b"
  shows "each_child child (replicate n c) b = (None, b - n * k)"
  using assms(2)
proof (induction n arbitrary: b)
  case (Suc n)
  then show ?case using assms(1)[of b] Suc.IH[of "b - k"] by (simp add: diff_diff_left)
qed simp

lemma all_test_replicate:
  assumes "\<And>b. k \<le> b \<Longrightarrow> f x b = (True, b - k)" and "n * k \<le> b"
  shows "all_test f (replicate n x) b = (True, b - n * k)"
  using assms(2)
proof (induction n arbitrary: b)
  case (Suc n)
  then show ?case using assms(1)[of b] Suc.IH[of "b - k"] by (simp add: diff_diff_left)
qed simp

lemma greedy_items_valid:
  assumes "d < MAX_SCHEMA_DEPTH" and "31 \<le> b"
  shows "validate_schema_node greedy_items d b = (None, b - 31)"
proof -
  have "each_child (\<lambda>c b. validate_schema_node c (d + 1) b) (replicate 30 (JBool True)) (b - 1) = (None, b - 1 - 30 * 1)"
    by (rule each_child_replicate) (use assms in \<open>auto simp: validate_bool\<close>)
  then show ?thesis using assms unfolding greedy_items_def
    by (simp add: validate_eval)
qed

lemma greedy_schema_valid: "validate_tool_schema greedy_schema = None"
proof -
  let ?first = "JObject [(''properties'', JObject [(''x'', JObject [(''items'', greedy_items)])])]"
  have items: "validate_schema_node greedy_items (Suc (Suc (Suc 0))) 4093 = (None, 4062)"
    using greedy_items_valid[of "Suc (Suc (Suc 0))" 4093] by (simp add: MAX_SCHEMA_DEPTH_def)
  have x: "validate_schema_node (JObject [(''items'', greedy_items)]) (Suc (Suc 0)) 4094 = (None, 4062)"
    using items by (subst validate_object) (simp add: validate_eval(3-))
  have first: "validate_schema_node ?first (Suc 0) 4095 = (None, 4062)"
    using x by (subst validate_object) (simp add: validate_eval(3-))
  have pad: "each_child (\<lambda>c. validate_schema_node c (Suc 0)) (replicate 253 (JBool True)) 4062 = (None, 4062 - 253 * 1)"
    by (rule each_child_replicate) (auto simp: validate_bool MAX_SCHEMA_DEPTH_def)
  have "validate_schema_node (JBool True) (Suc 0) 3809 = (None, 3808)"
    by (simp add: validate_bool MAX_SCHEMA_DEPTH_def)
  then show ?thesis
    using first pad unfolding greedy_schema_def validate_tool_schema_def MAX_SCHEMA_NODES_def
    by (subst validate_object) (simp add: validate_eval(3-))
qed

lemma greedy_items_accepts:
  assumes "d < MAX_SCHEMA_DEPTH" and "31 \<le> b"
  shows "schema_accepts greedy_items JNull d b = (True, b - 31)"
proof -
  have "all_test (\<lambda>c b. schema_accepts c JNull (d + 1) b) (replicate 30 (JBool True)) (b - 1) = (True, b - 1 - 30 * 1)"
    by (rule all_test_replicate) (use assms in \<open>auto simp: schema_accepts_bool\<close>)
  then show ?thesis using assms unfolding greedy_items_def by (simp add: accept_eval)
qed

lemma greedy_accepted: "fst (schema_accepts greedy_schema greedy_arguments 0 MAX_INSTANCE_NODES)"
proof -
  let ?x = "JArray (replicate 256 JNull)" and ?d2 = "Suc (Suc 0)"
  have "all_test (schema_accepts_items) (replicate 256 JNull) 8189 = (True, 8189 - 256 * 31)"
    if "schema_accepts_items = (\<lambda>x b. schema_accepts greedy_items x (Suc ?d2) b)" for schema_accepts_items
    unfolding that by (rule all_test_replicate) (auto intro: greedy_items_accepts simp: MAX_SCHEMA_DEPTH_def)
  then have x: "schema_accepts (JObject [(''items'', greedy_items)]) ?x ?d2 8190 = (True, 253)"
    by (simp add: accept_eval Let_def)
  have first: "schema_accepts (JObject [(''properties'', JObject [(''x'', JObject [(''items'', greedy_items)])])])
      greedy_arguments (Suc 0) 8191 = (True, 253)"
    using x unfolding greedy_arguments_def by (simp add: accept_eval(1,3-))
  have pad: "all_test (\<lambda>c. schema_accepts c greedy_arguments (Suc 0)) (replicate 253 (JBool True)) 253 = (True, 253 - 253 * 1)"
    by (rule all_test_replicate) (auto simp: schema_accepts_bool MAX_SCHEMA_DEPTH_def)
  have "schema_accepts (JBool True) greedy_arguments (Suc 0) 0 = (False, 0)" by (simp add: schema_accepts_bool)
  then show ?thesis
    using first pad unfolding greedy_schema_def MAX_INSTANCE_NODES_def
    by (subst schema_accepts_node_object)
      (simp add: accept_eval(1,4-) greedy_arguments_def)
qed

lemma greedy_bounded: "fst (bounded_instance greedy_arguments 0 MAX_INSTANCE_NODES)"
proof -
  have "bounded_elems (replicate n JNull) (Suc (Suc 0)) b = (True, b - n)" if "n \<le> b" for n b
    using that by (induction n arbitrary: b) (simp_all add: bounded_instance.simps MAX_SCHEMA_DEPTH_def)
  then show ?thesis
    unfolding greedy_arguments_def
    by (simp add: bounded_instance.simps MAX_SCHEMA_DEPTH_def MAX_INSTANCE_NODES_def MAX_TOOL_ARGUMENTS_def)
qed

text \<open>
  When the budget runs out inside \<open>not\<close>, the check fails open: the exhausted child reports
  "not accepted", which the negation turns into acceptance, so arguments that no evaluation of the
  schema could accept pass \<open>arguments_satisfy_schema\<close>. The schema below means to accept nothing, is
  admitted by the validator, and the arguments are within the size limits.
\<close>

theorem exhausted_budget_fails_open:
  "validate_tool_schema greedy_schema = None \<and> is_bounded greedy_arguments
   \<and> arguments_satisfy_schema greedy_schema greedy_arguments \<and> (\<forall>v. \<not> accepts greedy_schema v)"
proof -
  have "\<not> accepts greedy_schema v" for v
  proof -
    have "accepts (JBool True) v" by (simp add: accepts.simps)
    then show ?thesis unfolding greedy_schema_def
      by (subst accepts.simps) (simp add: object_meaning_def combined_ok_def obj_get_def)
  qed
  then show ?thesis
    using greedy_schema_valid greedy_bounded greedy_accepted
    by (simp add: arguments_satisfy_schema_def is_bounded_def greedy_arguments_def)
qed

end
