(* ===== verification/Gemma_Parser.thy ===== *)
theory Gemma_Parser
  imports Tool_Schema
begin

text \<open>
  The parser of Gemma-native call arguments (\<open>GemmaParser\<close> of \<open>src/src/engine/tools.rs\<close>). Its
  position in the input is kept as the input still to be read; every delimiter is an ASCII byte and
  no byte of a longer character is one, so scanning bytes stops where scanning characters does.

  The mutually recursive calls carry fuel, one unit per call; \<open>gemma_object_total\<close> shows that three
  units per input byte and a few more are enough for every input, so running out never happens in
  \<open>parse_gemma_call\<close>.
\<close>

section \<open>Results and state\<close>

datatype 'a parse = Reject | OutOfFuel | Parsed 'a

record gemma_state =
  gs_rest :: str
  gs_depth :: nat
  gs_nodes :: nat

fun opt_parse :: "'a option \<Rightarrow> 'a parse" where
  "opt_parse None = Reject"
| "opt_parse (Some x) = Parsed x"

fun bind_parse :: "'a parse \<Rightarrow> ('a \<Rightarrow> 'b parse) \<Rightarrow> 'b parse" where
  "bind_parse Reject f = Reject"
| "bind_parse OutOfFuel f = OutOfFuel"
| "bind_parse (Parsed x) f = f x"

lemma bind_parse_cong [fundef_cong]:
  "x = y \<Longrightarrow> (\<And>a. y = Parsed a \<Longrightarrow> f a = g a) \<Longrightarrow> bind_parse x f = bind_parse y g"
  by (cases y) auto


section \<open>Characters\<close>

text \<open>\<open>char::is_control\<close> on the character a text starts with: C0, DEL, and C1 in its UTF-8 form.\<close>

fun control_at :: "str \<Rightarrow> bool" where
  "control_at [] = False"
| "control_at (c # t) \<longleftrightarrow> byte c < 32 \<or> byte c = 127
     \<or> (byte c = 194 \<and> (case t of d # _ \<Rightarrow> 128 \<le> byte d \<and> byte d < 160 | [] \<Rightarrow> False))"

fun any_control :: "str \<Rightarrow> bool" where
  "any_control [] = False"
| "any_control (c # t) \<longleftrightarrow> control_at (c # t) \<or> any_control t"

definition is_alphanumeric :: "char \<Rightarrow> bool" where
  "is_alphanumeric c \<longleftrightarrow> (48 \<le> byte c \<and> byte c \<le> 57) \<or> (65 \<le> byte c \<and> byte c \<le> 90)
     \<or> (97 \<le> byte c \<and> byte c \<le> 122)"

definition valid_tool_name :: "str \<Rightarrow> bool" where
  "valid_tool_name name \<longleftrightarrow>
     name \<noteq> [] \<and> length name \<le> 64
     \<and> list_all (\<lambda>c. is_alphanumeric c \<or> c = CHR ''_'' \<or> c = CHR ''-'') name"

definition valid_argument_name :: "str \<Rightarrow> bool" where
  "valid_argument_name name \<longleftrightarrow>
     name \<noteq> [] \<and> length name \<le> 128
     \<and> \<not> (any_control name \<or> list_ex (\<lambda>c. c \<in> set ''<>{}[]'') name)"

text \<open>\<open>char::from_u32\<close> pushed onto a string.\<close>

definition encode_utf8 :: "nat \<Rightarrow> str" where
  "encode_utf8 n =
     (if n < 128 then [char_of n]
      else if n < 2048 then [char_of (192 + n div 64), char_of (128 + n mod 64)]
      else if n < 65536 then
        [char_of (224 + n div 4096), char_of (128 + n div 64 mod 64), char_of (128 + n mod 64)]
      else [char_of (240 + n div 262144), char_of (128 + n div 4096 mod 64),
            char_of (128 + n div 64 mod 64), char_of (128 + n mod 64)])"

definition hex_digit :: "char \<Rightarrow> nat option" where
  "hex_digit c =
     (if 48 \<le> byte c \<and> byte c \<le> 57 then Some (byte c - 48)
      else if 97 \<le> byte c \<and> byte c \<le> 102 then Some (byte c - 87)
      else if 65 \<le> byte c \<and> byte c \<le> 70 then Some (byte c - 55)
      else None)"

fun hex_digits :: "nat \<Rightarrow> nat \<Rightarrow> str \<Rightarrow> (nat \<times> str) option" where
  "hex_digits 0 v t = Some (v, t)"
| "hex_digits (Suc n) v [] = None"
| "hex_digits (Suc n) v (c # t) =
     (case hex_digit c of None \<Rightarrow> None | Some d \<Rightarrow> hex_digits n (v * 16 + d) t)"

definition parse_hex_quad :: "str \<Rightarrow> (nat \<times> str) option" where
  "parse_hex_quad t = hex_digits 4 0 t"


section \<open>Strings and keys\<close>

fun parse_escape :: "str \<Rightarrow> (str \<times> str) option" where
  "parse_escape [] = None"
| "parse_escape (c # t) =
     (if c = CHR 0x22 then Some ([CHR 0x22], t)
      else if c = CHR 0x27 then Some ([CHR 0x27], t)
      else if c = CHR 0x5C then Some ([CHR 0x5C], t)
      else if c = CHR ''/'' then Some (''/'', t)
      else if c = CHR ''b'' then Some ([CHR 0x08], t)
      else if c = CHR ''f'' then Some ([CHR 0x0C], t)
      else if c = CHR ''n'' then Some ([CHR 0x0A], t)
      else if c = CHR ''r'' then Some ([CHR 0x0D], t)
      else if c = CHR ''t'' then Some ([CHR 0x09], t)
      else if c = CHR ''u'' then
        (case parse_hex_quad t of
           None \<Rightarrow> None
         | Some (first, t) \<Rightarrow>
             (if 0xd800 \<le> first \<and> first \<le> 0xdbff then
                (case strip_prefix [CHR 0x5C, CHR ''u''] t of
                   None \<Rightarrow> None
                 | Some t \<Rightarrow>
                     (case parse_hex_quad t of
                        None \<Rightarrow> None
                      | Some (second, t) \<Rightarrow>
                          (if 0xdc00 \<le> second \<and> second \<le> 0xdfff
                           then Some (encode_utf8 (0x10000 + (first - 0xd800) * 1024 + (second - 0xdc00)), t)
                           else None)))
              else if 0xdc00 \<le> first \<and> first \<le> 0xdfff then None
              else Some (encode_utf8 first, t)))
      else None)"

lemma hex_digits_length: "hex_digits n v t = Some (w, u) \<Longrightarrow> length u + n = length t"
  by (induction n v t rule: hex_digits.induct) (auto split: option.splits)

lemma parse_escape_length: "parse_escape t = Some (s, u) \<Longrightarrow> length u < length t"
proof (cases t)
  case (Cons c r)
  assume "parse_escape t = Some (s, u)"
  then show ?thesis unfolding Cons
    by (auto simp: parse_hex_quad_def strip_prefix_Some dest!: hex_digits_length
        split: if_splits option.splits prod.splits)
qed simp

text \<open>The loop of \<open>parse_quoted_string\<close>, after the opening quote.\<close>

function quoted_loop :: "char \<Rightarrow> str \<Rightarrow> str \<Rightarrow> (str \<times> str) option" where
  "quoted_loop quote value t =
     (case t of
        [] \<Rightarrow> None
      | c # u \<Rightarrow>
          (if c = quote then Some (value, u)
           else if c = CHR 0x5C then
             (case parse_escape u of
                None \<Rightarrow> None
              | Some (out, u) \<Rightarrow> quoted_loop quote (value @ out) u)
           else if control_at t then None
           else quoted_loop quote (value @ [c]) u))"
  by pat_completeness auto
termination
  by (relation "measure (\<lambda>(_, _, t). length t)") (auto dest!: parse_escape_length)

declare quoted_loop.simps [simp del]

definition parse_quoted_string :: "str \<Rightarrow> (str \<times> str) option" where
  "parse_quoted_string t = (case t of [] \<Rightarrow> None | quote # u \<Rightarrow> quoted_loop quote [] u)"

definition QUOTE :: str where
  "QUOTE = [CHR ''<'', CHR ''|'', CHR 0x22, CHR ''|'', CHR ''>'']"

definition parse_special_quoted_string :: "str \<Rightarrow> (str \<times> str) option" where
  "parse_special_quoted_string t =
     (case strip_prefix QUOTE t of
        None \<Rightarrow> None
      | Some u \<Rightarrow>
          (case str_find QUOTE u of
             None \<Rightarrow> None
           | Some k \<Rightarrow> Some (take k u, drop (k + length QUOTE) u)))"

text \<open>A bare key runs up to the colon and may not contain a delimiter.\<close>

fun scan_key :: "str \<Rightarrow> (str \<times> str) option" where
  "scan_key [] = Some ([], [])"
| "scan_key (c # t) =
     (if c = CHR '':'' then Some ([], c # t)
      else if c \<in> set '',{}[]'' then None
      else map_option (\<lambda>(k, u). (c # k, u)) (scan_key t))"

definition parse_key :: "str \<Rightarrow> (str \<times> str) option" where
  "parse_key t =
     (let t = trim_start t;
          r = (if starts_with QUOTE t then parse_special_quoted_string t
               else if t \<noteq> [] \<and> hd t \<in> {CHR 0x22, CHR 0x27} then parse_quoted_string t
               else map_option (\<lambda>(k, u). (trim k, u)) (scan_key t))
      in case r of
           None \<Rightarrow> None
         | Some (key, u) \<Rightarrow> (if valid_argument_name key then Some (key, u) else None))"

fun is_primitive :: "json \<Rightarrow> bool" where
  "is_primitive JNull = True"
| "is_primitive (JBool b) = True"
| "is_primitive (JNumber n) = True"
| "is_primitive _ = False"

definition parse_bare_value :: "json_parser \<Rightarrow> str \<Rightarrow> (json \<times> str) option" where
  "parse_bare_value from_str t =
     (let stop = (\<lambda>c. c \<in> set '',]}''); raw = trim (takeWhile (\<lambda>c. \<not> stop c) t) in
      if raw = [] then None
      else Some (case parse_strict_json from_str raw of
                   Some v \<Rightarrow> (if is_primitive v then v else JString raw)
                 | None \<Rightarrow> JString raw,
                 dropWhile (\<lambda>c. \<not> stop c) t))"


section \<open>Containers\<close>

definition enter_container :: "gemma_state \<Rightarrow> gemma_state option" where
  "enter_container s =
     (let s = s\<lparr> gs_depth := gs_depth s + 1 \<rparr>
      in if gs_depth s \<le> MAX_SCHEMA_DEPTH then Some s else None)"

definition leave_container :: "gemma_state \<Rightarrow> gemma_state" where
  "leave_container s = s\<lparr> gs_depth := gs_depth s - 1 \<rparr>"

definition consume_char :: "char \<Rightarrow> gemma_state \<Rightarrow> gemma_state option" where
  "consume_char c s =
     (case gs_rest s of
        [] \<Rightarrow> None
      | d # t \<Rightarrow> (if d = c then Some (s\<lparr> gs_rest := t \<rparr>) else None))"

definition skip_whitespace :: "gemma_state \<Rightarrow> gemma_state" where
  "skip_whitespace s = s\<lparr> gs_rest := trim_start (gs_rest s) \<rparr>"

text \<open>A text parser run on the state's remaining input.\<close>

definition on_rest :: "(str \<Rightarrow> ('a \<times> str) option) \<Rightarrow> gemma_state \<Rightarrow> ('a \<times> gemma_state) option" where
  "on_rest p s = map_option (\<lambda>(x, u). (x, s\<lparr> gs_rest := u \<rparr>)) (p (gs_rest s))"

definition count_node :: "gemma_state \<Rightarrow> gemma_state option" where
  "count_node s =
     (let s = s\<lparr> gs_nodes := gs_nodes s + 1 \<rparr>
      in if gs_nodes s > MAX_INSTANCE_NODES then None else Some s)"

fun parse_value :: "json_parser \<Rightarrow> nat \<Rightarrow> gemma_state \<Rightarrow> (json \<times> gemma_state) parse" and
    parse_object :: "json_parser \<Rightarrow> nat \<Rightarrow> gemma_state \<Rightarrow> (json \<times> gemma_state) parse" and
    object_loop :: "json_parser \<Rightarrow> nat \<Rightarrow> object \<Rightarrow> gemma_state \<Rightarrow> (json \<times> gemma_state) parse" and
    parse_array :: "json_parser \<Rightarrow> nat \<Rightarrow> gemma_state \<Rightarrow> (json \<times> gemma_state) parse" and
    array_loop :: "json_parser \<Rightarrow> nat \<Rightarrow> json list \<Rightarrow> gemma_state \<Rightarrow> (json \<times> gemma_state) parse" where
  "parse_value from_str 0 s = OutOfFuel"
| "parse_value from_str (Suc fuel) s =
     bind_parse (opt_parse (count_node s)) (\<lambda>s.
       if starts_with QUOTE (gs_rest s)
       then opt_parse (map_option (\<lambda>(v, s). (JString v, s)) (on_rest parse_special_quoted_string s))
       else case gs_rest s of
         [] \<Rightarrow> Reject
       | c # _ \<Rightarrow>
           (if c \<in> {CHR 0x22, CHR 0x27}
            then opt_parse (map_option (\<lambda>(v, s). (JString v, s)) (on_rest parse_quoted_string s))
            else if c = CHR ''['' then parse_array from_str fuel s
            else if c = CHR ''{'' then parse_object from_str fuel s
            else opt_parse (on_rest (parse_bare_value from_str) s)))"
| "parse_object from_str 0 s = OutOfFuel"
| "parse_object from_str (Suc fuel) s =
     bind_parse (opt_parse (enter_container s)) (\<lambda>s.
     bind_parse (opt_parse (consume_char (CHR ''{'') s)) (\<lambda>s.
       let s = skip_whitespace s in
       case consume_char (CHR ''}'') s of
         Some s \<Rightarrow> Parsed (JObject [], leave_container s)
       | None \<Rightarrow> object_loop from_str fuel [] s))"
| "object_loop from_str 0 obj s = OutOfFuel"
| "object_loop from_str (Suc fuel) obj s =
     (if length obj \<ge> MAX_TOOL_ARGUMENTS then Reject
      else bind_parse (opt_parse (on_rest parse_key s)) (\<lambda>(key, s).
        if obj_contains key obj then Reject
        else bind_parse (opt_parse (consume_char (CHR '':'') (skip_whitespace s))) (\<lambda>s.
        bind_parse (parse_value from_str fuel (skip_whitespace s)) (\<lambda>(v, s).
          let obj = obj_insert key v obj; s = skip_whitespace s in
          case consume_char (CHR ''}'') s of
            Some s \<Rightarrow> Parsed (JObject obj, leave_container s)
          | None \<Rightarrow>
              bind_parse (opt_parse (consume_char (CHR '','') s)) (\<lambda>s.
                let s = skip_whitespace s in
                if consume_char (CHR ''}'') s \<noteq> None then Reject
                else object_loop from_str fuel obj s)))))"
| "parse_array from_str 0 s = OutOfFuel"
| "parse_array from_str (Suc fuel) s =
     bind_parse (opt_parse (enter_container s)) (\<lambda>s.
     bind_parse (opt_parse (consume_char (CHR ''['') s)) (\<lambda>s.
       let s = skip_whitespace s in
       case consume_char (CHR '']'') s of
         Some s \<Rightarrow> Parsed (JArray [], leave_container s)
       | None \<Rightarrow> array_loop from_str fuel [] s))"
| "array_loop from_str 0 vs s = OutOfFuel"
| "array_loop from_str (Suc fuel) vs s =
     (if length vs \<ge> MAX_TOOL_ARGUMENTS then Reject
      else bind_parse (parse_value from_str fuel s) (\<lambda>(v, s).
        let vs = vs @ [v]; s = skip_whitespace s in
        case consume_char (CHR '']'') s of
          Some s \<Rightarrow> Parsed (JArray vs, leave_container s)
        | None \<Rightarrow>
            bind_parse (opt_parse (consume_char (CHR '','') s)) (\<lambda>s.
              let s = skip_whitespace s in
              if consume_char (CHR '']'') s \<noteq> None then Reject
              else array_loop from_str fuel vs s)))"

text \<open>The arguments of a call, whose name ends at the first brace, and the number of bytes read.\<close>

definition gemma_fuel :: "str \<Rightarrow> nat" where
  "gemma_fuel t = 3 * length t + 3"

definition parse_gemma_call :: "json_parser \<Rightarrow> str \<Rightarrow> (str \<times> json \<times> nat) parse" where
  "parse_gemma_call from_str body =
     (case str_find ''{'' body of
        None \<Rightarrow> Reject
      | Some brace_start \<Rightarrow>
          (let name = trim (take brace_start body) in
           if \<not> valid_tool_name name then Reject
           else bind_parse
             (parse_object from_str (gemma_fuel body)
               \<lparr> gs_rest = drop brace_start body, gs_depth = 0, gs_nodes = 0 \<rparr>)
             (\<lambda>(arguments, s). Parsed (name, arguments, length body - length (gs_rest s)))))"



section \<open>The fuel is enough\<close>

lemma bind_parse_OutOfFuel:
  "bind_parse x f = OutOfFuel \<longleftrightarrow> x = OutOfFuel \<or> (\<exists>a. x = Parsed a \<and> f a = OutOfFuel)"
  by (cases x) auto

lemma opt_parse_iff [simp]:
  "opt_parse x = Parsed y \<longleftrightarrow> x = Some y" "opt_parse x \<noteq> OutOfFuel"
  by (cases x; simp)+

lemma quoted_loop_length: "quoted_loop q v t = Some (s, u) \<Longrightarrow> length u < length t"
proof (induction "length t" arbitrary: v t rule: less_induct)
  case less
  note IH = less.hyps and step = less.prems
  show ?case
  proof (cases t)
    case Nil
    with step show ?thesis by (simp add: quoted_loop.simps [of q v])
  next
    case (Cons c r)
    have rec: "quoted_loop q v' r' = Some (s, u) \<Longrightarrow> length r' \<le> length r \<Longrightarrow> length u < length r'" for v' r'
      by (rule IH) (auto simp: Cons)
    show ?thesis
      using step rec unfolding Cons
      by (subst (asm) quoted_loop.simps)
        (fastforce split: if_splits option.splits prod.splits dest: parse_escape_length)
  qed
qed

lemma scan_key_length: "scan_key t = Some (k, u) \<Longrightarrow> length u \<le> length t"
  by (induction t arbitrary: k) (auto split: if_splits)

lemma parse_quoted_string_length: "parse_quoted_string t = Some (s, u) \<Longrightarrow> length u < length t"
  by (auto simp: parse_quoted_string_def split: list.splits dest!: quoted_loop_length)

lemma special_quoted_length: "parse_special_quoted_string t = Some (s, u) \<Longrightarrow> length u < length t"
  by (auto simp: parse_special_quoted_string_def QUOTE_def strip_prefix_Some
      split: option.splits dest!: str_find_bound)

lemma parse_bare_value_length: "parse_bare_value f t = Some (v, u) \<Longrightarrow> length u \<le> length t"
  by (auto simp: parse_bare_value_def Let_def length_dropWhile_le split: if_splits)

lemma parse_key_length: "parse_key t = Some (k, u) \<Longrightarrow> length u \<le> length t"
  using trim_start_length [of t]
  by (auto simp: parse_key_def Let_def split: if_splits option.splits
      dest!: scan_key_length parse_quoted_string_length special_quoted_length)

lemma state_step_rest:
  "count_node s = Some s' \<Longrightarrow> gs_rest s' = gs_rest s"
  "enter_container s = Some s' \<Longrightarrow> gs_rest s' = gs_rest s"
  "consume_char c s = Some s' \<Longrightarrow> length (gs_rest s) = Suc (length (gs_rest s'))"
  "gs_rest (leave_container s) = gs_rest s"
  "length (gs_rest (skip_whitespace s)) \<le> length (gs_rest s)"
  "on_rest p s = Some (x, s') \<Longrightarrow> p (gs_rest s) = Some (x, gs_rest s')"
  by (auto simp: count_node_def enter_container_def consume_char_def leave_container_def
      skip_whitespace_def on_rest_def Let_def trim_start_length split: if_splits list.splits)


text \<open>Every outcome of a fuelled parser is acceptable: it rejects, or its result satisfies \<open>Q\<close>.\<close>

fun settles :: "'a parse \<Rightarrow> ('a \<Rightarrow> bool) \<Rightarrow> bool" where
  "settles Reject Q = True"
| "settles OutOfFuel Q = False"
| "settles (Parsed x) Q = Q x"

lemma settles_bind: "settles (bind_parse r g) Q \<longleftrightarrow> settles r (\<lambda>x. settles (g x) Q)"
  by (cases r) auto

lemma settles_opt: "settles (opt_parse r) Q \<longleftrightarrow> (\<forall>x. r = Some x \<longrightarrow> Q x)"
  by (cases r) auto

lemma settles_mono: "settles r P \<Longrightarrow> (\<And>x. P x \<Longrightarrow> Q x) \<Longrightarrow> settles r Q"
  by (cases r) auto

definition shorter :: "nat \<Rightarrow> json \<times> gemma_state \<Rightarrow> bool" where
  "shorter m r \<longleftrightarrow> length (gs_rest (snd r)) \<le> m"

lemma settles_shorter:
  "settles r (shorter m) \<Longrightarrow> (\<And>v s. length (gs_rest s) \<le> m \<Longrightarrow> Q (v, s)) \<Longrightarrow> settles r Q"
  by (erule settles_mono) (auto simp: shorter_def)

definition fuel_ok :: "json_parser \<Rightarrow> nat \<Rightarrow> bool" where
  "fuel_ok f n \<longleftrightarrow> (\<forall>s obj vs.
     (3 * length (gs_rest s) + 2 \<le> n \<longrightarrow> settles (parse_value f n s) (shorter (length (gs_rest s))))
   \<and> (3 * length (gs_rest s) + 1 \<le> n \<longrightarrow> settles (parse_object f n s) (shorter (length (gs_rest s))))
   \<and> (3 * length (gs_rest s) + 3 \<le> n \<longrightarrow> settles (object_loop f n obj s) (shorter (length (gs_rest s))))
   \<and> (3 * length (gs_rest s) + 1 \<le> n \<longrightarrow> settles (parse_array f n s) (shorter (length (gs_rest s))))
   \<and> (3 * length (gs_rest s) + 3 \<le> n \<longrightarrow> settles (array_loop f n vs s) (shorter (length (gs_rest s)))))"

lemma skip_whitespace_le: "length (gs_rest s) \<le> m \<Longrightarrow> length (gs_rest (skip_whitespace s)) \<le> m"
  using state_step_rest(5) [of s] by simp

lemma fuel_parse_value:
  assumes IH: "fuel_ok f n" and n: "3 * length (gs_rest s) + 2 \<le> Suc n"
  shows "settles (parse_value f (Suc n) s) (shorter (length (gs_rest s)))"
proof -
  have "settles (parse_array f n s') (shorter (length (gs_rest s)))"
      "settles (parse_object f n s') (shorter (length (gs_rest s)))" if "gs_rest s' = gs_rest s" for s'
  proof -
    have "3 * length (gs_rest s') + 1 \<le> n" using n that by simp
    then show "settles (parse_array f n s') (shorter (length (gs_rest s)))"
      "settles (parse_object f n s') (shorter (length (gs_rest s)))"
      using IH that unfolding fuel_ok_def by metis+
  qed
  note rec = this
  have leaf: "settles (opt_parse (map_option g (on_rest p s'))) (shorter (length (gs_rest s)))"
    if "\<And>x t u. p t = Some (x, u) \<Longrightarrow> length u \<le> length t" "gs_rest s' = gs_rest s"
      "\<And>x s. snd (g (x, s)) = s" for g s' and p :: "str \<Rightarrow> ('a \<times> str) option"
    using that by (auto simp: settles_opt shorter_def dest!: state_step_rest(6)) (metis snd_conv)
  show ?thesis
    unfolding parse_value.simps(2) settles_bind
  proof (simp only: settles_opt, intro allI impI)
    fix s1 assume "count_node s = Some s1"
    then have r: "gs_rest s1 = gs_rest s" by (rule state_step_rest)
    note bare = leaf [of "parse_bare_value f" s1 id, OF parse_bare_value_length r]
    note special = leaf [of parse_special_quoted_string s1 "\<lambda>(v, s). (JString v, s)", OF less_imp_le [OF special_quoted_length] r]
    note quoted = leaf [of parse_quoted_string s1 "\<lambda>(v, s). (JString v, s)", OF less_imp_le [OF parse_quoted_string_length] r]
    show "settles (if starts_with QUOTE (gs_rest s1)
        then opt_parse (map_option (\<lambda>(v, s). (JString v, s)) (on_rest parse_special_quoted_string s1))
        else case gs_rest s1 of [] \<Rightarrow> Reject
        | c # x \<Rightarrow> if c \<in> {CHR 0x22, CHR 0x27}
            then opt_parse (map_option (\<lambda>(v, s). (JString v, s)) (on_rest parse_quoted_string s1))
            else if c = CHR ''['' then parse_array f n s1
            else if c = CHR ''{'' then parse_object f n s1
            else opt_parse (on_rest (parse_bare_value f) s1)) (shorter (length (gs_rest s)))"
      using bare special quoted rec [OF r] by (auto split: list.split simp: option.map_id)
  qed
qed

lemma fuel_parse_object:
  assumes IH: "fuel_ok f n" and n: "3 * length (gs_rest s) + 1 \<le> Suc n"
  shows "settles (parse_object f (Suc n) s) (shorter (length (gs_rest s)))"
proof -
  have "settles (object_loop f n [] (skip_whitespace s2)) (shorter (length (gs_rest s)))"
    if "length (gs_rest s) = Suc (length (gs_rest s2))" for s2
  proof (rule settles_shorter)
    show "settles (object_loop f n [] (skip_whitespace s2)) (shorter (length (gs_rest (skip_whitespace s2))))"
      using IH n that skip_whitespace_le [of s2 "length (gs_rest s2)"] unfolding fuel_ok_def by simp
    show "\<And>v s'. length (gs_rest s') \<le> length (gs_rest (skip_whitespace s2)) \<Longrightarrow> shorter (length (gs_rest s)) (v, s')"
      using that skip_whitespace_le [of s2 "length (gs_rest s2)"] by (simp add: shorter_def)
  qed
  moreover have "length (gs_rest s3) < length (gs_rest s)"
    if "length (gs_rest s) = Suc (length (gs_rest s2))" "consume_char c (skip_whitespace s2) = Some s3" for s2 s3 c
    using state_step_rest(3) [OF that(2)] that(1) skip_whitespace_le [of s2 "length (gs_rest s2)"] by simp
  ultimately show ?thesis
    by (auto simp: settles_bind settles_opt Let_def shorter_def state_step_rest(4) less_imp_le split: option.splits
      dest!: state_step_rest(2) state_step_rest(3) [of "CHR ''{''"])
qed

lemma consume_shorter:
  "consume_char c (skip_whitespace s) = Some s' \<Longrightarrow> length (gs_rest s) \<le> m \<Longrightarrow> length (gs_rest s') < m"
  using state_step_rest(3) [of c "skip_whitespace s" s'] skip_whitespace_le [of s m] by simp

text \<open>What follows an element of a container: the closing delimiter, or a comma and the loop.\<close>

lemma settles_tail:
  assumes "length (gs_rest s) \<le> m"
    and "\<And>s'. length (gs_rest s') < m \<Longrightarrow> settles (g s') (shorter m)"
  shows "settles (let s = skip_whitespace s in case consume_char c s of
           Some s \<Rightarrow> Parsed (r, leave_container s)
         | None \<Rightarrow> bind_parse (opt_parse (consume_char d s)) (\<lambda>s.
             let s = skip_whitespace s in if consume_char c s \<noteq> None then Reject else g s)) (shorter m)"
proof (cases "consume_char c (skip_whitespace s)")
  case None
  have "settles (if consume_char c (skip_whitespace s') \<noteq> None then Reject else g (skip_whitespace s')) (shorter m)"
    if "consume_char d (skip_whitespace s) = Some s'" for s'
    using assms(2) [of "skip_whitespace s'"] consume_shorter [OF that, of m] skip_whitespace_le [of s' "length (gs_rest s')"]
      assms(1) by auto
  with None show ?thesis by (simp add: Let_def settles_bind settles_opt)
next
  case (Some s')
  then show ?thesis using consume_shorter [OF Some, of m] assms(1)
    by (simp add: Let_def shorter_def state_step_rest(4))
qed

lemma fuel_loops:
  assumes IH: "fuel_ok f n" and n: "3 * m + 3 \<le> Suc n" and s: "length (gs_rest s) < m"
  shows "settles (object_loop f n obj s) (shorter m)" "settles (array_loop f n vs s) (shorter m)"
proof -
  have "3 * length (gs_rest s) + 3 \<le> n" using n s by simp
  then have "settles (object_loop f n obj s) (shorter (length (gs_rest s)))"
    "settles (array_loop f n vs s) (shorter (length (gs_rest s)))"
    using IH unfolding fuel_ok_def by blast+
  then show "settles (object_loop f n obj s) (shorter m)" "settles (array_loop f n vs s) (shorter m)"
    using s by (auto elim!: settles_mono simp: shorter_def)
qed

lemma fuel_object_loop:
  assumes IH: "fuel_ok f n" and n: "3 * length (gs_rest s) + 3 \<le> Suc n"
  shows "settles (object_loop f (Suc n) obj s) (shorter (length (gs_rest s)))"
proof -
  let ?m = "length (gs_rest s)"
  have val: "settles (bind_parse (parse_value f n (skip_whitespace s2)) (\<lambda>(v, s).
          let obj = obj_insert key v obj; s = skip_whitespace s in
          case consume_char (CHR ''}'') s of
            Some s \<Rightarrow> Parsed (JObject obj, leave_container s)
          | None \<Rightarrow>
              bind_parse (opt_parse (consume_char (CHR '','') s)) (\<lambda>s.
                let s = skip_whitespace s in
                if consume_char (CHR ''}'') s \<noteq> None then Reject
                else object_loop f n obj s))) (shorter ?m)"
    if kc: "on_rest parse_key s = Some (key, s1)" "consume_char (CHR '':'') (skip_whitespace s1) = Some s2" for key s1 s2
    unfolding settles_bind
  proof (rule settles_shorter)
    have l1: "length (gs_rest s1) \<le> ?m" using state_step_rest(6) [OF kc(1)] by (rule parse_key_length)
    have l2: "length (gs_rest (skip_whitespace s2)) < ?m"
      using consume_shorter [OF kc(2) l1] skip_whitespace_le [of s2 "length (gs_rest s2)"] by simp
    then have "3 * length (gs_rest (skip_whitespace s2)) + 2 \<le> n" using n by simp
    then show "settles (parse_value f n (skip_whitespace s2)) (shorter (length (gs_rest (skip_whitespace s2))))"
      using IH unfolding fuel_ok_def by blast
    show "length (gs_rest s3) \<le> length (gs_rest (skip_whitespace s2)) \<Longrightarrow>
      settles (case (v, s3) of (v, s) \<Rightarrow>
          let obj = obj_insert key v obj; s = skip_whitespace s in
          case consume_char (CHR ''}'') s of
            Some s \<Rightarrow> Parsed (JObject obj, leave_container s)
          | None \<Rightarrow>
              bind_parse (opt_parse (consume_char (CHR '','') s)) (\<lambda>s.
                let s = skip_whitespace s in
                if consume_char (CHR ''}'') s \<noteq> None then Reject
                else object_loop f n obj s)) (shorter ?m)" for v s3
      using settles_tail [of s3 ?m "object_loop f n (obj_insert key v obj)"
          "CHR '',''" "CHR ''}''" "JObject (obj_insert key v obj)", OF _ fuel_loops(1) [OF IH n]] l2
      by (simp add: Let_def)
  qed
  then show ?thesis
    by (simp add: settles_bind settles_opt)
qed

lemma fuel_array_loop:
  assumes IH: "fuel_ok f n" and n: "3 * length (gs_rest s) + 3 \<le> Suc n"
  shows "settles (array_loop f (Suc n) vs s) (shorter (length (gs_rest s)))"
proof -
  let ?m = "length (gs_rest s)"
  have val: "settles (bind_parse (parse_value f n s) (\<lambda>(v, s).
        let vs = vs @ [v]; s = skip_whitespace s in
        case consume_char (CHR '']'') s of
          Some s \<Rightarrow> Parsed (JArray vs, leave_container s)
        | None \<Rightarrow>
            bind_parse (opt_parse (consume_char (CHR '','') s)) (\<lambda>s.
              let s = skip_whitespace s in
              if consume_char (CHR '']'') s \<noteq> None then Reject
              else array_loop f n vs s))) (shorter ?m)"
    unfolding settles_bind
  proof (rule settles_shorter)
    have "3 * length (gs_rest s) + 2 \<le> n" using n by simp
    then show "settles (parse_value f n s) (shorter ?m)" using IH unfolding fuel_ok_def by blast
    show "length (gs_rest s3) \<le> ?m \<Longrightarrow>
      settles (case (v, s3) of (v, s) \<Rightarrow>
          let vs = vs @ [v]; s = skip_whitespace s in
        case consume_char (CHR '']'') s of
          Some s \<Rightarrow> Parsed (JArray vs, leave_container s)
        | None \<Rightarrow>
            bind_parse (opt_parse (consume_char (CHR '','') s)) (\<lambda>s.
              let s = skip_whitespace s in
              if consume_char (CHR '']'') s \<noteq> None then Reject
              else array_loop f n vs s)) (shorter ?m)" for v s3
      using settles_tail [of s3 ?m "array_loop f n (vs @ [v])"
          "CHR '',''" "CHR '']''" "JArray (vs @ [v])", OF _ fuel_loops(2) [OF IH n]]
      by (simp add: Let_def)
  qed
  then show ?thesis by simp
qed

lemma fuel_parse_array:
  assumes IH: "fuel_ok f n" and n: "3 * length (gs_rest s) + 1 \<le> Suc n"
  shows "settles (parse_array f (Suc n) s) (shorter (length (gs_rest s)))"
proof -
  have "settles (array_loop f n [] (skip_whitespace s2)) (shorter (length (gs_rest s)))"
    if "length (gs_rest s) = Suc (length (gs_rest s2))" for s2
  proof (rule settles_shorter)
    show "settles (array_loop f n [] (skip_whitespace s2)) (shorter (length (gs_rest (skip_whitespace s2))))"
      using IH n that skip_whitespace_le [of s2 "length (gs_rest s2)"] unfolding fuel_ok_def by simp
    show "\<And>v s'. length (gs_rest s') \<le> length (gs_rest (skip_whitespace s2)) \<Longrightarrow> shorter (length (gs_rest s)) (v, s')"
      using that skip_whitespace_le [of s2 "length (gs_rest s2)"] by (simp add: shorter_def)
  qed
  moreover have "length (gs_rest s3) < length (gs_rest s)"
    if "length (gs_rest s) = Suc (length (gs_rest s2))" "consume_char c (skip_whitespace s2) = Some s3" for s2 s3 c
    using state_step_rest(3) [OF that(2)] that(1) skip_whitespace_le [of s2 "length (gs_rest s2)"] by simp
  ultimately show ?thesis
    by (auto simp: settles_bind settles_opt Let_def shorter_def state_step_rest(4) less_imp_le split: option.splits
      dest!: state_step_rest(2) state_step_rest(3) [of "CHR ''[''"])
qed

lemma fuel_enough: "fuel_ok f n"
proof (induction n)
  case 0
  show ?case by (simp add: fuel_ok_def)
next
  case (Suc n)
  show ?case
    unfolding fuel_ok_def
    using fuel_parse_value [OF Suc] fuel_parse_object [OF Suc] fuel_object_loop [OF Suc]
      fuel_parse_array [OF Suc] fuel_array_loop [OF Suc] by blast
qed

lemma gemma_object_total:
  "3 * length (gs_rest s) + 1 \<le> n \<Longrightarrow> settles (parse_object f n s) (shorter (length (gs_rest s)))"
  using fuel_enough [of f n] unfolding fuel_ok_def by blast

lemma parse_gemma_call_settles:
  "settles (parse_gemma_call f body) (\<lambda>(name, args, n). valid_tool_name name \<and> n \<le> length body)"
proof (cases "str_find ''{'' body")
  case (Some k)
  have "settles (parse_object f (gemma_fuel body) \<lparr> gs_rest = drop k body, gs_depth = 0, gs_nodes = 0 \<rparr>)
     (\<lambda>r. True)"
    by (rule settles_mono [OF gemma_object_total]) (auto simp: gemma_fuel_def)
  then show ?thesis by (auto simp: parse_gemma_call_def Some Let_def settles_bind elim!: settles_mono)
qed (simp add: parse_gemma_call_def)

text \<open>
  C40. Parsing a Gemma call ends on every input, however deeply the containers nest and wherever the
  input stops: the parser rejects it or returns a valid tool name and the number of bytes read,
  which lies within the input.
\<close>

theorem gemma_call_settles:
  "settles (parse_gemma_call from_str body) (\<lambda>(name, arguments, consumed). valid_tool_name name \<and> consumed \<le> length body)"
  by (rule parse_gemma_call_settles)

end
