(* ===== verification/Tool_Calls.thy ===== *)
theory Tool_Calls
  imports Gemma_Parser Schema_Accept "HOL-Library.Word"
begin

text \<open>
  Tool calls in model output (\<open>src/src/engine/tools.rs\<close>): the declarations, the scanners of the
  four call conventions, the payload parsers, and the step that keeps only the calls the request
  advertises and removes exactly their text. A scanner's cursor and the spans it records are byte
  offsets into the scanned text, as in the code.
\<close>

section \<open>Declarations and calls\<close>

definition MAX_TOOL_CALLS :: nat where "MAX_TOOL_CALLS = 64"
definition MAX_TOOL_MARKERS :: nat where "MAX_TOOL_MARKERS = 256"

record tool_function =
  tf_name :: str
  tf_description :: "str option"
  tf_parameters :: json

definition default_params :: json where
  "default_params = JObject [(''properties'', JObject []), (''type'', JString ''object'')]"

record tool =
  tool_kind :: str
  tool_function :: tool_function

definition default_tool_type :: str where
  "default_tool_type = ''function''"

definition tool_new :: "str \<Rightarrow> str \<Rightarrow> json \<Rightarrow> tool" where
  "tool_new name description parameters =
     \<lparr> tool_kind = ''function'',
       tool_function = \<lparr> tf_name = name, tf_description = Some description, tf_parameters = parameters \<rparr> \<rparr>"

record tool_call =
  call_id :: str
  call_name :: str
  call_arguments :: json

record tool_proposal =
  tp_name :: str
  tp_arguments :: json
  tp_span :: "nat \<times> nat"

text \<open>The process-wide counter is threaded as its next value.\<close>

function decimal :: "nat \<Rightarrow> str" where
  "decimal n = (if n < 10 then [char_of (48 + n)] else decimal (n div 10) @ [char_of (48 + n mod 10)])"
  by pat_completeness auto
termination by (relation "measure id") auto

declare decimal.simps [simp del]

definition next_call_id :: "64 word \<Rightarrow> str \<times> 64 word" where
  "next_call_id counter = (''call_'' @ decimal (unat counter), counter + 1)"

definition into_call :: "tool_proposal \<Rightarrow> 64 word \<Rightarrow> tool_call \<times> 64 word" where
  "into_call p counter =
     (case next_call_id counter of (i, counter) \<Rightarrow>
        (\<lparr> call_id = i, call_name = tp_name p, call_arguments = tp_arguments p \<rparr>, counter))"

fun into_calls :: "tool_proposal list \<Rightarrow> 64 word \<Rightarrow> tool_call list \<times> 64 word" where
  "into_calls [] counter = ([], counter)"
| "into_calls (p # ps) counter =
     (case into_call p counter of (c, counter) \<Rightarrow>
        (case into_calls ps counter of (cs, counter) \<Rightarrow> (c # cs, counter)))"


section \<open>Raw JSON calls\<close>

text \<open>The object a call is written as, with exactly a name and its arguments under \<open>key\<close>.\<close>

definition call_fields :: "str \<Rightarrow> json_parser \<Rightarrow> str \<Rightarrow> (str \<times> json) option" where
  "call_fields key from_str raw =
     (case parse_strict_json from_str raw of
        Some (JObject object) \<Rightarrow>
          (case obj_remove ''name'' object of (name, object) \<Rightarrow>
            (case Option.bind name as_str of
               None \<Rightarrow> None
             | Some name \<Rightarrow>
                 (case obj_remove key object of
                    (None, object) \<Rightarrow> None
                  | (Some arguments, object) \<Rightarrow>
                      (if object \<noteq> [] \<or> \<not> valid_tool_name name \<or> as_object arguments = None
                          \<or> (case as_object arguments of None \<Rightarrow> False
                             | Some values \<Rightarrow> length values > MAX_TOOL_ARGUMENTS)
                       then None else Some (name, arguments)))))
      | _ \<Rightarrow> None)"

definition parse_llama_json_fields :: "json_parser \<Rightarrow> str \<Rightarrow> (str \<times> json) option" where
  "parse_llama_json_fields = call_fields ''parameters''"

definition parse_llama_json :: "json_parser \<Rightarrow> str \<Rightarrow> tool_proposal list" where
  "parse_llama_json from_str t =
     (let trimmed = trim t; start = length t - length (trim_start t) in
      case parse_llama_json_fields from_str trimmed of
        None \<Rightarrow> []
      | Some (name, arguments) \<Rightarrow>
          [\<lparr> tp_name = name, tp_arguments = arguments, tp_span = (start, start + length trimmed) \<rparr>])"

text \<open>
  The template probe: brace-delimited ranges outside strings, innermost first, each tried as a call
  within the byte limits. The scan's state keeps the open braces and the closed ranges; it gives up
  on too many of them.
\<close>

definition MAX_PROBE_CANDIDATE_BYTES :: nat where "MAX_PROBE_CANDIDATE_BYTES = 65536"
definition MAX_PROBE_PARSED_BYTES :: nat where "MAX_PROBE_PARSED_BYTES = 262144"

record probe_scan =
  ps_starts :: "nat list"
  ps_ranges :: "(nat \<times> nat) list"
  ps_in_string :: bool
  ps_escaped :: bool

definition probe_byte :: "nat \<Rightarrow> char \<Rightarrow> probe_scan \<Rightarrow> probe_scan option" where
  "probe_byte index c s =
     (if ps_in_string s then
        Some (if ps_escaped s then s\<lparr> ps_escaped := False \<rparr>
              else if c = CHR 0x5C then s\<lparr> ps_escaped := True \<rparr>
              else if c = CHR 0x22 then s\<lparr> ps_in_string := False \<rparr>
              else s)
      else if c = CHR 0x22 then Some (s\<lparr> ps_in_string := True \<rparr>)
      else if c = CHR ''{'' then
        (if length (ps_ranges s) + length (ps_starts s) \<ge> MAX_TOOL_MARKERS then None
         else Some (s\<lparr> ps_starts := index # ps_starts s \<rparr>))
      else if c = CHR ''}'' then
        (case ps_starts s of
           [] \<Rightarrow> Some s
         | start # starts \<Rightarrow>
             Some (s\<lparr> ps_starts := starts, ps_ranges := ps_ranges s @ [(start, index + 1)] \<rparr>))
      else Some s)"

fun probe_bytes :: "nat \<Rightarrow> str \<Rightarrow> probe_scan \<Rightarrow> probe_scan option" where
  "probe_bytes index [] s = Some s"
| "probe_bytes index (c # t) s =
     (case probe_byte index c s of None \<Rightarrow> None | Some s \<Rightarrow> probe_bytes (index + 1) t s)"

definition span_text :: "nat \<times> nat \<Rightarrow> str \<Rightarrow> str" where
  "span_text r t = take (snd r - fst r) (drop (fst r) t)"

fun probe_ranges :: "json_parser \<Rightarrow> str \<Rightarrow> str \<Rightarrow> json \<Rightarrow> nat \<Rightarrow> (nat \<times> nat) list \<Rightarrow> bool" where
  "probe_ranges from_str t name arguments parsed [] = False"
| "probe_ranges from_str t name arguments parsed (r # rs) =
     (let candidate = snd r - fst r in
      if candidate > MAX_PROBE_CANDIDATE_BYTES then probe_ranges from_str t name arguments parsed rs
      else if parsed + candidate > MAX_PROBE_PARSED_BYTES then False
      else if parse_llama_json_fields from_str (span_text r t) = Some (name, arguments) then True
      else probe_ranges from_str t name arguments (parsed + candidate) rs)"

definition rendered_llama_history_contains_call :: "json_parser \<Rightarrow> str \<Rightarrow> str \<Rightarrow> json \<Rightarrow> bool" where
  "rendered_llama_history_contains_call from_str t expected_name expected_arguments =
     (case probe_bytes 0 t \<lparr> ps_starts = [], ps_ranges = [], ps_in_string = False, ps_escaped = False \<rparr> of
        None \<Rightarrow> False
      | Some s \<Rightarrow> probe_ranges from_str t expected_name expected_arguments 0 (ps_ranges s))"


section \<open>Payloads\<close>

definition coerce_xml_value :: "json_parser \<Rightarrow> str \<Rightarrow> json" where
  "coerce_xml_value from_str raw =
     (case parse_strict_json from_str raw of Some v \<Rightarrow> v | None \<Rightarrow> JString raw)"

definition PARAM_OPEN :: str where "PARAM_OPEN = ''<parameter=''"
definition PARAM_CLOSE :: str where "PARAM_CLOSE = ''</parameter>''"
definition FUNC_OPEN :: str where "FUNC_OPEN = ''<function=''"
definition FUNC_CLOSE :: str where "FUNC_CLOSE = ''</function>''"

text \<open>One parameter of the XML function form, and the text after it.\<close>

definition xml_param :: "json_parser \<Rightarrow> object \<Rightarrow> str \<Rightarrow> (object \<times> str) option" where
  "xml_param from_str obj cursor =
     (case strip_prefix PARAM_OPEN cursor of
        None \<Rightarrow> None
      | Some after_param \<Rightarrow>
          (case str_find ''>'' after_param of
             None \<Rightarrow> None
           | Some key_end \<Rightarrow>
               (let key = trim (take key_end after_param) in
                if \<not> valid_argument_name key \<or> obj_contains key obj then None
                else let value_body = drop (key_end + 1) after_param in
                  case str_find PARAM_CLOSE value_body of
                    None \<Rightarrow> None
                  | Some value_end \<Rightarrow>
                      Some (obj_insert key (coerce_xml_value from_str (trim (take value_end value_body))) obj,
                            trim_start (drop (value_end + length PARAM_CLOSE) value_body)))))"

lemma xml_param_length: "xml_param f obj c = Some (obj', c') \<Longrightarrow> length c' < length c"
  by (auto simp: xml_param_def Let_def strip_prefix_Some PARAM_OPEN_def
      intro!: le_less_trans [OF trim_start_length] split: option.splits if_splits)

function xml_params :: "json_parser \<Rightarrow> object \<Rightarrow> str \<Rightarrow> object option" where
  "xml_params from_str obj cursor =
     (if cursor = [] then Some obj
      else if length obj \<ge> MAX_TOOL_ARGUMENTS then None
      else case xml_param from_str obj cursor of
        None \<Rightarrow> None
      | Some (obj, cursor) \<Rightarrow> xml_params from_str obj cursor)"
  by pat_completeness auto
termination
  by (relation "measure (\<lambda>(_, _, c). length c)") (auto dest: xml_param_length)

declare xml_params.simps [simp del]

definition parse_xml_function :: "json_parser \<Rightarrow> str \<Rightarrow> (str \<times> json) option" where
  "parse_xml_function from_str payload =
     (case Option.bind (strip_suffix FUNC_CLOSE (trim payload)) (strip_prefix FUNC_OPEN) of
        None \<Rightarrow> None
      | Some after_open \<Rightarrow>
          (case str_find ''>'' after_open of
             None \<Rightarrow> None
           | Some name_end \<Rightarrow>
               (let name = trim (take name_end after_open) in
                if \<not> valid_tool_name name then None
                else map_option (\<lambda>obj. (name, JObject obj))
                       (xml_params from_str [] (trim_start (drop (name_end + 1) after_open))))))"

definition parse_hermes_payload :: "json_parser \<Rightarrow> str \<Rightarrow> (str \<times> json) option" where
  "parse_hermes_payload from_str payload =
     (if starts_with ''{'' payload then call_fields ''arguments'' from_str payload
      else parse_xml_function from_str payload)"

definition KEY_OPEN :: str where "KEY_OPEN = ''<arg_key>''"
definition KEY_CLOSE :: str where "KEY_CLOSE = ''</arg_key>''"
definition VALUE_OPEN :: str where "VALUE_OPEN = ''<arg_value>''"
definition VALUE_CLOSE :: str where "VALUE_CLOSE = ''</arg_value>''"

definition laguna_arg :: "json_parser \<Rightarrow> object \<Rightarrow> str \<Rightarrow> (object \<times> str) option" where
  "laguna_arg from_str obj cursor =
     (case strip_prefix KEY_OPEN cursor of
        None \<Rightarrow> None
      | Some after_key \<Rightarrow>
          (case str_find KEY_CLOSE after_key of
             None \<Rightarrow> None
           | Some key_end \<Rightarrow>
               (let key = trim (take key_end after_key) in
                if \<not> valid_argument_name key \<or> obj_contains key obj then None
                else case strip_prefix VALUE_OPEN
                    (trim_start (drop (key_end + length KEY_CLOSE) after_key)) of
                  None \<Rightarrow> None
                | Some value_body \<Rightarrow>
                    (case str_find VALUE_CLOSE value_body of
                       None \<Rightarrow> None
                     | Some value_end \<Rightarrow>
                         Some (obj_insert key (coerce_xml_value from_str (trim (take value_end value_body))) obj,
                               trim_start (drop (value_end + length VALUE_CLOSE) value_body))))))"

lemma laguna_arg_length:
  assumes "laguna_arg f obj c = Some (obj', c')"
  shows "length c' < length c"
proof -
  obtain k v ak vb where steps: "c = KEY_OPEN @ ak" "trim_start (drop (k + length KEY_CLOSE) ak) = VALUE_OPEN @ vb"
      "c' = trim_start (drop (v + length VALUE_CLOSE) vb)"
    using assms by (auto simp: laguna_arg_def Let_def strip_prefix_Some split: option.splits if_splits)
  have "length c' \<le> length vb" unfolding steps(3) by (rule le_trans [OF trim_start_length]) simp
  also have "length vb \<le> length ak"
    using steps(2) trim_start_length [of "drop (k + length KEY_CLOSE) ak"] by simp
  finally show ?thesis by (simp add: steps(1) KEY_OPEN_def)
qed

function laguna_args :: "json_parser \<Rightarrow> object \<Rightarrow> str \<Rightarrow> object option" where
  "laguna_args from_str obj cursor =
     (if cursor = [] then Some obj
      else if length obj \<ge> MAX_TOOL_ARGUMENTS then None
      else case laguna_arg from_str obj cursor of
        None \<Rightarrow> None
      | Some (obj, cursor) \<Rightarrow> laguna_args from_str obj cursor)"
  by pat_completeness auto
termination
  by (relation "measure (\<lambda>(_, _, c). length c)") (auto dest: laguna_arg_length)

declare laguna_args.simps [simp del]

definition parse_laguna_payload :: "json_parser \<Rightarrow> str \<Rightarrow> (str \<times> json) option" where
  "parse_laguna_payload from_str payload =
     (let payload = trim payload;
          name_end = (case str_find KEY_OPEN payload of Some k \<Rightarrow> k | None \<Rightarrow> length payload);
          name = trim (take name_end payload) in
      if \<not> valid_tool_name name then None
      else map_option (\<lambda>obj. (name, JObject obj))
             (laguna_args from_str [] (trim_start (drop name_end payload))))"


section \<open>Scanners\<close>

definition OPEN :: str where "OPEN = ''<tool_call>''"
definition CLOSE :: str where "CLOSE = ''</tool_call>''"

text \<open>The loop \<open>parse_hermes\<close> and \<open>parse_laguna\<close> share, given the payload parser.\<close>

function block_loop ::
  "(str \<Rightarrow> (str \<times> json) option) \<Rightarrow> str \<Rightarrow> nat \<Rightarrow> nat \<Rightarrow> tool_proposal list \<Rightarrow> tool_proposal list" where
  "block_loop payload_of t cursor markers calls =
     (if length calls < MAX_TOOL_CALLS \<and> markers < MAX_TOOL_MARKERS then
        (case str_find OPEN (drop cursor t) of
           None \<Rightarrow> calls
         | Some relative_start \<Rightarrow>
             (let start = cursor + relative_start; payload_start = start + length OPEN;
                  after_open = drop payload_start t in
              case str_find CLOSE after_open of
                None \<Rightarrow> calls
              | Some end_ix \<Rightarrow>
                  (let span_end = payload_start + end_ix + length CLOSE;
                       calls = (case payload_of (take end_ix after_open) of
                                  None \<Rightarrow> calls
                                | Some (name, arguments) \<Rightarrow>
                                    calls @ [\<lparr> tp_name = name, tp_arguments = arguments,
                                               tp_span = (start, span_end) \<rparr>])
                   in block_loop payload_of t span_end (markers + 1) calls)))
      else calls)"
  by pat_completeness auto
termination
  by (relation "measure (\<lambda>(_, _, _, markers, _). MAX_TOOL_MARKERS - markers)") auto

declare block_loop.simps [simp del]

definition parse_hermes :: "json_parser \<Rightarrow> str \<Rightarrow> tool_proposal list" where
  "parse_hermes from_str t = block_loop (\<lambda>p. parse_hermes_payload from_str (trim p)) t 0 0 []"

definition parse_laguna :: "json_parser \<Rightarrow> str \<Rightarrow> tool_proposal list" where
  "parse_laguna from_str t = block_loop (parse_laguna_payload from_str) t 0 0 []"

definition GEMMA_OPEN :: str where "GEMMA_OPEN = ''<|tool_call>call:''"
definition GEMMA_CLOSE :: str where "GEMMA_CLOSE = ''<tool_call|>''"

text \<open>A call at \<open>body_start\<close>: its name, its arguments and the end of its closing marker.\<close>

definition gemma_call_at :: "json_parser \<Rightarrow> str \<Rightarrow> nat \<Rightarrow> (str \<times> json \<times> nat) option" where
  "gemma_call_at from_str t body_start =
     (let body = drop body_start t in
      case parse_gemma_call from_str body of
        Parsed (name, arguments, consumed) \<Rightarrow>
          (let after_call = drop consumed body;
               whitespace = length after_call - length (trim_start after_call) in
           case strip_prefix GEMMA_CLOSE (drop whitespace after_call) of
             None \<Rightarrow> None
           | Some after_close \<Rightarrow> Some (name, arguments, length t - length after_close))
      | _ \<Rightarrow> None)"

function gemma_loop :: "json_parser \<Rightarrow> str \<Rightarrow> nat \<Rightarrow> nat \<Rightarrow> tool_proposal list \<Rightarrow> tool_proposal list" where
  "gemma_loop from_str t cursor markers calls =
     (if length calls < MAX_TOOL_CALLS \<and> markers < MAX_TOOL_MARKERS then
        (case str_find GEMMA_OPEN (drop cursor t) of
           None \<Rightarrow> calls
         | Some relative_start \<Rightarrow>
             (let start = cursor + relative_start; body_start = start + length GEMMA_OPEN in
              case gemma_call_at from_str t body_start of
                None \<Rightarrow> gemma_loop from_str t body_start (markers + 1) calls
              | Some (name, arguments, span_end) \<Rightarrow>
                  gemma_loop from_str t span_end (markers + 1)
                    (calls @ [\<lparr> tp_name = name, tp_arguments = arguments, tp_span = (start, span_end) \<rparr>])))
      else calls)"
  by pat_completeness auto
termination
  by (relation "measure (\<lambda>(_, _, _, markers, _). MAX_TOOL_MARKERS - markers)") auto

declare gemma_loop.simps [simp del]

definition parse_gemma :: "json_parser \<Rightarrow> str \<Rightarrow> tool_proposal list" where
  "parse_gemma from_str t = gemma_loop from_str t 0 0 []"


section \<open>Accepting and stripping\<close>

definition parse_tool_proposals :: "json_parser \<Rightarrow> str \<Rightarrow> tool_call_format \<Rightarrow> tool_proposal list" where
  "parse_tool_proposals from_str t format =
     (case format of
        Hermes \<Rightarrow> parse_hermes from_str t
      | Gemma \<Rightarrow> parse_gemma from_str t
      | Laguna \<Rightarrow> parse_laguna from_str t
      | LlamaJson \<Rightarrow> parse_llama_json from_str t
      | NoTools \<Rightarrow> [])"

definition parse_tool_calls ::
  "json_parser \<Rightarrow> str \<Rightarrow> tool_call_format \<Rightarrow> 64 word \<Rightarrow> tool_call list \<times> 64 word" where
  "parse_tool_calls from_str t format = into_calls (parse_tool_proposals from_str t format)"

fun strip_loop :: "str \<Rightarrow> (nat \<times> nat) list \<Rightarrow> str \<Rightarrow> nat \<Rightarrow> str" where
  "strip_loop t [] out copied_through = out @ drop copied_through t"
| "strip_loop t ((a, b) # spans) out copied_through =
     (if a < copied_through \<or> b > length t then strip_loop t spans out copied_through
      else strip_loop t spans (out @ span_text (copied_through, a) t) b)"

definition strip_spans :: "str \<Rightarrow> (nat \<times> nat) list \<Rightarrow> str" where
  "strip_spans t spans = (if spans = [] then t else strip_loop t spans [] 0)"

definition strip_tool_calls :: "json_parser \<Rightarrow> str \<Rightarrow> tool_call_format \<Rightarrow> str" where
  "strip_tool_calls from_str t format = strip_spans t (map tp_span (parse_tool_proposals from_str t format))"

definition proposal_is_advertised_and_valid :: "tool_proposal \<Rightarrow> tool list \<Rightarrow> bool" where
  "proposal_is_advertised_and_valid proposal tools =
     (case filter (\<lambda>tool. tool_kind tool = ''function'' \<and> tf_name (tool_function tool) = tp_name proposal) tools of
        [] \<Rightarrow> False
      | tool # others \<Rightarrow>
          (if others \<noteq> [] \<or> as_object (tp_arguments proposal) = None
              \<or> validate_tool_schema (tf_parameters (tool_function tool)) \<noteq> None
           then False
           else arguments_satisfy_schema (tf_parameters (tool_function tool)) (tp_arguments proposal)))"

fun accept_loop :: "tool list \<Rightarrow> tool_proposal list \<Rightarrow> (nat \<times> nat) list \<Rightarrow> tool_call list \<Rightarrow> 64 word
    \<Rightarrow> ((nat \<times> nat) list \<times> tool_call list) \<times> 64 word" where
  "accept_loop tools [] spans calls counter = ((spans, calls), counter)"
| "accept_loop tools (p # ps) spans calls counter =
     (if proposal_is_advertised_and_valid p tools then
        (case into_call p counter of (c, counter) \<Rightarrow>
           accept_loop tools ps (spans @ [tp_span p]) (calls @ [c]) counter)
      else accept_loop tools ps spans calls counter)"

definition parse_and_strip_tool_calls ::
  "json_parser \<Rightarrow> str \<Rightarrow> tool_call_format \<Rightarrow> tool list \<Rightarrow> 64 word \<Rightarrow> (str \<times> tool_call list) \<times> 64 word" where
  "parse_and_strip_tool_calls from_str t format tools counter =
     (case accept_loop tools (parse_tool_proposals from_str t format) [] [] counter of
        ((spans, calls), counter) \<Rightarrow> ((strip_spans t spans, calls), counter))"

end
