(* ===== verification/Tool_Calls_Correct.thy ===== *)
theory Tool_Calls_Correct
  imports Tool_Calls
begin

text \<open>
  What the call parser promises: the spans of the proposals lie in order inside the text and hold
  exactly a call's markup, stripping removes the accepted spans and nothing else, and every call
  returned is one the request advertises, with arguments its schema accepts.
\<close>

section \<open>Ordered spans and what they leave\<close>

fun ordered_spans :: "nat \<Rightarrow> (nat \<times> nat) list \<Rightarrow> nat \<Rightarrow> bool" where
  "ordered_spans c [] e \<longleftrightarrow> c \<le> e"
| "ordered_spans c ((a, b) # spans) e \<longleftrightarrow> c \<le> a \<and> a \<le> b \<and> ordered_spans b spans e"

text \<open>The bytes of a text no span covers, in order.\<close>

definition text_outside :: "(nat \<times> nat) list \<Rightarrow> str \<Rightarrow> str" where
  "text_outside spans t =
     map ((!) t) (filter (\<lambda>i. list_all (\<lambda>(a, b). i < a \<or> b \<le> i) spans) [0..<length t])"

lemma ordered_spans_le: "ordered_spans c spans e \<Longrightarrow> c \<le> e"
  by (induction c spans e rule: ordered_spans.induct) auto

lemma ordered_spans_mono: "ordered_spans c spans e \<Longrightarrow> c' \<le> c \<Longrightarrow> e \<le> e' \<Longrightarrow> ordered_spans c' spans e'"
  by (induction c spans e arbitrary: c' rule: ordered_spans.induct) auto

lemma ordered_spans_snoc:
  "ordered_spans c spans m \<Longrightarrow> m \<le> a \<Longrightarrow> a \<le> b \<Longrightarrow> ordered_spans c (spans @ [(a, b)]) b"
  by (induction c spans m rule: ordered_spans.induct) (auto intro: ordered_spans_mono)

lemma ordered_spans_filter:
  "ordered_spans c (map f ps) e \<Longrightarrow> ordered_spans c (map f (filter P ps)) e"
proof (induction ps arbitrary: c)
  case (Cons p ps)
  then show ?case by (cases "f p") (auto intro: ordered_spans_mono)
qed simp

lemma ordered_spans_after: "ordered_spans c spans e \<Longrightarrow> i < c \<Longrightarrow> list_all (\<lambda>(a, b). i < a \<or> b \<le> i) spans"
  by (induction c spans e rule: ordered_spans.induct) auto

lemma map_nth_range: "b \<le> length t \<Longrightarrow> map ((!) t) [a..<b] = span_text (a, b) t"
  by (rule nth_equalityI) (auto simp: span_text_def)

lemma strip_loop_outside:
  "ordered_spans c spans (length t) \<Longrightarrow>
    strip_loop t spans out c =
      out @ map ((!) t) (filter (\<lambda>i. list_all (\<lambda>(a, b). i < a \<or> b \<le> i) spans) [c..<length t])"
proof (induction spans arbitrary: out c)
  case Nil
  then show ?case by (simp add: map_nth_range span_text_def)
next
  case (Cons s spans)
  obtain a b where s: "s = (a, b)" by (cases s)
  let ?keep = "\<lambda>i. list_all (\<lambda>(a, b). i < a \<or> b \<le> i) spans"
  have ord: "c \<le> a" "a \<le> b" "ordered_spans b spans (length t)" using Cons.prems s by auto
  have b: "b \<le> length t" using ordered_spans_le [OF ord(3)] .
  have split: "[c..<length t] = [c..<a] @ [a..<b] @ [b..<length t]"
    using ord b by (metis le_trans upt_add_eq_append le_add_diff_inverse)
  have keep: "?keep i" if "i < b" for i using ordered_spans_after [OF ord(3) that] .
  have "filter (\<lambda>i. (i < a \<or> b \<le> i) \<and> ?keep i) [c..<a] = [c..<a]"
    using keep ord by (auto intro!: filter_True)
  moreover have "filter (\<lambda>i. (i < a \<or> b \<le> i) \<and> ?keep i) [a..<b] = []"
    by (auto intro!: filter_False)
  moreover have "filter (\<lambda>i. (i < a \<or> b \<le> i) \<and> ?keep i) [b..<length t] = filter ?keep [b..<length t]"
    by (auto intro!: filter_cong)
  ultimately have "map ((!) t) (filter (\<lambda>i. list_all (\<lambda>(a, b). i < a \<or> b \<le> i) (s # spans)) [c..<length t])
      = span_text (c, a) t @ map ((!) t) (filter ?keep [b..<length t])"
    using ord b by (simp add: s split map_nth_range)
  then show ?case using Cons.IH [OF ord(3)] ord b by (simp add: s)
qed

lemma strip_spans_outside:
  assumes "ordered_spans 0 spans (length t)"
  shows "strip_spans t spans = text_outside spans t"
proof (cases "spans = []")
  case True
  have "map ((!) t) [0..<length t] = t" by (rule map_nth)
  with True show ?thesis by (simp add: strip_spans_def text_outside_def)
next
  case False
  then show ?thesis using strip_loop_outside [OF assms, of "[]"] by (simp add: strip_spans_def text_outside_def)
qed


section \<open>The scanners\<close>

text \<open>What a scanner collects: at most 64 proposals with ordered spans, each satisfying \<open>P\<close>.\<close>

definition scanned :: "(tool_proposal \<Rightarrow> bool) \<Rightarrow> tool_proposal list \<Rightarrow> nat \<Rightarrow> bool" where
  "scanned P ps e \<longleftrightarrow> ordered_spans 0 (map tp_span ps) e \<and> length ps \<le> MAX_TOOL_CALLS \<and> list_all P ps"

lemma scanned_mono: "scanned P ps e \<Longrightarrow> e \<le> e' \<Longrightarrow> scanned P ps e'"
  by (auto simp: scanned_def intro: ordered_spans_mono)

lemma scanned_snoc:
  assumes "scanned P ps m" "length ps < MAX_TOOL_CALLS" "m \<le> a" "a \<le> b" "P p" "tp_span p = (a, b)"
  shows "scanned P (ps @ [p]) b"
  using assms by (auto simp: scanned_def intro: ordered_spans_snoc)

text \<open>A block proposal: its span is an opening marker, a payload and a closing marker.\<close>

definition block_proposal :: "(str \<Rightarrow> (str \<times> json) option) \<Rightarrow> str \<Rightarrow> tool_proposal \<Rightarrow> bool" where
  "block_proposal payload_of t p \<longleftrightarrow>
     (\<exists>payload. span_text (tp_span p) t = OPEN @ payload @ CLOSE
        \<and> payload_of payload = Some (tp_name p, tp_arguments p))"

lemma find_drop_split:
  assumes "str_find m (drop c t) = Some k" and "c \<le> length t"
  shows "drop (c + k) t = m @ drop (c + k + length m) t" and "c + k + length m \<le> length t"
proof -
  have "prefix m (drop k (drop c t))" using assms(1) by (simp add: str_find_Some)
  then show "drop (c + k) t = m @ drop (c + k + length m) t"
    by (auto simp: prefix_def add.commute add.left_commute) (metis append_eq_conv_conj drop_drop add.commute)
  show "c + k + length m \<le> length t" using str_find_bound [OF assms(1)] assms(2) by simp
qed

lemma block_loop_scanned:
  assumes "scanned (block_proposal f t) calls cursor" "cursor \<le> length t"
  shows "scanned (block_proposal f t) (block_loop f t cursor markers calls) (length t)"
  using assms
proof (induction f t cursor markers calls rule: block_loop.induct)
  case (1 f t cursor markers calls)
  show ?case
  proof (cases "length calls < MAX_TOOL_CALLS \<and> markers < MAX_TOOL_MARKERS")
    case guard: True
    show ?thesis
    proof (cases "str_find OPEN (drop cursor t)")
      case None
      then show ?thesis using guard "1.prems" scanned_mono by (subst block_loop.simps) simp
    next
      case (Some k)
      let ?p = "cursor + k + length OPEN"
      note o = find_drop_split [OF Some "1.prems"(2)]
      show ?thesis
      proof (cases "str_find CLOSE (drop ?p t)")
        case None
        then show ?thesis using guard Some "1.prems" scanned_mono by (subst block_loop.simps) (simp add: Let_def)
      next
        case (Some e)
        note c = find_drop_split [OF Some o(2)]
        let ?q = "?p + e + length CLOSE" and ?payload = "take e (drop ?p t)"
        let ?calls = "case f ?payload of None \<Rightarrow> calls
          | Some (name, arguments) \<Rightarrow> calls @ [\<lparr> tp_name = name, tp_arguments = arguments, tp_span = (cursor + k, ?q) \<rparr>]"
        have body: "drop ?p t = ?payload @ CLOSE @ drop ?q t"
          using c(1) by (metis append_take_drop_id drop_drop add.commute)
        have "span_text (cursor + k, ?q) t = OPEN @ ?payload @ CLOSE"
        proof -
          have "take (e + length CLOSE) (drop ?p t) = ?payload @ CLOSE"
            using c(2) by (subst body) simp
          with o show ?thesis by (simp add: span_text_def)
        qed
        then have "block_proposal f t \<lparr> tp_name = name, tp_arguments = arguments, tp_span = (cursor + k, ?q) \<rparr>"
          if "f ?payload = Some (name, arguments)" for name arguments
          using that unfolding block_proposal_def by auto
        then have step: "scanned (block_proposal f t) ?calls ?q"
          using "1.prems"(1) guard scanned_mono [OF "1.prems"(1), of ?q]
          by (auto split: option.splits intro!: scanned_snoc [where m = cursor and a = "cursor + k"])
        have "block_loop f t cursor markers calls = block_loop f t ?q (markers + 1) ?calls"
          using guard \<open>str_find OPEN (drop cursor t) = Some k\<close> Some
          by (subst block_loop.simps) (simp add: Let_def)
        then show ?thesis
          using "1.IH" [OF guard \<open>str_find OPEN (drop cursor t) = Some k\<close> refl refl refl Some refl refl step c(2)]
          by simp
      qed
    qed
  next
    case False
    then show ?thesis using "1.prems" by (subst block_loop.simps) (auto intro: scanned_mono)
  qed
qed

lemma trim_end_prefix: "\<exists>n \<le> length t. trim_end t = take n t"
proof (induction t rule: trim_end.induct)
  case (1 t)
  show ?case
  proof (cases "ws_end_len t = 0")
    case False
    then obtain n where "trim_end t = take n (take (length t - ws_end_len t) t)"
      using 1 by (metis trim_end.simps)
    then show ?thesis by (metis min.cobounded2 take_take nat_le_linear take_all)
  qed (use trim_end.simps [of t] in auto)
qed

lemma trim_length: "length t - length (trim_start t) + length (trim t) \<le> length t"
  using trim_end_prefix [of "trim_start t"] trim_start_length [of t] by (auto simp: trim_def)

lemma gemma_call_at_bound:
  assumes "gemma_call_at f t c = Some (name, arguments, e)" and "c \<le> length t"
  shows "c \<le> e" and "e \<le> length t"
proof -
  obtain n w r where steps: "drop w (drop n (drop c t)) = GEMMA_CLOSE @ r" "e = length t - length r"
    using assms(1) by (auto simp: gemma_call_at_def Let_def strip_prefix_Some split: parse.splits option.splits)
  have "length r \<le> length t - c" using arg_cong [OF steps(1), of length] by simp
  with steps(2) assms(2) show "c \<le> e" "e \<le> length t" by auto
qed

definition gemma_proposal :: "json_parser \<Rightarrow> str \<Rightarrow> tool_proposal \<Rightarrow> bool" where
  "gemma_proposal f t p \<longleftrightarrow>
     (\<exists>body ws. span_text (tp_span p) t = GEMMA_OPEN @ body @ ws @ GEMMA_CLOSE
        \<and> trim_start ws = []
        \<and> (\<exists>rest. parse_gemma_call f (body @ rest) = Parsed (tp_name p, tp_arguments p, length body)))"

lemma gemma_call_at_text:
  assumes "gemma_call_at f t c = Some (name, arguments, e)" and "c \<le> length t"
  shows "\<exists>body ws. span_text (c, e) t = body @ ws @ GEMMA_CLOSE \<and> trim_start ws = []
     \<and> (\<exists>rest. parse_gemma_call f (body @ rest) = Parsed (name, arguments, length body))"
proof -
  obtain n r where n: "parse_gemma_call f (drop c t) = Parsed (name, arguments, n)"
    and r: "drop (length (drop n (drop c t)) - length (trim_start (drop n (drop c t)))) (drop n (drop c t))
      = GEMMA_CLOSE @ r" "e = length t - length r"
    using assms(1) by (auto simp: gemma_call_at_def Let_def strip_prefix_Some split: parse.splits option.splits)
  have n_le: "n \<le> length (drop c t)" using parse_gemma_call_settles [of f "drop c t"] n by simp
  define ac where "ac = drop n (drop c t)"
  have ac: "ac = take (leading ac) ac @ GEMMA_CLOSE @ r"
    using r(1) unfolding leading_def ac_def [symmetric] by (metis append_take_drop_id)
  have full: "drop c t = take n (drop c t) @ take (leading ac) ac @ GEMMA_CLOSE @ r"
    using ac unfolding ac_def by (metis append_take_drop_id)
  have len: "e - c = length (take n (drop c t) @ take (leading ac) ac @ GEMMA_CLOSE)"
    using arg_cong [OF full, of length] r(2) assms(2) by simp
  have "span_text (c, e) t = take n (drop c t) @ take (leading ac) ac @ GEMMA_CLOSE"
    unfolding span_text_def fst_conv snd_conv len
    using full by (metis append.assoc append_eq_conv_conj)
  moreover have "parse_gemma_call f (take n (drop c t) @ drop n (drop c t)) = Parsed (name, arguments, length (take n (drop c t)))"
    using n n_le by (simp del: drop_drop)
  ultimately show ?thesis using trim_start_take_leading by blast
qed


lemma gemma_loop_scanned:
  assumes "scanned (gemma_proposal f t) calls cursor" "cursor \<le> length t"
  shows "scanned (gemma_proposal f t) (gemma_loop f t cursor markers calls) (length t)"
  using assms
proof (induction f t cursor markers calls rule: gemma_loop.induct)
  case (1 f t cursor markers calls)
  show ?case
  proof (cases "length calls < MAX_TOOL_CALLS \<and> markers < MAX_TOOL_MARKERS")
    case guard: True
    show ?thesis
    proof (cases "str_find GEMMA_OPEN (drop cursor t)")
      case None
      then show ?thesis using guard "1.prems" scanned_mono by (subst gemma_loop.simps) simp
    next
      case found: (Some k)
      let ?p = "cursor + k + length GEMMA_OPEN"
      note o = find_drop_split [OF found "1.prems"(2)]
      show ?thesis
      proof (cases "gemma_call_at f t ?p")
        case None
        have "gemma_loop f t cursor markers calls = gemma_loop f t ?p (markers + 1) calls"
          using guard found None by (subst gemma_loop.simps) (simp add: Let_def)
        then show ?thesis
          using "1.IH"(1) [OF guard found refl refl None] "1.prems" o(2) scanned_mono by simp
      next
        case (Some r)
        obtain name arguments e where r: "r = (name, arguments, e)" by (cases r)
        let ?call = "\<lparr> tp_name = name, tp_arguments = arguments, tp_span = (cursor + k, e) \<rparr>"
        note e = gemma_call_at_bound [OF Some [unfolded r] o(2)]
        obtain body ws rest where parts: "span_text (?p, e) t = body @ ws @ GEMMA_CLOSE" "trim_start ws = []"
            "parse_gemma_call f (body @ rest) = Parsed (name, arguments, length body)"
          using gemma_call_at_text [OF Some [unfolded r] o(2)] by blast
        have "span_text (cursor + k, e) t = GEMMA_OPEN @ span_text (?p, e) t"
          using o e by (simp add: span_text_def)
        with parts have "gemma_proposal f t ?call" by (auto simp: gemma_proposal_def)
        then have "scanned (gemma_proposal f t) (calls @ [?call]) e"
          using "1.prems"(1) guard e by (auto intro: scanned_snoc [where m = cursor and a = "cursor + k"])
        moreover have "gemma_loop f t cursor markers calls = gemma_loop f t e (markers + 1) (calls @ [?call])"
          using guard found Some r by (subst gemma_loop.simps) (simp add: Let_def)
        ultimately show ?thesis
          using "1.IH"(2) [OF guard found refl refl Some r [symmetric] refl] e by simp
      qed
    qed
  next
    case False
    then show ?thesis using "1.prems" by (subst gemma_loop.simps) (auto intro: scanned_mono)
  qed
qed

lemma scanned_Nil: "scanned P [] 0"
  by (simp add: scanned_def)

definition llama_proposal :: "json_parser \<Rightarrow> str \<Rightarrow> tool_proposal \<Rightarrow> bool" where
  "llama_proposal f t p \<longleftrightarrow> span_text (tp_span p) t = trim t
     \<and> parse_llama_json_fields f (trim t) = Some (tp_name p, tp_arguments p)"

lemma trim_span: "span_text (length t - length (trim_start t), length t - length (trim_start t) + length (trim t)) t = trim t"
proof -
  obtain n where "trim t = take n (trim_start t)" "n \<le> length (trim_start t)"
    using trim_end_prefix [of "trim_start t"] by (auto simp: trim_def)
  moreover have "drop (length t - length (trim_start t)) t = trim_start t"
    by (metis trim_start_leading leading_def)
  ultimately show ?thesis by (simp add: span_text_def)
qed

text \<open>What a proposal's text is, per convention.\<close>

definition proposal_ok :: "json_parser \<Rightarrow> tool_call_format \<Rightarrow> str \<Rightarrow> tool_proposal \<Rightarrow> bool" where
  "proposal_ok f format t p =
     (case format of
        Hermes \<Rightarrow> block_proposal (\<lambda>payload. parse_hermes_payload f (trim payload)) t p
      | Laguna \<Rightarrow> block_proposal (parse_laguna_payload f) t p
      | Gemma \<Rightarrow> gemma_proposal f t p
      | LlamaJson \<Rightarrow> llama_proposal f t p
      | NoTools \<Rightarrow> False)"

lemma proposals_scanned: "scanned (proposal_ok f format t) (parse_tool_proposals f t format) (length t)"
proof -
  have "scanned (llama_proposal f t) (parse_llama_json f t) (length t)"
    using trim_length [of t] trim_span [of t]
    by (auto simp: parse_llama_json_def Let_def scanned_def llama_proposal_def MAX_TOOL_CALLS_def
        split: option.splits)
  then show ?thesis
    using block_loop_scanned [OF scanned_Nil] gemma_loop_scanned [OF scanned_Nil]
    by (auto simp: proposal_ok_def [abs_def] parse_tool_proposals_def parse_hermes_def parse_laguna_def
        parse_gemma_def scanned_def split: tool_call_format.splits)
qed


section \<open>Accepted calls\<close>

lemma accept_loop_filter:
  "accept_loop tools ps spans calls counter =
     (let kept = filter (\<lambda>p. proposal_is_advertised_and_valid p tools) ps in
      case into_calls kept counter of (cs, counter) \<Rightarrow> ((spans @ map tp_span kept, calls @ cs), counter))"
  by (induction ps arbitrary: spans calls counter) (auto simp: Let_def split: prod.splits)

lemma into_calls_Cons:
  "into_calls (p # ps) counter =
     (\<lparr> call_id = ''call_'' @ decimal (unat counter), call_name = tp_name p, call_arguments = tp_arguments p \<rparr>
        # fst (into_calls ps (counter + 1)), snd (into_calls ps (counter + 1)))"
  by (simp add: into_call_def next_call_id_def split: prod.split)

lemma into_calls_pairs:
  "map (\<lambda>c. (call_name c, call_arguments c)) (fst (into_calls ps counter))
     = map (\<lambda>p. (tp_name p, tp_arguments p)) ps"
  by (induction ps arbitrary: counter) (simp_all add: into_calls_Cons del: into_calls.simps(2))

lemma into_calls_fields:
  "map call_name (fst (into_calls ps counter)) = map tp_name ps
   \<and> map call_arguments (fst (into_calls ps counter)) = map tp_arguments ps
   \<and> map call_id (fst (into_calls ps counter))
       = map (\<lambda>k. ''call_'' @ decimal (unat (counter + of_nat k))) [0..<length ps]
   \<and> snd (into_calls ps counter) = counter + of_nat (length ps)"
proof (induction ps arbitrary: counter)
  case (Cons p ps)
  have "[0..<Suc (length ps)] = 0 # map Suc [0..<length ps]"
    by (metis upt_conv_Cons map_Suc_upt zero_less_Suc)
  then show ?case using Cons.IH [of "counter + 1"]
    by (auto simp: into_call_def next_call_id_def algebra_simps split: prod.splits)
qed simp


lemma decimal_inj: "decimal a = decimal b \<Longrightarrow> a = b"
proof (induction a arbitrary: b rule: decimal.induct)
  case (1 a)
  have ne: "decimal n \<noteq> []" for n by (cases "n < 10") (simp_all add: decimal.simps [of n])
  have digit: "(char_of (48 + m) :: char) = char_of (48 + n) \<Longrightarrow> m = n" if "m < 10" "n < 10" for m n :: nat
  proof -
    assume "(char_of (48 + m) :: char) = char_of (48 + n)"
    then have "(48 + m) mod 256 = (48 + n) mod (256 :: nat)" by (metis of_char_of)
    with that show "m = n" by simp
  qed
  show ?case
  proof (cases "a < 10")
    case a: True
    show ?thesis
    proof (cases "b < 10")
      case True
      then show ?thesis using a "1.prems" digit [of a b]
        by (simp add: decimal.simps [of a] decimal.simps [of b] del: char_of_eq_iff)
    next
      case False
      then show ?thesis using a "1.prems" ne [of "b div 10"]
        by (simp add: decimal.simps [of a] decimal.simps [of b] Cons_eq_append_conv)
    qed
  next
    case a: False
    show ?thesis
    proof (cases "b < 10")
      case True
      then show ?thesis using a "1.prems" ne [of "a div 10"]
        by (simp add: decimal.simps [of a] decimal.simps [of b] append_eq_Cons_conv)
    next
      case False
      then have eq: "decimal (a div 10) = decimal (b div 10)" "(char_of (48 + a mod 10) :: char) = char_of (48 + b mod 10)"
        using a "1.prems" by (simp_all add: decimal.simps [of a] decimal.simps [of b])
      have "a div 10 = b div 10" using "1.IH" [OF a eq(1)] .
      moreover have "a mod 10 = b mod 10" using digit [OF _ _ eq(2)] by simp
      ultimately show ?thesis by (metis div_mult_mod_eq)
    qed
  qed
qed

text \<open>A call the request permits: one function tool of its name, and arguments its schema accepts.\<close>

definition call_permitted :: "tool list \<Rightarrow> tool_call \<Rightarrow> bool" where
  "call_permitted tools c \<longleftrightarrow>
     (\<exists>tool. filter (\<lambda>tool. tool_kind tool = ''function'' \<and> tf_name (tool_function tool) = call_name c) tools = [tool]
        \<and> (\<exists>vs. call_arguments c = JObject vs)
        \<and> arguments_satisfy_schema (tf_parameters (tool_function tool)) (call_arguments c))"

lemma as_object_None: "as_object v = None \<longleftrightarrow> (\<forall>vs. v \<noteq> JObject vs)"
  by (cases v) auto

lemma valid_permitted:
  "proposal_is_advertised_and_valid p tools \<Longrightarrow>
    call_permitted tools \<lparr> call_id = i, call_name = tp_name p, call_arguments = tp_arguments p \<rparr>"
  by (auto simp: proposal_is_advertised_and_valid_def call_permitted_def as_object_None
      split: list.splits if_splits)

lemma into_calls_permitted:
  "list_all (\<lambda>p. proposal_is_advertised_and_valid p tools) ps \<Longrightarrow>
    list_all (call_permitted tools) (fst (into_calls ps counter))"
proof (induction ps arbitrary: counter)
  case (Cons p ps)
  then show ?case using Cons.IH [of "counter + 1"] valid_permitted [of p tools]
    by (simp add: into_calls_Cons del: into_calls.simps(2))
qed simp

lemma call_ids_distinct:
  assumes "length ps \<le> MAX_TOOL_CALLS"
  shows "distinct (map call_id (fst (into_calls ps counter)))"
proof -
  have "j = k" if jk: "j < length ps" "k < length ps"
      "''call_'' @ decimal (unat (counter + of_nat j)) = ''call_'' @ decimal (unat (counter + of_nat k))" for j k
  proof -
    have "counter + of_nat j = counter + of_nat k"
      using decimal_inj jk(3) by (metis same_append_eq word_unat_eq_iff)
    then have "(of_nat j :: 64 word) = of_nat k" by simp
    then have "unat (of_nat j :: 64 word) = unat (of_nat k :: 64 word)" by simp
    then show ?thesis using jk(1,2) assms by (simp add: unat_of_nat MAX_TOOL_CALLS_def)
  qed
  then show ?thesis using into_calls_fields [of ps counter]
    by (auto simp: distinct_map inj_on_def)
qed

lemma parse_and_strip_eq:
  "parse_and_strip_tool_calls f t format tools counter =
     (let kept = filter (\<lambda>p. proposal_is_advertised_and_valid p tools) (parse_tool_proposals f t format) in
      ((strip_spans t (map tp_span kept), fst (into_calls kept counter)), snd (into_calls kept counter)))"
  by (simp add: parse_and_strip_tool_calls_def accept_loop_filter Let_def split: prod.split)

text \<open>
  C10. Every call \<open>parse_and_strip_tool_calls\<close> returns names exactly one advertised function tool and
  has an argument object that tool's schema accepts; there are at most 64, with distinct identifiers
  numbered on from the process-wide counter, in the order of the text.
\<close>

theorem accepted_calls_permitted:
  "case parse_and_strip_tool_calls from_str t format tools counter of ((out, calls), counter') \<Rightarrow>
     list_all (call_permitted tools) calls
     \<and> length calls \<le> 64
     \<and> map call_id calls = map (\<lambda>k. ''call_'' @ decimal (unat (counter + of_nat k))) [0..<length calls]
     \<and> distinct (map call_id calls)
     \<and> counter' = counter + of_nat (length calls)"
proof -
  let ?kept = "filter (\<lambda>p. proposal_is_advertised_and_valid p tools) (parse_tool_proposals from_str t format)"
  have "length ?kept \<le> MAX_TOOL_CALLS"
    using proposals_scanned [of from_str format t] by (auto simp: scanned_def intro: le_trans [OF length_filter_le])
  moreover have "list_all (\<lambda>p. proposal_is_advertised_and_valid p tools) ?kept"
    by (simp add: list_all_iff)
  moreover have "length (fst (into_calls ?kept counter)) = length ?kept"
    using into_calls_fields [of ?kept counter] by (metis length_map)
  ultimately show ?thesis
    using into_calls_permitted [of tools ?kept counter] into_calls_fields [of ?kept counter]
      call_ids_distinct [of ?kept counter]
    by (simp add: parse_and_strip_eq Let_def MAX_TOOL_CALLS_def)
qed

text \<open>
  C22. The text returned is the model's text without the spans of the accepted calls and with every
  other byte kept, in order: each removed span is the complete markup of an accepted call, and what
  is malformed, unadvertised or rejected stays visible.
\<close>

theorem only_accepted_markup_stripped:
  "\<exists>kept. fst (fst (parse_and_strip_tool_calls from_str t format tools counter)) = text_outside (map tp_span kept) t
     \<and> map (\<lambda>p. (tp_name p, tp_arguments p)) kept
         = map (\<lambda>c. (call_name c, call_arguments c)) (snd (fst (parse_and_strip_tool_calls from_str t format tools counter)))
     \<and> kept = filter (\<lambda>p. proposal_is_advertised_and_valid p tools) (parse_tool_proposals from_str t format)
     \<and> ordered_spans 0 (map tp_span kept) (length t)
     \<and> list_all (proposal_ok from_str format t) kept"
proof -
  define kept where "kept = filter (\<lambda>p. proposal_is_advertised_and_valid p tools) (parse_tool_proposals from_str t format)"
  have ord: "ordered_spans 0 (map tp_span kept) (length t)"
    using proposals_scanned [of from_str format t] ordered_spans_filter
    by (auto simp: scanned_def kept_def)
  moreover have "list_all (proposal_ok from_str format t) kept"
    using proposals_scanned [of from_str format t] by (auto simp: scanned_def kept_def list_all_iff)
  moreover have "map (\<lambda>c. (call_name c, call_arguments c)) (fst (into_calls kept counter))
      = map (\<lambda>p. (tp_name p, tp_arguments p)) kept"
    by (rule into_calls_pairs)
  ultimately show ?thesis
    using strip_spans_outside [OF ord]
    by (intro exI [of _ kept]) (simp add: parse_and_strip_eq Let_def kept_def [symmetric])
qed

end
