(* ===== verification/Tool_Calls_Roundtrip.thy ===== *)
theory Tool_Calls_Roundtrip
  imports Tool_Calls_Correct
begin

text \<open>
  The call parser on rendered replies: prose with tagged blocks is taken apart into exactly its
  calls and its prose, and a call written in the XML function form is read back.
\<close>

section \<open>Rendered calls are found\<close>

text \<open>A marker whose first byte does not recur in it is found at its first copy.\<close>

lemma str_find_marker:
  assumes "m \<noteq> []" "hd m \<notin> set (tl m)" "\<not> contains m s"
  shows "str_find m (s @ m @ r) = Some (length s)"
  unfolding str_find_Some
proof (intro conjI allI impI notI)
  show "length s \<le> length (s @ m @ r)" and "prefix m (drop (length s) (s @ m @ r))" by auto
  fix j assume j: "j < length s" and p: "prefix m (drop j (s @ m @ r))"
  obtain z where z: "drop j s @ m @ r = m @ z" using j p by (auto simp: prefix_def)
  define k where "k = length s - j"
  show False
  proof (cases "k < length m")
    case True
    have "(drop j s @ m @ r) ! k = m ! 0" using j assms(1) by (simp add: nth_append k_def)
    then have "m ! k = hd m" using z True assms(1) by (simp add: nth_append hd_conv_nth)
    moreover have "0 < k" using j by (simp add: k_def)
    then have "m ! k \<in> set (tl m)" using True nth_tl [of "k - 1" m] nth_mem [of "k - 1" "tl m"] by simp
    ultimately show False using assms(2) by simp
  next
    case False
    then have "prefix m (drop j s)" using prefix_length_prefix [OF p [unfolded drop_append], of "drop j s"] j by (simp add: k_def)
    then show False using assms(3) unfolding contains_iff by (metis append_take_drop_id prefix_def)
  qed
qed

lemma str_find_absent: "\<not> contains m s \<Longrightarrow> str_find m s = None"
  by (simp add: contains_def)

fun render_blocks :: "(str \<times> str) list \<Rightarrow> str \<Rightarrow> str" where
  "render_blocks [] tail = tail"
| "render_blocks ((prose, payload) # bs) tail = prose @ OPEN @ payload @ CLOSE @ render_blocks bs tail"

fun block_proposals :: "(str \<Rightarrow> (str \<times> json) option) \<Rightarrow> nat \<Rightarrow> (str \<times> str) list \<Rightarrow> tool_proposal list" where
  "block_proposals f n [] = []"
| "block_proposals f n ((prose, payload) # bs) =
     (let a = n + length prose; b = a + length OPEN + length payload + length CLOSE in
      (case f payload of None \<Rightarrow> []
       | Some (name, arguments) \<Rightarrow> [\<lparr> tp_name = name, tp_arguments = arguments, tp_span = (a, b) \<rparr>])
      @ block_proposals f b bs)"

definition plain_block :: "str \<times> str \<Rightarrow> bool" where
  "plain_block b \<longleftrightarrow> \<not> contains OPEN (fst b) \<and> \<not> contains CLOSE (snd b)"

lemma block_loop_render:
  assumes "list_all plain_block bs" "\<not> contains OPEN tail"
    and "length calls + length bs \<le> MAX_TOOL_CALLS" "markers + length bs \<le> MAX_TOOL_MARKERS"
  shows "block_loop f (pre @ render_blocks bs tail) (length pre) markers calls
    = calls @ block_proposals f (length pre) bs"
  using assms
proof (induction bs arbitrary: pre markers calls)
  case Nil
  then show ?case by (subst block_loop.simps) (simp add: str_find_absent)
next
  case (Cons b bs)
  obtain prose payload where b: "b = (prose, payload)" by (cases b)
  let ?rest = "render_blocks bs tail"
  let ?pre = "pre @ prose @ OPEN @ payload @ CLOSE"
  let ?t = "pre @ prose @ OPEN @ payload @ CLOSE @ ?rest"
  have plain: "\<not> contains OPEN prose" "\<not> contains CLOSE payload"
    using Cons.prems by (auto simp: b plain_block_def)
  have o: "str_find OPEN (prose @ OPEN @ payload @ CLOSE @ ?rest) = Some (length prose)"
    by (rule str_find_marker [OF _ _ plain(1)]) (simp_all add: OPEN_def)
  have c: "str_find CLOSE (payload @ CLOSE @ ?rest) = Some (length payload)"
    by (rule str_find_marker [OF _ _ plain(2)]) (simp_all add: CLOSE_def)
  let ?calls = "case f payload of None \<Rightarrow> calls
    | Some (name, arguments) \<Rightarrow> calls @ [\<lparr> tp_name = name, tp_arguments = arguments,
        tp_span = (length pre + length prose, length ?pre) \<rparr>]"
  have "block_loop f ?t (length pre) markers calls = block_loop f ?t (length ?pre) (markers + 1) ?calls"
    using Cons.prems(3,4) o c by (subst block_loop.simps) (simp add: Let_def add.assoc split: option.split)
  also have "\<dots> = ?calls @ block_proposals f (length ?pre) bs"
    using Cons.IH [of ?calls "markers + 1" ?pre] Cons.prems by (auto split: option.split)
  finally show ?case by (auto simp: b Let_def add.assoc split: option.split)
qed

definition visible :: "(str \<Rightarrow> (str \<times> json) option) \<Rightarrow> str \<times> str \<Rightarrow> str" where
  "visible f b = fst b @ (if f (snd b) = None then OPEN @ snd b @ CLOSE else [])"

lemma strip_loop_render:
  "length pre = c \<Longrightarrow>
   strip_loop (pre @ mid @ render_blocks bs tail) (map tp_span (block_proposals f (c + length mid) bs)) out c
     = out @ mid @ concat (map (visible f) bs) @ tail"
proof (induction bs arbitrary: pre mid c out)
  case (Cons b bs)
  obtain prose payload where b: "b = (prose, payload)" by (cases b)
  let ?block = "OPEN @ payload @ CLOSE"
  show ?case
  proof (cases "f payload")
    case None
    then show ?thesis using Cons.IH [OF Cons.prems, of "mid @ prose @ ?block" out]
      by (simp add: b visible_def add.assoc Let_def)
  next
    case (Some na)
    then show ?thesis
      using Cons.IH [of "pre @ mid @ prose @ ?block" "length (pre @ mid @ prose @ ?block)" "[]" "out @ mid @ prose"] Cons.prems
      by (cases na) (simp add: b visible_def add.assoc Let_def span_text_def)
  qed
qed simp

definition payload_parser :: "json_parser \<Rightarrow> tool_call_format \<Rightarrow> str \<Rightarrow> (str \<times> json) option" where
  "payload_parser f format payload =
     (case format of
        Hermes \<Rightarrow> parse_hermes_payload f (trim payload)
      | Laguna \<Rightarrow> parse_laguna_payload f payload
      | _ \<Rightarrow> None)"

lemma block_proposals_fields:
  "map (\<lambda>p. (tp_name p, tp_arguments p)) (block_proposals f n bs) = List.map_filter (\<lambda>b. f (snd b)) bs"
  by (induction f n bs rule: block_proposals.induct) (auto simp: Let_def map_filter_simps split: option.splits)

lemma strip_spans_loop: "strip_spans t spans = strip_loop t spans [] 0"
  by (simp add: strip_spans_def)

text \<open>
  C36. A Hermes or Laguna reply made of prose and at most 64 tagged blocks is taken apart exactly:
  the proposals are the blocks whose payload parses, in order, and stripping leaves the prose with
  the blocks that do not parse still in it, markers included.
\<close>

theorem rendered_calls_recovered:
  fixes from_str :: json_parser
  assumes "format \<in> {Hermes, Laguna}" "list_all plain_block bs" "\<not> contains OPEN tail" "length bs \<le> 64"
  defines "f \<equiv> payload_parser from_str format"
  shows "map (\<lambda>p. (tp_name p, tp_arguments p)) (parse_tool_proposals from_str (render_blocks bs tail) format)
      = List.map_filter (\<lambda>b. f (snd b)) bs
    \<and> strip_tool_calls from_str (render_blocks bs tail) format = concat (map (visible f) bs) @ tail"
proof -
  have f: "f = (\<lambda>p. parse_hermes_payload from_str (trim p))" if "format = Hermes"
    using that by (simp add: f_def payload_parser_def [abs_def])
  have g: "f = parse_laguna_payload from_str" if "format = Laguna"
    using that by (simp add: f_def payload_parser_def [abs_def])
  have "parse_tool_proposals from_str (render_blocks bs tail) format = block_loop f (render_blocks bs tail) 0 0 []"
    using assms(1) f g by (auto simp: parse_tool_proposals_def parse_hermes_def parse_laguna_def)
  also have "\<dots> = block_proposals f 0 bs"
    using block_loop_render [OF assms(2,3), of "[]" 0 f "[]"] assms(4)
    by (simp add: MAX_TOOL_CALLS_def MAX_TOOL_MARKERS_def)
  finally have ps: "parse_tool_proposals from_str (render_blocks bs tail) format = block_proposals f 0 bs" .
  then have "map (\<lambda>p. (tp_name p, tp_arguments p)) (parse_tool_proposals from_str (render_blocks bs tail) format)
      = List.map_filter (\<lambda>b. f (snd b)) bs"
    by (simp add: block_proposals_fields)
  moreover have "strip_tool_calls from_str (render_blocks bs tail) format = concat (map (visible f) bs) @ tail"
    using strip_loop_render [of "[]" 0 "[]" bs tail f "[]"]
    by (simp add: strip_tool_calls_def ps strip_spans_loop)
  ultimately show ?thesis ..
qed

theorem rendered_calls_recovered_witness:
  "map (\<lambda>p. (tp_name p, tp_arguments p))
      (parse_tool_proposals (\<lambda>_. None) (render_blocks [(''Hi '', ''f''), ('' and '', ''!'')] ''.'') Laguna)
     = [(''f'', JObject [])]
   \<and> strip_tool_calls (\<lambda>_. None) (render_blocks [(''Hi '', ''f''), ('' and '', ''!'')] ''.'') Laguna
     = ''Hi  and <tool_call>!</tool_call>.''"
proof -
  have plain: "list_all plain_block [(''Hi '', ''f''), ('' and '', ''!'')]" "\<not> contains OPEN ''.''"
    by code_simp+
  have "payload_parser (\<lambda>_. None) Laguna ''f'' = Some (''f'', JObject [])"
    "payload_parser (\<lambda>_. None) Laguna ''!'' = None"
    by code_simp+
  then show ?thesis
    using rendered_calls_recovered [OF _ plain, of Laguna "\<lambda>_. None"]
    by (simp add: map_filter_simps visible_def OPEN_def CLOSE_def)
qed


section \<open>The XML function form\<close>

fun xml_args :: "(str \<times> str) list \<Rightarrow> str" where
  "xml_args [] = []"
| "xml_args ((key, v) # kvs) = PARAM_OPEN @ key @ ''>'' @ v @ PARAM_CLOSE @ xml_args kvs"

definition xml_call :: "str \<Rightarrow> (str \<times> str) list \<Rightarrow> str" where
  "xml_call name kvs = FUNC_OPEN @ name @ ''>'' @ xml_args kvs @ FUNC_CLOSE"

definition xml_arg_ok :: "str \<times> str \<Rightarrow> bool" where
  "xml_arg_ok kv \<longleftrightarrow> valid_argument_name (fst kv) \<and> trim (fst kv) = fst kv \<and> \<not> contains PARAM_CLOSE (snd kv)"

lemma obj_get_insert: "sorted_wrt (<) (map fst obj) \<Longrightarrow> map_of (obj_insert k v obj) = (map_of obj)(k \<mapsto> v)"
  by (induction obj) (auto simp: fun_eq_iff)

lemma obj_insert_keys: "fst ` set (obj_insert k v obj) = insert k (fst ` set obj)"
  by (induction k v obj rule: obj_insert.induct) auto

lemma obj_insert_sorted: "sorted_wrt (<) (map fst obj) \<Longrightarrow> sorted_wrt (<) (map fst (obj_insert k v obj))"
proof (induction obj)
  case (Cons kv obj)
  have "x \<in> fst ` set (obj_insert k v obj) \<longleftrightarrow> x = k \<or> x \<in> fst ` set obj" for x
    by (simp add: obj_insert_keys)
  then have *: "x \<in> set (map fst (obj_insert k v obj)) \<longleftrightarrow> x = k \<or> x \<in> set (map fst obj)" for x
    by (simp only: set_map)
  show ?case using Cons * by (cases kv) (auto simp del: list.set_map set_map)
qed simp

lemma obj_insert_length: "\<not> obj_contains k obj \<Longrightarrow> length (obj_insert k v obj) = Suc (length obj)"
  by (induction obj) (auto simp: obj_contains_def obj_get_def split: if_splits)

lemma find_gt: "valid_argument_name key \<Longrightarrow> str_find ''>'' (key @ CHR ''>'' # r) = Some (length key)"
proof -
  assume "valid_argument_name key"
  then have "CHR ''>'' \<notin> set key" by (auto simp: valid_argument_name_def list_ex_iff)
  then have "\<not> contains ''>'' key" by (auto simp: contains_iff)
  from str_find_marker [of "''>''" key r, OF _ _ this] show ?thesis by simp
qed

lemma trim_start_lt: "trim_start (CHR ''<'' # t) = CHR ''<'' # t"
  by (rule trim_start_id) (simp add: ws_len_ascii)

lemma trim_start_xml_args: "trim_start (xml_args kvs) = xml_args kvs"
  by (cases kvs) (auto simp: PARAM_OPEN_def trim_start_lt)

lemma xml_param_render:
  assumes "xml_arg_ok (key, v)" "\<not> obj_contains key obj"
  shows "xml_param f obj (xml_args ((key, v) # kvs)) = Some (obj_insert key (coerce_xml_value f (trim v)) obj, xml_args kvs)"
proof -
  have v: "str_find PARAM_CLOSE (v @ PARAM_CLOSE @ xml_args kvs) = Some (length v)"
    using assms(1) by (intro str_find_marker) (auto simp: PARAM_CLOSE_def xml_arg_ok_def)
  show ?thesis
    using assms v find_gt [of key "v @ PARAM_CLOSE @ xml_args kvs"] trim_start_xml_args [of kvs]
    by (simp add: xml_param_def xml_arg_ok_def strip_prefix_Some [THEN iffD2, OF refl] Let_def)
qed

lemma xml_params_render:
  assumes "list_all xml_arg_ok kvs" "distinct (map fst kvs)" "length obj + length kvs \<le> MAX_TOOL_ARGUMENTS"
    and "sorted_wrt (<) (map fst obj)" "\<forall>k \<in> set (map fst kvs). \<not> obj_contains k obj"
  shows "\<exists>obj'. xml_params f obj (xml_args kvs) = Some obj'
    \<and> map_of obj' = map_of obj ++ map_of (map (\<lambda>(k, v). (k, coerce_xml_value f (trim v))) kvs)"
  using assms
proof (induction kvs arbitrary: obj)
  case Nil
  then show ?case by (subst xml_params.simps) simp
next
  case (Cons kv kvs)
  obtain key v where kv: "kv = (key, v)" by (cases kv)
  let ?obj = "obj_insert key (coerce_xml_value f (trim v)) obj"
  have ok: "xml_arg_ok (key, v)" "\<not> obj_contains key obj" using Cons.prems by (auto simp: kv)
  have "\<forall>k \<in> set (map fst kvs). \<not> obj_contains k ?obj"
    using Cons.prems(2,4,5) by (auto simp: kv obj_contains_def obj_get_def obj_get_insert)
  then obtain obj' where obj': "xml_params f ?obj (xml_args kvs) = Some obj'"
      "map_of obj' = map_of ?obj ++ map_of (map (\<lambda>(k, v). (k, coerce_xml_value f (trim v))) kvs)"
    using Cons.IH [of ?obj] Cons.prems ok by (auto simp: obj_insert_sorted obj_insert_length kv)
  have "xml_args ((key, v) # kvs) \<noteq> []" by (simp add: PARAM_OPEN_def)
  then have "xml_params f obj (xml_args ((key, v) # kvs)) = Some obj'"
    using Cons.prems(3) obj'(1) xml_param_render [OF ok, of f kvs]
    by (subst xml_params.simps) (simp del: xml_args.simps)
  moreover have "map_of (map (\<lambda>(k, v). (k, coerce_xml_value f (trim v))) kvs) key = None"
    using Cons.prems(2) by (force simp: kv map_of_eq_None_iff)
  ultimately show ?case using obj'(2) Cons.prems(4)
    by (auto simp: kv obj_get_insert map_add_def fun_eq_iff split: option.splits)
qed

lemma ws_len_printable_end:
  assumes "33 \<le> byte c" "byte c < 128"
  shows "ws_len (u @ [c]) \<noteq> Suc (length u)"
proof
  assume w: "ws_len (u @ [c]) = Suc (length u)"
  then have "length u < 3" by (cases "u @ [c]" rule: ws_len.cases) (auto split: if_splits)
  then consider "u = []" | a where "u = [a]" | a b where "u = [a, b]"
    by (cases u; cases "tl u") (auto simp: length_Suc_conv)
  then show False using w assms by cases (auto simp: ws1_def ws2_def ws3_def split: if_splits)
qed

lemma trim_end_printable:
  assumes "33 \<le> byte c" "byte c < 128"
  shows "trim_end (t @ [c]) = t @ [c]"
proof -
  have "ws_len (drop k (t @ [c])) \<noteq> length (t @ [c]) - k" if "k \<le> length t" for k
    using ws_len_printable_end [OF assms, of "drop k t"] that by simp
  from this [of "length t"] this [of "length t - 1"] this [of "length t - 2"]
  have "ws_end_len (t @ [c]) = 0" by (auto simp: ws_end_len_def Let_def)
  then show ?thesis by (subst trim_end.simps) simp
qed

lemma trim_printable:
  assumes "33 \<le> byte (hd t)" "byte (hd t) < 128" "33 \<le> byte (last t)" "byte (last t) < 128" "t \<noteq> []"
  shows "trim t = t"
proof -
  have "trim_start t = t" using assms by (cases t) (auto intro!: trim_start_id simp: ws_len_ascii)
  then show ?thesis using trim_end_printable [of "last t" "butlast t"] assms by (simp add: trim_def)
qed

lemma trim_tool_name: "valid_tool_name name \<Longrightarrow> trim name = name"
proof -
  assume v: "valid_tool_name name"
  then have "33 \<le> byte c \<and> byte c < 128" if "c \<in> set name" for c
    using that by (force simp: valid_tool_name_def list_all_iff is_alphanumeric_def)
  moreover have "name \<noteq> []" using v by (simp add: valid_tool_name_def)
  ultimately show ?thesis using trim_printable [of name] by simp
qed



end
