(* ===== verification/Round_Driver.thy ===== *)
theory Round_Driver
  imports Token_Emitter Sampling Reasoning
begin

text \<open>
  The decode round (\<open>RoundDriver\<close> of \<open>src/src/engine/spec.rs\<close>): one target-only or speculative round
  for the current token, with forced close and every failure row. The operations on model and caches
  (the trait \<open>RoundOps\<close>) are a record of functions on a state of type \<open>'o\<close>; hidden rows have type \<open>'h\<close>
  and snapshots type \<open>'s\<close>. What a round reads but never changes is the record \<open>round_env\<close>. A function
  returns its error with the driver it leaves; \<open>Panic\<close> is a slice out of range. The tracing hook, which
  the real operations ignore, and the test hooks are left out.
\<close>

section \<open>Data\<close>

datatype dist = Greedy token_id | Sampled "rat list"

datatype op_error = Invalid engine_error | MtpForward engine_error | Host engine_error "dist list"

fun into_error :: "op_error \<Rightarrow> engine_error" where
  "into_error (Invalid e) = e"
| "into_error (MtpForward e) = e"
| "into_error (Host e _) = e"

record ('o, 'h, 's, 'g) round_ops =
  op_is_hybrid :: "'o \<Rightarrow> bool"
  op_target_pos :: "'o \<Rightarrow> nat"
  op_window_would_trim :: "nat \<Rightarrow> 'o \<Rightarrow> bool"
  op_verify_feed :: "token_id list \<Rightarrow> 'g sampler \<Rightarrow> 'o \<Rightarrow> (op_error + 'h list \<times> dist list) \<times> 'o"
  op_replay_feed :: "token_id list \<Rightarrow> bool \<Rightarrow> 'g sampler \<Rightarrow> 'o \<Rightarrow> (op_error + 'h list \<times> dist option) \<times> 'o"
  op_capture :: "'o \<Rightarrow> 's"
  op_restore :: "'s \<Rightarrow> 'o \<Rightarrow> (op_error + unit) \<times> 'o"
  op_truncate_target :: "nat \<Rightarrow> 'o \<Rightarrow> (op_error + unit) \<times> 'o"
  op_mtp_alive :: "'o \<Rightarrow> bool"
  op_mtp_pairs :: "'o \<Rightarrow> nat"
  op_mtp_step :: "token_id \<Rightarrow> 'h \<Rightarrow> 'g sampler \<Rightarrow> 'o \<Rightarrow> (op_error + 'h \<times> dist) \<times> 'o"
  op_mtp_commit :: "token_id list \<Rightarrow> 'h list \<Rightarrow> 'o \<Rightarrow> (op_error + unit) \<times> 'o"
  op_mtp_truncate :: "nat \<Rightarrow> 'o \<Rightarrow> (op_error + unit) \<times> 'o"
  op_mtp_discard :: "'o \<Rightarrow> 'o"

datatype round_end = Continue token_id | Finished | Aborted | Budget

datatype mtp_mode = Dead | Commit | ResumeAt nat

datatype draft_outcome = Drafted "token_id list" "dist list" | Discard | Resume

datatype ('h, 's) verified = Ready "'h list" "dist list" "'s option" | Done round_end

record verdict =
  vd_accepted :: nat
  vd_successor :: dist

datatype spec_event = SpecNone | SpecEos | SpecCancel | SpecClose str | SpecSlot | SpecEmitErr engine_error

record close_prefix =
  cp_accepted :: nat
  cp_cancelled :: bool
  cp_error :: "engine_error option"

datatype 'h reconciled = Committed 'h "'h list" | DetachFailed

record ('h, 's) spec_ctx =
  cx_entry_pos :: nat
  cx_entry_pairs :: nat
  cx_entry_snap :: 's
  cx_frontier_entry :: 'h
  cx_k :: nat
  cx_drafts :: "token_id list"
  cx_hiddens :: "'h list"
  cx_dists :: "dist list"
  cx_post_x :: "'s option"

datatype exit = Error engine_error | Panic

definition internal :: "str \<Rightarrow> engine_error" where
  "internal msg = EModel (''spec: '' @ msg)"


section \<open>Speculation statistics\<close>

record speculation_stats =
  ss_drafted :: "64 word"
  ss_accepted_by_depth :: "64 word list"
  ss_rounds :: "64 word"

definition stats_default :: speculation_stats where
  "stats_default = \<lparr> ss_drafted = 0, ss_accepted_by_depth = [], ss_rounds = 0 \<rparr>"

definition saturating_add_u64 :: "64 word \<Rightarrow> 64 word \<Rightarrow> 64 word" where
  "saturating_add_u64 a b = (if a + b < a then - 1 else a + b)"

definition record_drafted :: "nat \<Rightarrow> speculation_stats \<Rightarrow> speculation_stats" where
  "record_drafted n s = s\<lparr> ss_drafted := saturating_add_u64 (ss_drafted s) (word_of_nat n) \<rparr>"

definition resize :: "nat \<Rightarrow> 'a \<Rightarrow> 'a list \<Rightarrow> 'a list" where
  "resize n z xs = take n xs @ replicate (n - length xs) z"

definition record_round :: "nat \<Rightarrow> speculation_stats \<Rightarrow> speculation_stats" where
  "record_round accepted s =
     (let s = s\<lparr> ss_rounds := saturating_add_u64 (ss_rounds s) 1 \<rparr> in
      case accepted of
        0 \<Rightarrow> s
      | Suc index \<Rightarrow>
          (let buckets = (if length (ss_accepted_by_depth s) \<le> index
                          then resize (index + 1) 0 (ss_accepted_by_depth s) else ss_accepted_by_depth s)
           in s\<lparr> ss_accepted_by_depth := buckets[index := saturating_add_u64 (buckets ! index) 1] \<rparr>))"

definition SPECULATIVE_TOKENS_CEILING :: nat where
  "SPECULATIVE_TOKENS_CEILING = 8"

definition resolve_speculative_tokens :: "nat option \<Rightarrow> nat option" where
  "resolve_speculative_tokens speculative_tokens =
     (case speculative_tokens of
        None \<Rightarrow> None
      | Some k \<Rightarrow> (if k > 0 then Some (min k SPECULATIVE_TOKENS_CEILING) else None))"


section \<open>The driver\<close>

record ('o, 'h, 's, 'g, 'c) round_env =
  en_ops :: "('o, 'h, 's, 'g) round_ops"
  en_tokenizer :: tokenizer
  en_on_token :: "'c callback"
  en_gen :: "'g uniform"
  en_debug :: bool

record ('o, 'h, 'g, 'c) driver =
  rd_ops :: 'o
  rd_emitter :: "'c token_emitter"
  rd_budget :: "reasoning_budget option"
  rd_sampler :: "'g sampler"
  rd_max_tokens :: nat
  rd_spec_k :: "nat option"
  rd_committed_len :: nat
  rd_frontier :: "'h option"
  rd_stats :: speculation_stats
  rd_forced_closed :: bool
  rd_used :: nat

definition rd_new ::
  "'o \<Rightarrow> 'c token_emitter \<Rightarrow> reasoning_budget option \<Rightarrow> 'g sampler \<Rightarrow> nat \<Rightarrow> nat option \<Rightarrow> 'h option
    \<Rightarrow> ('o, 'h, 'g, 'c) driver" where
  "rd_new ops emitter budget sampler max_tokens spec_k frontier =
     \<lparr> rd_ops = ops, rd_emitter = emitter, rd_budget = budget, rd_sampler = sampler,
       rd_max_tokens = max_tokens, rd_spec_k = spec_k, rd_committed_len = 0, rd_frontier = frontier,
       rd_stats = stats_default, rd_forced_closed = False, rd_used = 0 \<rparr>"

definition rd_finish ::
  "('o, 'h, 's, 'g, 'c) round_env \<Rightarrow> ('o, 'h, 'g, 'c) driver
    \<Rightarrow> token_id list \<times> nat \<times> speculation_stats \<times> 'o \<times> 'h option" where
  "rd_finish E d =
     (fst (into_emitted (en_on_token E) (rd_emitter d)), rd_committed_len d, rd_stats d, rd_ops d, rd_frontier d)"

definition spec_depth :: "('o, 'h, 's, 'g, 'c) round_env \<Rightarrow> ('o, 'h, 'g, 'c) driver \<Rightarrow> nat option" where
  "spec_depth E d =
     (case rd_spec_k d of
        None \<Rightarrow> None
      | Some k \<Rightarrow>
          (if \<not> op_mtp_alive (en_ops E) (rd_ops d) \<or> rd_frontier d = None then None
           else Some (min (min k SPECULATIVE_TOKENS_CEILING) (rd_max_tokens d - rd_used d))))"

definition observe_budget :: "str \<Rightarrow> ('o, 'h, 'g, 'c) driver \<Rightarrow> str option \<times> ('o, 'h, 'g, 'c) driver" where
  "observe_budget raw_text d =
     (case rd_budget d of
        None \<Rightarrow> (None, d)
      | Some b \<Rightarrow> (case observe raw_text b of (close, b) \<Rightarrow> (close, d\<lparr> rd_budget := Some b \<rparr>)))"

text \<open>Emission of one token by the driver; a token that comes out counts against the output budget.\<close>

definition emit_x ::
  "('o, 'h, 's, 'g, 'c) round_env \<Rightarrow> token_id \<Rightarrow> ('o, 'h, 'g, 'c) driver
    \<Rightarrow> (engine_error + emit_outcome) \<times> ('o, 'h, 'g, 'c) driver" where
  "emit_x E x d =
     (case emit (en_tokenizer E) (en_on_token E) x (rd_emitter d) of
        (Inl e, em) \<Rightarrow> (Inl e, d\<lparr> rd_emitter := em \<rparr>)
      | (Inr r, em) \<Rightarrow> (Inr r, d\<lparr> rd_emitter := em, rd_used := rd_used d + 1 \<rparr>))"

definition arm_close :: "str \<Rightarrow> ('o, 'h, 'g, 'c) driver \<Rightarrow> ('o, 'h, 'g, 'c) driver" where
  "arm_close close_marker d =
     d\<lparr> rd_forced_closed := True, rd_emitter := arm_close_filters close_marker (rd_emitter d) \<rparr>"

definition commit_len :: "nat \<Rightarrow> ('o, 'h, 'g, 'c) driver \<Rightarrow> ('o, 'h, 'g, 'c) driver" where
  "commit_len n d = d\<lparr> rd_committed_len := rd_committed_len d + n \<rparr>"

definition discard_mtp ::
  "('o, 'h, 's, 'g, 'c) round_env \<Rightarrow> ('o, 'h, 'g, 'c) driver \<Rightarrow> ('o, 'h, 'g, 'c) driver" where
  "discard_mtp E d = d\<lparr> rd_ops := op_mtp_discard (en_ops E) (rd_ops d), rd_frontier := None \<rparr>"

definition on_ops :: "('o \<Rightarrow> 'r \<times> 'o) \<Rightarrow> ('o, 'h, 'g, 'c) driver \<Rightarrow> 'r \<times> ('o, 'h, 'g, 'c) driver" where
  "on_ops f d = (case f (rd_ops d) of (r, o') \<Rightarrow> (r, d\<lparr> rd_ops := o' \<rparr>))"

definition or_exit :: "(op_error + 'r) \<times> 'd \<Rightarrow> (exit + 'r) \<times> 'd" where
  "or_exit r = (case r of (Inl e, d) \<Rightarrow> (Inl (Error (into_error e)), d) | (Inr v, d) \<Rightarrow> (Inr v, d))"

definition restore_or_exit ::
  "('o, 'h, 's, 'g, 'c) round_env \<Rightarrow> 's \<Rightarrow> ('o, 'h, 'g, 'c) driver \<Rightarrow> (exit + unit) \<times> ('o, 'h, 'g, 'c) driver" where
  "restore_or_exit E snap d = or_exit (on_ops (op_restore (en_ops E) snap) d)"

definition truncate_or_exit ::
  "('o, 'h, 's, 'g, 'c) round_env \<Rightarrow> nat \<Rightarrow> ('o, 'h, 'g, 'c) driver \<Rightarrow> (exit + unit) \<times> ('o, 'h, 'g, 'c) driver" where
  "truncate_or_exit E abs_offset d = or_exit (on_ops (op_truncate_target (en_ops E) abs_offset) d)"

text \<open>\<open>if let Some(snap) = post_x { restore }\<close> followed by the truncation.\<close>

definition restore_then_truncate ::
  "('o, 'h, 's, 'g, 'c) round_env \<Rightarrow> 's option \<Rightarrow> nat \<Rightarrow> ('o, 'h, 'g, 'c) driver
    \<Rightarrow> (exit + unit) \<times> ('o, 'h, 'g, 'c) driver" where
  "restore_then_truncate E post_x abs_offset d =
     (case (case post_x of None \<Rightarrow> (Inr (), d) | Some snap \<Rightarrow> restore_or_exit E snap d) of
        (Inl x, d) \<Rightarrow> (Inl x, d)
      | (Inr _, d) \<Rightarrow> truncate_or_exit E abs_offset d)"

text \<open>An operation of the prediction module whose failure only discards the module.\<close>

definition mtp_try ::
  "('o \<Rightarrow> (op_error + unit) \<times> 'o) \<Rightarrow> ('o, 'h, 'g, 'c) driver \<Rightarrow> bool \<times> ('o, 'h, 'g, 'c) driver" where
  "mtp_try f d = (case on_ops f d of (Inl _, d) \<Rightarrow> (False, d) | (Inr _, d) \<Rightarrow> (True, d))"

text \<open>\<open>mtp_truncate(..).is_ok() && mtp_commit(..).is_ok()\<close>.\<close>

definition mtp_recommit ::
  "('o, 'h, 's, 'g, 'c) round_env \<Rightarrow> nat option \<Rightarrow> token_id list \<Rightarrow> 'h list \<Rightarrow> ('o, 'h, 'g, 'c) driver
    \<Rightarrow> bool \<times> ('o, 'h, 'g, 'c) driver" where
  "mtp_recommit E entry_pairs ids prevs d =
     (case (case entry_pairs of
              None \<Rightarrow> (True, d) | Some n \<Rightarrow> mtp_try (op_mtp_truncate (en_ops E) n) d) of
        (False, d) \<Rightarrow> (False, d)
      | (True, d) \<Rightarrow> mtp_try (op_mtp_commit (en_ops E) ids prevs) d)"

definition settle_mtp ::
  "('o, 'h, 's, 'g, 'c) round_env \<Rightarrow> 'h option \<Rightarrow> bool \<times> ('o, 'h, 'g, 'c) driver \<Rightarrow> ('o, 'h, 'g, 'c) driver" where
  "settle_mtp E frontier r =
     (case r of (committed, d) \<Rightarrow> (if committed then d\<lparr> rd_frontier := frontier \<rparr> else discard_mtp E d))"

definition draw ::
  "('o, 'h, 's, 'g, 'c) round_env \<Rightarrow> dist \<Rightarrow> ('o, 'h, 'g, 'c) driver \<Rightarrow> (engine_error + token_id) \<times> ('o, 'h, 'g, 'c) driver" where
  "draw E di d =
     (case di of
        Greedy t \<Rightarrow> (Inr t, d)
      | Sampled p \<Rightarrow> (case sample_from_probs (en_gen E) p (rd_sampler d) of (r, s) \<Rightarrow> (r, d\<lparr> rd_sampler := s \<rparr>)))"

text \<open>The draw of a continuing round, from a distribution if there is one.\<close>

definition continue_from ::
  "('o, 'h, 's, 'g, 'c) round_env \<Rightarrow> engine_error \<Rightarrow> dist option \<Rightarrow> ('o, 'h, 'g, 'c) driver
    \<Rightarrow> (exit + round_end) \<times> ('o, 'h, 'g, 'c) driver" where
  "continue_from E error di d =
     (case di of
        None \<Rightarrow> (Inl (Error error), d)
      | Some di \<Rightarrow>
          (case draw E di d of
             (Inl e, d) \<Rightarrow> (Inl (Error e), d)
           | (Inr t, d) \<Rightarrow> (Inr (Continue t), d)))"


section \<open>The target-only round\<close>

text \<open>Commits the pair of \<open>x\<close> when the prediction module is alive.\<close>

definition commit_x_pair ::
  "('o, 'h, 's, 'g, 'c) round_env \<Rightarrow> token_id \<Rightarrow> bool \<Rightarrow> nat option \<Rightarrow> 'h list \<Rightarrow> ('o, 'h, 'g, 'c) driver
    \<Rightarrow> (exit + unit) \<times> ('o, 'h, 'g, 'c) driver" where
  "commit_x_pair E x alive entry_pairs hiddens d =
     (if \<not> alive then (Inr (), d)
      else case rd_frontier d of
        None \<Rightarrow> (Inl (Error (internal ''live MTP without a frontier'')), d)
      | Some frontier \<Rightarrow>
          (Inr (), settle_mtp E (first_of hiddens) (mtp_recommit E entry_pairs [x] [frontier] d)))"

definition feed_x_target_only ::
  "('o, 'h, 's, 'g, 'c) round_env \<Rightarrow> token_id \<Rightarrow> mtp_mode \<Rightarrow> bool \<Rightarrow> ('o, 'h, 'g, 'c) driver
    \<Rightarrow> (exit + round_end) \<times> ('o, 'h, 'g, 'c) driver" where
  "feed_x_target_only E x mode draw_successor d =
     (let alive = (op_mtp_alive (en_ops E) (rd_ops d) \<and> mode \<noteq> Dead) in
      case on_ops (op_verify_feed (en_ops E) [x] (rd_sampler d)) d of
        (Inl (Host error salvage), d) \<Rightarrow>
          (let d = discard_mtp E (commit_len 1 d) in
           if \<not> draw_successor then (Inr Budget, d) else continue_from E error (first_of salvage) d)
      | (Inl e, d) \<Rightarrow> (Inl (Error (into_error e)), d)
      | (Inr (hiddens, dists), d) \<Rightarrow>
          (case commit_x_pair E x alive (case mode of ResumeAt n \<Rightarrow> Some n | _ \<Rightarrow> None) hiddens (commit_len 1 d) of
             (Inl e, d) \<Rightarrow> (Inl e, d)
           | (Inr _, d) \<Rightarrow>
               (if \<not> draw_successor then (Inr Budget, d)
                else continue_from E (internal ''verify feed returned no dist'') (first_of dists) d)))"

definition final_slot ::
  "('o, 'h, 's, 'g, 'c) round_env \<Rightarrow> token_id \<Rightarrow> ('o, 'h, 'g, 'c) driver
    \<Rightarrow> (exit + round_end) \<times> ('o, 'h, 'g, 'c) driver" where
  "final_slot E x d =
     (let alive = op_mtp_alive (en_ops E) (rd_ops d) in
      case on_ops (op_replay_feed (en_ops E) [x] False (rd_sampler d)) d of
        (Inr (hiddens, _), d) \<Rightarrow>
          (case commit_x_pair E x alive None hiddens (commit_len 1 d) of
             (Inl e, d) \<Rightarrow> (Inl e, d)
           | (Inr _, d) \<Rightarrow> (Inr Budget, d))
      | (Inl (Host _ _), d) \<Rightarrow> (Inr Budget, discard_mtp E (commit_len 1 d))
      | (Inl e, d) \<Rightarrow> (Inl (Error (into_error e)), d))"


section \<open>Forced close\<close>

fun emit_close_loop ::
  "tokenizer \<Rightarrow> 'c callback \<Rightarrow> token_id list \<Rightarrow> nat \<Rightarrow> 'c token_emitter \<Rightarrow> close_prefix \<times> 'c token_emitter" where
  "emit_close_loop tk on_token [] accepted e = (\<lparr> cp_accepted = accepted, cp_cancelled = False, cp_error = None \<rparr>, e)"
| "emit_close_loop tk on_token (i # close_ids) accepted e =
     (case emit_forced tk on_token i e of
        (Inr (EmitContinue _), e) \<Rightarrow> emit_close_loop tk on_token close_ids (accepted + 1) e
      | (Inr _, e) \<Rightarrow> (\<lparr> cp_accepted = accepted, cp_cancelled = True, cp_error = None \<rparr>, e)
      | (Inl err, e) \<Rightarrow> (\<lparr> cp_accepted = accepted, cp_cancelled = False, cp_error = Some err \<rparr>, e))"

definition emit_close_prefix ::
  "('o, 'h, 's, 'g, 'c) round_env \<Rightarrow> token_id list \<Rightarrow> ('o, 'h, 'g, 'c) driver
    \<Rightarrow> close_prefix \<times> ('o, 'h, 'g, 'c) driver" where
  "emit_close_prefix E close_ids d =
     (case emit_close_loop (en_tokenizer E) (en_on_token E) close_ids 0 (rd_emitter d) of
        (close, em) \<Rightarrow> (close, d\<lparr> rd_emitter := em \<rparr>))"

text \<open>\<open>hiddens[..n]\<close>.\<close>

definition rows_upto :: "nat \<Rightarrow> 'h list \<Rightarrow> exit + 'h list" where
  "rows_upto n hiddens = (if n \<le> length hiddens then Inr (take n hiddens) else Inl Panic)"

definition close_pairs ::
  "('o, 'h, 's, 'g, 'c) round_env \<Rightarrow> token_id list \<Rightarrow> bool \<Rightarrow> nat \<Rightarrow> 'h list \<Rightarrow> ('o, 'h, 'g, 'c) driver
    \<Rightarrow> (exit + unit) \<times> ('o, 'h, 'g, 'c) driver" where
  "close_pairs E seq alive entry_pairs hiddens d =
     (if \<not> alive then (Inr (), d)
      else case rd_frontier d of
        None \<Rightarrow> (Inl (Error (internal ''live MTP without a frontier'')), d)
      | Some frontier_entry \<Rightarrow>
          (case mtp_try (op_mtp_truncate (en_ops E) entry_pairs) d of
             (False, d) \<Rightarrow> (Inr (), discard_mtp E d)
           | (True, d) \<Rightarrow>
               (case rows_upto (length seq - 1) hiddens of
                  Inl e \<Rightarrow> (Inl e, d)
                | Inr rs \<Rightarrow>
                    (Inr (), settle_mtp E (last_of hiddens)
                       (mtp_try (op_mtp_commit (en_ops E) seq (frontier_entry # rs)) d)))))"

definition close_replay ::
  "('o, 'h, 's, 'g, 'c) round_env \<Rightarrow> token_id list \<Rightarrow> close_prefix \<Rightarrow> str \<Rightarrow> nat \<Rightarrow> ('o, 'h, 'g, 'c) driver
    \<Rightarrow> (exit + round_end) \<times> ('o, 'h, 'g, 'c) driver" where
  "close_replay E seq close close_marker entry_pairs d =
     (let alive = op_mtp_alive (en_ops E) (rd_ops d);
          over_budget = (rd_used d \<ge> rd_max_tokens d);
          want_dist = (cp_error close = None \<and> \<not> cp_cancelled close \<and> \<not> over_budget) in
      case on_ops (op_replay_feed (en_ops E) seq want_dist (rd_sampler d)) d of
        (Inl (Host error salvage), d) \<Rightarrow>
          (let d = discard_mtp E (commit_len (length seq) d) in
           case cp_error close of
             Some e \<Rightarrow> (Inl (Error e), d)
           | None \<Rightarrow>
               (if cp_cancelled close then (Inr Aborted, d)
                else if over_budget then (Inr Budget, d)
                else continue_from E error (last_of salvage) (arm_close close_marker d)))
      | (Inl e, d) \<Rightarrow> (Inl (Error (into_error e)), d)
      | (Inr (hiddens, last_dist), d) \<Rightarrow>
          (let d = commit_len (length seq) d in
           case cp_error close of
             Some e \<Rightarrow> (Inl (Error e), discard_mtp E d)
           | None \<Rightarrow>
               (case close_pairs E seq alive entry_pairs hiddens d of
                  (Inl e, d) \<Rightarrow> (Inl e, d)
                | (Inr _, d) \<Rightarrow>
                    (if cp_cancelled close then (Inr Aborted, d)
                     else if over_budget then (Inr Budget, d)
                     else continue_from E (internal ''close replay returned no dist'') last_dist
                       (arm_close close_marker d)))))"

definition ordinary_mode :: "('o, 'h, 's, 'g, 'c) round_env \<Rightarrow> ('o, 'h, 'g, 'c) driver \<Rightarrow> mtp_mode" where
  "ordinary_mode E d = (if op_mtp_alive (en_ops E) (rd_ops d) then Commit else Dead)"

definition forced_close_at_x ::
  "('o, 'h, 's, 'g, 'c) round_env \<Rightarrow> token_id \<Rightarrow> str \<Rightarrow> ('o, 'h, 'g, 'c) driver
    \<Rightarrow> (exit + round_end) \<times> ('o, 'h, 'g, 'c) driver" where
  "forced_close_at_x E x close_marker d =
     (case encode_close (en_tokenizer E) close_marker of
        Inl e \<Rightarrow> (Inl (Error e), d)
      | Inr close_ids \<Rightarrow>
          (if close_ids = [] then feed_x_target_only E x (ordinary_mode E d) (rd_used d < rd_max_tokens d) d
           else case emit_close_prefix E close_ids d of
             (close, d) \<Rightarrow>
               close_replay E (x # take (cp_accepted close) close_ids) close close_marker
                 (op_mtp_pairs (en_ops E) (rd_ops d)) d))"

section \<open>The speculative round\<close>

text \<open>Drafting: from \<open>(frontier, x)\<close>, then from each recycled row and its draft.\<close>

definition draw_draft ::
  "('o, 'h, 's, 'g, 'c) round_env \<Rightarrow> dist \<Rightarrow> ('o, 'h, 'g, 'c) driver \<Rightarrow> token_id option \<times> ('o, 'h, 'g, 'c) driver" where
  "draw_draft E di d =
     (case draw E di d of (Inl _, d) \<Rightarrow> (None, d) | (Inr t, d) \<Rightarrow> (Some t, d))"

fun draft_loop ::
  "('o, 'h, 's, 'g, 'c) round_env \<Rightarrow> nat \<Rightarrow> token_id \<Rightarrow> 'h \<Rightarrow> token_id list \<Rightarrow> dist list
    \<Rightarrow> ('o, 'h, 'g, 'c) driver \<Rightarrow> draft_outcome \<times> ('o, 'h, 'g, 'c) driver" where
  "draft_loop E 0 prev_id prev drafts dists d = (Drafted drafts dists, d)"
| "draft_loop E (Suc n) prev_id prev drafts dists d =
     (case on_ops (op_mtp_step (en_ops E) prev_id prev (rd_sampler d)) d of
        (Inl (Host _ _), d) \<Rightarrow> (Resume, d)
      | (Inl _, d) \<Rightarrow> (Discard, d)
      | (Inr (recycle, di), d) \<Rightarrow>
          (case draw_draft E di d of
             (None, d) \<Rightarrow> (Resume, d)
           | (Some drafted, d) \<Rightarrow>
               draft_loop E n drafted recycle (drafts @ [drafted]) (dists @ [di])
                 (d\<lparr> rd_stats := record_drafted 1 (rd_stats d) \<rparr>)))"

definition draft ::
  "('o, 'h, 's, 'g, 'c) round_env \<Rightarrow> token_id \<Rightarrow> nat \<Rightarrow> 'h \<Rightarrow> ('o, 'h, 'g, 'c) driver
    \<Rightarrow> draft_outcome \<times> ('o, 'h, 'g, 'c) driver" where
  "draft E x k frontier_entry d = draft_loop E k x frontier_entry [] [] d"

definition verify_host_recovery ::
  "('o, 'h, 's, 'g, 'c) round_env \<Rightarrow> engine_error \<Rightarrow> dist list \<Rightarrow> 's option \<Rightarrow> nat \<Rightarrow> ('o, 'h, 'g, 'c) driver
    \<Rightarrow> (exit + round_end) \<times> ('o, 'h, 'g, 'c) driver" where
  "verify_host_recovery E error salvage post_x entry_pos d =
     (case restore_then_truncate E post_x (entry_pos + 1) d of
        (Inl e, d) \<Rightarrow> (Inl e, d)
      | (Inr _, d) \<Rightarrow> continue_from E error (first_of salvage) (discard_mtp E (commit_len 1 d)))"

text \<open>The recovery's result as the outcome of verification.\<close>

definition map_done ::
  "(exit + round_end) \<times> 'd \<Rightarrow> (exit + ('h, 's) verified) \<times> 'd" where
  "map_done r = (case r of (Inl e, d) \<Rightarrow> (Inl e, d) | (Inr end, d) \<Rightarrow> (Inr (Done end), d))"

definition verify ::
  "('o, 'h, 's, 'g, 'c) round_env \<Rightarrow> token_id \<Rightarrow> token_id list \<Rightarrow> nat \<Rightarrow> ('o, 'h, 'g, 'c) driver
    \<Rightarrow> (exit + ('h, 's) verified) \<times> ('o, 'h, 'g, 'c) driver" where
  "verify E x drafts entry_pos d =
     (if \<not> op_is_hybrid (en_ops E) (rd_ops d) then
        (case on_ops (op_verify_feed (en_ops E) (x # drafts) (rd_sampler d)) d of
           (Inr (hiddens, dists), d) \<Rightarrow> (Inr (Ready hiddens dists None), d)
         | (Inl (Host error salvage), d) \<Rightarrow> map_done (verify_host_recovery E error salvage None entry_pos d)
         | (Inl e, d) \<Rightarrow> (Inl (Error (into_error e)), d))
      else
        (case on_ops (op_verify_feed (en_ops E) [x] (rd_sampler d)) d of
           (Inl (Host error salvage), d) \<Rightarrow> map_done (verify_host_recovery E error salvage None entry_pos d)
         | (Inl e, d) \<Rightarrow> (Inl (Error (into_error e)), d)
         | (Inr (h0, d0), d) \<Rightarrow>
             (let post_x = op_capture (en_ops E) (rd_ops d) in
              case on_ops (op_verify_feed (en_ops E) drafts (rd_sampler d)) d of
                (Inr (hr, dr), d) \<Rightarrow> (Inr (Ready (h0 @ hr) (d0 @ dr) (Some post_x)), d)
              | (Inl (Host error _), d) \<Rightarrow> map_done (verify_host_recovery E error d0 (Some post_x) entry_pos d)
              | (Inl e, d) \<Rightarrow> (Inl (Error (into_error e)), d))))"

fun greedy_tokens :: "dist list \<Rightarrow> token_id list option" where
  "greedy_tokens [] = Some []"
| "greedy_tokens (Greedy t # ds) = map_option (Cons t) (greedy_tokens ds)"
| "greedy_tokens (Sampled _ # ds) = None"

fun sampled_rows :: "dist list \<Rightarrow> rat list list option" where
  "sampled_rows [] = Some []"
| "sampled_rows (Sampled p # ds) = map_option (Cons p) (sampled_rows ds)"
| "sampled_rows (Greedy _ # ds) = None"

definition decide ::
  "('o, 'h, 's, 'g, 'c) round_env \<Rightarrow> token_id list \<Rightarrow> dist list \<Rightarrow> dist list \<Rightarrow> ('o, 'h, 'g, 'c) driver
    \<Rightarrow> verdict option \<times> ('o, 'h, 'g, 'c) driver" where
  "decide E drafts draft_dists dists d =
     (if is_greedy (rd_sampler d) then
        (case greedy_tokens dists of
           None \<Rightarrow> (None, d)
         | Some target_argmax \<Rightarrow>
             (case verify_greedy drafts target_argmax of
                Inl _ \<Rightarrow> (None, d)
              | Inr v \<Rightarrow> (Some \<lparr> vd_accepted = sv_accepted v, vd_successor = Greedy (sv_next v) \<rparr>, d)))
      else
        (case sampled_rows draft_dists of
           None \<Rightarrow> (None, d)
         | Some q \<Rightarrow>
             (case sampled_rows dists of
                None \<Rightarrow> (None, d)
              | Some p \<Rightarrow>
                  (case verify_accept_trusted (en_gen E) (en_debug E) drafts q p (rd_sampler d) of
                     (Inl _, s) \<Rightarrow> (None, d\<lparr> rd_sampler := s \<rparr>)
                   | (Inr v, s) \<Rightarrow>
                       (Some \<lparr> vd_accepted = av_accepted v, vd_successor = Sampled (av_successor v) \<rparr>,
                        d\<lparr> rd_sampler := s \<rparr>)))))"

definition invariant_err_recovery ::
  "('o, 'h, 's, 'g, 'c) round_env \<Rightarrow> token_id \<Rightarrow> nat \<Rightarrow> nat \<Rightarrow> 'h \<Rightarrow> 's option \<Rightarrow> 'h list \<Rightarrow> dist list
    \<Rightarrow> ('o, 'h, 'g, 'c) driver \<Rightarrow> (exit + round_end) \<times> ('o, 'h, 'g, 'c) driver" where
  "invariant_err_recovery E x entry_pos entry_pairs frontier_entry post_x hiddens dists d =
     (case restore_then_truncate E post_x (entry_pos + 1) d of
        (Inl e, d) \<Rightarrow> (Inl e, d)
      | (Inr _, d) \<Rightarrow>
          continue_from E (internal ''missing verify row-0 dist'') (first_of dists)
            (settle_mtp E (first_of hiddens)
              (mtp_recommit E (Some entry_pairs) [x] [frontier_entry] (commit_len 1 d))))"

text \<open>Emission of the accepted drafts: how many are kept, and what stopped it.\<close>

fun emit_drafts ::
  "('o, 'h, 's, 'g, 'c) round_env \<Rightarrow> token_id list \<Rightarrow> nat \<Rightarrow> ('o, 'h, 'g, 'c) driver
    \<Rightarrow> (nat \<times> spec_event) \<times> ('o, 'h, 'g, 'c) driver" where
  "emit_drafts E [] n d = ((n, SpecNone), d)"
| "emit_drafts E (i # drafts) n d =
     (case emit_x E i d of
        (Inl e, d) \<Rightarrow> ((n, SpecEmitErr e), d)
      | (Inr EmitEos, d) \<Rightarrow> ((n, SpecEos), d)
      | (Inr EmitCancelled, d) \<Rightarrow> ((n, SpecCancel), d)
      | (Inr (EmitContinue raw_text), d) \<Rightarrow>
          (case observe_budget raw_text d of
             (Some marker, d) \<Rightarrow> ((n + 1, SpecClose marker), d)
           | (None, d) \<Rightarrow>
               (if rd_used d \<ge> rd_max_tokens d then ((n + 1, SpecSlot), d)
                else emit_drafts E drafts (n + 1) d)))"

definition row :: "str \<Rightarrow> 'h list \<Rightarrow> nat \<Rightarrow> exit + 'h" where
  "row msg hiddens i = (if i < length hiddens then Inr (hiddens ! i) else Inl (Error (internal msg)))"

definition commit_rows :: "str \<Rightarrow> 'h list \<Rightarrow> 'h list \<Rightarrow> nat \<Rightarrow> exit + 'h reconciled" where
  "commit_rows msg front hiddens r =
     (case row msg hiddens r of
        Inl e \<Rightarrow> Inl e
      | Inr frontier_h \<Rightarrow> Inr (Committed frontier_h (front @ take r hiddens)))"

definition reconcile ::
  "('o, 'h, 's, 'g, 'c) round_env \<Rightarrow> ('h, 's) spec_ctx \<Rightarrow> nat \<Rightarrow> ('o, 'h, 'g, 'c) driver
    \<Rightarrow> (exit + 'h reconciled) \<times> ('o, 'h, 'g, 'c) driver" where
  "reconcile E ctx r d =
     (let from_verify = (\<lambda>n. commit_rows ''missing verify hidden row'' [cx_frontier_entry ctx] (cx_hiddens ctx) n) in
      if \<not> op_is_hybrid (en_ops E) (rd_ops d) then
        (case truncate_or_exit E (cx_entry_pos ctx + 1 + r) d of
           (Inl e, d) \<Rightarrow> (Inl e, d)
         | (Inr _, d) \<Rightarrow> (from_verify r, d))
      else if r = cx_k ctx then (from_verify (cx_k ctx), d)
      else case cx_post_x ctx of
        None \<Rightarrow> (Inl (Error (internal ''hybrid verify without a post-x snapshot'')), d)
      | Some post_x \<Rightarrow>
          (case restore_then_truncate E (Some post_x) (cx_entry_pos ctx + 1) d of
             (Inl e, d) \<Rightarrow> (Inl e, d)
           | (Inr _, d) \<Rightarrow>
               (if r = 0 then (from_verify 0, d)
                else case on_ops (op_replay_feed (en_ops E) (take r (cx_drafts ctx)) False (rd_sampler d)) d of
                  (Inl (Host _ _), d) \<Rightarrow> (Inr DetachFailed, d)
                | (Inl e, d) \<Rightarrow> (Inl (Error (into_error e)), d)
                | (Inr (replay_hiddens, _), d) \<Rightarrow>
                    (case row ''missing verify hidden row'' (cx_hiddens ctx) 0 of
                       Inl e \<Rightarrow> (Inl e, d)
                     | Inr h0 \<Rightarrow>
                         (commit_rows ''missing replay hidden row'' [cx_frontier_entry ctx, h0] replay_hiddens (r - 1), d)))))"

definition reconcile_and_commit ::
  "('o, 'h, 's, 'g, 'c) round_env \<Rightarrow> token_id \<Rightarrow> ('h, 's) spec_ctx \<Rightarrow> nat \<Rightarrow> ('o, 'h, 'g, 'c) driver
    \<Rightarrow> (exit + unit) \<times> ('o, 'h, 'g, 'c) driver" where
  "reconcile_and_commit E x ctx r d =
     (case reconcile E ctx r d of
        (Inl e, d) \<Rightarrow> (Inl e, d)
      | (Inr (Committed frontier_h prevs), d) \<Rightarrow>
          (Inr (), settle_mtp E (Some frontier_h)
             (mtp_recommit E (Some (cx_entry_pairs ctx)) (x # take r (cx_drafts ctx)) prevs (commit_len (1 + r) d)))
      | (Inr DetachFailed, d) \<Rightarrow> (Inr (), discard_mtp E (commit_len (1 + r) d)))"

definition reconcile_and_discard ::
  "('o, 'h, 's, 'g, 'c) round_env \<Rightarrow> ('h, 's) spec_ctx \<Rightarrow> nat \<Rightarrow> ('o, 'h, 'g, 'c) driver
    \<Rightarrow> (exit + unit) \<times> ('o, 'h, 'g, 'c) driver" where
  "reconcile_and_discard E ctx r d =
     (case reconcile E ctx r d of
        (Inl e, d) \<Rightarrow> (Inl e, d)
      | (Inr _, d) \<Rightarrow> (Inr (), discard_mtp E (commit_len (1 + r) d)))"

definition forced_close_at_draft ::
  "('o, 'h, 's, 'g, 'c) round_env \<Rightarrow> token_id \<Rightarrow> ('h, 's) spec_ctx \<Rightarrow> nat \<Rightarrow> str \<Rightarrow> ('o, 'h, 'g, 'c) driver
    \<Rightarrow> (exit + round_end) \<times> ('o, 'h, 'g, 'c) driver" where
  "forced_close_at_draft E x ctx r close_marker d =
     (case encode_close (en_tokenizer E) close_marker of
        Inl e \<Rightarrow>
          (case reconcile_and_discard E ctx r d of
             (Inl x, d) \<Rightarrow> (Inl x, d)
           | (Inr _, d) \<Rightarrow> (Inl (Error e), d))
      | Inr close_ids \<Rightarrow>
          (if close_ids = [] then
             (case reconcile_and_commit E x ctx r d of
                (Inl e, d) \<Rightarrow> (Inl e, d)
              | (Inr _, d) \<Rightarrow>
                  (if rd_used d \<ge> rd_max_tokens d then (Inr Budget, d)
                   else continue_from E (internal ''missing verify row dist at close trigger'')
                     (if r < length (cx_dists ctx) then Some (cx_dists ctx ! r) else None) d))
           else case emit_close_prefix E close_ids d of
             (close, d) \<Rightarrow>
               (case restore_or_exit E (cx_entry_snap ctx) d of
                  (Inl e, d) \<Rightarrow> (Inl e, d)
                | (Inr _, d) \<Rightarrow>
                    close_replay E (x # take r (cx_drafts ctx) @ take (cp_accepted close) close_ids)
                      close close_marker (cx_entry_pairs ctx) d)))"

definition finish_round ::
  "('o, 'h, 's, 'g, 'c) round_env \<Rightarrow> token_id \<Rightarrow> ('h, 's) spec_ctx \<Rightarrow> nat \<Rightarrow> spec_event \<Rightarrow> dist
    \<Rightarrow> ('o, 'h, 'g, 'c) driver \<Rightarrow> (exit + round_end) \<times> ('o, 'h, 'g, 'c) driver" where
  "finish_round E x ctx r event successor d =
     (case event of
        SpecClose marker \<Rightarrow> forced_close_at_draft E x ctx r marker d
      | SpecEmitErr e \<Rightarrow>
          (case reconcile_and_discard E ctx r d of
             (Inl x, d) \<Rightarrow> (Inl x, d)
           | (Inr _, d) \<Rightarrow> (Inl (Error e), d))
      | _ \<Rightarrow>
          (case reconcile_and_commit E x ctx r d of
             (Inl e, d) \<Rightarrow> (Inl e, d)
           | (Inr _, d) \<Rightarrow>
               (case event of
                  SpecNone \<Rightarrow> continue_from E (internal ''unreachable spec event'') (Some successor) d
                | SpecEos \<Rightarrow> (Inr Finished, d)
                | SpecCancel \<Rightarrow> (Inr Aborted, d)
                | SpecSlot \<Rightarrow> (Inr Budget, d)
                | _ \<Rightarrow> (Inl (Error (internal ''unreachable spec event'')), d))))"

definition speculative_round ::
  "('o, 'h, 's, 'g, 'c) round_env \<Rightarrow> token_id \<Rightarrow> nat \<Rightarrow> ('o, 'h, 'g, 'c) driver
    \<Rightarrow> (exit + round_end) \<times> ('o, 'h, 'g, 'c) driver" where
  "speculative_round E x k d =
     (let entry_pos = op_target_pos (en_ops E) (rd_ops d);
          entry_pairs = op_mtp_pairs (en_ops E) (rd_ops d);
          entry_snap = op_capture (en_ops E) (rd_ops d) in
      case rd_frontier d of
        None \<Rightarrow> (Inl (Error (internal ''speculative round without a frontier'')), d)
      | Some frontier_entry \<Rightarrow>
          (case draft E x k frontier_entry d of
             (Discard, d) \<Rightarrow> feed_x_target_only E x Dead True (discard_mtp E d)
           | (Resume, d) \<Rightarrow> feed_x_target_only E x (ResumeAt entry_pairs) True d
           | (Drafted drafts draft_dists, d) \<Rightarrow>
               (case verify E x drafts entry_pos d of
                  (Inl e, d) \<Rightarrow> (Inl e, d)
                | (Inr (Done end), d) \<Rightarrow> (Inr end, d)
                | (Inr (Ready hiddens dists post_x), d) \<Rightarrow>
                    (case decide E drafts draft_dists dists d of
                       (None, d) \<Rightarrow>
                         invariant_err_recovery E x entry_pos entry_pairs frontier_entry post_x hiddens dists d
                     | (Some v, d) \<Rightarrow>
                         (case emit_drafts E (take (vd_accepted v) drafts) 0
                             (d\<lparr> rd_stats := record_round (vd_accepted v) (rd_stats d) \<rparr>) of
                            ((r, event), d) \<Rightarrow>
                              finish_round E x
                                \<lparr> cx_entry_pos = entry_pos, cx_entry_pairs = entry_pairs, cx_entry_snap = entry_snap,
                                  cx_frontier_entry = frontier_entry, cx_k = k, cx_drafts = drafts,
                                  cx_hiddens = hiddens, cx_dists = dists, cx_post_x = post_x \<rparr>
                                r event (vd_successor v) d)))))"


section \<open>One round\<close>

definition after_emission ::
  "('o, 'h, 's, 'g, 'c) round_env \<Rightarrow> token_id \<Rightarrow> ('o, 'h, 'g, 'c) driver
    \<Rightarrow> (exit + round_end) \<times> ('o, 'h, 'g, 'c) driver" where
  "after_emission E x d =
     (if rd_used d \<ge> rd_max_tokens d then final_slot E x d
      else case spec_depth E d of
        Some k \<Rightarrow>
          (if \<not> op_window_would_trim (en_ops E) (k + 1) (rd_ops d) then speculative_round E x k d
           else feed_x_target_only E x (ordinary_mode E d) True d)
      | None \<Rightarrow> feed_x_target_only E x (ordinary_mode E d) True d)"

definition run_round ::
  "('o, 'h, 's, 'g, 'c) round_env \<Rightarrow> token_id \<Rightarrow> ('o, 'h, 'g, 'c) driver
    \<Rightarrow> (exit + round_end) \<times> ('o, 'h, 'g, 'c) driver" where
  "run_round E x d =
     (case emit_x E x d of
        (Inl e, d) \<Rightarrow> (Inl (Error e), d)
      | (Inr EmitEos, d) \<Rightarrow> (Inr Finished, d)
      | (Inr EmitCancelled, d) \<Rightarrow> (Inr Aborted, d)
      | (Inr (EmitContinue raw_text), d) \<Rightarrow>
          (case observe_budget raw_text d of
             (Some close_marker, d) \<Rightarrow> forced_close_at_x E x close_marker d
           | (None, d) \<Rightarrow> after_emission E x d))"

end
