(* ===== verification/Round_Loop.thy ===== *)
theory Round_Loop
  imports Round_Driver
begin

text \<open>
  What a round does to the emission side of the driver, whatever the operations on model and caches
  do; and the decode loop (\<open>Session::decode_loop\<close> of \<open>src/src/engine/generate.rs\<close>), which ends because
  every continuing round uses up output budget.
\<close>

section \<open>The emission side of the driver\<close>

record 'c core =
  co_emitter :: "'c token_emitter"
  co_budget :: "reasoning_budget option"
  co_forced :: bool
  co_used :: nat
  co_max :: nat
  co_config :: sampling_config
  co_spec_k :: "nat option"

definition core :: "('o, 'h, 'g, 'c) driver \<Rightarrow> 'c core" where
  "core d = \<lparr> co_emitter = rd_emitter d, co_budget = rd_budget d, co_forced = rd_forced_closed d,
     co_used = rd_used d, co_max = rd_max_tokens d, co_config = smp_config (rd_sampler d),
     co_spec_k = rd_spec_k d \<rparr>"

named_theorems core_frame

lemma core_updates [simp]:
  "core (d\<lparr> rd_ops := o' \<rparr>) = core d" "core (d\<lparr> rd_frontier := f \<rparr>) = core d"
  "core (d\<lparr> rd_committed_len := n \<rparr>) = core d" "core (d\<lparr> rd_stats := st \<rparr>) = core d"
  "core (commit_len n d) = core d" "core (discard_mtp E d) = core d"
  by (simp_all add: core_def commit_len_def discard_mtp_def)

definition armed :: "str \<Rightarrow> 'c core \<Rightarrow> 'c core" where
  "armed close_marker s =
     s\<lparr> co_forced := True, co_emitter := arm_close_filters close_marker (co_emitter s) \<rparr>"

lemma core_arm_close [simp]: "core (arm_close m d) = armed m (core d)"
  by (simp add: core_def arm_close_def armed_def)

lemma on_ops_core [core_frame]: "on_ops f d = (r, d') \<Longrightarrow> core d' = core d"
  by (auto simp: on_ops_def split: prod.splits)

lemma restore_or_exit_core [core_frame]: "restore_or_exit E s d = (r, d') \<Longrightarrow> core d' = core d"
  by (auto simp: restore_or_exit_def or_exit_def dest: on_ops_core split: prod.splits sum.splits)

lemma truncate_or_exit_core [core_frame]: "truncate_or_exit E n d = (r, d') \<Longrightarrow> core d' = core d"
  by (auto simp: truncate_or_exit_def or_exit_def dest: on_ops_core split: prod.splits sum.splits)

lemma restore_then_truncate_core [core_frame]: "restore_then_truncate E p n d = (r, d') \<Longrightarrow> core d' = core d"
  by (auto simp: restore_then_truncate_def dest!: core_frame split: prod.splits sum.splits option.splits)

lemma mtp_try_core [core_frame]: "mtp_try f d = (b, d') \<Longrightarrow> core d' = core d"
  by (auto simp: mtp_try_def dest: on_ops_core split: prod.splits sum.splits)

lemma mtp_recommit_core [core_frame]: "mtp_recommit E n ids prevs d = (b, d') \<Longrightarrow> core d' = core d"
  by (auto simp: mtp_recommit_def dest!: core_frame split: prod.splits bool.splits option.splits)

lemma settle_mtp_core [simp]: "core (settle_mtp E f r) = core (snd r)"
  by (simp add: settle_mtp_def case_prod_beta)

lemma settle_mtp_recommit_core [simp]: "core (snd (mtp_recommit E n ids prevs d)) = core d"
  by (cases "mtp_recommit E n ids prevs d") (simp add: mtp_recommit_core)

lemma settle_mtp_try_core [simp]: "core (snd (mtp_try f d)) = core d"
  by (cases "mtp_try f d") (simp add: mtp_try_core)

lemma sample_from_probs_config: "sample_from_probs gen p s = (r, s') \<Longrightarrow> smp_config s' = smp_config s"
  by (auto simp: sample_from_probs_def Let_def split: if_splits prod.splits)

lemma draw_core [core_frame]: "draw E di d = (r, d') \<Longrightarrow> core d' = core d"
  by (auto simp: draw_def core_def dest: sample_from_probs_config split: dist.splits prod.splits)

lemma draw_draft_core [core_frame]: "draw_draft E di d = (r, d') \<Longrightarrow> core d' = core d"
  by (auto simp: draw_draft_def dest: draw_core split: prod.splits sum.splits)

lemma continue_from_core [core_frame]: "continue_from E e di d = (r, d') \<Longrightarrow> core d' = core d"
  by (auto simp: continue_from_def dest: draw_core split: prod.splits sum.splits option.splits)

lemma continue_from_Inr:
  "continue_from E e di d = (Inr r, d') \<Longrightarrow> (\<exists>t. r = Continue t) \<and> core d' = core d"
  by (auto simp: continue_from_def dest: draw_core split: prod.splits sum.splits option.splits)

lemma commit_x_pair_core [core_frame]: "commit_x_pair E x al n hs d = (r, d') \<Longrightarrow> core d' = core d"
  by (auto simp: commit_x_pair_def split: if_splits option.splits)

lemma close_pairs_core [core_frame]: "close_pairs E sq al n hs d = (r, d') \<Longrightarrow> core d' = core d"
  by (auto simp: close_pairs_def dest!: core_frame split: if_splits option.splits prod.splits bool.splits sum.splits)

lemma feed_x_core [core_frame]: "feed_x_target_only E x mode dr d = (r, d') \<Longrightarrow> core d' = core d"
  by (auto simp: feed_x_target_only_def Let_def dest!: core_frame
      split: if_splits prod.splits sum.splits op_error.splits)

lemma final_slot_core [core_frame]: "final_slot E x d = (r, d') \<Longrightarrow> core d' = core d"
  by (auto simp: final_slot_def Let_def dest!: core_frame split: prod.splits sum.splits op_error.splits)

lemma draft_loop_core [core_frame]:
  "draft_loop E n pid p ds qs d = (r, d') \<Longrightarrow> core d' = core d"
  by (induction E n pid p ds qs d rule: draft_loop.induct)
    (auto dest!: on_ops_core draw_draft_core split: prod.splits sum.splits op_error.splits option.splits)

lemma draft_core [core_frame]: "draft E x k f d = (r, d') \<Longrightarrow> core d' = core d"
  by (simp add: draft_def draft_loop_core)

lemma verify_host_recovery_core [core_frame]: "verify_host_recovery E e sv p n d = (r, d') \<Longrightarrow> core d' = core d"
  by (auto simp: verify_host_recovery_def dest!: core_frame split: prod.splits sum.splits)

lemma map_done_verify_core [core_frame]:
  "map_done (verify_host_recovery E e sv p n d) = (r, d') \<Longrightarrow> core d' = core d"
  by (auto simp: map_done_def dest!: verify_host_recovery_core split: prod.splits sum.splits)

lemma verify_core [core_frame]: "verify E x ds n d = (r, d') \<Longrightarrow> core d' = core d"
  by (auto simp: verify_def Let_def dest!: core_frame split: if_splits prod.splits sum.splits op_error.splits)

lemma verify_accept_config: "verify_accept_trusted gen dbg ds q p s = (r, s') \<Longrightarrow> smp_config s' = smp_config s"
  by (auto simp: verify_accept_trusted_def verify_accept_inner_def split: sum.splits prod.splits)

lemma decide_core [core_frame]: "decide E ds qs ps d = (v, d') \<Longrightarrow> core d' = core d"
  by (auto simp: decide_def core_def dest!: verify_accept_config split: if_splits option.splits sum.splits prod.splits)

lemma invariant_err_recovery_core [core_frame]:
  "invariant_err_recovery E x n m f p hs ds d = (r, d') \<Longrightarrow> core d' = core d"
  by (auto simp: invariant_err_recovery_def dest!: core_frame split: prod.splits sum.splits)

lemma reconcile_core [core_frame]: "reconcile E ctx n d = (r, d') \<Longrightarrow> core d' = core d"
  by (auto simp: reconcile_def Let_def dest!: core_frame
      split: if_splits prod.splits sum.splits op_error.splits option.splits)

lemma reconcile_and_commit_core [core_frame]: "reconcile_and_commit E x ctx n d = (r, d') \<Longrightarrow> core d' = core d"
  by (auto simp: reconcile_and_commit_def dest!: reconcile_core split: prod.splits sum.splits reconciled.splits)

lemma reconcile_and_discard_core [core_frame]: "reconcile_and_discard E ctx n d = (r, d') \<Longrightarrow> core d' = core d"
  by (auto simp: reconcile_and_discard_def dest!: reconcile_core split: prod.splits sum.splits)


section \<open>The plain loop\<close>

text \<open>
  The reference: decode without speculation, as a function of the emission side alone. \<open>succ\<close> gives
  the token the target chooses after a ledger; \<open>base\<close> is the prompt.
\<close>

definition after_token :: "(token_id list \<Rightarrow> token_id) \<Rightarrow> token_id list \<Rightarrow> 'c core \<Rightarrow> (exit + round_end) \<times> 'c core" where
  "after_token succ base s =
     (if co_used s \<ge> co_max s then (Inr Budget, s)
      else (Inr (Continue (succ (base @ te_emitted (co_emitter s)))), s))"

definition plain_close ::
  "tokenizer \<Rightarrow> 'c callback \<Rightarrow> (token_id list \<Rightarrow> token_id) \<Rightarrow> token_id list \<Rightarrow> str \<Rightarrow> 'c core
    \<Rightarrow> (exit + round_end) \<times> 'c core" where
  "plain_close tk on_token succ base marker s =
     (case encode_close tk marker of
        Inl e \<Rightarrow> (Inl (Error e), s)
      | Inr [] \<Rightarrow> after_token succ base s
      | Inr ids \<Rightarrow>
          (case emit_close_loop tk on_token ids 0 (co_emitter s) of
             (close, em) \<Rightarrow>
               (let s = s\<lparr> co_emitter := em \<rparr> in
                case cp_error close of
                  Some e \<Rightarrow> (Inl (Error e), s)
                | None \<Rightarrow>
                    (if cp_cancelled close then (Inr Aborted, s)
                     else if co_used s \<ge> co_max s then (Inr Budget, s)
                     else after_token succ base (armed marker s)))))"

definition observe_core :: "str \<Rightarrow> 'c core \<Rightarrow> str option \<times> 'c core" where
  "observe_core raw_text s =
     (case co_budget s of
        None \<Rightarrow> (None, s)
      | Some b \<Rightarrow> (case observe raw_text b of (close, b) \<Rightarrow> (close, s\<lparr> co_budget := Some b \<rparr>)))"

definition plain_round ::
  "tokenizer \<Rightarrow> 'c callback \<Rightarrow> (token_id list \<Rightarrow> token_id) \<Rightarrow> token_id list \<Rightarrow> token_id \<Rightarrow> 'c core
    \<Rightarrow> (exit + round_end) \<times> 'c core" where
  "plain_round tk on_token succ base x s =
     (case emit tk on_token x (co_emitter s) of
        (Inl e, em) \<Rightarrow> (Inl (Error e), s\<lparr> co_emitter := em \<rparr>)
      | (Inr r, em) \<Rightarrow>
          (let s = s\<lparr> co_emitter := em, co_used := co_used s + 1 \<rparr> in
           case r of
             EmitEos \<Rightarrow> (Inr Finished, s)
           | EmitCancelled \<Rightarrow> (Inr Aborted, s)
           | EmitContinue raw_text \<Rightarrow>
               (case observe_core raw_text s of
                  (Some marker, s) \<Rightarrow> plain_close tk on_token succ base marker s
                | (None, s) \<Rightarrow> after_token succ base s)))"


section \<open>Emission within a round\<close>

lemma emit_x_core:
  "emit_x E x d = (r, d') \<Longrightarrow>
    (case r of
       Inl e \<Rightarrow> \<exists>em. emit (en_tokenizer E) (en_on_token E) x (rd_emitter d) = (Inl e, em)
         \<and> core d' = (core d)\<lparr> co_emitter := em \<rparr>
     | Inr v \<Rightarrow> \<exists>em. emit (en_tokenizer E) (en_on_token E) x (rd_emitter d) = (Inr v, em)
         \<and> core d' = (core d)\<lparr> co_emitter := em, co_used := co_used (core d) + 1 \<rparr>)"
  by (auto simp: emit_x_def core_def split: prod.splits sum.splits)

lemma observe_budget_core:
  "observe_budget t d = (m, d') \<Longrightarrow> observe_core t (core d) = (m, core d')"
  by (auto simp: observe_budget_def observe_core_def core_def split: option.splits prod.splits)

lemma emit_close_prefix_core:
  "emit_close_prefix E ids d = (cl, d') \<Longrightarrow>
    \<exists>em. emit_close_loop (en_tokenizer E) (en_on_token E) ids 0 (rd_emitter d) = (cl, em)
      \<and> core d' = (core d)\<lparr> co_emitter := em \<rparr>"
  by (auto simp: emit_close_prefix_def core_def split: prod.splits)

lemma core_sel [simp]:
  "co_emitter (core d) = rd_emitter d" "co_used (core d) = rd_used d" "co_max (core d) = rd_max_tokens d"
  "co_config (core d) = smp_config (rd_sampler d)" "co_spec_k (core d) = rd_spec_k d"
  by (simp_all add: core_def)

lemma core_eqD:
  assumes "core d' = core d"
  shows "rd_emitter d' = rd_emitter d" "rd_used d' = rd_used d" "rd_max_tokens d' = rd_max_tokens d"
    "smp_config (rd_sampler d') = smp_config (rd_sampler d)" "rd_budget d' = rd_budget d"
    "rd_forced_closed d' = rd_forced_closed d" "rd_spec_k d' = rd_spec_k d"
  using assms by (simp_all add: core_def)

lemma close_replay_core:
  "close_replay E sq cl m n d = (Inr r, d') \<Longrightarrow> cp_error cl = None \<and>
    (if cp_cancelled cl then r = Aborted \<and> core d' = core d
     else if rd_used d \<ge> rd_max_tokens d then r = Budget \<and> core d' = core d
     else (\<exists>t. r = Continue t) \<and> core d' = armed m (core d))"
  by (auto simp: close_replay_def Let_def dest!: continue_from_Inr on_ops_core close_pairs_core dest: core_eqD
      split: if_splits prod.splits sum.splits op_error.splits option.splits)


lemma emit_drafts_used:
  "emit_drafts E ds n d = (r, d') \<Longrightarrow>
    rd_used d \<le> rd_used d' \<and> rd_max_tokens d' = rd_max_tokens d \<and> rd_spec_k d' = rd_spec_k d"
proof (induction E ds n d arbitrary: r d' rule: emit_drafts.induct)
  case (2 E i ds n d)
  obtain v d1 where e: "emit_x E i d = (v, d1)" by (cases "emit_x E i d")
  have d1: "rd_used d \<le> rd_used d1" "rd_max_tokens d1 = rd_max_tokens d" "rd_spec_k d1 = rd_spec_k d"
    using e by (auto simp: emit_x_def split: prod.splits sum.splits)
  have o: "observe_budget t d1 = (m, d2) \<Longrightarrow> rd_used d2 = rd_used d1 \<and> rd_max_tokens d2 = rd_max_tokens d1 \<and> rd_spec_k d2 = rd_spec_k d1"
    for t m d2 by (auto simp: observe_budget_def split: option.splits prod.splits)
  show ?case
  proof (cases "\<exists>raw. v = Inr (EmitContinue raw)")
    case True
    then obtain raw where v: "v = Inr (EmitContinue raw)" by blast
    obtain m d2 where ob: "observe_budget raw d1 = (m, d2)" by (cases "observe_budget raw d1")
    show ?thesis
      using "2.prems" "2.IH" [OF e [symmetric, unfolded v] refl refl, of m d2] e v ob o [OF ob] d1
      by (cases m) (auto split: if_splits)
  next
    case False
    then show ?thesis using "2.prems" e d1 by (auto split: sum.splits emit_outcome.splits)
  qed
qed simp

text \<open>The counters of the output budget.\<close>

definition counters :: "('o, 'h, 'g, 'c) driver \<Rightarrow> nat \<times> nat \<times> nat option" where
  "counters d = (rd_used d, rd_max_tokens d, rd_spec_k d)"

lemma core_counters: "core d' = core d \<Longrightarrow> counters d' = counters d"
  by (auto simp: counters_def dest: core_eqD)

lemma core_armed_counters: "core d' = armed m (core d) \<Longrightarrow> counters d' = counters d"
proof -
  assume a: "core d' = armed m (core d)"
  have "co_used (core d') = rd_used d" "co_max (core d') = rd_max_tokens d" "co_spec_k (core d') = rd_spec_k d"
    unfolding a by (simp_all add: armed_def)
  then show ?thesis by (simp add: counters_def)
qed

lemma emit_close_prefix_counters: "emit_close_prefix E ids d = (cl, d') \<Longrightarrow> counters d' = counters d"
  by (auto simp: emit_close_prefix_def counters_def split: prod.splits)

lemma close_replay_counters: "close_replay E sq cl m n d = (Inr r, d') \<Longrightarrow> counters d' = counters d"
  by (drule close_replay_core) (auto dest: core_counters core_armed_counters split: if_splits)

lemmas counters_frame = feed_x_core [THEN core_counters] final_slot_core [THEN core_counters]
  reconcile_and_commit_core [THEN core_counters] reconcile_and_discard_core [THEN core_counters]
  continue_from_core [THEN core_counters] restore_or_exit_core [THEN core_counters]
  invariant_err_recovery_core [THEN core_counters] verify_core [THEN core_counters]
  draft_core [THEN core_counters] decide_core [THEN core_counters]
  close_replay_counters emit_close_prefix_counters

lemma forced_close_at_x_counters: "forced_close_at_x E x m d = (Inr r, d') \<Longrightarrow> counters d' = counters d"
  by (auto simp: forced_close_at_x_def dest!: counters_frame split: sum.splits prod.splits if_splits)

lemma forced_close_at_draft_counters: "forced_close_at_draft E x ctx n m d = (Inr r, d') \<Longrightarrow> counters d' = counters d"
  by (auto simp: forced_close_at_draft_def dest!: counters_frame split: sum.splits prod.splits if_splits)

lemma finish_round_counters: "finish_round E x ctx n ev su d = (Inr r, d') \<Longrightarrow> counters d' = counters d"
  by (auto simp: finish_round_def dest!: counters_frame forced_close_at_draft_counters
      split: sum.splits prod.splits spec_event.splits)

lemma speculative_round_counters:
  assumes "speculative_round E x k d = (Inr r, d')"
  shows "rd_used d \<le> rd_used d' \<and> rd_max_tokens d' = rd_max_tokens d \<and> rd_spec_k d' = rd_spec_k d"
proof -
  have m: "counters (discard_mtp E d) = counters d" for d :: "('a, 'b, 'c, 'd) driver"
    by (simp add: counters_def discard_mtp_def)
  have s: "rd_used (d\<lparr> rd_stats := st \<rparr>) = rd_used d" for d :: "('a, 'b, 'c, 'd) driver" and st by simp
  show ?thesis using assms
    by (auto simp: speculative_round_def Let_def counters_def m [unfolded counters_def, simplified]
        dest!: counters_frame [unfolded counters_def] finish_round_counters [unfolded counters_def] emit_drafts_used
        split: option.splits draft_outcome.splits sum.splits prod.splits verified.splits)
qed

lemma run_round_progress:
  assumes "run_round E x d = (Inr r, d')"
  shows "rd_used d < rd_used d' \<and> rd_max_tokens d' = rd_max_tokens d \<and> rd_spec_k d' = rd_spec_k d"
proof -
  obtain v d1 where e: "emit_x E x d = (v, d1)" by (cases "emit_x E x d")
  show ?thesis
  proof (cases v)
    case (Inl a)
    then show ?thesis using assms e by (simp add: run_round_def)
  next
    case (Inr b)
    then have d1: "rd_used d1 = rd_used d + 1" "rd_max_tokens d1 = rd_max_tokens d" "rd_spec_k d1 = rd_spec_k d"
      using e by (auto simp: emit_x_def split: prod.splits sum.splits)
    have o: "observe_budget t d1 = (m, d2) \<Longrightarrow> rd_used d2 = rd_used d1 \<and> rd_max_tokens d2 = rd_max_tokens d1 \<and> rd_spec_k d2 = rd_spec_k d1"
      for t m d2 by (auto simp: observe_budget_def split: option.splits prod.splits)
    show ?thesis using assms e Inr d1
      by (auto simp: run_round_def after_emission_def counters_def
          dest!: o forced_close_at_x_counters [unfolded counters_def] counters_frame [unfolded counters_def]
            speculative_round_counters
          split: emit_outcome.splits prod.splits option.splits if_splits)
  qed
qed


section \<open>The decode loop\<close>

text \<open>\<open>while driver.used() < options.max_tokens\<close>; the loop's value is the error, if it stopped on one.\<close>

function decode_loop ::
  "('o, 'h, 's, 'g, 'c) round_env \<Rightarrow> token_id \<Rightarrow> ('o, 'h, 'g, 'c) driver
    \<Rightarrow> (exit + unit) \<times> ('o, 'h, 'g, 'c) driver" where
  "decode_loop E x d =
     (if rd_used d < rd_max_tokens d then
        (case run_round E x d of
           (Inl e, d) \<Rightarrow> (Inl e, d)
         | (Inr (Continue successor), d) \<Rightarrow> decode_loop E successor d
         | (Inr _, d) \<Rightarrow> (Inr (), d))
      else (Inr (), d))"
  by pat_completeness auto
termination
  by (relation "measure (\<lambda>(E, x, d). rd_max_tokens d - rd_used d)")
    (auto dest!: sym [of "(_, _)" "run_round _ _ _"] run_round_progress)

declare decode_loop.simps [simp del]

end
