(* ===== verification/Round_Contract.thy ===== *)
theory Round_Contract
  imports Round_Loop Token_Emitter_Correct
begin

text \<open>
  What the round driver needs of the operations on model and caches, as a locale, and what a round then
  keeps: the target caches contain the prompt and the committed prefix of the emitted tokens, the
  prediction module is aligned with them, and under greedy sampling the tokens are those of the plain
  loop, whatever the module drafts.
\<close>

section \<open>The contract\<close>

text \<open>
  \<open>holds o a\<close>: the target caches of \<open>o\<close> contain exactly the ledger \<open>a\<close>. \<open>snap s a\<close>: the snapshot was
  taken at \<open>a\<close>. \<open>low o\<close>: the least position the attention layers can be cut back to. \<open>succ a\<close>: the token
  the target chooses after \<open>a\<close>.
\<close>

definition mtp_same :: "('o, 'h, 's, 'g, 'c) round_env \<Rightarrow> 'o \<Rightarrow> 'o \<Rightarrow> bool" where
  "mtp_same E o1 o2 \<longleftrightarrow> op_mtp_alive (en_ops E) o2 = op_mtp_alive (en_ops E) o1
     \<and> op_mtp_pairs (en_ops E) o2 = op_mtp_pairs (en_ops E) o1
     \<and> op_is_hybrid (en_ops E) o2 = op_is_hybrid (en_ops E) o1"

definition target_same :: "('o, 'h, 's, 'g, 'c) round_env \<Rightarrow> ('o \<Rightarrow> nat) \<Rightarrow> 'o \<Rightarrow> 'o \<Rightarrow> bool" where
  "target_same E low o1 o2 \<longleftrightarrow> low o2 = low o1
     \<and> (\<forall>n. op_window_would_trim (en_ops E) n o2 = op_window_would_trim (en_ops E) n o1)
     \<and> op_is_hybrid (en_ops E) o2 = op_is_hybrid (en_ops E) o1"

text \<open>A completed feed; one that the preflight admits does not move the low mark.\<close>

definition fed ::
  "('o, 'h, 's, 'g, 'c) round_env \<Rightarrow> ('o \<Rightarrow> token_id list \<Rightarrow> bool) \<Rightarrow> ('o \<Rightarrow> nat)
    \<Rightarrow> token_id list \<Rightarrow> token_id list \<Rightarrow> 'o \<Rightarrow> 'o \<Rightarrow> bool" where
  "fed E holds low ids a o1 o2 \<longleftrightarrow> holds o2 (a @ ids) \<and> mtp_same E o1 o2
     \<and> (\<forall>n. \<not> op_window_would_trim (en_ops E) (length ids + n) o1 \<longrightarrow>
          low o2 = low o1 \<and> \<not> op_window_would_trim (en_ops E) n o2)"

definition failed_forward :: "('o, 'h, 's, 'g, 'c) round_env \<Rightarrow> 'o \<Rightarrow> bool" where
  "failed_forward E o2 \<longleftrightarrow>
     (\<exists>ids s o1 e. op_verify_feed (en_ops E) ids s o1 = (Inl (Invalid e), o2)
        \<or> op_verify_feed (en_ops E) ids s o1 = (Inl (MtpForward e), o2))
   \<or> (\<exists>ids w s o1 e. op_replay_feed (en_ops E) ids w s o1 = (Inl (Invalid e), o2)
        \<or> op_replay_feed (en_ops E) ids w s o1 = (Inl (MtpForward e), o2))"

locale round_contract =
  fixes E :: "('o, 'h, 's, 'g, 'c) round_env"
    and holds :: "'o \<Rightarrow> token_id list \<Rightarrow> bool"
    and snap :: "'s \<Rightarrow> token_id list \<Rightarrow> bool"
    and low :: "'o \<Rightarrow> nat"
    and succ :: "token_id list \<Rightarrow> token_id"
  assumes low_le: "holds o1 a \<Longrightarrow> low o1 \<le> length a"
    and pos_law: "holds o1 a \<Longrightarrow> op_target_pos (en_ops E) o1 = length a"
    and capture_law: "holds o1 a \<Longrightarrow> snap (op_capture (en_ops E) o1) a"
    and verify_Inr: "holds o1 a \<Longrightarrow> ids \<noteq> [] \<Longrightarrow> op_verify_feed (en_ops E) ids s o1 = (Inr (hs, ds), o2) \<Longrightarrow>
      fed E holds low ids a o1 o2 \<and> length ds = length ids
      \<and> (op_mtp_alive (en_ops E) o1 \<longrightarrow> length hs = length ids)
      \<and> (is_greedy s \<longrightarrow> (\<forall>i < length ids. ds ! i = Greedy (succ (a @ take (Suc i) ids))))"
    and verify_Host: "holds o1 a \<Longrightarrow> ids \<noteq> [] \<Longrightarrow> op_verify_feed (en_ops E) ids s o1 = (Inl (Host e sv), o2) \<Longrightarrow>
      fed E holds low ids a o1 o2
      \<and> (is_greedy s \<longrightarrow> (\<forall>di. first_of sv = Some di \<longrightarrow> di = Greedy (succ (a @ [hd ids]))))"
    and replay_Inr: "holds o1 a \<Longrightarrow> ids \<noteq> [] \<Longrightarrow> op_replay_feed (en_ops E) ids w s o1 = (Inr (hs, od), o2) \<Longrightarrow>
      fed E holds low ids a o1 o2 \<and> (op_mtp_alive (en_ops E) o1 \<longrightarrow> length hs = length ids)
      \<and> (w \<and> is_greedy s \<longrightarrow> (\<forall>di. od = Some di \<longrightarrow> di = Greedy (succ (a @ ids))))"
    and replay_Host: "holds o1 a \<Longrightarrow> ids \<noteq> [] \<Longrightarrow> op_replay_feed (en_ops E) ids w s o1 = (Inl (Host e sv), o2) \<Longrightarrow>
      fed E holds low ids a o1 o2
      \<and> (w \<and> is_greedy s \<longrightarrow> (\<forall>di. last_of sv = Some di \<longrightarrow> di = Greedy (succ (a @ ids))))"
    and restore_law: "snap sn a \<Longrightarrow> holds o1 (a @ us) \<Longrightarrow> low o1 \<le> length a \<Longrightarrow>
      \<exists>o2. op_restore (en_ops E) sn o1 = (Inr (), o2) \<and> holds o2 a \<and> mtp_same E o1 o2"
    and truncate_law: "holds o1 a \<Longrightarrow> low o1 \<le> n \<Longrightarrow> n \<le> length a \<Longrightarrow>
      \<not> op_is_hybrid (en_ops E) o1 \<or> n = length a \<Longrightarrow>
      \<exists>o2. op_truncate_target (en_ops E) n o1 = (Inr (), o2) \<and> holds o2 (take n a) \<and> mtp_same E o1 o2"
    and step_law: "holds o1 a \<Longrightarrow> op_mtp_step (en_ops E) i p s o1 = (r, o2) \<Longrightarrow>
      holds o2 a \<and> target_same E low o1 o2 \<and> op_mtp_alive (en_ops E) o2 = op_mtp_alive (en_ops E) o1"
    and commit_law: "holds o1 a \<Longrightarrow> op_mtp_alive (en_ops E) o1 \<Longrightarrow> length prevs = length ids \<Longrightarrow>
      op_mtp_commit (en_ops E) ids prevs o1 = (rc, o2) \<Longrightarrow>
      holds o2 a \<and> target_same E low o1 o2 \<and> op_mtp_alive (en_ops E) o2
      \<and> (rc = Inr () \<longrightarrow> op_mtp_pairs (en_ops E) o2 = op_mtp_pairs (en_ops E) o1 + length ids)"
    and mtp_truncate_law: "holds o1 a \<Longrightarrow> op_mtp_alive (en_ops E) o1 \<Longrightarrow>
      op_mtp_truncate (en_ops E) n o1 = (rc, o2) \<Longrightarrow>
      holds o2 a \<and> target_same E low o1 o2 \<and> op_mtp_alive (en_ops E) o2
      \<and> (rc = Inr () \<longrightarrow> op_mtp_pairs (en_ops E) o2 = n)"
    and discard_law: "holds o1 a \<Longrightarrow> holds (op_mtp_discard (en_ops E) o1) a
      \<and> target_same E low o1 (op_mtp_discard (en_ops E) o1)
      \<and> \<not> op_mtp_alive (en_ops E) (op_mtp_discard (en_ops E) o1)"


section \<open>What a round keeps\<close>

definition emitted :: "('o, 'h, 'g, 'c) driver \<Rightarrow> token_id list" where
  "emitted d = te_emitted (rd_emitter d)"

text \<open>Caches that contain \<open>M\<close>, with the prediction module aligned or gone.\<close>

definition good ::
  "('o, 'h, 's, 'g, 'c) round_env \<Rightarrow> ('o \<Rightarrow> token_id list \<Rightarrow> bool) \<Rightarrow> token_id list \<Rightarrow> 'o \<Rightarrow> 'h option \<Rightarrow> bool" where
  "good E holds M o1 f \<longleftrightarrow> holds o1 M \<and> (op_mtp_alive (en_ops E) o1 \<longleftrightarrow> f \<noteq> None)
     \<and> (op_mtp_alive (en_ops E) o1 \<longrightarrow> Suc (op_mtp_pairs (en_ops E) o1) = length M)"

definition aligned ::
  "('o, 'h, 's, 'g, 'c) round_env \<Rightarrow> ('o \<Rightarrow> token_id list \<Rightarrow> bool) \<Rightarrow> token_id list \<Rightarrow> ('o, 'h, 'g, 'c) driver \<Rightarrow> bool" where
  "aligned E holds base d \<longleftrightarrow> rd_committed_len d \<le> length (emitted d)
     \<and> good E holds (base @ take (rd_committed_len d) (emitted d)) (rd_ops d) (rd_frontier d)"

definition entered ::
  "('o, 'h, 's, 'g, 'c) round_env \<Rightarrow> ('o \<Rightarrow> token_id list \<Rightarrow> bool) \<Rightarrow> token_id list \<Rightarrow> ('o, 'h, 'g, 'c) driver \<Rightarrow> bool" where
  "entered E holds base d \<longleftrightarrow> rd_committed_len d = length (emitted d)
     \<and> good E holds (base @ emitted d) (rd_ops d) (rd_frontier d)"

text \<open>
  The outcome of a round: never a panic; an error leaves the caches aligned with the committed prefix
  unless a target forward failed; a continuing round has committed all it emitted, and greedily its
  next token is the target's choice.
\<close>

fun outcome ::
  "('o, 'h, 's, 'g, 'c) round_env \<Rightarrow> ('o \<Rightarrow> token_id list \<Rightarrow> bool) \<Rightarrow> (token_id list \<Rightarrow> token_id) \<Rightarrow> token_id list
    \<Rightarrow> (exit + round_end) \<times> ('o, 'h, 'g, 'c) driver \<Rightarrow> bool" where
  "outcome E holds succ base (Inl Panic, d) \<longleftrightarrow> False"
| "outcome E holds succ base (Inl (Error e), d) \<longleftrightarrow> failed_forward E (rd_ops d) \<or> aligned E holds base d"
| "outcome E holds succ base (Inr (Continue y), d) \<longleftrightarrow> entered E holds base d
     \<and> (is_greedy (rd_sampler d) \<longrightarrow> y = succ (base @ emitted d))"
| "outcome E holds succ base (Inr r, d) \<longleftrightarrow> aligned E holds base d"

lemma entered_aligned: "entered E holds base d \<Longrightarrow> aligned E holds base d"
  by (simp add: entered_def aligned_def)

lemma outcome_cong:
  assumes "rd_ops d' = rd_ops d" "rd_emitter d' = rd_emitter d" "rd_frontier d' = rd_frontier d"
    "rd_committed_len d' = rd_committed_len d"
  shows "entered E holds base d' = entered E holds base d" "aligned E holds base d' = aligned E holds base d"
  using assms by (simp_all add: entered_def aligned_def emitted_def)

lemma on_ops_eq: "on_ops f d = (r, d') \<longleftrightarrow> (\<exists>o2. f (rd_ops d) = (r, o2) \<and> d' = d\<lparr> rd_ops := o2 \<rparr>)"
  by (auto simp: on_ops_def split: prod.splits)

lemma continue_from_outcome:
  assumes "continue_from E e di d = (res, d')" "entered E holds base d"
    and "is_greedy (rd_sampler d) \<Longrightarrow> \<forall>x. di = Some x \<longrightarrow> x = Greedy (succ (base @ emitted d))"
  shows "outcome E holds succ base (res, d')"
proof (cases di)
  case None
  then show ?thesis using assms by (auto simp: continue_from_def entered_aligned)
next
  case (Some x)
  show ?thesis
  proof (cases x)
    case (Greedy t)
    then have "res = Inr (Continue t)" "d' = d" using assms(1) Some by (auto simp: continue_from_def draw_def)
    then show ?thesis using assms(2,3) Some Greedy by simp
  next
    case (Sampled p)
    then have ng: "\<not> is_greedy (rd_sampler d)" using assms(3) Some by auto
    obtain r s where r: "sample_from_probs (en_gen E) p (rd_sampler d) = (r, s)" by (cases "sample_from_probs (en_gen E) p (rd_sampler d)")
    then have s: "\<not> is_greedy s" using ng sample_from_probs_config [OF r] by (simp add: is_greedy_def)
    have d': "d' = d\<lparr> rd_sampler := s \<rparr>" "res = (case r of Inl e \<Rightarrow> Inl (Error e) | Inr t \<Rightarrow> Inr (Continue t))"
      using assms(1) Some Sampled r by (auto simp: continue_from_def draw_def split: sum.splits)
    have "entered E holds base d'" unfolding d' using assms(2) by (simp add: entered_def emitted_def)
    then show ?thesis using s d' by (auto simp: entered_aligned split: sum.splits)
  qed
qed

section \<open>The prediction module\<close>

context round_contract
begin

abbreviation "alive \<equiv> op_mtp_alive (en_ops E)"
abbreviation "pairs \<equiv> op_mtp_pairs (en_ops E)"
abbreviation "hybrid \<equiv> op_is_hybrid (en_ops E)"
abbreviation "Good \<equiv> good E holds"

lemma discard_good:
  "holds (rd_ops d) M \<Longrightarrow>
    \<exists>o2. discard_mtp E d = d\<lparr> rd_ops := o2, rd_frontier := None \<rparr> \<and> Good M o2 None"
  using discard_law by (auto simp: discard_mtp_def good_def)

lemma mtp_try_commit:
  assumes "holds (rd_ops d) M" "alive (rd_ops d)" "length prevs = length ids"
    "mtp_try (op_mtp_commit (en_ops E) ids prevs) d = (b, d1)"
  shows "\<exists>o2. d1 = d\<lparr> rd_ops := o2 \<rparr> \<and> holds o2 M \<and> alive o2
    \<and> (b \<longrightarrow> pairs o2 = pairs (rd_ops d) + length ids)"
  using assms commit_law [OF assms(1-3)] by (auto simp: mtp_try_def on_ops_def split: prod.splits sum.splits)

lemma mtp_try_truncate:
  assumes "holds (rd_ops d) M" "alive (rd_ops d)" "mtp_try (op_mtp_truncate (en_ops E) n) d = (b, d1)"
  shows "\<exists>o2. d1 = d\<lparr> rd_ops := o2 \<rparr> \<and> holds o2 M \<and> alive o2 \<and> (b \<longrightarrow> pairs o2 = n)"
  using assms mtp_truncate_law [OF assms(1,2)] by (auto simp: mtp_try_def on_ops_def split: prod.splits sum.splits)

lemma settle_try:
  assumes "holds (rd_ops d) M" "alive (rd_ops d)" "length prevs = length ids" "f \<noteq> None"
    "Suc (pairs (rd_ops d) + length ids) = length M"
  shows "\<exists>o2 f2. settle_mtp E f (mtp_try (op_mtp_commit (en_ops E) ids prevs) d)
    = d\<lparr> rd_ops := o2, rd_frontier := f2 \<rparr> \<and> Good M o2 f2"
proof -
  obtain b d1 where t: "mtp_try (op_mtp_commit (en_ops E) ids prevs) d = (b, d1)"
    by (cases "mtp_try (op_mtp_commit (en_ops E) ids prevs) d")
  from mtp_try_commit [OF assms(1-3) t] obtain o2 where o2: "d1 = d\<lparr> rd_ops := o2 \<rparr>" "holds o2 M" "alive o2"
    "b \<longrightarrow> pairs o2 = pairs (rd_ops d) + length ids" by blast
  show ?thesis
  proof (cases b)
    case True
    then show ?thesis using o2 t assms(4,5)
      by (intro exI [of _ o2] exI [of _ f]) (simp add: settle_mtp_def good_def)
  next
    case False
    then show ?thesis using discard_good [of d1 M] o2 t by (auto simp: settle_mtp_def)
  qed
qed

lemma settle_recommit:
  assumes "holds (rd_ops d) M" "alive (rd_ops d)" "length prevs = length ids" "f \<noteq> None"
    "case n of None \<Rightarrow> Suc (pairs (rd_ops d) + length ids) = length M | Some k \<Rightarrow> Suc (k + length ids) = length M"
  shows "\<exists>o2 f2. settle_mtp E f (mtp_recommit E n ids prevs d)
    = d\<lparr> rd_ops := o2, rd_frontier := f2 \<rparr> \<and> Good M o2 f2"
proof (cases n)
  case None
  then show ?thesis using settle_try [OF assms(1-4)] assms(5) by (simp add: mtp_recommit_def)
next
  case (Some k)
  obtain b d1 where t: "mtp_try (op_mtp_truncate (en_ops E) k) d = (b, d1)"
    by (cases "mtp_try (op_mtp_truncate (en_ops E) k) d")
  from mtp_try_truncate [OF assms(1,2) t] obtain o2 where o2: "d1 = d\<lparr> rd_ops := o2 \<rparr>" "holds o2 M" "alive o2"
    "b \<longrightarrow> pairs o2 = k" by blast
  show ?thesis
  proof (cases b)
    case True
    then have "\<exists>o3 f2. settle_mtp E f (mtp_try (op_mtp_commit (en_ops E) ids prevs) d1)
      = d1\<lparr> rd_ops := o3, rd_frontier := f2 \<rparr> \<and> Good M o3 f2"
      using o2 Some assms(5) by (intro settle_try assms(3,4)) auto
    then show ?thesis using True Some t o2(1) by (auto simp: mtp_recommit_def)
  next
    case False
    then show ?thesis using discard_good [of d1 M] o2 t Some by (auto simp: settle_mtp_def mtp_recommit_def)
  qed
qed

lemma commit_x_pair_good:
  assumes "holds (rd_ops d) M" "al \<longrightarrow> alive (rd_ops d)" "\<not> al \<longrightarrow> \<not> alive (rd_ops d)"
    "alive (rd_ops d) \<longleftrightarrow> rd_frontier d \<noteq> None"
    "al \<longrightarrow> hs \<noteq> []" "al \<longrightarrow> (case n of None \<Rightarrow> Suc (Suc (pairs (rd_ops d))) = length M | Some k \<Rightarrow> Suc (Suc k) = length M)"
    "commit_x_pair E x al n hs d = (r, d')"
  shows "r = Inr () \<and> (\<exists>o2 f2. d' = d\<lparr> rd_ops := o2, rd_frontier := f2 \<rparr> \<and> Good M o2 f2)"
proof (cases al)
  case False
  then have "d' = d\<lparr> rd_ops := rd_ops d, rd_frontier := rd_frontier d \<rparr>" "r = Inr ()" "Good M (rd_ops d) (rd_frontier d)"
    using assms by (simp_all add: commit_x_pair_def good_def)
  then show ?thesis by blast
next
  case True
  then obtain fr where fr: "rd_frontier d = Some fr" using assms(2,4) by auto
  obtain h hs' where hs: "hs = h # hs'" using assms(5) True by (cases hs) auto
  have "case n of None \<Rightarrow> Suc (pairs (rd_ops d) + length [x]) = length M | Some k \<Rightarrow> Suc (k + length [x]) = length M"
    using assms(6) True by (auto split: option.splits)
  from settle_recommit [OF assms(1) _ _ _ this, of "[fr]" "Some h"]
  show ?thesis using assms(2,7) True fr hs by (auto simp: commit_x_pair_def)
qed

lemma commit_len_sel [simp]:
  "rd_ops (commit_len n d) = rd_ops d" "rd_frontier (commit_len n d) = rd_frontier d"
  "emitted (commit_len n d) = emitted d" "rd_committed_len (commit_len n d) = rd_committed_len d + n"
  "rd_sampler (commit_len n d) = rd_sampler d"
  by (simp_all add: commit_len_def emitted_def)

lemma emitted_updates [simp]:
  "emitted (d\<lparr> rd_ops := o2 \<rparr>) = emitted d" "emitted (d\<lparr> rd_frontier := f \<rparr>) = emitted d"
  "emitted (discard_mtp E d) = emitted d" "emitted (arm_close m d) = emitted d"
  by (simp_all add: emitted_def discard_mtp_def arm_close_def arm_close_filters_def)

lemma discard_sel [simp]:
  "rd_committed_len (discard_mtp E d) = rd_committed_len d" "rd_sampler (discard_mtp E d) = rd_sampler d"
  by (simp_all add: discard_mtp_def)


section \<open>Target-only rounds\<close>

definition awaiting :: "token_id list \<Rightarrow> token_id \<Rightarrow> ('o, 'h, 'g, 'c) driver \<Rightarrow> bool" where
  "awaiting base x d \<longleftrightarrow> emitted d = take (rd_committed_len d) (emitted d) @ [x]
     \<and> holds (rd_ops d) (base @ take (rd_committed_len d) (emitted d))
     \<and> (alive (rd_ops d) \<longleftrightarrow> rd_frontier d \<noteq> None)"

lemma awaitingD:
  assumes "awaiting base x d"
  shows "length (emitted d) = Suc (rd_committed_len d)"
    "base @ emitted d = (base @ take (rd_committed_len d) (emitted d)) @ [x]"
proof -
  have e: "emitted d = take (rd_committed_len d) (emitted d) @ [x]" using assms by (simp add: awaiting_def)
  from arg_cong [OF e, of length] show "length (emitted d) = Suc (rd_committed_len d)"
    by (simp add: min_def split: if_splits)
  show "base @ emitted d = (base @ take (rd_committed_len d) (emitted d)) @ [x]" using e by simp
qed

lemma feed_errors:
  "op_verify_feed (en_ops E) ids s o1 = (Inl e, o2) \<Longrightarrow> \<forall>a b. e \<noteq> Host a b \<Longrightarrow> failed_forward E o2"
  "op_replay_feed (en_ops E) ids w s o1 = (Inl e, o2) \<Longrightarrow> \<forall>a b. e \<noteq> Host a b \<Longrightarrow> failed_forward E o2"
  unfolding failed_forward_def by (cases e; blast)+

lemma fedD: "fed E holds low ids a o1 o2 \<Longrightarrow> holds o2 (a @ ids) \<and> alive o2 = alive o1 \<and> pairs o2 = pairs o1 \<and> hybrid o2 = hybrid o1"
  by (simp add: fed_def mtp_same_def)

lemma discard_entered:
  assumes "holds (rd_ops d) (base @ emitted d)" "rd_committed_len d = length (emitted d)"
  shows "entered E holds base (discard_mtp E d)"
proof -
  obtain o2 where "discard_mtp E d = d\<lparr> rd_ops := o2, rd_frontier := None \<rparr>" "Good (base @ emitted d) o2 None"
    using discard_good [OF assms(1)] by blast
  then show ?thesis using assms(2) by (simp add: entered_def)
qed

definition mode_ok :: "token_id list \<Rightarrow> mtp_mode \<Rightarrow> ('o, 'h, 'g, 'c) driver \<Rightarrow> bool" where
  "mode_ok base mode d \<longleftrightarrow>
     (let n = length (base @ take (rd_committed_len d) (emitted d)) in
      case mode of Dead \<Rightarrow> \<not> alive (rd_ops d)
      | Commit \<Rightarrow> alive (rd_ops d) \<longrightarrow> Suc (pairs (rd_ops d)) = n
      | ResumeAt k \<Rightarrow> Suc k = n)"

lemma feed_x_outcome:
  assumes aw: "awaiting base x d" and mode: "mode_ok base mode d"
    and res: "feed_x_target_only E x mode dr d = (res, d')"
  shows "outcome E holds succ base (res, d')"
proof -
  define L where "L = base @ take (rd_committed_len d) (emitted d)"
  have h: "holds (rd_ops d) L" and af: "alive (rd_ops d) \<longleftrightarrow> rd_frontier d \<noteq> None"
    using aw by (simp_all add: awaiting_def L_def)
  note e = awaitingD [OF aw, folded L_def]
  obtain r o2 where v: "op_verify_feed (en_ops E) [x] (rd_sampler d) (rd_ops d) = (r, o2)"
    by (cases "op_verify_feed (en_ops E) [x] (rd_sampler d) (rd_ops d)")
  let ?d1 = "commit_len 1 (d\<lparr> rd_ops := o2 \<rparr>)"
  show ?thesis
  proof (cases r)
    case (Inl err)
    show ?thesis
    proof (cases "\<exists>er sv. err = Host er sv")
      case True
      then obtain er sv where err: "err = Host er sv" by blast
      note f = verify_Host [OF h _ v [unfolded Inl err], simplified]
      have "entered E holds base (discard_mtp E ?d1)"
        using fedD [OF f [THEN conjunct1]] e by (intro discard_entered) simp_all
      moreover have "(res, d') = (if dr then continue_from E er (first_of sv) (discard_mtp E ?d1) else (Inr Budget, discard_mtp E ?d1))"
        using res v Inl err by (auto simp: feed_x_target_only_def on_ops_def Let_def)
      ultimately show ?thesis using continue_from_outcome [of E er "first_of sv" "discard_mtp E ?d1" res d'] f e
        by (auto simp: entered_aligned split: if_splits)
    next
      case False
      then have "res = Inl (Error (into_error err)) \<and> d' = d\<lparr> rd_ops := o2 \<rparr>"
        using res v Inl by (cases err) (auto simp: feed_x_target_only_def on_ops_def)
      then show ?thesis using feed_errors(1) [OF v [unfolded Inl]] False by simp
    qed
  next
    case (Inr p)
    obtain hs ds where p: "p = (hs, ds)" by (cases p)
    note f = verify_Inr [OF h _ v [unfolded Inr p], simplified]
    note fd = fedD [OF f [THEN conjunct1]]
    let ?n = "case mode of ResumeAt n \<Rightarrow> Some n | _ \<Rightarrow> None"
    let ?al = "alive (rd_ops d) \<and> mode \<noteq> Dead"
    obtain rp d2 where c: "commit_x_pair E x ?al ?n hs ?d1 = (rp, d2)"
      by (cases "commit_x_pair E x ?al ?n hs ?d1")
    have len: "Suc (length L) = length (base @ emitted d)" using e by simp
    have "rp = Inr () \<and> (\<exists>o3 f3. d2 = ?d1\<lparr> rd_ops := o3, rd_frontier := f3 \<rparr> \<and> Good (base @ emitted d) o3 f3)"
    proof (rule commit_x_pair_good [OF _ _ _ _ _ _ c])
      show "holds (rd_ops ?d1) (base @ emitted d)" using fd e by simp
      show "?al \<longrightarrow> alive (rd_ops ?d1)" using fd by simp
      show "\<not> ?al \<longrightarrow> \<not> alive (rd_ops ?d1)" using mode fd by (auto simp: mode_ok_def Let_def)
      show "alive (rd_ops ?d1) \<longleftrightarrow> rd_frontier ?d1 \<noteq> None" using fd af by simp
      show "?al \<longrightarrow> hs \<noteq> []" using f by auto
      show "?al \<longrightarrow> (case ?n of None \<Rightarrow> Suc (Suc (pairs (rd_ops ?d1))) = length (base @ emitted d)
          | Some k \<Rightarrow> Suc (Suc k) = length (base @ emitted d))"
        unfolding len [symmetric] using mode fd by (cases mode) (auto simp: mode_ok_def Let_def L_def)
    qed
    then obtain o3 f3 where d2: "rp = Inr ()" "d2 = ?d1\<lparr> rd_ops := o3, rd_frontier := f3 \<rparr>" "Good (base @ emitted d) o3 f3"
      by blast
    have ent: "entered E holds base d2" using d2 e by (simp add: entered_def)
    have "(res, d') = (if dr then continue_from E (internal ''verify feed returned no dist'') (first_of ds) d2 else (Inr Budget, d2))"
      using res v Inr p c d2(1) by (auto simp: feed_x_target_only_def on_ops_def Let_def)
    moreover have "\<forall>y. first_of ds = Some y \<longrightarrow> y = Greedy (succ (base @ emitted d))" if "is_greedy (rd_sampler d)"
      using f that e by (cases ds) auto
    ultimately show ?thesis
      using ent continue_from_outcome [OF _ ent, of "internal ''verify feed returned no dist''" "first_of ds" res d' succ] d2(2)
      by (auto simp: entered_aligned split: if_splits)
  qed
qed


lemma final_slot_outcome:
  assumes aw: "awaiting base x d" and mode: "mode_ok base Commit d"
    and res: "final_slot E x d = (res, d')"
  shows "outcome E holds succ base (res, d')"
proof -
  define L where "L = base @ take (rd_committed_len d) (emitted d)"
  have h: "holds (rd_ops d) L" and af: "alive (rd_ops d) \<longleftrightarrow> rd_frontier d \<noteq> None"
    using aw by (simp_all add: awaiting_def L_def)
  note e = awaitingD [OF aw, folded L_def]
  obtain r o2 where v: "op_replay_feed (en_ops E) [x] False (rd_sampler d) (rd_ops d) = (r, o2)"
    by (cases "op_replay_feed (en_ops E) [x] False (rd_sampler d) (rd_ops d)")
  let ?d1 = "commit_len 1 (d\<lparr> rd_ops := o2 \<rparr>)"
  show ?thesis
  proof (cases r)
    case (Inl err)
    show ?thesis
    proof (cases "\<exists>er sv. err = Host er sv")
      case True
      then obtain er sv where err: "err = Host er sv" by blast
      note f = fedD [OF replay_Host [OF h _ v [unfolded Inl err], simplified]]
      have "entered E holds base (discard_mtp E ?d1)"
        using f e by (intro discard_entered) simp_all
      moreover have "(res, d') = (Inr Budget, discard_mtp E ?d1)"
        using res v Inl err by (simp add: final_slot_def on_ops_def Let_def)
      ultimately show ?thesis by (simp add: entered_aligned)
    next
      case False
      then have "res = Inl (Error (into_error err)) \<and> d' = d\<lparr> rd_ops := o2 \<rparr>"
        using res v Inl by (cases err) (auto simp: final_slot_def on_ops_def)
      then show ?thesis using feed_errors(2) [OF v [unfolded Inl]] False by simp
    qed
  next
    case (Inr p)
    obtain hs ds where p: "p = (hs, ds)" by (cases p)
    note f = replay_Inr [OF h _ v [unfolded Inr p], simplified]
    note fd = fedD [OF f [THEN conjunct1]]
    obtain rp d2 where c: "commit_x_pair E x (alive (rd_ops d)) None hs ?d1 = (rp, d2)"
      by (cases "commit_x_pair E x (alive (rd_ops d)) None hs ?d1")
    have len: "Suc (length L) = length (base @ emitted d)" using e by simp
    have "rp = Inr () \<and> (\<exists>o3 f3. d2 = ?d1\<lparr> rd_ops := o3, rd_frontier := f3 \<rparr> \<and> Good (base @ emitted d) o3 f3)"
    proof (rule commit_x_pair_good [OF _ _ _ _ _ _ c])
      show "alive (rd_ops d) \<longrightarrow> (case None of None \<Rightarrow> Suc (Suc (pairs (rd_ops ?d1))) = length (base @ emitted d)
          | Some k \<Rightarrow> Suc (Suc k) = length (base @ emitted d))"
        unfolding len [symmetric] using mode fd by (auto simp: mode_ok_def Let_def L_def)
      show "alive (rd_ops d) \<longrightarrow> hs \<noteq> []" using f by auto
    qed (use fd e af in simp_all)
    then have "entered E holds base d2" "rp = Inr ()" using e by (auto simp: entered_def)
    moreover have "(res, d') = (case rp of Inl e \<Rightarrow> Inl e | Inr _ \<Rightarrow> Inr Budget, d2)"
      using res v Inr p c by (simp add: final_slot_def on_ops_def Let_def split: sum.splits)
    ultimately show ?thesis by (simp add: entered_aligned)
  qed
qed


section \<open>Forced close\<close>

text \<open>Caches that hold the committed prefix, with \<open>sq\<close> emitted after it; a cancelled token may follow.\<close>

definition replaying ::
  "token_id list \<Rightarrow> token_id list \<Rightarrow> bool \<Rightarrow> nat \<Rightarrow> ('o, 'h, 'g, 'c) driver \<Rightarrow> bool" where
  "replaying base sq cancelled n d \<longleftrightarrow> sq \<noteq> []
     \<and> (\<exists>extra. emitted d = take (rd_committed_len d) (emitted d) @ sq @ extra \<and> (\<not> cancelled \<longrightarrow> extra = []))
     \<and> holds (rd_ops d) (base @ take (rd_committed_len d) (emitted d))
     \<and> (alive (rd_ops d) \<longleftrightarrow> rd_frontier d \<noteq> None)
     \<and> (alive (rd_ops d) \<longrightarrow> Suc n = length (base @ take (rd_committed_len d) (emitted d)))"

lemma replayingD:
  assumes "replaying base sq cancelled n d"
  defines "c \<equiv> rd_committed_len d"
  shows "c + length sq \<le> length (emitted d)"
    "take (c + length sq) (emitted d) = take c (emitted d) @ sq"
    "\<not> cancelled \<Longrightarrow> length (emitted d) = c + length sq"
proof -
  obtain ex where ex: "emitted d = take c (emitted d) @ sq @ ex" "\<not> cancelled \<longrightarrow> ex = []" and ne: "sq \<noteq> []"
    using assms by (auto simp: replaying_def)
  from arg_cong [OF ex(1), of length] ne have len: "length (take c (emitted d)) = c" "length (emitted d) = c + length sq + length ex"
    by (auto simp: min_def split: if_splits)
  then show "c + length sq \<le> length (emitted d)" "\<not> cancelled \<Longrightarrow> length (emitted d) = c + length sq"
    using ex(2) by auto
  have "take (c + length sq) (take c (emitted d) @ sq @ ex) = take c (emitted d) @ sq"
    using len(1) by simp
  then show "take (c + length sq) (emitted d) = take c (emitted d) @ sq" using ex(1) by simp
qed

lemma close_pairs_good:
  assumes "holds (rd_ops d) M" "al \<longleftrightarrow> alive (rd_ops d)" "alive (rd_ops d) \<longleftrightarrow> rd_frontier d \<noteq> None"
    "al \<longrightarrow> length hs = length sq" "sq \<noteq> []" "al \<longrightarrow> Suc (n + length sq) = length M"
    "close_pairs E sq al n hs d = (r, d')"
  shows "r = Inr () \<and> (\<exists>o2 f2. d' = d\<lparr> rd_ops := o2, rd_frontier := f2 \<rparr> \<and> Good M o2 f2)"
proof (cases al)
  case False
  then have "d' = d\<lparr> rd_ops := rd_ops d, rd_frontier := rd_frontier d \<rparr>" "r = Inr ()" "Good M (rd_ops d) (rd_frontier d)"
    using assms by (simp_all add: close_pairs_def good_def)
  then show ?thesis by blast
next
  case True
  then obtain fr where fr: "rd_frontier d = Some fr" using assms(2,3) by auto
  obtain b d1 where t: "mtp_try (op_mtp_truncate (en_ops E) n) d = (b, d1)"
    by (cases "mtp_try (op_mtp_truncate (en_ops E) n) d")
  from mtp_try_truncate [OF assms(1) _ t] obtain o2 where o2: "d1 = d\<lparr> rd_ops := o2 \<rparr>" "holds o2 M" "alive o2"
    "b \<longrightarrow> pairs o2 = n" using assms(2) True by blast
  show ?thesis
  proof (cases b)
    case False
    then show ?thesis using discard_good [of d1 M] o2 t True fr assms(7) by (auto simp: close_pairs_def)
  next
    case b: True
    have "hs \<noteq> []" using assms(4,5) True by auto
    have "\<exists>o3 f2. settle_mtp E (last_of hs) (mtp_try (op_mtp_commit (en_ops E) sq (fr # take (length sq - 1) hs)) d1)
      = d1\<lparr> rd_ops := o3, rd_frontier := f2 \<rparr> \<and> Good M o3 f2"
      using o2 b assms(4-6) True by (intro settle_try) (auto simp: last_of_def Suc_leI)
    then show ?thesis using assms(4,7) True fr t b o2(1) by (auto simp: close_pairs_def rows_upto_def)
  qed
qed

lemma arm_entered [simp]:
  "entered E holds base (arm_close m d) = entered E holds base d"
  "rd_committed_len (arm_close m d) = rd_committed_len d" "rd_sampler (arm_close m d) = rd_sampler d"
  by (simp_all add: entered_def) (simp_all add: arm_close_def)

lemma close_replay_outcome:
  assumes rp: "replaying base sq (cp_cancelled cl) n d"
    and res: "close_replay E sq cl m n d = (res, d')"
  shows "outcome E holds succ base (res, d')"
proof -
  define c where "c = rd_committed_len d"
  define L where "L = base @ take c (emitted d)"
  have h: "holds (rd_ops d) L" and af: "alive (rd_ops d) \<longleftrightarrow> rd_frontier d \<noteq> None"
    and ne: "sq \<noteq> []" and np: "alive (rd_ops d) \<longrightarrow> Suc n = length L"
    using rp by (simp_all add: replaying_def L_def c_def)
  note e = replayingD [OF rp, folded c_def]
  have M: "L @ sq = base @ take (c + length sq) (emitted d)" using e(2) by (simp add: L_def)
  define over where "over = (rd_used d \<ge> rd_max_tokens d)"
  define w where "w = (cp_error cl = None \<and> \<not> cp_cancelled cl \<and> \<not> over)"
  obtain r o2 where v: "op_replay_feed (en_ops E) sq w (rd_sampler d) (rd_ops d) = (r, o2)"
    by (cases "op_replay_feed (en_ops E) sq w (rd_sampler d) (rd_ops d)")
  let ?d1 = "commit_len (length sq) (d\<lparr> rd_ops := o2 \<rparr>)"
  text \<open>What is left to do once the caches hold the replayed ledger.\<close>
  have settled: "outcome E holds succ base (case cp_error cl of Some er \<Rightarrow> (Inl (Error er), d2)
      | None \<Rightarrow> (if cp_cancelled cl then (Inr Aborted, d2) else if over then (Inr Budget, d2)
          else continue_from E er2 di (arm_close m d2)))"
    if d2: "d2 = ?d1\<lparr> rd_ops := o3, rd_frontier := f3 \<rparr>" and g: "Good (L @ sq) o3 f3"
      and di: "w \<Longrightarrow> is_greedy (rd_sampler d) \<Longrightarrow> \<forall>y. di = Some y \<longrightarrow> y = Greedy (succ (L @ sq))"
    for d2 o3 f3 di er2
  proof -
    have al: "aligned E holds base d2" using g e(1) unfolding M by (simp add: d2 aligned_def c_def)
    show ?thesis
    proof (cases w)
      case False
      then show ?thesis using al by (auto simp: w_def split: option.split)
    next
      case True
      then have em: "length (emitted d) = c + length sq" using e(3) by (simp add: w_def)
      then have "entered E holds base d2" using g unfolding M by (simp add: d2 entered_def c_def)
      moreover obtain rc dc where rc: "continue_from E er2 di (arm_close m d2) = (rc, dc)"
        by (cases "continue_from E er2 di (arm_close m d2)")
      ultimately show ?thesis
        using True di M em continue_from_outcome [OF rc, of holds base succ] by (simp add: w_def d2)
    qed
  qed
  show ?thesis
  proof (cases r)
    case (Inl err)
    show ?thesis
    proof (cases "\<exists>er sv. err = Host er sv")
      case True
      then obtain er sv where err: "err = Host er sv" by blast
      note f = replay_Host [OF h ne v [unfolded Inl err]]
      from fedD [OF f [THEN conjunct1]] have "holds (rd_ops ?d1) (L @ sq)" by simp
      from discard_good [OF this] obtain o3 where o3: "discard_mtp E ?d1 = ?d1\<lparr> rd_ops := o3, rd_frontier := None \<rparr>"
        "Good (L @ sq) o3 None" by blast
      have "(res, d') = (case cp_error cl of Some er \<Rightarrow> (Inl (Error er), discard_mtp E ?d1)
        | None \<Rightarrow> (if cp_cancelled cl then (Inr Aborted, discard_mtp E ?d1)
            else if over then (Inr Budget, discard_mtp E ?d1)
            else continue_from E er (last_of sv) (arm_close m (discard_mtp E ?d1))))"
        using res v Inl err unfolding w_def over_def
        by (simp add: close_replay_def on_ops_def Let_def split: option.splits)
      then show ?thesis using settled [OF o3, of "last_of sv" er] f by simp
    next
      case False
      then have "res = Inl (Error (into_error err)) \<and> d' = d\<lparr> rd_ops := o2 \<rparr>"
        using res v Inl unfolding w_def over_def by (cases err) (auto simp: close_replay_def on_ops_def Let_def)
      then show ?thesis using feed_errors(2) [OF v [unfolded Inl]] False by simp
    qed
  next
    case (Inr p)
    obtain hs od where p: "p = (hs, od)" by (cases p)
    note f = replay_Inr [OF h ne v [unfolded Inr p]]
    note fd = fedD [OF f [THEN conjunct1]]
    show ?thesis
    proof (cases "cp_error cl")
      case (Some er)
      have "holds (rd_ops ?d1) (L @ sq)" using fd by simp
      from discard_good [OF this] obtain o3 where o3: "discard_mtp E ?d1 = ?d1\<lparr> rd_ops := o3, rd_frontier := None \<rparr>"
        "Good (L @ sq) o3 None" by blast
      moreover have "(res, d') = (Inl (Error er), discard_mtp E ?d1)"
        using res v Inr p Some unfolding w_def by (simp add: close_replay_def on_ops_def Let_def)
      ultimately show ?thesis using settled [OF o3, of None] Some by simp
    next
      case None
      obtain rp d2 where cpg: "close_pairs E sq (alive (rd_ops d)) n hs ?d1 = (rp, d2)"
        by (cases "close_pairs E sq (alive (rd_ops d)) n hs ?d1")
      have "rp = Inr () \<and> (\<exists>o3 f3. d2 = ?d1\<lparr> rd_ops := o3, rd_frontier := f3 \<rparr> \<and> Good (L @ sq) o3 f3)"
        by (rule close_pairs_good [OF _ _ _ _ ne _ cpg]) (use fd f af np in auto)
      then obtain o3 f3 where d2: "rp = Inr ()" "d2 = ?d1\<lparr> rd_ops := o3, rd_frontier := f3 \<rparr>" "Good (L @ sq) o3 f3"
        by blast
      have "(res, d') = (if cp_cancelled cl then (Inr Aborted, d2) else if over then (Inr Budget, d2)
          else continue_from E (internal ''close replay returned no dist'') od (arm_close m d2))"
        using res v Inr p None cpg d2(1) unfolding w_def over_def
        by (simp add: close_replay_def on_ops_def Let_def split: if_splits)
      then show ?thesis using settled [OF d2(2,3), of od "internal ''close replay returned no dist''"] f None by simp
    qed
  qed
qed

end

end
