(* ===== verification/Round_Speculation.thy ===== *)
theory Round_Speculation
  imports Round_Contract
begin

text \<open>
  Under the contract of the operations, every round keeps the ledgers: emission, drafting,
  verification, the decision and the reconciliation to the retained prefix, on every failure row.
\<close>

section \<open>Emission\<close>

definition same_target :: "('o, 'h, 'g, 'c) driver \<Rightarrow> ('o, 'h, 'g, 'c) driver \<Rightarrow> bool" where
  "same_target d d' \<longleftrightarrow> rd_ops d' = rd_ops d \<and> rd_frontier d' = rd_frontier d
     \<and> rd_committed_len d' = rd_committed_len d \<and> rd_sampler d' = rd_sampler d"

lemma same_target_trans: "same_target d d1 \<Longrightarrow> same_target d1 d2 \<Longrightarrow> same_target d d2"
  by (simp add: same_target_def)

lemma emit_x_frame:
  assumes "emit_x E x d = (v, d1)"
  shows "same_target d d1" "emitted d1 = emitted d @ (case v of Inl _ \<Rightarrow> [] | Inr _ \<Rightarrow> [x])"
  using assms emit_Inl emit_Inr(1)
  by (fastforce simp: emit_x_def same_target_def emitted_def split: prod.splits sum.splits)+

lemma observe_budget_frame:
  assumes "observe_budget t d = (m, d1)"
  shows "same_target d d1" "emitted d1 = emitted d"
  using assms by (auto simp: observe_budget_def same_target_def emitted_def split: prod.splits option.splits)

text \<open>What was emitted: the accepted part, and after a cancellation one token more.\<close>

definition part_emitted :: "bool \<Rightarrow> token_id list \<Rightarrow> nat \<Rightarrow> token_id list \<Rightarrow> token_id list \<Rightarrow> bool" where
  "part_emitted stopped ids k em em' \<longleftrightarrow>
     k \<le> length ids \<and> (\<exists>extra. em' = em @ take k ids @ extra \<and> (\<not> stopped \<longrightarrow> extra = []))"

lemma part_emitted_0: "part_emitted s ids 0 em em" "part_emitted True ids 0 em (em @ [i])"
  by (simp_all add: part_emitted_def)

lemma part_emitted_Suc: "part_emitted s ids k (em @ [i]) em' \<Longrightarrow> part_emitted s (i # ids) (Suc k) em em'"
  by (auto simp: part_emitted_def)

lemma part_emitted_mono: "part_emitted s ids k em em' \<Longrightarrow> (s \<Longrightarrow> t) \<Longrightarrow> part_emitted t ids k em em'"
  by (auto simp: part_emitted_def)

lemma emit_close_loop_emitted:
  "emit_close_loop tk cb ids n e = (cl, e') \<Longrightarrow>
    \<exists>k. cp_accepted cl = n + k \<and> part_emitted (cp_cancelled cl) ids k (te_emitted e) (te_emitted e')"
proof (induction tk cb ids n e rule: emit_close_loop.induct)
  case (1 tk cb n e)
  then show ?case using part_emitted_0(1) by (auto intro!: exI [of _ 0])
next
  case (2 tk cb i ids n e)
  obtain v e1 where v: "emit_forced tk cb i e = (v, e1)" by (cases "emit_forced tk cb i e")
  show ?case
  proof (cases v)
    case (Inl er)
    then show ?thesis using "2.prems" v emit_forced_Inl [of tk cb i e er e1] part_emitted_0(1)
      by (auto intro!: exI [of _ 0])
  next
    case (Inr r)
    note em = emit_forced_Inr(1) [OF v [unfolded Inr]]
    show ?thesis
    proof (cases r)
      case (EmitContinue raw)
      then have "emit_close_loop tk cb ids (n + 1) e1 = (cl, e')" using "2.prems" v Inr by simp
      from "2.IH" [OF v [unfolded Inr EmitContinue, symmetric] refl refl this]
      obtain k where k: "cp_accepted cl = n + 1 + k"
        "part_emitted (cp_cancelled cl) ids k (te_emitted e1) (te_emitted e')" by blast
      then show ?thesis using part_emitted_Suc [OF k(2) [unfolded em]] by (intro exI [of _ "Suc k"]) simp
    qed (use "2.prems" v Inr em part_emitted_0(2) in \<open>auto intro!: exI [of _ 0]\<close>)
  qed
qed

lemma emit_close_prefix_frame:
  assumes "emit_close_prefix E ids d = (cl, d')"
  shows "same_target d d'" "part_emitted (cp_cancelled cl) ids (cp_accepted cl) (emitted d) (emitted d')"
proof -
  obtain em where em: "emit_close_loop (en_tokenizer E) (en_on_token E) ids 0 (rd_emitter d) = (cl, em)"
    and d': "d' = d\<lparr> rd_emitter := em \<rparr>"
    using assms by (auto simp: emit_close_prefix_def split: prod.splits)
  from emit_close_loop_emitted [OF em] d'
  show "same_target d d'" "part_emitted (cp_cancelled cl) ids (cp_accepted cl) (emitted d) (emitted d')"
    by (auto simp: same_target_def emitted_def)
qed

lemma emit_drafts_frame:
  "emit_drafts E ds n d = ((r, ev), d') \<Longrightarrow> same_target d d'
    \<and> (\<exists>k. r = n + k \<and> part_emitted (ev \<in> {SpecEos, SpecCancel}) ds k (emitted d) (emitted d'))"
proof (induction E ds n d arbitrary: r ev d' rule: emit_drafts.induct)
  case (1 E n d)
  then show ?case using part_emitted_0(1) by (auto simp: same_target_def intro!: exI [of _ 0])
next
  case (2 E i ds n d)
  obtain v d1 where e: "emit_x E i d = (v, d1)" by (cases "emit_x E i d")
  note f = emit_x_frame [OF e]
  show ?case
  proof (cases v)
    case (Inl er)
    then show ?thesis using "2.prems" e f part_emitted_0(1) by (auto intro!: exI [of _ 0])
  next
    case (Inr r')
    show ?thesis
    proof (cases r')
      case (EmitContinue raw)
      obtain m d2 where ob: "observe_budget raw d1 = (m, d2)" by (cases "observe_budget raw d1")
      note o = observe_budget_frame [OF ob]
      have st: "same_target d d2" using f(1) o(1) by (rule same_target_trans)
      have em: "emitted d2 = emitted d @ [i]" using f(2) o(2) Inr by simp
      have one: "part_emitted s (i # ds) (Suc 0) (emitted d) (emitted d2)" for s
        using part_emitted_Suc [OF part_emitted_0(1)] by (simp add: em)
      show ?thesis
      proof (cases "m = None \<and> \<not> rd_max_tokens d2 \<le> rd_used d2")
        case True
        then have "emit_drafts E ds (n + 1) d2 = ((r, ev), d')" using "2.prems" e Inr EmitContinue ob by simp
        from "2.IH" [OF e [unfolded Inr EmitContinue, symmetric] refl refl ob [symmetric] _ _ this] True
        obtain k where k: "same_target d2 d'" "r = n + 1 + k"
          "part_emitted (ev \<in> {SpecEos, SpecCancel}) ds k (emitted d2) (emitted d')" by blast
        then show ?thesis using part_emitted_Suc [OF k(3) [unfolded em]] same_target_trans [OF st k(1)]
          by (intro conjI exI [of _ "Suc k"]) simp_all
      next
        case False
        then show ?thesis using "2.prems" e Inr EmitContinue ob st one
          by (auto split: option.splits if_splits intro!: exI [of _ "Suc 0"])
      qed
    qed (use "2.prems" e Inr f part_emitted_0(2) in \<open>auto intro!: exI [of _ 0]\<close>)
  qed
qed


context round_contract
begin

section \<open>Forced close at the current token\<close>

lemma replaying_intro:
  assumes "same_target d d'" "holds (rd_ops d) (base @ take (rd_committed_len d) (emitted d))"
    "alive (rd_ops d) \<longleftrightarrow> rd_frontier d \<noteq> None"
    "alive (rd_ops d) \<longrightarrow> Suc n = length (base @ take (rd_committed_len d) (emitted d))"
    "emitted d = take (rd_committed_len d) (emitted d) @ xs" "xs \<noteq> []"
    "part_emitted (cp_cancelled cl) ids (cp_accepted cl) (emitted d) (emitted d')"
  shows "replaying base (xs @ take (cp_accepted cl) ids) (cp_cancelled cl) n d'"
proof -
  define c where "c = rd_committed_len d"
  have len: "length (take c (emitted d)) = c"
    using arg_cong [OF assms(5), of length] assms(6) by (auto simp: c_def min_def split: if_splits)
  obtain ex where ex: "emitted d' = emitted d @ take (cp_accepted cl) ids @ ex" "\<not> cp_cancelled cl \<longrightarrow> ex = []"
    using assms(7) by (auto simp: part_emitted_def)
  have c: "rd_committed_len d' = c" using assms(1) by (simp add: same_target_def c_def)
  have t: "take c (emitted d') = take c (emitted d)" using ex(1) len by (simp add: min_def split: if_splits)
  have "emitted d' = take c (emitted d') @ (xs @ take (cp_accepted cl) ids) @ ex"
    using ex(1) assms(5) unfolding t c_def [symmetric] by (metis append.assoc)
  then show ?thesis using assms(1-4,6) ex(2) t
    unfolding replaying_def same_target_def c c_def [symmetric] by auto
qed

lemma forced_close_at_x_outcome:
  assumes aw: "awaiting base x d" and mode: "mode_ok base Commit d"
    and res: "forced_close_at_x E x m d = (res, d')"
  shows "outcome E holds succ base (res, d')"
proof (cases "encode_close (en_tokenizer E) m")
  case (Inl e)
  have "aligned E holds base d" using aw mode awaitingD(1) [OF aw]
    by (auto simp: awaiting_def mode_ok_def Let_def aligned_def good_def)
  then show ?thesis using res Inl by (auto simp: forced_close_at_x_def)
next
  case (Inr ids)
  show ?thesis
  proof (cases "ids = []")
    case True
    have "mode_ok base (ordinary_mode E d) d" using mode by (simp add: mode_ok_def ordinary_mode_def Let_def)
    then show ?thesis using res Inr True feed_x_outcome [OF aw] by (simp add: forced_close_at_x_def)
  next
    case False
    obtain cl d1 where cl: "emit_close_prefix E ids d = (cl, d1)" by (cases "emit_close_prefix E ids d")
    note f = emit_close_prefix_frame [OF cl]
    have ops: "rd_ops d1 = rd_ops d" using f(1) by (simp add: same_target_def)
    have "replaying base ([x] @ take (cp_accepted cl) ids) (cp_cancelled cl) (pairs (rd_ops d1)) d1"
      using aw mode f by (intro replaying_intro [of d]) (simp_all add: awaiting_def mode_ok_def Let_def ops)
    then show ?thesis using res Inr False cl close_replay_outcome by (simp add: forced_close_at_x_def)
  qed
qed


section \<open>Drafting\<close>

definition drafting :: "('o, 'h, 'g, 'c) driver \<Rightarrow> ('o, 'h, 'g, 'c) driver \<Rightarrow> bool" where
  "drafting d d' \<longleftrightarrow> core d' = core d \<and> rd_frontier d' = rd_frontier d \<and> rd_committed_len d' = rd_committed_len d
     \<and> target_same E low (rd_ops d) (rd_ops d') \<and> alive (rd_ops d') = alive (rd_ops d)"

lemma drafting_refl: "drafting d d"
  by (simp add: drafting_def target_same_def)

lemma drafting_trans: "drafting d d1 \<Longrightarrow> drafting d1 d2 \<Longrightarrow> drafting d d2"
  by (auto simp: drafting_def target_same_def)

lemma draw_draft_frame:
  assumes "draw_draft E di d = (r, d')"
  shows "drafting d d'" "rd_ops d' = rd_ops d"
proof -
  have "rd_ops d' = rd_ops d \<and> rd_frontier d' = rd_frontier d \<and> rd_committed_len d' = rd_committed_len d"
    using assms by (auto simp: draw_draft_def draw_def split: prod.splits sum.splits dist.splits)
  then show "drafting d d'" "rd_ops d' = rd_ops d"
    using draw_draft_core [OF assms] by (simp_all add: drafting_def target_same_def)
qed

lemma draft_loop_frame:
  "draft_loop E n pid prev ds qs d = (r, d') \<Longrightarrow> holds (rd_ops d) a \<Longrightarrow>
    holds (rd_ops d') a \<and> drafting d d'
    \<and> (\<forall>ds' qs'. r = Drafted ds' qs' \<longrightarrow> length ds' = length ds + n \<and> length qs' = length qs + n)"
proof (induction n arbitrary: pid prev ds qs d)
  case 0
  then show ?case by (auto simp: drafting_refl)
next
  case (Suc n)
  obtain v o2 where st: "op_mtp_step (en_ops E) pid prev (rd_sampler d) (rd_ops d) = (v, o2)"
    by (cases "op_mtp_step (en_ops E) pid prev (rd_sampler d) (rd_ops d)")
  let ?d1 = "d\<lparr> rd_ops := o2 \<rparr>"
  have on: "on_ops (op_mtp_step (en_ops E) pid prev (rd_sampler d)) d = (v, ?d1)"
    using st by (simp add: on_ops_def)
  note l = step_law [OF Suc.prems(2) st]
  then have h1: "holds (rd_ops ?d1) a" and dr1: "drafting d ?d1" by (simp_all add: drafting_def)
  show ?case
  proof (cases v)
    case (Inl e)
    then show ?thesis using Suc.prems(1) on h1 dr1 by (cases e) auto
  next
    case (Inr p)
    obtain recycle di where p: "p = (recycle, di)" by (cases p)
    obtain t d2 where t: "draw_draft E di ?d1 = (t, d2)" by (cases "draw_draft E di ?d1")
    note f = draw_draft_frame [OF t]
    have h2: "holds (rd_ops d2) a" and dr2: "drafting d d2"
      using f h1 drafting_trans [OF dr1 f(1)] by simp_all
    show ?thesis
    proof (cases t)
      case None
      then show ?thesis using Suc.prems(1) on Inr p t h2 dr2 by auto
    next
      case (Some tk)
      let ?d3 = "d2\<lparr> rd_stats := record_drafted 1 (rd_stats d2) \<rparr>"
      have dr3: "drafting d ?d3" using dr2 by (simp add: drafting_def)
      have "draft_loop E n tk recycle (ds @ [tk]) (qs @ [di]) ?d3 = (r, d')"
        using Suc.prems(1) on Inr p t Some by simp
      from Suc.IH [OF this] h2 show ?thesis using drafting_trans [OF dr3] by auto
    qed
  qed
qed


section \<open>Cutting back\<close>

lemma truncate_ok:
  assumes "holds (rd_ops d) a" "low (rd_ops d) \<le> n" "n \<le> length a" "\<not> hybrid (rd_ops d) \<or> n = length a"
  shows "\<exists>o2. truncate_or_exit E n d = (Inr (), d\<lparr> rd_ops := o2 \<rparr>) \<and> holds o2 (take n a)
    \<and> mtp_same E (rd_ops d) o2"
  using truncate_law [OF assms] by (auto simp: truncate_or_exit_def or_exit_def on_ops_def)

lemma restore_ok:
  assumes "snap sn a" "holds (rd_ops d) (a @ us)" "low (rd_ops d) \<le> length a"
  shows "\<exists>o2. restore_or_exit E sn d = (Inr (), d\<lparr> rd_ops := o2 \<rparr>) \<and> holds o2 a \<and> mtp_same E (rd_ops d) o2"
  using restore_law [OF assms] by (auto simp: restore_or_exit_def or_exit_def on_ops_def)

lemma mtp_same_trans: "mtp_same E o1 o2 \<Longrightarrow> mtp_same E o2 o3 \<Longrightarrow> mtp_same E o1 o3"
  by (simp add: mtp_same_def)

text \<open>Back to a position \<open>a\<close>: by the snapshot taken there, or by truncation alone.\<close>

lemma cut_back:
  assumes "holds (rd_ops d) (a @ us)" "low (rd_ops d) \<le> length a"
    and "case p of Some sn \<Rightarrow> snap sn a | None \<Rightarrow> us = [] \<or> \<not> hybrid (rd_ops d)"
  shows "\<exists>o2. restore_then_truncate E p (length a) d = (Inr (), d\<lparr> rd_ops := o2 \<rparr>) \<and> holds o2 a
    \<and> mtp_same E (rd_ops d) o2"
proof (cases p)
  case None
  then have "\<not> hybrid (rd_ops d) \<or> length a = length (a @ us)" using assms(3) by auto
  from truncate_ok [OF assms(1,2) _ this] None show ?thesis by (simp add: restore_then_truncate_def)
next
  case (Some sn)
  with assms(3) have "snap sn a" by simp
  from restore_ok [OF this assms(1,2)] obtain o2 where o2: "restore_or_exit E sn d = (Inr (), d\<lparr> rd_ops := o2 \<rparr>)"
    "holds o2 a" "mtp_same E (rd_ops d) o2" by blast
  from truncate_ok [of "d\<lparr> rd_ops := o2 \<rparr>" a "length a"] low_le [OF o2(2)] o2(2)
  obtain o3 where "truncate_or_exit E (length a) (d\<lparr> rd_ops := o2 \<rparr>) = (Inr (), d\<lparr> rd_ops := o3 \<rparr>)" "holds o3 a"
    "mtp_same E o2 o3" by auto
  then show ?thesis using o2 Some mtp_same_trans by (auto simp: restore_then_truncate_def)
qed


section \<open>Verification\<close>

text \<open>A feed's greedy rows.\<close>

definition greedy_rows :: "token_id list \<Rightarrow> token_id list \<Rightarrow> dist list \<Rightarrow> bool" where
  "greedy_rows L ids ds \<longleftrightarrow> length ds = length ids \<and> (\<forall>i < length ids. ds ! i = Greedy (succ (L @ take (Suc i) ids)))"

lemma greedy_rows_append:
  assumes "greedy_rows L ids ds" "greedy_rows (L @ ids) ids' ds'"
  shows "greedy_rows L (ids @ ids') (ds @ ds')"
  using assms by (auto simp: greedy_rows_def nth_append Suc_diff_le not_less)

lemma first_row: "greedy_rows L ids ds \<Longrightarrow> first_of ds = Some di \<Longrightarrow> di = Greedy (succ (L @ [hd ids]))"
  by (cases ds; cases ids) (auto simp: greedy_rows_def)

definition speculating :: "token_id list \<Rightarrow> token_id list \<Rightarrow> token_id \<Rightarrow> ('o, 'h, 'g, 'c) driver \<Rightarrow> bool" where
  "speculating base L x d \<longleftrightarrow> L = base @ take (rd_committed_len d) (emitted d)
     \<and> emitted d = take (rd_committed_len d) (emitted d) @ [x]"

lemma speculatingD:
  assumes "speculating base L x d"
  shows "length (emitted d) = Suc (rd_committed_len d)" "base @ emitted d = L @ [x]"
proof -
  have e: "emitted d = take (rd_committed_len d) (emitted d) @ [x]" using assms by (simp add: speculating_def)
  from arg_cong [OF e, of length] show "length (emitted d) = Suc (rd_committed_len d)"
    by (simp add: min_def split: if_splits)
  have "base @ emitted d = base @ (take (rd_committed_len d) (emitted d) @ [x])" using e by simp
  then show "base @ emitted d = L @ [x]" using assms by (simp add: speculating_def)
qed

lemma speculating_frame:
  "core d' = core d \<Longrightarrow> rd_committed_len d' = rd_committed_len d \<Longrightarrow> speculating base L x d' = speculating base L x d"
  by (frule core_eqD(1)) (simp add: speculating_def emitted_def)

lemma verify_host_recovery_outcome:
  assumes sp: "speculating base L x d" and h: "holds (rd_ops d) (L @ x # us)" and lo: "low (rd_ops d) \<le> length L"
    and p: "case p of Some sn \<Rightarrow> snap sn (L @ [x]) | None \<Rightarrow> us = [] \<or> \<not> hybrid (rd_ops d)"
    and sv: "is_greedy (rd_sampler d) \<Longrightarrow> \<forall>di. first_of sv = Some di \<longrightarrow> di = Greedy (succ (L @ [x]))"
    and res: "verify_host_recovery E e sv p (length L) d = (res, d')"
  shows "outcome E holds succ base (res, d')"
proof -
  note sd = speculatingD [OF sp]
  have "\<exists>o2. restore_then_truncate E p (length (L @ [x])) d = (Inr (), d\<lparr> rd_ops := o2 \<rparr>) \<and> holds o2 (L @ [x])
    \<and> mtp_same E (rd_ops d) o2"
    by (rule cut_back [of _ _ us]) (use h lo p in \<open>auto split: option.splits\<close>)
  then obtain o2 where o2: "restore_then_truncate E p (length L + 1) d = (Inr (), d\<lparr> rd_ops := o2 \<rparr>)" "holds o2 (L @ [x])"
    by auto
  let ?d1 = "discard_mtp E (commit_len 1 (d\<lparr> rd_ops := o2 \<rparr>))"
  have ent: "entered E holds base ?d1" using o2(2) sd by (intro discard_entered) simp_all
  have "continue_from E e (first_of sv) ?d1 = (res, d')" using res o2(1) by (simp add: verify_host_recovery_def)
  from continue_from_outcome [OF this ent] show ?thesis using sv sd by simp
qed

definition verified_at ::
  "token_id list \<Rightarrow> token_id \<Rightarrow> token_id list \<Rightarrow> ('o, 'h, 'g, 'c) driver \<Rightarrow> 'h list \<Rightarrow> dist list \<Rightarrow> 's option \<Rightarrow> bool" where
  "verified_at L x drafts d hs ds p \<longleftrightarrow> holds (rd_ops d) (L @ x # drafts) \<and> low (rd_ops d) \<le> length L
     \<and> alive (rd_ops d) \<and> length hs = Suc (length drafts) \<and> length ds = Suc (length drafts)
     \<and> (is_greedy (rd_sampler d) \<longrightarrow> greedy_rows L (x # drafts) ds)
     \<and> (case p of None \<Rightarrow> \<not> hybrid (rd_ops d) | Some sn \<Rightarrow> hybrid (rd_ops d) \<and> snap sn (L @ [x]))"

lemma fed_low:
  assumes "fed E holds low ids L o1 o2" "\<not> op_window_would_trim (en_ops E) (length ids + n) o1" "holds o1 L"
  shows "low o2 = low o1" "low o2 \<le> length L" "\<not> op_window_would_trim (en_ops E) n o2"
  using assms low_le by (auto simp: fed_def)

lemma verify_sound:
  assumes sp: "speculating base L x d" and h: "holds (rd_ops d) L" and al: "alive (rd_ops d)"
    and win: "\<not> op_window_would_trim (en_ops E) (Suc (length drafts)) (rd_ops d)" and ne: "drafts \<noteq> []"
    and res: "verify E x drafts (length L) d = (r, d')"
  shows "case r of Inl e \<Rightarrow> outcome E holds succ base (Inl e, d')
    | Inr (Done end) \<Rightarrow> outcome E holds succ base (Inr end, d')
    | Inr (Ready hs ds p) \<Rightarrow> verified_at L x drafts d' hs ds p
        \<and> rd_frontier d' = rd_frontier d \<and> rd_committed_len d' = rd_committed_len d"
proof -
  have sp': "speculating base L x (d\<lparr> rd_ops := o2 \<rparr>)" for o2
    using sp by (simp add: speculating_def)
  have fin: "case r of Inl e \<Rightarrow> outcome E holds succ base (Inl e, d')
    | Inr (Done end) \<Rightarrow> outcome E holds succ base (Inr end, d')
    | Inr (Ready hs ds p) \<Rightarrow> Q hs ds p"
    if "map_done v = (r, d')" "outcome E holds succ base v" for v Q
    using that by (cases v) (auto simp: map_done_def split: sum.splits)
  show ?thesis
  proof (cases "hybrid (rd_ops d)")
    case False
    obtain v o2 where v: "op_verify_feed (en_ops E) (x # drafts) (rd_sampler d) (rd_ops d) = (v, o2)"
      by (cases "op_verify_feed (en_ops E) (x # drafts) (rd_sampler d) (rd_ops d)")
    show ?thesis
    proof (cases v)
      case (Inl e)
      show ?thesis
      proof (cases "\<exists>er sv. e = Host er sv")
        case True
        then obtain er sv where e: "e = Host er sv" by blast
        note f = verify_Host [OF h _ v [unfolded Inl e], simplified]
        note fd = fedD [OF f [THEN conjunct1]]
        note lo = fed_low [OF f [THEN conjunct1] _ h, of 0]
        have "map_done (verify_host_recovery E er sv None (length L) (d\<lparr> rd_ops := o2 \<rparr>)) = (r, d')"
          using res False v Inl e by (simp add: verify_def on_ops_def)
        then show ?thesis
        proof (rule fin)
          show "outcome E holds succ base (verify_host_recovery E er sv None (length L) (d\<lparr> rd_ops := o2 \<rparr>))"
            using verify_host_recovery_outcome [OF sp', of o2 drafts None sv er] fd lo win f False
            by (cases "verify_host_recovery E er sv None (length L) (d\<lparr> rd_ops := o2 \<rparr>)") auto
        qed
      next
        case nh: False
        then have "r = Inl (Error (into_error e)) \<and> d' = d\<lparr> rd_ops := o2 \<rparr>"
          using res False v Inl by (cases e) (auto simp: verify_def on_ops_def)
        then show ?thesis using feed_errors(1) [OF v [unfolded Inl]] nh by simp
      qed
    next
      case (Inr q)
      obtain hs ds where q: "q = (hs, ds)" by (cases q)
      note f = verify_Inr [OF h _ v [unfolded Inr q], simplified]
      note fd = fedD [OF f [THEN conjunct1]]
      have "verified_at L x drafts (d\<lparr> rd_ops := o2 \<rparr>) hs ds None"
        using f fd al False win fed_low(2) [OF f [THEN conjunct1] _ h, of 0]
        by (auto simp: verified_at_def greedy_rows_def)
      moreover have "r = Inr (Ready hs ds None)" "d' = d\<lparr> rd_ops := o2 \<rparr>"
        using res False v Inr q by (auto simp: verify_def on_ops_def)
      ultimately show ?thesis by simp
    qed
  next
    case hyb: True
    obtain v o2 where v: "op_verify_feed (en_ops E) [x] (rd_sampler d) (rd_ops d) = (v, o2)"
      by (cases "op_verify_feed (en_ops E) [x] (rd_sampler d) (rd_ops d)")
    let ?d1 = "d\<lparr> rd_ops := o2 \<rparr>"
    show ?thesis
    proof (cases v)
      case (Inl e)
      show ?thesis
      proof (cases "\<exists>er sv. e = Host er sv")
        case True
        then obtain er sv where e: "e = Host er sv" by blast
        note f = verify_Host [OF h _ v [unfolded Inl e], simplified]
        note fd = fedD [OF f [THEN conjunct1]]
        note lo = fed_low [OF f [THEN conjunct1] _ h, of "length drafts"]
        have "map_done (verify_host_recovery E er sv None (length L) ?d1) = (r, d')"
          using res hyb v Inl e by (simp add: verify_def on_ops_def)
        then show ?thesis
        proof (rule fin)
          show "outcome E holds succ base (verify_host_recovery E er sv None (length L) ?d1)"
            using verify_host_recovery_outcome [OF sp', of o2 "[]" None sv er] fd lo win f
            by (cases "verify_host_recovery E er sv None (length L) ?d1") auto
        qed
      next
        case nh: False
        then have "r = Inl (Error (into_error e)) \<and> d' = ?d1"
          using res hyb v Inl by (cases e) (auto simp: verify_def on_ops_def)
        then show ?thesis using feed_errors(1) [OF v [unfolded Inl]] nh by simp
      qed
    next
      case (Inr q)
      obtain h0 d0 where q: "q = (h0, d0)" by (cases q)
      note f1 = verify_Inr [OF h _ v [unfolded Inr q], simplified]
      note fd1 = fedD [OF f1 [THEN conjunct1]]
      note lo1 = fed_low [OF f1 [THEN conjunct1] _ h, of "length drafts"]
      have h1: "holds o2 (L @ [x])" using fd1 by simp
      let ?px = "op_capture (en_ops E) o2"
      note sx = capture_law [OF h1]
      obtain w o3 where w: "op_verify_feed (en_ops E) drafts (rd_sampler d) o2 = (w, o3)"
        by (cases "op_verify_feed (en_ops E) drafts (rd_sampler d) o2")
      let ?d2 = "d\<lparr> rd_ops := o3 \<rparr>"
      show ?thesis
      proof (cases w)
        case (Inl e)
        show ?thesis
        proof (cases "\<exists>er sv. e = Host er sv")
          case True
          then obtain er sv where e: "e = Host er sv" by blast
          note f2 = verify_Host [OF h1 ne w [unfolded Inl e]]
          note fd2 = fedD [OF f2 [THEN conjunct1]]
          have lo2: "low o3 \<le> length L"
            using fed_low(1) [OF f2 [THEN conjunct1] _ h1, of 0] lo1 win by simp
          have "map_done (verify_host_recovery E er d0 (Some ?px) (length L) ?d2) = (r, d')"
            using res hyb v Inr q w Inl e by (simp add: verify_def on_ops_def Let_def)
          then show ?thesis
          proof (rule fin)
            have "is_greedy (rd_sampler d) \<Longrightarrow> \<forall>di. first_of d0 = Some di \<longrightarrow> di = Greedy (succ (L @ [x]))"
              using f1 first_row [of L "[x]" d0] by (auto simp: greedy_rows_def)
            then show "outcome E holds succ base (verify_host_recovery E er d0 (Some ?px) (length L) ?d2)"
              using verify_host_recovery_outcome [OF sp', of o3 drafts "Some ?px" d0 er] fd2 lo2 sx
              by (cases "verify_host_recovery E er d0 (Some ?px) (length L) ?d2") auto
          qed
        next
          case nh: False
          then have "r = Inl (Error (into_error e)) \<and> d' = ?d2"
            using res hyb v Inr q w Inl by (cases e) (auto simp: verify_def on_ops_def Let_def)
          then show ?thesis using feed_errors(1) [OF w [unfolded Inl]] nh by simp
        qed
      next
        case inr2: (Inr q2)
        obtain hr dr where q2: "q2 = (hr, dr)" by (cases q2)
        note f2 = verify_Inr [OF h1 ne w [unfolded inr2 q2]]
        note fd2 = fedD [OF f2 [THEN conjunct1]]
        have lo2: "low o3 \<le> length L"
          using fed_low(1) [OF f2 [THEN conjunct1] _ h1, of 0] lo1 win by simp
        have "greedy_rows L (x # drafts) (d0 @ dr)" if "is_greedy (rd_sampler d)"
          using greedy_rows_append [of L "[x]" d0 drafts dr] f1 f2 that by (simp add: greedy_rows_def)
        then have "verified_at L x drafts ?d2 (h0 @ hr) (d0 @ dr) (Some ?px)"
          using f1 fd1 f2 fd2 al hyb lo2 sx by (auto simp: verified_at_def)
        moreover have "r = Inr (Ready (h0 @ hr) (d0 @ dr) (Some ?px))" "d' = ?d2"
          using res hyb v Inr q w inr2 q2 by (auto simp: verify_def on_ops_def Let_def)
        ultimately show ?thesis by simp
      qed
    qed
  qed
qed

end

end
