(* ===== verification/Round_Ledger.thy ===== *)
theory Round_Ledger
  imports Round_Speculation
begin

text \<open>The decision, the reconciliation to the retained prefix, and the whole round.\<close>

section \<open>The decision\<close>

lemma emit_drafts_all: "emit_drafts E ds n d = ((q, ev), d') \<Longrightarrow> ev = SpecNone \<Longrightarrow> q = n + length ds"
  by (induction E ds n d arbitrary: q ev d' rule: emit_drafts.induct)
    (auto split: prod.splits sum.splits emit_outcome.splits option.splits if_splits)

lemma verify_greedy_sound:
  assumes "verify_greedy drafts ts = Inr v"
  shows "length ts = Suc (length drafts)" "sv_accepted v \<le> length drafts" "sv_next v = ts ! sv_accepted v"
    "\<forall>i < sv_accepted v. drafts ! i = ts ! i"
proof -
  have len: "length ts = length drafts + 1"
    using assms by (auto simp: verify_greedy_def split: if_splits)
  define f where "f = find (\<lambda>i. drafts ! i \<noteq> ts ! i) [0..<length drafts]"
  show "length ts = Suc (length drafts)" using len by simp
  have "sv_accepted v \<le> length drafts \<and> sv_next v = ts ! sv_accepted v \<and> (\<forall>i < sv_accepted v. drafts ! i = ts ! i)"
  proof (cases f)
    case None
    then have "\<forall>i < length drafts. drafts ! i = ts ! i" unfolding f_def by (auto simp: find_None_iff)
    then show ?thesis using assms None len by (auto simp: verify_greedy_def f_def)
  next
    case (Some i)
    then have "i < length drafts \<and> (\<forall>j < i. drafts ! j = ts ! j)" unfolding f_def by (auto simp: find_Some_iff)
    then show ?thesis using assms Some len by (auto simp: verify_greedy_def f_def)
  qed
  then show "sv_accepted v \<le> length drafts" "sv_next v = ts ! sv_accepted v"
    "\<forall>i < sv_accepted v. drafts ! i = ts ! i" by blast+
qed

lemma verify_loop_accepted:
  "verify_loop gen i ds qs ps g = (Inr v, g') \<Longrightarrow> av_accepted v \<le> i + length ds"
  by (induction gen i ds qs ps g rule: verify_loop.induct) (auto simp: Let_def split: if_splits prod.splits)

lemma greedy_tokens_nth:
  "greedy_tokens ds = Some ts \<Longrightarrow> length ts = length ds \<and> (\<forall>i < length ds. ds ! i = Greedy (ts ! i))"
  by (induction ds arbitrary: ts rule: greedy_tokens.induct) (auto simp: nth_Cons split: nat.split)

lemma decide_frame:
  assumes "decide E drafts qs ds d = (v, d')"
  shows "same_target d (d'\<lparr> rd_sampler := rd_sampler d \<rparr>)" "is_greedy (rd_sampler d') = is_greedy (rd_sampler d)"
    "v = Some vd \<Longrightarrow> vd_accepted vd \<le> length drafts"
proof -
  show "same_target d (d'\<lparr> rd_sampler := rd_sampler d \<rparr>)"
    using assms by (auto simp: decide_def same_target_def split: if_splits option.splits sum.splits prod.splits)
  show "is_greedy (rd_sampler d') = is_greedy (rd_sampler d)"
    using core_eqD(4) [OF decide_core [OF assms]] by (simp add: is_greedy_def)
  show "vd_accepted vd \<le> length drafts" if "v = Some vd"
    using assms that verify_greedy_sound(2)
    by (fastforce simp: decide_def verify_accept_trusted_def verify_accept_inner_def dest!: verify_loop_accepted
        split: if_splits option.splits sum.splits prod.splits)
qed

context round_contract
begin

lemma decide_greedy:
  assumes "decide E drafts qs ds d = (Some v, d')" "is_greedy (rd_sampler d)" "greedy_rows L (x # drafts) ds"
  shows "vd_successor v = Greedy (succ (L @ x # take (vd_accepted v) drafts))"
    "\<forall>i < vd_accepted v. drafts ! i = succ (L @ x # take i drafts)"
proof -
  obtain ts sv where ts: "greedy_tokens ds = Some ts" "verify_greedy drafts ts = Inr sv"
    and v: "v = \<lparr> vd_accepted = sv_accepted sv, vd_successor = Greedy (sv_next sv) \<rparr>"
    using assms(1,2) by (auto simp: decide_def split: option.splits sum.splits)
  note g = verify_greedy_sound [OF ts(2)]
  have t: "ts ! i = succ (L @ x # take i drafts)" if "i \<le> length drafts" for i
    using greedy_tokens_nth [OF ts(1)] assms(3) that g(1) by (simp add: greedy_rows_def)
  show "vd_successor v = Greedy (succ (L @ x # take (vd_accepted v) drafts))"
    using g(2,3) t by (simp add: v)
  show "\<forall>i < vd_accepted v. drafts ! i = succ (L @ x # take i drafts)"
    using g(2,4) t by (auto simp: v)
qed


section \<open>Reconciliation\<close>

lemma commit_rows_ok:
  "r < length hs \<Longrightarrow> commit_rows msg front hs r = Inr (Committed (hs ! r) (front @ take r hs))"
  by (simp add: commit_rows_def row_def)

text \<open>The context of a round whose verification succeeded.\<close>

definition ctx_ok :: "token_id list \<Rightarrow> token_id \<Rightarrow> ('h, 's) spec_ctx \<Rightarrow> bool" where
  "ctx_ok L x ctx \<longleftrightarrow> cx_entry_pos ctx = length L \<and> Suc (cx_entry_pairs ctx) = length L
     \<and> snap (cx_entry_snap ctx) L \<and> cx_k ctx = length (cx_drafts ctx)"

lemma reconcile_sound:
  assumes v: "verified_at L x (cx_drafts ctx) d (cx_hiddens ctx) ds (cx_post_x ctx)" and cx: "ctx_ok L x ctx"
    and r: "r \<le> length (cx_drafts ctx)" and res: "reconcile E ctx r d = (q, d')"
  shows "\<exists>o2. d' = d\<lparr> rd_ops := o2 \<rparr> \<and>
    (case q of Inl (Error e) \<Rightarrow> failed_forward E o2 | Inl Panic \<Rightarrow> False
     | Inr c \<Rightarrow> holds o2 (L @ x # take r (cx_drafts ctx)) \<and> alive o2
         \<and> (\<forall>fh prevs. c = Committed fh prevs \<longrightarrow> length prevs = Suc r))"
proof -
  let ?ds = "cx_drafts ctx"
  have h: "holds (rd_ops d) (L @ x # ?ds)" and lo: "low (rd_ops d) \<le> length L" and al: "alive (rd_ops d)"
    and hs: "length (cx_hiddens ctx) = Suc (length ?ds)" using v by (simp_all add: verified_at_def)
  have pos: "cx_entry_pos ctx = length L" "cx_k ctx = length ?ds" using cx by (simp_all add: ctx_ok_def)
  show ?thesis
  proof (cases "hybrid (rd_ops d)")
    case False
    from truncate_ok [OF h, of "length L + 1 + r"] lo r False obtain o2 where
      o2: "truncate_or_exit E (length L + 1 + r) d = (Inr (), d\<lparr> rd_ops := o2 \<rparr>)"
        "holds o2 (L @ x # take r ?ds)" "mtp_same E (rd_ops d) o2" by auto
    then show ?thesis using res False pos al hs r commit_rows_ok [of r "cx_hiddens ctx"]
      by (auto simp: reconcile_def Let_def mtp_same_def)
  next
    case hyb: True
    then obtain px where px: "cx_post_x ctx = Some px" "snap px (L @ [x])"
      using v by (auto simp: verified_at_def split: option.splits)
    show ?thesis
    proof (cases "r = length ?ds")
      case True
      then show ?thesis using res hyb pos al hs h commit_rows_ok [of r "cx_hiddens ctx"]
        by (auto simp: reconcile_def Let_def intro!: exI [of _ "rd_ops d"])
    next
      case rk: False
      have "\<exists>o2. restore_then_truncate E (Some px) (length (L @ [x])) d = (Inr (), d\<lparr> rd_ops := o2 \<rparr>)
        \<and> holds o2 (L @ [x]) \<and> mtp_same E (rd_ops d) o2"
        by (rule cut_back [of _ _ ?ds]) (use h lo px in auto)
      then obtain o2 where o2: "restore_then_truncate E (Some px) (length L + 1) d = (Inr (), d\<lparr> rd_ops := o2 \<rparr>)"
        "holds o2 (L @ [x])" "mtp_same E (rd_ops d) o2" by auto
      then have al2: "alive o2" using al by (simp add: mtp_same_def)
      show ?thesis
      proof (cases "r = 0")
        case True
        then show ?thesis using res hyb rk pos px o2 al2 hs commit_rows_ok [of 0 "cx_hiddens ctx"]
          by (auto simp: reconcile_def Let_def)
      next
        case r0: False
        have ne: "take r ?ds \<noteq> []" using r0 r by auto
        obtain w o3 where w: "op_replay_feed (en_ops E) (take r ?ds) False (rd_sampler d) o2 = (w, o3)"
          by (cases "op_replay_feed (en_ops E) (take r ?ds) False (rd_sampler d) o2")
        show ?thesis
        proof (cases w)
          case (Inl e)
          show ?thesis
          proof (cases "\<exists>er sv. e = Host er sv")
            case True
            then obtain er sv where e: "e = Host er sv" by blast
            note f = fedD [OF replay_Host [OF o2(2) ne w [unfolded Inl e], THEN conjunct1]]
            have "q = Inr DetachFailed" "d' = d\<lparr> rd_ops := o3 \<rparr>"
              using res hyb rk r0 pos px o2(1) w Inl e by (auto simp: reconcile_def Let_def on_ops_def)
            then show ?thesis using f al2 by (intro exI [of _ o3]) simp
          next
            case nh: False
            then have "q = Inl (Error (into_error e)) \<and> d' = d\<lparr> rd_ops := o3 \<rparr>"
              using res hyb rk r0 pos px o2(1) w Inl by (cases e) (auto simp: reconcile_def Let_def on_ops_def)
            then show ?thesis using feed_errors(2) [OF w [unfolded Inl]] nh by (intro exI [of _ o3]) simp
          qed
        next
          case (Inr p)
          obtain rh od where p: "p = (rh, od)" by (cases p)
          note f = replay_Inr [OF o2(2) ne w [unfolded Inr p]]
          note fd = fedD [OF f [THEN conjunct1]]
          have rl: "length rh = r" using f al2 r by simp
          have "q = Inr (Committed (rh ! (r - 1)) ([cx_frontier_entry ctx, cx_hiddens ctx ! 0] @ take (r - 1) rh))"
            "d' = d\<lparr> rd_ops := o3 \<rparr>"
            using res hyb rk r0 pos px o2(1) w Inr p hs rl commit_rows_ok [of "r - 1" rh]
            by (auto simp: reconcile_def Let_def on_ops_def row_def)
          then show ?thesis using fd al2 rl r0 by (intro exI [of _ o3]) simp
        qed
      qed
    qed
  qed
qed

lemma reconcile_and_commit_sound:
  assumes v: "verified_at L x (cx_drafts ctx) d (cx_hiddens ctx) ds (cx_post_x ctx)" and cx: "ctx_ok L x ctx"
    and r: "r \<le> length (cx_drafts ctx)" and res: "reconcile_and_commit E x ctx r d = (q, d')"
  shows "case q of Inl (Error e) \<Rightarrow> failed_forward E (rd_ops d') | Inl Panic \<Rightarrow> False
     | Inr _ \<Rightarrow> \<exists>o2 f2. d' = (commit_len (1 + r) d)\<lparr> rd_ops := o2, rd_frontier := f2 \<rparr>
         \<and> Good (L @ x # take r (cx_drafts ctx)) o2 f2"
proof -
  obtain w d1 where w: "reconcile E ctx r d = (w, d1)" by (cases "reconcile E ctx r d")
  from reconcile_sound [OF v cx r w] obtain o2 where o2: "d1 = d\<lparr> rd_ops := o2 \<rparr>"
    "case w of Inl (Error e) \<Rightarrow> failed_forward E o2 | Inl Panic \<Rightarrow> False
     | Inr c \<Rightarrow> holds o2 (L @ x # take r (cx_drafts ctx)) \<and> alive o2
         \<and> (\<forall>fh prevs. c = Committed fh prevs \<longrightarrow> length prevs = Suc r)" by blast
  let ?M = "L @ x # take r (cx_drafts ctx)"
  let ?d2 = "commit_len (1 + r) (d\<lparr> rd_ops := o2 \<rparr>)"
  have swap: "?d2\<lparr> rd_ops := o3, rd_frontier := f3 \<rparr> = (commit_len (1 + r) d)\<lparr> rd_ops := o3, rd_frontier := f3 \<rparr>"
    for o3 f3 by (simp add: commit_len_def)
  show ?thesis
  proof (cases w)
    case (Inl e)
    then show ?thesis using res w o2 by (auto simp: reconcile_and_commit_def split: exit.splits)
  next
    case (Inr c)
    then have h: "holds (rd_ops ?d2) ?M" and al: "alive (rd_ops ?d2)" using o2(2) by simp_all
    show ?thesis
    proof (cases c)
      case (Committed fh prevs)
      have "length prevs = length (x # take r (cx_drafts ctx))" using o2(2) Inr Committed r by simp
      from settle_recommit [OF h al this, of "Some fh" "Some (cx_entry_pairs ctx)"] cx r
      obtain o3 f3 where st: "settle_mtp E (Some fh) (mtp_recommit E (Some (cx_entry_pairs ctx)) (x # take r (cx_drafts ctx)) prevs ?d2)
          = ?d2\<lparr> rd_ops := o3, rd_frontier := f3 \<rparr>" "Good ?M o3 f3"
        by (auto simp: ctx_ok_def)
      have "q = Inr () \<and> d' = ?d2\<lparr> rd_ops := o3, rd_frontier := f3 \<rparr>"
        using res w Inr Committed o2(1) st(1) by (simp add: reconcile_and_commit_def)
      then show ?thesis using st(2) unfolding swap by auto
    next
      case DetachFailed
      from discard_good [OF h] obtain o3 where st: "discard_mtp E ?d2 = ?d2\<lparr> rd_ops := o3, rd_frontier := None \<rparr>" "Good ?M o3 None"
        by blast
      have "q = Inr () \<and> d' = ?d2\<lparr> rd_ops := o3, rd_frontier := None \<rparr>"
        using res w Inr DetachFailed o2(1) st(1) by (simp add: reconcile_and_commit_def)
      then show ?thesis using st(2) unfolding swap by auto
    qed
  qed
qed

lemma reconcile_and_discard_sound:
  assumes v: "verified_at L x (cx_drafts ctx) d (cx_hiddens ctx) ds (cx_post_x ctx)" and cx: "ctx_ok L x ctx"
    and r: "r \<le> length (cx_drafts ctx)" and res: "reconcile_and_discard E ctx r d = (q, d')"
  shows "case q of Inl (Error e) \<Rightarrow> failed_forward E (rd_ops d') | Inl Panic \<Rightarrow> False
     | Inr _ \<Rightarrow> \<exists>o2 f2. d' = (commit_len (1 + r) d)\<lparr> rd_ops := o2, rd_frontier := f2 \<rparr>
         \<and> Good (L @ x # take r (cx_drafts ctx)) o2 f2"
proof -
  obtain w d1 where w: "reconcile E ctx r d = (w, d1)" by (cases "reconcile E ctx r d")
  from reconcile_sound [OF v cx r w] obtain o2 where o2: "d1 = d\<lparr> rd_ops := o2 \<rparr>"
    "case w of Inl (Error e) \<Rightarrow> failed_forward E o2 | Inl Panic \<Rightarrow> False
     | Inr c \<Rightarrow> holds o2 (L @ x # take r (cx_drafts ctx)) \<and> alive o2
         \<and> (\<forall>fh prevs. c = Committed fh prevs \<longrightarrow> length prevs = Suc r)" by blast
  let ?M = "L @ x # take r (cx_drafts ctx)"
  let ?d2 = "commit_len (1 + r) (d\<lparr> rd_ops := o2 \<rparr>)"
  have swap: "?d2\<lparr> rd_ops := o3, rd_frontier := f3 \<rparr> = (commit_len (1 + r) d)\<lparr> rd_ops := o3, rd_frontier := f3 \<rparr>"
    for o3 f3 by (simp add: commit_len_def)
  show ?thesis
  proof (cases w)
    case (Inl e)
    then show ?thesis using res w o2 by (auto simp: reconcile_and_discard_def split: exit.splits)
  next
    case (Inr c)
    then have h: "holds (rd_ops ?d2) ?M" using o2(2) by simp
    from discard_good [OF h] obtain o3 where st: "discard_mtp E ?d2 = ?d2\<lparr> rd_ops := o3, rd_frontier := None \<rparr>" "Good ?M o3 None"
      by blast
    have "q = Inr () \<and> d' = ?d2\<lparr> rd_ops := o3, rd_frontier := None \<rparr>"
      using res w Inr o2(1) st(1) by (simp add: reconcile_and_discard_def)
    then show ?thesis using st(2) unfolding swap by auto
  qed
qed


section \<open>Ending a speculative round\<close>

text \<open>After \<open>x\<close> the first \<open>r\<close> drafts were emitted, and one token more if it stopped the reply.\<close>

definition kept ::
  "token_id list \<Rightarrow> token_id list \<Rightarrow> token_id \<Rightarrow> token_id list \<Rightarrow> nat \<Rightarrow> bool \<Rightarrow> ('o, 'h, 'g, 'c) driver \<Rightarrow> bool" where
  "kept base L x drafts r stopped d \<longleftrightarrow> r \<le> length drafts \<and> L = base @ take (rd_committed_len d) (emitted d)
     \<and> (\<exists>extra. emitted d = take (rd_committed_len d) (emitted d) @ x # take r drafts @ extra
          \<and> (\<not> stopped \<longrightarrow> extra = []))"

lemma keptD:
  assumes "kept base L x drafts r stopped d"
  defines "c \<equiv> rd_committed_len d"
  shows "c + 1 + r \<le> length (emitted d)" "base @ take (c + 1 + r) (emitted d) = L @ x # take r drafts"
    "\<not> stopped \<Longrightarrow> length (emitted d) = c + 1 + r"
    "\<not> stopped \<Longrightarrow> base @ emitted d = L @ x # take r drafts"
proof -
  obtain ex where ex: "emitted d = take c (emitted d) @ x # take r drafts @ ex" "\<not> stopped \<longrightarrow> ex = []"
    and r: "r \<le> length drafts" and L: "L = base @ take c (emitted d)"
    using assms by (auto simp: kept_def)
  from arg_cong [OF ex(1), of length] r have len: "length (take c (emitted d)) = c" "length (emitted d) = c + 1 + r + length ex"
    by (auto simp: min_def split: if_splits)
  then show "c + 1 + r \<le> length (emitted d)" "\<not> stopped \<Longrightarrow> length (emitted d) = c + 1 + r" using ex(2) by auto
  have "take (c + 1 + r) (take c (emitted d) @ x # take r drafts @ ex) = take c (emitted d) @ x # take r drafts"
    using len(1) r by (simp add: min_def)
  then have t: "take (c + 1 + r) (emitted d) = take c (emitted d) @ x # take r drafts" using ex(1) by simp
  show "base @ take (c + 1 + r) (emitted d) = L @ x # take r drafts" unfolding t L by simp
  have "base @ emitted d = base @ (take c (emitted d) @ x # take r drafts @ ex)" using ex(1) by simp
  then show "base @ emitted d = L @ x # take r drafts" if "\<not> stopped" using ex(2) that unfolding L by simp
qed

lemma kept_aligned:
  assumes "kept base L x drafts r stopped d" "Good (L @ x # take r drafts) o2 f2"
  shows "aligned E holds base ((commit_len (1 + r) d)\<lparr> rd_ops := o2, rd_frontier := f2 \<rparr>)"
    "\<not> stopped \<Longrightarrow> entered E holds base ((commit_len (1 + r) d)\<lparr> rd_ops := o2, rd_frontier := f2 \<rparr>)"
  using keptD [OF assms(1)] assms(2) by (simp_all add: aligned_def entered_def)

lemma forced_close_at_draft_outcome:
  assumes v: "verified_at L x (cx_drafts ctx) d (cx_hiddens ctx) (cx_dists ctx) (cx_post_x ctx)" and cx: "ctx_ok L x ctx"
    and k: "kept base L x (cx_drafts ctx) r False d" and fr: "rd_frontier d \<noteq> None"
    and res: "forced_close_at_draft E x ctx r m d = (res, d')"
  shows "outcome E holds succ base (res, d')"
proof -
  let ?M = "L @ x # take r (cx_drafts ctx)"
  have r: "r \<le> length (cx_drafts ctx)" and L: "L = base @ take (rd_committed_len d) (emitted d)"
    using k by (simp_all add: kept_def)
  show ?thesis
  proof (cases "encode_close (en_tokenizer E) m")
    case (Inl e)
    obtain w d1 where w: "reconcile_and_discard E ctx r d = (w, d1)" by (cases "reconcile_and_discard E ctx r d")
    note s = reconcile_and_discard_sound [OF v cx r w]
    have "(res, d') = (case w of Inl e' \<Rightarrow> Inl e' | Inr _ \<Rightarrow> Inl (Error e), d1)"
      using res Inl w by (auto simp: forced_close_at_draft_def split: sum.splits)
    then show ?thesis using s kept_aligned(1) [OF k] by (auto split: sum.splits exit.splits)
  next
    case (Inr ids)
    show ?thesis
    proof (cases "ids = []")
      case True
      obtain w d1 where w: "reconcile_and_commit E x ctx r d = (w, d1)" by (cases "reconcile_and_commit E x ctx r d")
      note s = reconcile_and_commit_sound [OF v cx r w]
      let ?di = "if r < length (cx_dists ctx) then Some (cx_dists ctx ! r) else None"
      show ?thesis
      proof (cases w)
        case (Inl e)
        then show ?thesis using s res Inr True w by (cases e) (auto simp: forced_close_at_draft_def)
      next
        case inr: (Inr u)
        then obtain o2 f2 where d1: "d1 = (commit_len (1 + r) d)\<lparr> rd_ops := o2, rd_frontier := f2 \<rparr>"
          "Good ?M o2 f2" using s by auto
        have ent: "entered E holds base d1" using kept_aligned(2) [OF k d1(2)] by (simp add: d1(1))
        have "\<forall>y. ?di = Some y \<longrightarrow> y = Greedy (succ (base @ emitted d1))" if "is_greedy (rd_sampler d1)"
          using v that r keptD(4) [OF k] by (auto simp: verified_at_def greedy_rows_def d1(1))
        moreover have "(res, d') = (if rd_used d1 \<ge> rd_max_tokens d1 then (Inr Budget, d1)
            else continue_from E (internal ''missing verify row dist at close trigger'') ?di d1)"
          using res Inr True w inr by (auto simp: forced_close_at_draft_def)
        ultimately show ?thesis
          using ent continue_from_outcome [OF _ ent, of "internal ''missing verify row dist at close trigger''" ?di res d' succ]
          by (auto simp: entered_aligned split: if_splits)
      qed
    next
      case False
      obtain cl d1 where cl: "emit_close_prefix E ids d = (cl, d1)" by (cases "emit_close_prefix E ids d")
      note f = emit_close_prefix_frame [OF cl]
      have h: "holds (rd_ops d1) (L @ x # cx_drafts ctx)" and lo: "low (rd_ops d1) \<le> length L"
        and al: "alive (rd_ops d1)" using v f(1) by (simp_all add: verified_at_def same_target_def)
      from restore_ok [OF _ h lo] cx obtain o2 where o2: "restore_or_exit E (cx_entry_snap ctx) d1 = (Inr (), d1\<lparr> rd_ops := o2 \<rparr>)"
        "holds o2 L" "mtp_same E (rd_ops d1) o2" by (auto simp: ctx_ok_def)
      have "replaying base ((x # take r (cx_drafts ctx)) @ take (cp_accepted cl) ids) (cp_cancelled cl)
          (cx_entry_pairs ctx) (d1\<lparr> rd_ops := o2 \<rparr>)"
      proof (rule replaying_intro [of "d\<lparr> rd_ops := o2 \<rparr>"])
        show "same_target (d\<lparr> rd_ops := o2 \<rparr>) (d1\<lparr> rd_ops := o2 \<rparr>)" using f(1) by (simp add: same_target_def)
        show "alive (rd_ops (d\<lparr> rd_ops := o2 \<rparr>)) \<longleftrightarrow> rd_frontier (d\<lparr> rd_ops := o2 \<rparr>) \<noteq> None"
          using al o2(3) fr by (simp add: mtp_same_def)
        show "alive (rd_ops (d\<lparr> rd_ops := o2 \<rparr>)) \<longrightarrow> Suc (cx_entry_pairs ctx)
            = length (base @ take (rd_committed_len (d\<lparr> rd_ops := o2 \<rparr>)) (emitted (d\<lparr> rd_ops := o2 \<rparr>)))"
          using cx by (simp add: ctx_ok_def L)
        show "emitted (d\<lparr> rd_ops := o2 \<rparr>) = take (rd_committed_len (d\<lparr> rd_ops := o2 \<rparr>)) (emitted (d\<lparr> rd_ops := o2 \<rparr>))
            @ (x # take r (cx_drafts ctx))" using k by (simp add: kept_def)
      qed (use o2(2) f(2) in \<open>simp_all add: L\<close>)
      then show ?thesis using res Inr False cl o2(1) close_replay_outcome
        by (simp add: forced_close_at_draft_def)
    qed
  qed
qed

lemma finish_round_outcome:
  assumes v: "verified_at L x (cx_drafts ctx) d (cx_hiddens ctx) (cx_dists ctx) (cx_post_x ctx)" and cx: "ctx_ok L x ctx"
    and k: "kept base L x (cx_drafts ctx) r (ev \<in> {SpecEos, SpecCancel}) d" and fr: "rd_frontier d \<noteq> None"
    and su: "ev = SpecNone \<Longrightarrow> is_greedy (rd_sampler d) \<Longrightarrow> su = Greedy (succ (L @ x # take r (cx_drafts ctx)))"
    and res: "finish_round E x ctx r ev su d = (res, d')"
  shows "outcome E holds succ base (res, d')"
proof -
  have r: "r \<le> length (cx_drafts ctx)" using k by (simp add: kept_def)
  show ?thesis
  proof (cases "\<exists>m. ev = SpecClose m")
    case True
    then show ?thesis using res forced_close_at_draft_outcome [OF v cx _ fr] k
      by (auto simp: finish_round_def)
  next
    case nclose: False
    show ?thesis
    proof (cases "\<exists>e. ev = SpecEmitErr e")
      case True
      then obtain e where ev: "ev = SpecEmitErr e" by blast
      obtain w d1 where w: "reconcile_and_discard E ctx r d = (w, d1)" by (cases "reconcile_and_discard E ctx r d")
      note s = reconcile_and_discard_sound [OF v cx r w]
      have "(res, d') = (case w of Inl e' \<Rightarrow> Inl e' | Inr _ \<Rightarrow> Inl (Error e), d1)"
        using res ev w by (auto simp: finish_round_def split: sum.splits)
      then show ?thesis using s kept_aligned(1) [OF k] by (auto split: sum.splits exit.splits)
    next
      case nerr: False
      obtain w d1 where w: "reconcile_and_commit E x ctx r d = (w, d1)" by (cases "reconcile_and_commit E x ctx r d")
      note s = reconcile_and_commit_sound [OF v cx r w]
      show ?thesis
      proof (cases w)
        case (Inl e)
        then have "(res, d') = (Inl e, d1)" using res w nclose nerr
          by (cases ev) (auto simp: finish_round_def)
        then show ?thesis using s Inl by (cases e) auto
      next
        case (Inr u)
        then obtain o2 f2 where d1: "d1 = (commit_len (1 + r) d)\<lparr> rd_ops := o2, rd_frontier := f2 \<rparr>"
          "Good (L @ x # take r (cx_drafts ctx)) o2 f2" using s by auto
        have al: "aligned E holds base d1" using kept_aligned(1) [OF k d1(2)] by (simp add: d1(1))
        show ?thesis
        proof (cases "ev = SpecNone")
          case True
          then have ent: "entered E holds base d1" using kept_aligned(2) [OF k d1(2)] by (simp add: d1(1))
          have "continue_from E (internal ''unreachable spec event'') (Some su) d1 = (res, d')"
            using res w Inr True by (simp add: finish_round_def)
          from continue_from_outcome [OF this ent] show ?thesis
            using su [OF True] keptD(4) [OF k] True by (simp add: d1(1))
        next
          case False
          then show ?thesis using res w Inr nclose nerr al by (cases ev) (auto simp: finish_round_def)
        qed
      qed
    qed
  qed
qed


section \<open>The whole round\<close>

lemma invariant_err_recovery_outcome:
  assumes v: "verified_at L x drafts d hs ds p" and sp: "speculating base L x d" and np: "Suc n = length L"
    and res: "invariant_err_recovery E x (length L) n fe p hs ds d = (res, d')"
  shows "outcome E holds succ base (res, d')"
proof -
  note sd = speculatingD [OF sp]
  have h: "holds (rd_ops d) (L @ x # drafts)" and lo: "low (rd_ops d) \<le> length L" and al: "alive (rd_ops d)"
    and ne: "hs \<noteq> []" using v by (auto simp: verified_at_def)
  have "\<exists>o2. restore_then_truncate E p (length (L @ [x])) d = (Inr (), d\<lparr> rd_ops := o2 \<rparr>) \<and> holds o2 (L @ [x])
    \<and> mtp_same E (rd_ops d) o2"
    by (rule cut_back [of _ _ drafts]) (use h lo v in \<open>auto simp: verified_at_def split: option.splits\<close>)
  then obtain o2 where o2: "restore_then_truncate E p (length L + 1) d = (Inr (), d\<lparr> rd_ops := o2 \<rparr>)" "holds o2 (L @ [x])"
    "mtp_same E (rd_ops d) o2" by auto
  let ?d1 = "commit_len 1 (d\<lparr> rd_ops := o2 \<rparr>)"
  obtain o3 f3 where st: "settle_mtp E (first_of hs) (mtp_recommit E (Some n) [x] [fe] ?d1)
      = ?d1\<lparr> rd_ops := o3, rd_frontier := f3 \<rparr>" "Good (L @ [x]) o3 f3"
    using settle_recommit [of ?d1 "L @ [x]" "[fe]" "[x]" "first_of hs" "Some n"] o2 al ne np
    by (cases hs) (auto simp: mtp_same_def)
  let ?d2 = "?d1\<lparr> rd_ops := o3, rd_frontier := f3 \<rparr>"
  have ent: "entered E holds base ?d2" using st(2) sd by (simp add: entered_def)
  have "continue_from E (internal ''missing verify row-0 dist'') (first_of ds) ?d2 = (res, d')"
    using res o2(1) st(1) by (simp add: invariant_err_recovery_def)
  from continue_from_outcome [OF this ent] show ?thesis
    using v first_row [of L "x # drafts" ds] sd by (simp add: verified_at_def)
qed

lemma after_drafts:
  assumes v: "verified_at L x drafts d2 hs ds p" and sp3: "speculating base L x d3"
    and vd: "decide E drafts qs ds d2 = (vd, d3)"
    and q: "emit_drafts E (take (vd_accepted vv) drafts) 0
      (d3\<lparr> rd_stats := record_round (vd_accepted vv) (rd_stats d3) \<rparr>) = ((q, ev), d5)"
    and Some: "vd = Some vv"
  shows "verified_at L x drafts d5 hs ds p" "kept base L x drafts q (ev \<in> {SpecEos, SpecCancel}) d5"
    "rd_frontier d5 = rd_frontier d2" "is_greedy (rd_sampler d5) = is_greedy (rd_sampler d2)"
proof -
  let ?d4 = "d3\<lparr> rd_stats := record_round (vd_accepted vv) (rd_stats d3) \<rparr>"
  let ?acc = "take (vd_accepted vv) drafts"
  note df = decide_frame(1,2) [OF vd, unfolded same_target_def, simplified]
  have v3: "verified_at L x drafts d3 hs ds p" using v df unfolding verified_at_def by (simp split: option.splits)
  have acc: "vd_accepted vv \<le> length drafts" using decide_frame(3) [OF vd] Some by blast
  from emit_drafts_frame [OF q] have st5: "same_target ?d4 d5"
    and pe: "part_emitted (ev \<in> {SpecEos, SpecCancel}) ?acc q (emitted ?d4) (emitted d5)" by auto
  have "q \<le> length ?acc" using pe by (simp add: part_emitted_def)
  then have q_le: "q \<le> vd_accepted vv" by simp
  then have tq: "take q ?acc = take q drafts" by (simp add: min_def)
  show "verified_at L x drafts d5 hs ds p"
    using v3 st5 unfolding verified_at_def same_target_def by (simp split: option.splits)
  show "rd_frontier d5 = rd_frontier d2" "is_greedy (rd_sampler d5) = is_greedy (rd_sampler d2)"
    using st5 df by (simp_all add: same_target_def)
  have c5: "rd_committed_len d5 = rd_committed_len d3" using st5 by (simp add: same_target_def)
  have em4: "emitted ?d4 = emitted d3" by (simp add: emitted_def)
  obtain ex where ex: "emitted d5 = emitted d3 @ take q drafts @ ex" "ev \<notin> {SpecEos, SpecCancel} \<longrightarrow> ex = []"
    using pe tq em4 by (auto simp: part_emitted_def)
  have t5: "take (rd_committed_len d3) (emitted d5) = take (rd_committed_len d3) (emitted d3)"
    using ex(1) speculatingD(1) [OF sp3] by simp
  have "emitted d5 = (take (rd_committed_len d3) (emitted d3) @ [x]) @ take q drafts @ ex"
    using ex(1) sp3 by (metis speculating_def)
  then show "kept base L x drafts q (ev \<in> {SpecEos, SpecCancel}) d5"
    using ex(2) sp3 q_le acc t5 by (auto simp: kept_def c5 speculating_def)
qed

lemma speculative_round_outcome:
  assumes aw: "awaiting base x d" and mode: "mode_ok base Commit d" and al: "alive (rd_ops d)"
    and k: "0 < k" and win: "\<not> op_window_would_trim (en_ops E) (k + 1) (rd_ops d)"
    and res: "speculative_round E x k d = (res, d')"
  shows "outcome E holds succ base (res, d')"
proof -
  define L where "L = base @ take (rd_committed_len d) (emitted d)"
  have h: "holds (rd_ops d) L" using aw by (simp add: awaiting_def L_def)
  have sp: "speculating base L x d" using aw by (simp add: awaiting_def speculating_def L_def)
  have np: "Suc (pairs (rd_ops d)) = length L" using mode al by (simp add: mode_ok_def Let_def L_def)
  obtain fe where fe: "rd_frontier d = Some fe" using aw al by (auto simp: awaiting_def)
  obtain r d1 where r: "draft E x k fe d = (r, d1)" by (cases "draft E x k fe d")
  from draft_loop_frame [OF r [unfolded draft_def] h]
  have h1: "holds (rd_ops d1) L" and dr: "drafting d d1"
    and lens: "\<And>ds qs. r = Drafted ds qs \<Longrightarrow> length ds = k \<and> length qs = k" by auto
  note f1 = dr [unfolded drafting_def]
  have em1: "emitted d1 = emitted d" using f1 by (auto simp: emitted_def dest: core_eqD)
  have pos: "op_target_pos (en_ops E) (rd_ops d) = length L" using pos_law [OF h] .
  have sp1: "speculating base L x d1" using sp f1 speculating_frame by blast
  show ?thesis
  proof (cases r)
    case Discard
    have na: "\<not> alive (op_mtp_discard (en_ops E) (rd_ops d1))" "holds (op_mtp_discard (en_ops E) (rd_ops d1)) L"
      using discard_law [OF h1] by simp_all
    have "awaiting base x (discard_mtp E d1)" using aw na f1 em1
      unfolding awaiting_def by (simp add: L_def) (simp add: discard_mtp_def)
    moreover have "mode_ok base Dead (discard_mtp E d1)" using na by (simp add: mode_ok_def discard_mtp_def)
    moreover have "feed_x_target_only E x Dead True (discard_mtp E d1) = (res, d')"
      using res fe r Discard by (simp add: speculative_round_def Let_def)
    ultimately show ?thesis by (rule feed_x_outcome)
  next
    case Resume
    have "awaiting base x d1" using aw h1 f1 em1 by (simp add: awaiting_def L_def)
    moreover have "mode_ok base (ResumeAt (pairs (rd_ops d))) d1" using np f1 em1 by (simp add: mode_ok_def Let_def L_def)
    moreover have "feed_x_target_only E x (ResumeAt (pairs (rd_ops d))) True d1 = (res, d')"
      using res fe r Resume by (simp add: speculative_round_def Let_def)
    ultimately show ?thesis by (rule feed_x_outcome)
  next
    case (Drafted drafts qs)
    note len = lens [OF Drafted]
    obtain w d2 where w: "verify E x drafts (length L) d1 = (w, d2)" by (cases "verify E x drafts (length L) d1")
    have win1: "\<not> op_window_would_trim (en_ops E) (Suc (length drafts)) (rd_ops d1)"
      using win len f1 by (simp add: target_same_def)
    have "drafts \<noteq> []" using len k by auto
    note vs = verify_sound [OF sp1 h1 _ win1 this w]
    have al1: "alive (rd_ops d1)" using al f1 by simp
    note core2 = verify_core [OF w]
    show ?thesis
    proof (cases w)
      case (Inl e)
      then have "res = Inl e \<and> d' = d2" using res fe r Drafted w pos by (simp add: speculative_round_def Let_def)
      then show ?thesis using vs [OF al1] Inl by simp
    next
      case (Inr wr)
      show ?thesis
      proof (cases wr)
        case (Done re)
        then have "res = Inr re \<and> d' = d2" using res fe r Drafted w Inr pos by (simp add: speculative_round_def Let_def)
        then show ?thesis using vs [OF al1] Inr Done by simp
      next
        case (Ready hs ds p)
        from vs [OF al1] Inr Ready have v: "verified_at L x drafts d2 hs ds p"
          and d2: "rd_frontier d2 = rd_frontier d1" "rd_committed_len d2 = rd_committed_len d1" by simp_all
        have sp2: "speculating base L x d2" using sp1 d2(2) core2 speculating_frame by blast
        obtain vd d3 where vd: "decide E drafts qs ds d2 = (vd, d3)" by (cases "decide E drafts qs ds d2")
        note df = decide_frame(1,2) [OF vd, unfolded same_target_def, simplified]
        have v3: "verified_at L x drafts d3 hs ds p" using v df unfolding verified_at_def by (simp split: option.splits)
        have sp3: "speculating base L x d3" using sp2 df decide_core [OF vd] speculating_frame by blast
        show ?thesis
        proof (cases vd)
          case None
          then have "invariant_err_recovery E x (length L) (pairs (rd_ops d)) fe p hs ds d3 = (res, d')"
            using res fe r Drafted w Inr Ready vd pos by (simp add: speculative_round_def Let_def)
          from invariant_err_recovery_outcome [OF v3 sp3 np this] show ?thesis .
        next
          case (Some vv)
          let ?d4 = "d3\<lparr> rd_stats := record_round (vd_accepted vv) (rd_stats d3) \<rparr>"
          let ?acc = "take (vd_accepted vv) drafts"
          have acc: "vd_accepted vv \<le> length drafts" using decide_frame(3) [OF vd] Some by blast
          obtain q ev d5 where q: "emit_drafts E ?acc 0 ?d4 = ((q, ev), d5)"
            by (metis prod.exhaust)
          note ad = after_drafts [OF v sp3 vd q Some]
          let ?ctx = "\<lparr> cx_entry_pos = length L, cx_entry_pairs = pairs (rd_ops d),
            cx_entry_snap = op_capture (en_ops E) (rd_ops d), cx_frontier_entry = fe, cx_k = k, cx_drafts = drafts,
            cx_hiddens = hs, cx_dists = ds, cx_post_x = p \<rparr>"
          have cx: "ctx_ok L x ?ctx" using np capture_law [OF h] len by (simp add: ctx_ok_def)
          have fin: "finish_round E x ?ctx q ev (vd_successor vv) d5 = (res, d')"
            using res fe r Drafted w Inr Ready vd Some q pos by (simp add: speculative_round_def Let_def)
          show ?thesis
          proof (rule finish_round_outcome [OF _ cx _ _ _ fin])
            show "verified_at L x (cx_drafts ?ctx) d5 (cx_hiddens ?ctx) (cx_dists ?ctx) (cx_post_x ?ctx)" using ad(1) by simp
            show "kept base L x (cx_drafts ?ctx) q (ev \<in> {SpecEos, SpecCancel}) d5" using ad(2) by simp
            show "rd_frontier d5 \<noteq> None" using ad(3) d2(1) f1 fe by simp
            assume "ev = SpecNone" "is_greedy (rd_sampler d5)"
            moreover have "q = vd_accepted vv" if "ev = SpecNone"
              using emit_drafts_all [OF q that] acc by simp
            moreover have "is_greedy (rd_sampler d2)" if "is_greedy (rd_sampler d5)" using that ad(4) by simp
            ultimately show "vd_successor vv = Greedy (succ (L @ x # take q (cx_drafts ?ctx)))"
              using decide_greedy(1) [OF vd [unfolded Some]] v by (simp add: verified_at_def)
          qed
        qed
      qed
    qed
  qed
qed


lemma after_emission_outcome:
  assumes aw: "awaiting base x d" and mode: "mode_ok base Commit d" and k: "rd_spec_k d \<noteq> Some 0"
    and res: "after_emission E x d = (res, d')"
  shows "outcome E holds succ base (res, d')"
proof -
  have ord: "mode_ok base (ordinary_mode E d) d" using mode by (simp add: mode_ok_def ordinary_mode_def Let_def)
  show ?thesis
  proof (cases "rd_used d \<ge> rd_max_tokens d")
    case True
    then show ?thesis using res final_slot_outcome [OF aw mode] by (simp add: after_emission_def)
  next
    case False
    show ?thesis
    proof (cases "\<exists>n. spec_depth E d = Some n \<and> \<not> op_window_would_trim (en_ops E) (n + 1) (rd_ops d)")
      case True
      then obtain n where n: "spec_depth E d = Some n" "\<not> op_window_would_trim (en_ops E) (n + 1) (rd_ops d)" by blast
      then have "alive (rd_ops d)" "0 < n" using k False
        by (auto simp: spec_depth_def SPECULATIVE_TOKENS_CEILING_def split: option.splits if_splits)
      moreover have "speculative_round E x n d = (res, d')" using res False n by (simp add: after_emission_def)
      ultimately show ?thesis using speculative_round_outcome [OF aw mode _ _ n(2)] by blast
    next
      case nospec: False
      then have "feed_x_target_only E x (ordinary_mode E d) True d = (res, d')"
        using res False by (auto simp: after_emission_def split: option.splits)
      then show ?thesis by (rule feed_x_outcome [OF aw ord])
    qed
  qed
qed

lemma run_round_outcome:
  assumes en: "entered E holds base d" and k: "rd_spec_k d \<noteq> Some 0" and res: "run_round E x d = (res, d')"
  shows "outcome E holds succ base (res, d')"
proof -
  obtain v d1 where v: "emit_x E x d = (v, d1)" by (cases "emit_x E x d")
  note f = emit_x_frame [OF v, unfolded same_target_def]
  have c: "rd_committed_len d = length (emitted d)" and g: "Good (base @ emitted d) (rd_ops d) (rd_frontier d)"
    using en by (simp_all add: entered_def)
  have t: "take (length (emitted d)) (emitted d1) = emitted d" using f(2) by simp
  have al: "aligned E holds base d1" using f c g t by (simp add: aligned_def)
  show ?thesis
  proof (cases v)
    case (Inl e)
    then show ?thesis using res v al by (auto simp: run_round_def)
  next
    case (Inr r)
    show ?thesis
    proof (cases r)
      case (EmitContinue raw)
      obtain m d2 where m: "observe_budget raw d1 = (m, d2)" by (cases "observe_budget raw d1")
      note o = observe_budget_frame [OF m, unfolded same_target_def]
      have em: "emitted d2 = emitted d @ [x]" "rd_committed_len d2 = length (emitted d)" using f o Inr c by simp_all
      have aw: "awaiting base x d2" using em g f o by (simp add: awaiting_def good_def)
      have mode: "mode_ok base Commit d2" using em g f o by (simp add: mode_ok_def good_def)
      have k2: "rd_spec_k d2 \<noteq> Some 0" using k v m
        by (auto simp: emit_x_def observe_budget_def split: prod.splits sum.splits option.splits)
      show ?thesis
      proof (cases m)
        case None
        then show ?thesis using res v Inr EmitContinue m after_emission_outcome [OF aw mode k2]
          by (simp add: run_round_def)
      next
        case (Some mk)
        then show ?thesis using res v Inr EmitContinue m forced_close_at_x_outcome [OF aw mode]
          by (simp add: run_round_def)
      qed
    qed (use res v Inr al in \<open>auto simp: run_round_def\<close>)
  qed
qed

end

end
