(* ===== verification/Round_Greedy.thy ===== *)
theory Round_Greedy
  imports Round_Ledger
begin

text \<open>
  Greedy speculation is exact: under the contract, whatever the prediction module drafts and whichever
  host operations fail, a round emits what the plain loop emits and ends as the plain loop ends.
\<close>

section \<open>Runs of the plain loop\<close>

definition next_token :: "(token_id list \<Rightarrow> token_id) \<Rightarrow> token_id list \<Rightarrow> 'c core \<Rightarrow> token_id" where
  "next_token succ base s = succ (base @ te_emitted (co_emitter s))"

inductive plain_run ::
  "tokenizer \<Rightarrow> 'c callback \<Rightarrow> (token_id list \<Rightarrow> token_id) \<Rightarrow> token_id list
    \<Rightarrow> token_id \<Rightarrow> 'c core \<Rightarrow> round_end \<Rightarrow> 'c core \<Rightarrow> bool"
  for tk :: tokenizer and on_token :: "'c callback" and succ :: "token_id list \<Rightarrow> token_id" and base :: "token_id list"
where
  last_round: "plain_round tk on_token succ base x s = (Inr r, s') \<Longrightarrow> plain_run tk on_token succ base x s r s'"
| more_rounds: "plain_round tk on_token succ base x s = (Inr (Continue y), s1) \<Longrightarrow>
    plain_run tk on_token succ base y s1 r s' \<Longrightarrow> plain_run tk on_token succ base x s r s'"

inductive_cases plain_runE: "plain_run tk on_token succ base x s r s'"

definition settings :: "'c core \<Rightarrow> nat \<times> sampling_config \<times> nat option" where
  "settings s = (co_max s, co_config s, co_spec_k s)"

lemma after_token_Continue:
  "after_token succ base s = (Inr (Continue y), s') \<longleftrightarrow> s' = s \<and> co_used s < co_max s \<and> y = next_token succ base s"
  by (auto simp: after_token_def next_token_def)

lemma after_token_settings: "after_token succ base s = (r, s') \<Longrightarrow> settings s' = settings s \<and> co_used s' = co_used s"
  by (auto simp: after_token_def split: if_splits)

lemma armed_settings [simp]: "settings (armed m s) = settings s" "co_used (armed m s) = co_used s" "co_max (armed m s) = co_max s"
  "co_config (armed m s) = co_config s" "co_spec_k (armed m s) = co_spec_k s"
  by (simp_all add: armed_def settings_def)

lemma plain_close_settings:
  "plain_close tk cb succ base m s = (r, s') \<Longrightarrow> settings s' = settings s \<and> co_used s' = co_used s"
  by (auto simp: plain_close_def Let_def settings_def dest!: after_token_settings
      split: sum.splits list.splits prod.splits option.splits if_splits)

lemma observe_core_settings: "observe_core t s = (m, s') \<Longrightarrow> settings s' = settings s \<and> co_used s' = co_used s"
  by (auto simp: observe_core_def settings_def split: option.splits prod.splits)

lemma plain_round_settings:
  "plain_round tk cb succ base x s = (Inr r, s') \<Longrightarrow> settings s' = settings s \<and> co_used s' = Suc (co_used s)"
  by (auto simp: plain_round_def Let_def settings_def
      dest!: after_token_settings [unfolded settings_def] plain_close_settings [unfolded settings_def]
        observe_core_settings [unfolded settings_def]
      split: sum.splits emit_outcome.splits prod.splits option.splits)

lemma plain_close_Continue:
  "plain_close tk cb succ base m s = (Inr (Continue y), s') \<Longrightarrow> y = next_token succ base s' \<and> co_used s' < co_max s'"
  by (auto simp: plain_close_def Let_def after_token_Continue
      split: sum.splits list.splits prod.splits option.splits if_splits)

lemma plain_round_Continue:
  "plain_round tk cb succ base x s = (Inr (Continue y), s') \<Longrightarrow> y = next_token succ base s' \<and> co_used s' < co_max s'"
  by (auto simp: plain_round_def Let_def after_token_Continue dest!: plain_close_Continue
      split: sum.splits emit_outcome.splits prod.splits option.splits)

lemma plain_run_settings:
  "plain_run tk cb succ base x s r s' \<Longrightarrow> settings s' = settings s \<and> co_used s < co_used s'"
  by (induction rule: plain_run.induct) (auto dest!: plain_round_settings)

lemma plain_run_Continue:
  "plain_run tk cb succ base x s r s' \<Longrightarrow> r = Continue y \<Longrightarrow> y = next_token succ base s' \<and> co_used s' < co_max s'"
  by (induction rule: plain_run.induct) (auto dest: plain_round_Continue)


section \<open>The plain loop as a function\<close>

function plain_loop ::
  "tokenizer \<Rightarrow> 'c callback \<Rightarrow> (token_id list \<Rightarrow> token_id) \<Rightarrow> token_id list \<Rightarrow> token_id \<Rightarrow> 'c core
    \<Rightarrow> (exit + unit) \<times> 'c core" where
  "plain_loop tk cb succ base x s =
     (if co_used s < co_max s then
        (case plain_round tk cb succ base x s of
           (Inl e, s) \<Rightarrow> (Inl e, s)
         | (Inr (Continue y), s) \<Rightarrow> plain_loop tk cb succ base y s
         | (Inr _, s) \<Rightarrow> (Inr (), s))
      else (Inr (), s))"
  by pat_completeness auto
termination
  by (relation "measure (\<lambda>(tk, cb, succ, base, x, s). co_max s - co_used s)")
    (auto simp: settings_def dest!: sym [of "(_, _)" "plain_round _ _ _ _ _ _"] plain_round_settings)

declare plain_loop.simps [simp del]

lemma plain_run_loop:
  assumes "plain_run tk cb succ base x s r s'" "co_used s < co_max s"
  shows "plain_loop tk cb succ base x s
    = (case r of Continue y \<Rightarrow> plain_loop tk cb succ base y s' | _ \<Rightarrow> (Inr (), s'))"
  using assms
proof (induction rule: plain_run.induct)
  case (last_round x s r s')
  then show ?case by (subst plain_loop.simps) (auto split: round_end.split)
next
  case (more_rounds x s y s1 r s')
  note c = plain_round_Continue [OF more_rounds.hyps(1)]
  have "plain_loop tk cb succ base x s = plain_loop tk cb succ base y s1"
    using more_rounds.hyps(1) more_rounds.prems by (subst plain_loop.simps) simp
  then show ?case using more_rounds.IH c by simp
qed


section \<open>What each ending reports\<close>

lemma feed_x_result:
  "feed_x_target_only E x mode dr d = (Inr r, d') \<Longrightarrow> if dr then \<exists>t. r = Continue t else r = Budget"
  by (auto simp: feed_x_target_only_def Let_def dest!: continue_from_Inr
      split: if_splits prod.splits sum.splits op_error.splits)

lemma final_slot_result: "final_slot E x d = (Inr r, d') \<Longrightarrow> r = Budget"
  by (auto simp: final_slot_def Let_def split: prod.splits sum.splits op_error.splits)

lemma invariant_err_recovery_result:
  "invariant_err_recovery E x n m fe p hs ds d = (Inr r, d') \<Longrightarrow> \<exists>t. r = Continue t"
  by (auto simp: invariant_err_recovery_def dest!: continue_from_Inr split: prod.splits sum.splits)

lemma verify_host_recovery_result:
  "verify_host_recovery E e sv p n d = (Inr r, d') \<Longrightarrow> \<exists>t. r = Continue t"
  by (auto simp: verify_host_recovery_def dest!: continue_from_Inr split: prod.splits sum.splits)

lemma verify_Done: "verify E x ds n d = (Inr (Done r), d') \<Longrightarrow> \<exists>t. r = Continue t"
  by (auto simp: verify_def Let_def map_done_def dest!: verify_host_recovery_result
      split: if_splits prod.splits sum.splits op_error.splits)

lemma rejoined:
  assumes "core d' = core d" "rd_used d < rd_max_tokens d" "\<exists>t. r = Continue t"
    "outcome E holds succ base (Inr r, d')" "is_greedy (rd_sampler d)"
  shows "after_token succ base (core d) = (Inr r, core d')"
proof -
  have "is_greedy (rd_sampler d')" using core_eqD(4) [OF assms(1)] assms(5) by (simp add: is_greedy_def)
  then show ?thesis using assms core_eqD(1) [OF assms(1)]
    by (auto simp: after_token_Continue next_token_def emitted_def)
qed

lemma emit_plain:
  assumes "emit_x E x d = (Inr v, d1)"
  shows "v = EmitEos \<Longrightarrow> plain_round (en_tokenizer E) (en_on_token E) succ base x (core d) = (Inr Finished, core d1)"
    "v = EmitCancelled \<Longrightarrow> plain_round (en_tokenizer E) (en_on_token E) succ base x (core d) = (Inr Aborted, core d1)"
    "v = EmitContinue raw \<Longrightarrow> observe_budget raw d1 = (m, d2) \<Longrightarrow>
      plain_round (en_tokenizer E) (en_on_token E) succ base x (core d)
        = (case m of Some mk \<Rightarrow> plain_close (en_tokenizer E) (en_on_token E) succ base mk (core d2)
           | None \<Rightarrow> after_token succ base (core d2))"
proof -
  obtain em where em: "emit (en_tokenizer E) (en_on_token E) x (rd_emitter d) = (Inr v, em)"
    and c: "core d1 = (core d)\<lparr> co_emitter := em, co_used := co_used (core d) + 1 \<rparr>"
    using emit_x_core [OF assms] by auto
  show "v = EmitEos \<Longrightarrow> plain_round (en_tokenizer E) (en_on_token E) succ base x (core d) = (Inr Finished, core d1)"
    "v = EmitCancelled \<Longrightarrow> plain_round (en_tokenizer E) (en_on_token E) succ base x (core d) = (Inr Aborted, core d1)"
    using em by (simp_all add: plain_round_def c Let_def)
  show "v = EmitContinue raw \<Longrightarrow> observe_budget raw d1 = (m, d2) \<Longrightarrow>
      plain_round (en_tokenizer E) (en_on_token E) succ base x (core d)
        = (case m of Some mk \<Rightarrow> plain_close (en_tokenizer E) (en_on_token E) succ base mk (core d2)
           | None \<Rightarrow> after_token succ base (core d2))"
    using em observe_budget_core [of raw d1 m d2] by (simp add: plain_round_def c Let_def split: option.split)
qed

text \<open>The accepted drafts, emitted one by one, are rounds of the plain loop.\<close>

definition chain ::
  "tokenizer \<Rightarrow> 'c callback \<Rightarrow> (token_id list \<Rightarrow> token_id) \<Rightarrow> token_id list
    \<Rightarrow> token_id list \<Rightarrow> 'c core \<Rightarrow> spec_event \<Rightarrow> 'c core \<Rightarrow> bool" where
  "chain tk cb succ base ds s ev s' \<longleftrightarrow>
     (case ev of
        SpecNone \<Rightarrow> (if ds = [] then s' = s else plain_run tk cb succ base (hd ds) s (Continue (next_token succ base s')) s')
      | SpecEos \<Rightarrow> plain_run tk cb succ base (hd ds) s Finished s'
      | SpecCancel \<Rightarrow> plain_run tk cb succ base (hd ds) s Aborted s'
      | SpecSlot \<Rightarrow> plain_run tk cb succ base (hd ds) s Budget s'
      | SpecClose m \<Rightarrow> (\<forall>r s2. plain_close tk cb succ base m s' = (Inr r, s2) \<longrightarrow> plain_run tk cb succ base (hd ds) s r s2)
      | SpecEmitErr e \<Rightarrow> True)"

lemma chain_step:
  assumes "plain_round tk cb succ base i s = (Inr (Continue (next_token succ base s1)), s1)"
    and "chain tk cb succ base ds s1 ev s'" "ds \<noteq> [] \<Longrightarrow> hd ds = next_token succ base s1" "ds = [] \<Longrightarrow> ev = SpecNone"
  shows "chain tk cb succ base (i # ds) s ev s'"
proof (cases "ds = []")
  case True
  then show ?thesis using assms(1,2,4) by (auto simp: chain_def intro: last_round)
next
  case False
  then show ?thesis using assms(1,2,3) by (auto simp: chain_def intro: more_rounds split: spec_event.splits)
qed

lemma emit_drafts_chain:
  "emit_drafts E ds n d = ((q, ev), d') \<Longrightarrow> \<forall>i < length ds. ds ! i = succ (base @ emitted d @ take i ds) \<Longrightarrow>
    chain (en_tokenizer E) (en_on_token E) succ base ds (core d) ev (core d')"
proof (induction E ds n d arbitrary: q ev d' rule: emit_drafts.induct)
  case (1 E n d)
  then show ?case by (simp add: chain_def)
next
  case (2 E i ds n d)
  obtain v d1 where e: "emit_x E i d = (v, d1)" by (cases "emit_x E i d")
  show ?case
  proof (cases v)
    case (Inl er)
    then show ?thesis using "2.prems" e by (auto simp: chain_def)
  next
    case (Inr w)
    note pl = emit_plain [OF e [unfolded Inr]]
    show ?thesis
    proof (cases w)
      case (EmitContinue raw)
      obtain m d2 where ob: "observe_budget raw d1 = (m, d2)" by (cases "observe_budget raw d1")
      note p = pl(3) [OF EmitContinue ob, of succ base]
      show ?thesis
      proof (cases m)
        case (Some mk)
        then have "q = n + 1 \<and> ev = SpecClose mk \<and> d' = d2" using "2.prems"(1) e Inr EmitContinue ob by auto
        then show ?thesis using p Some by (auto simp: chain_def intro: last_round)
      next
        case None
        show ?thesis
        proof (cases "rd_used d2 \<ge> rd_max_tokens d2")
          case True
          then have "q = n + 1 \<and> ev = SpecSlot \<and> d' = d2" using "2.prems"(1) e Inr EmitContinue ob None by auto
          then show ?thesis using p None True by (auto simp: chain_def after_token_def intro: last_round)
        next
          case False
          have rest: "emit_drafts E ds (n + 1) d2 = ((q, ev), d')"
            using "2.prems"(1) e Inr EmitContinue ob None False by simp
          have em: "emitted d2 = emitted d @ [i]"
            using emit_x_frame(2) [OF e] observe_budget_frame(2) [OF ob] Inr by simp
          have nx: "\<forall>j < length ds. ds ! j = succ (base @ emitted d2 @ take j ds)"
            using "2.prems"(2) em by (auto dest: spec [of _ "Suc _"])
          have c: "chain (en_tokenizer E) (en_on_token E) succ base ds (core d2) ev (core d')"
            using "2.IH" [OF e [unfolded Inr EmitContinue, symmetric] refl refl ob [symmetric] None False rest nx] .
          have r: "plain_round (en_tokenizer E) (en_on_token E) succ base i (core d)
              = (Inr (Continue (next_token succ base (core d2))), core d2)"
            using p None False by (simp add: after_token_Continue)
          show ?thesis
          proof (rule chain_step [OF r c])
            show "hd ds = next_token succ base (core d2)" if "ds \<noteq> []"
              using nx that by (cases ds) (auto simp: next_token_def emitted_def)
            show "ev = SpecNone" if "ds = []" using rest that by simp
          qed
        qed
      qed
    qed (use "2.prems"(1) e Inr pl(1,2) in \<open>auto simp: chain_def intro: last_round\<close>)
  qed
qed

lemma finish_round_result:
  assumes "finish_round E x ctx n ev su d = (Inr r, d')" "\<forall>m. ev \<noteq> SpecClose m"
  shows "core d' = core d \<and> (case ev of SpecNone \<Rightarrow> \<exists>t. r = Continue t | SpecEos \<Rightarrow> r = Finished
    | SpecCancel \<Rightarrow> r = Aborted | SpecSlot \<Rightarrow> r = Budget | _ \<Rightarrow> False)"
  using assms
  by (auto simp: finish_round_def dest!: continue_from_Inr reconcile_and_commit_core
      split: spec_event.splits prod.splits sum.splits)

text \<open>A forced close that ends in a result ends as the plain loop's.\<close>

lemma forced_close_plain:
  assumes ids: "encode_close (en_tokenizer E) m = Inr ids" "ids \<noteq> []"
    and cl: "emit_close_prefix E ids d = (cl, d1)" and c2: "core d2 = core d1"
    and res: "close_replay E sq cl m n d2 = (Inr r, d')"
    and out: "outcome E holds succ base (Inr r, d')" and g: "is_greedy (rd_sampler d)"
  shows "plain_close (en_tokenizer E) (en_on_token E) succ base m (core d) = (Inr r, core d')"
proof -
  obtain em where em: "emit_close_loop (en_tokenizer E) (en_on_token E) ids 0 (rd_emitter d) = (cl, em)"
    and c1: "core d1 = (core d)\<lparr> co_emitter := em \<rparr>"
    using emit_close_prefix_core [OF cl] by blast
  obtain i is' where i: "ids = i # is'" using ids(2) by (cases ids) auto
  note cr = close_replay_core [OF res]
  have sel: "rd_used d2 = rd_used d" "rd_max_tokens d2 = rd_max_tokens d"
    using arg_cong [OF c2 [unfolded c1], of co_used] arg_cong [OF c2 [unfolded c1], of co_max] by simp_all
  have pc: "plain_close (en_tokenizer E) (en_on_token E) succ base m (core d)
    = (if cp_cancelled cl then (Inr Aborted, core d2)
       else if rd_used d \<ge> rd_max_tokens d then (Inr Budget, core d2)
       else after_token succ base (armed m (core d2)))"
    using ids em cr unfolding plain_close_def c2 c1 by (simp add: i Let_def del: emit_close_loop.simps)
  show ?thesis
  proof (cases "cp_cancelled cl \<or> rd_used d \<ge> rd_max_tokens d")
    case True
    then show ?thesis using pc cr sel by auto
  next
    case False
    then obtain t where t: "r = Continue t" and c': "core d' = armed m (core d2)" using cr sel by auto
    have "co_config (core d') = co_config (core d)" unfolding c' c2 c1 by simp
    then have "is_greedy (rd_sampler d')" using g by (simp add: is_greedy_def)
    then have "t = succ (base @ emitted d')" using out t by simp
    then have "t = next_token succ base (core d')" by (simp add: next_token_def emitted_def)
    moreover have "co_used (armed m (core d2)) < co_max (armed m (core d2))" using False sel by simp
    ultimately have "after_token succ base (armed m (core d2)) = (Inr (Continue t), core d')"
      by (simp add: after_token_Continue c' del: core_sel)
    then show ?thesis using pc False t by simp
  qed
qed


section \<open>Rounds as runs of the plain loop\<close>

context round_contract
begin

abbreviation "Plain_close \<equiv> plain_close (en_tokenizer E) (en_on_token E) succ"
abbreviation "Plain_run \<equiv> plain_run (en_tokenizer E) (en_on_token E) succ"

lemma same_core_after:
  assumes "core d' = core d" "outcome E holds succ base (Inr r, d')" "is_greedy (rd_sampler d)"
    "if rd_used d < rd_max_tokens d then \<exists>t. r = Continue t else r = Budget"
  shows "after_token succ base (core d) = (Inr r, core d')"
proof (cases "rd_used d < rd_max_tokens d")
  case True
  then show ?thesis using rejoined [OF assms(1) _ _ assms(2,3)] assms(4) by simp
next
  case False
  then show ?thesis using assms(1,4) by (simp add: after_token_def)
qed

lemma forced_close_at_x_plain:
  assumes aw: "awaiting base x d" and mode: "mode_ok base Commit d" and g: "is_greedy (rd_sampler d)"
    and res: "forced_close_at_x E x m d = (Inr r, d')"
  shows "Plain_close base m (core d) = (Inr r, core d')"
proof -
  note out = forced_close_at_x_outcome [OF aw mode res]
  obtain ids where ids: "encode_close (en_tokenizer E) m = Inr ids"
    using res by (cases "encode_close (en_tokenizer E) m") (auto simp: forced_close_at_x_def)
  show ?thesis
  proof (cases "ids = []")
    case True
    then have f: "feed_x_target_only E x (ordinary_mode E d) (rd_used d < rd_max_tokens d) d = (Inr r, d')"
      using res ids by (simp add: forced_close_at_x_def)
    show ?thesis using same_core_after [OF feed_x_core [OF f] out g] feed_x_result [OF f] ids True
      by (simp add: plain_close_def)
  next
    case False
    obtain cl d1 where cl: "emit_close_prefix E ids d = (cl, d1)" by (cases "emit_close_prefix E ids d")
    have "close_replay E (x # take (cp_accepted cl) ids) cl m (pairs (rd_ops d1)) d1 = (Inr r, d')"
      using res ids False cl by (simp add: forced_close_at_x_def)
    from forced_close_plain [OF ids False cl refl this out g] show ?thesis .
  qed
qed

lemma forced_close_at_draft_plain:
  assumes v: "verified_at L x (cx_drafts ctx) d (cx_hiddens ctx) (cx_dists ctx) (cx_post_x ctx)" and cx: "ctx_ok L x ctx"
    and k: "kept base L x (cx_drafts ctx) n False d" and fr: "rd_frontier d \<noteq> None" and g: "is_greedy (rd_sampler d)"
    and res: "forced_close_at_draft E x ctx n m d = (Inr r, d')"
  shows "Plain_close base m (core d) = (Inr r, core d')"
proof -
  note out = forced_close_at_draft_outcome [OF v cx k fr res]
  obtain ids where ids: "encode_close (en_tokenizer E) m = Inr ids"
    using res by (cases "encode_close (en_tokenizer E) m") (auto simp: forced_close_at_draft_def split: prod.splits sum.splits)
  show ?thesis
  proof (cases "ids = []")
    case True
    obtain w d1 where w: "reconcile_and_commit E x ctx n d = (w, d1)" by (cases "reconcile_and_commit E x ctx n d")
    note c1 = reconcile_and_commit_core [OF w]
    have "core d' = core d \<and> (if rd_used d < rd_max_tokens d then \<exists>t. r = Continue t else r = Budget)"
      using res ids True w c1 core_eqD(2,3) [OF c1]
      by (auto simp: forced_close_at_draft_def dest!: continue_from_Inr split: sum.splits if_splits)
    then show ?thesis using same_core_after [OF _ out g] ids True by (simp add: plain_close_def)
  next
    case False
    obtain cl d1 where cl: "emit_close_prefix E ids d = (cl, d1)" by (cases "emit_close_prefix E ids d")
    obtain q d2 where q: "restore_or_exit E (cx_entry_snap ctx) d1 = (q, d2)" by (cases "restore_or_exit E (cx_entry_snap ctx) d1")
    have "close_replay E (x # take n (cx_drafts ctx) @ take (cp_accepted cl) ids) cl m (cx_entry_pairs ctx) d2 = (Inr r, d')"
      using res ids False cl q by (auto simp: forced_close_at_draft_def split: sum.splits)
    from forced_close_plain [OF ids False cl restore_or_exit_core [OF q] this out g] show ?thesis .
  qed
qed

text \<open>What is left of a round after its first token.\<close>

definition resumes :: "token_id list \<Rightarrow> 'c core \<Rightarrow> round_end \<Rightarrow> 'c core \<Rightarrow> bool" where
  "resumes base s r s' \<longleftrightarrow> after_token succ base s = (Inr r, s') \<or> Plain_run base (next_token succ base s) s r s'"

lemma speculative_round_plain:
  assumes aw: "awaiting base x d" and mode: "mode_ok base Commit d" and al: "alive (rd_ops d)"
    and k: "0 < k" and win: "\<not> op_window_would_trim (en_ops E) (k + 1) (rd_ops d)"
    and g: "is_greedy (rd_sampler d)" and us: "rd_used d < rd_max_tokens d"
    and res: "speculative_round E x k d = (Inr r, d')"
  shows "resumes base (core d) r (core d')"
proof -
  note out = speculative_round_outcome [OF aw mode al k win res]
  define L where "L = base @ take (rd_committed_len d) (emitted d)"
  have h: "holds (rd_ops d) L" using aw by (simp add: awaiting_def L_def)
  have sp: "speculating base L x d" using aw by (simp add: awaiting_def speculating_def L_def)
  have np: "Suc (pairs (rd_ops d)) = length L" using mode al by (simp add: mode_ok_def Let_def L_def)
  obtain fe where fe: "rd_frontier d = Some fe" using aw al by (auto simp: awaiting_def)
  obtain w1 d1 where w1: "draft E x k fe d = (w1, d1)" by (cases "draft E x k fe d")
  from draft_loop_frame [OF w1 [unfolded draft_def] h]
  have h1: "holds (rd_ops d1) L" and dr: "drafting d d1"
    and lens: "\<And>ds qs. w1 = Drafted ds qs \<Longrightarrow> length ds = k \<and> length qs = k" by auto
  note f1 = dr [unfolded drafting_def]
  have pos: "op_target_pos (en_ops E) (rd_ops d) = length L" using pos_law [OF h] .
  have same: "resumes base (core d) r (core d')" if "core d' = core d" "\<exists>t. r = Continue t"
    using same_core_after [OF that(1) out g] that(2) us by (simp add: resumes_def)
  show ?thesis
  proof (cases w1)
    case Discard
    then have f: "feed_x_target_only E x Dead True (discard_mtp E d1) = (Inr r, d')"
      using res fe w1 by (simp add: speculative_round_def Let_def)
    then show ?thesis using same feed_x_core [OF f] feed_x_result [OF f] f1 by simp
  next
    case Resume
    then have f: "feed_x_target_only E x (ResumeAt (pairs (rd_ops d))) True d1 = (Inr r, d')"
      using res fe w1 by (simp add: speculative_round_def Let_def)
    then show ?thesis using same feed_x_core [OF f] feed_x_result [OF f] f1 by simp
  next
    case (Drafted drafts qs)
    note len = lens [OF Drafted]
    obtain w d2 where w: "verify E x drafts (length L) d1 = (w, d2)" by (cases "verify E x drafts (length L) d1")
    note core2 = verify_core [OF w]
    obtain wr where wr: "w = Inr wr"
      using res fe w1 Drafted w pos by (cases w) (simp_all add: speculative_round_def Let_def)
    show ?thesis
    proof (cases wr)
      case (Done re)
      then have "r = re \<and> d' = d2" using res fe w1 Drafted w wr pos by (simp add: speculative_round_def Let_def)
      then show ?thesis using same core2 f1 verify_Done [of E x drafts "length L" d1 r d2] w wr Done by simp
    next
      case (Ready hs ds p)
      have "drafts \<noteq> []" "alive (rd_ops d1)" "\<not> op_window_would_trim (en_ops E) (Suc (length drafts)) (rd_ops d1)"
        using len k al win f1 by (auto simp: target_same_def)
      moreover have sp1: "speculating base L x d1" using sp f1 speculating_frame by blast
      ultimately have v: "verified_at L x drafts d2 hs ds p"
        and d2: "rd_frontier d2 = rd_frontier d1" "rd_committed_len d2 = rd_committed_len d1"
        using verify_sound [OF sp1 h1 _ _ _ w] wr Ready by auto
      have g2: "is_greedy (rd_sampler d2)" using g core_eqD(4) [OF core2] core_eqD(4) [of d1 d] f1 by (simp add: is_greedy_def)
      obtain vd d3 where vd: "decide E drafts qs ds d2 = (vd, d3)" by (cases "decide E drafts qs ds d2")
      note core3 = decide_core [OF vd]
      have c3: "core d3 = core d" using core3 core2 f1 by simp
      note df = decide_frame(1,2) [OF vd, unfolded same_target_def, simplified]
      show ?thesis
      proof (cases vd)
        case None
        then have f: "invariant_err_recovery E x (length L) (pairs (rd_ops d)) fe p hs ds d3 = (Inr r, d')"
          using res fe w1 Drafted w wr Ready vd pos by (simp add: speculative_round_def Let_def)
        then show ?thesis using same invariant_err_recovery_core [OF f] invariant_err_recovery_result [OF f] c3 by simp
      next
        case (Some vv)
        let ?d4 = "d3\<lparr> rd_stats := record_round (vd_accepted vv) (rd_stats d3) \<rparr>"
        let ?acc = "take (vd_accepted vv) drafts"
        obtain q ev d5 where q: "emit_drafts E ?acc 0 ?d4 = ((q, ev), d5)" by (metis prod.exhaust)
        let ?ctx = "\<lparr> cx_entry_pos = length L, cx_entry_pairs = pairs (rd_ops d),
          cx_entry_snap = op_capture (en_ops E) (rd_ops d), cx_frontier_entry = fe, cx_k = k, cx_drafts = drafts,
          cx_hiddens = hs, cx_dists = ds, cx_post_x = p \<rparr>"
        have fin: "finish_round E x ?ctx q ev (vd_successor vv) d5 = (Inr r, d')"
          using res fe w1 Drafted w wr Ready vd Some q pos by (simp add: speculative_round_def Let_def)
        have sp3: "speculating base L x d3" using sp1 d2(2) core2 core3 df speculating_frame by metis
        have em4: "base @ emitted ?d4 = L @ [x]" using speculatingD(2) [OF sp3] by (simp add: emitted_def)
        have acc: "vd_accepted vv \<le> length drafts" using decide_frame(3) [OF vd] Some by blast
        have nx: "\<forall>i < length ?acc. ?acc ! i = succ (base @ emitted ?d4 @ take i ?acc)"
          using decide_greedy(2) [OF vd [unfolded Some] g2] v g2 acc em4
          by (simp add: verified_at_def min_def flip: append.assoc)
        from emit_drafts_chain [OF q nx]
        have ch: "chain (en_tokenizer E) (en_on_token E) succ base ?acc (core d) ev (core d5)" by (simp add: c3)
        have hd: "hd ?acc = next_token succ base (core d)" if "?acc \<noteq> []"
        proof -
          have "?acc ! 0 = succ (base @ emitted ?d4)" using nx that by (metis append_Nil2 length_greater_0_conv take0)
          then show ?thesis using that c3 core_eqD(1) [OF c3] by (simp add: hd_conv_nth next_token_def emitted_def)
        qed
        show ?thesis
        proof (cases "\<exists>m. ev = SpecClose m")
          case True
          then obtain m where ev: "ev = SpecClose m" by blast
          have v5: "verified_at L x drafts d5 hs ds p" and kp: "kept base L x drafts q False d5" and fr: "rd_frontier d5 \<noteq> None"
            and g5: "is_greedy (rd_sampler d5)"
            using after_drafts [OF v sp3 vd q Some] ev g2 d2(1) f1 fe by auto
          have cx: "ctx_ok L x ?ctx" using np capture_law [OF h] len by (simp add: ctx_ok_def)
          have "forced_close_at_draft E x ?ctx q m d5 = (Inr r, d')" using fin ev by (simp add: finish_round_def)
          from forced_close_at_draft_plain [OF _ cx _ fr g5 this, of base] v5 kp
          have "Plain_close base m (core d5) = (Inr r, core d')" by simp
          moreover have "?acc \<noteq> []" using q ev by (cases "?acc") auto
          ultimately show ?thesis using ch hd ev by (simp add: chain_def resumes_def)
        next
          case False
          then have nc: "\<forall>m. ev \<noteq> SpecClose m" by blast
          note fr = finish_round_result [OF fin nc]
          have c5: "core d' = core d5" using fr by blast
          show ?thesis
          proof (cases "?acc = []")
            case True
            then have "ev = SpecNone" "core d5 = core d" using q c3 by auto
            then show ?thesis using same c5 fr by simp
          next
            case nempty: False
            have "r = Continue (next_token succ base (core d5))" if "ev = SpecNone"
            proof -
              have "\<exists>t. r = Continue t" using fr that by simp
              then obtain t where t: "r = Continue t" ..
              have "co_config (core d5) = co_config (core d)"
                using plain_run_settings ch that nempty by (fastforce simp: chain_def settings_def)
              then have "co_config (core d') = co_config (core d)" unfolding c5 .
              then have "is_greedy (rd_sampler d')" using g by (simp add: is_greedy_def)
              then show ?thesis using out t c5 core_eqD(1) [OF c5] by (simp add: next_token_def emitted_def)
            qed
            then show ?thesis using ch hd [OF nempty] nempty fr False c5
              by (auto simp: chain_def resumes_def split: spec_event.splits)
          qed
        qed
      qed
    qed
  qed
qed


lemma run_round_plain:
  assumes en: "entered E holds base d" and k: "rd_spec_k d \<noteq> Some 0" and g: "is_greedy (rd_sampler d)"
    and res: "run_round E x d = (Inr r, d')"
  shows "Plain_run base x (core d) r (core d')"
proof -
  obtain v d1 where v: "emit_x E x d = (v, d1)" by (cases "emit_x E x d")
  note f = emit_x_frame [OF v, unfolded same_target_def]
  have c: "rd_committed_len d = length (emitted d)" and gd: "Good (base @ emitted d) (rd_ops d) (rd_frontier d)"
    using en by (simp_all add: entered_def)
  obtain w where w: "v = Inr w" using res v by (cases v) (auto simp: run_round_def)
  note pl = emit_plain [OF v [unfolded w]]
  show ?thesis
  proof (cases w)
    case (EmitContinue raw)
    obtain m d2 where m: "observe_budget raw d1 = (m, d2)" by (cases "observe_budget raw d1")
    note o = observe_budget_frame [OF m, unfolded same_target_def]
    note p = pl(3) [OF EmitContinue m, of succ base]
    have em: "emitted d2 = emitted d @ [x]" "rd_committed_len d2 = length (emitted d)" using f o w c by simp_all
    have aw: "awaiting base x d2" using em gd f o by (simp add: awaiting_def good_def)
    have mode: "mode_ok base Commit d2" using em gd f o by (simp add: mode_ok_def good_def)
    have k2: "rd_spec_k d2 \<noteq> Some 0" using k v m
      by (auto simp: emit_x_def observe_budget_def split: prod.splits sum.splits option.splits)
    have g2: "is_greedy (rd_sampler d2)" using g f o by simp
    show ?thesis
    proof (cases m)
      case (Some mk)
      then have "forced_close_at_x E x mk d2 = (Inr r, d')" using res v w EmitContinue m by (simp add: run_round_def)
      from forced_close_at_x_plain [OF aw mode g2 this] show ?thesis
        using p Some by (intro last_round) simp
    next
      case None
      have ae: "after_emission E x d2 = (Inr r, d')" using res v w EmitContinue m None by (simp add: run_round_def)
      note out = after_emission_outcome [OF aw mode k2 ae]
      have P: "plain_round (en_tokenizer E) (en_on_token E) succ base x (core d) = after_token succ base (core d2)"
        using p None by simp
      show ?thesis
      proof (cases "rd_used d2 \<ge> rd_max_tokens d2")
        case True
        then have fs: "final_slot E x d2 = (Inr r, d')" using ae by (simp add: after_emission_def)
        have "after_token succ base (core d2) = (Inr r, core d')"
          using same_core_after [OF final_slot_core [OF fs] out g2] final_slot_result [OF fs] True by simp
        then show ?thesis using P by (intro last_round) simp
      next
        case False
        show ?thesis
        proof (cases "\<exists>n. spec_depth E d2 = Some n \<and> \<not> op_window_would_trim (en_ops E) (n + 1) (rd_ops d2)")
          case True
          then obtain n where n: "spec_depth E d2 = Some n" "\<not> op_window_would_trim (en_ops E) (n + 1) (rd_ops d2)" by blast
          then have n0: "alive (rd_ops d2)" "0 < n" using k2 False
            by (auto simp: spec_depth_def SPECULATIVE_TOKENS_CEILING_def split: option.splits if_splits)
          have "speculative_round E x n d2 = (Inr r, d')" using ae False n by (simp add: after_emission_def)
          from speculative_round_plain [OF aw mode n0 n(2) g2 _ this] False
          have "resumes base (core d2) r (core d')" by simp
          then show ?thesis unfolding resumes_def
          proof
            assume "after_token succ base (core d2) = (Inr r, core d')"
            then show ?thesis using P by (intro last_round) simp
          next
            assume A: "Plain_run base (next_token succ base (core d2)) (core d2) r (core d')"
            have "after_token succ base (core d2) = (Inr (Continue (next_token succ base (core d2))), core d2)"
              using False by (simp add: after_token_Continue)
            then show ?thesis by (intro more_rounds [OF _ A]) (simp add: P)
          qed
        next
          case nospec: False
          then have fx: "feed_x_target_only E x (ordinary_mode E d2) True d2 = (Inr r, d')"
            using ae False by (auto simp: after_emission_def split: option.splits)
          have "after_token succ base (core d2) = (Inr r, core d')"
            using same_core_after [OF feed_x_core [OF fx] out g2] feed_x_result [OF fx] False by simp
          then show ?thesis using P by (intro last_round) simp
        qed
      qed
    qed
  qed (use res v w pl in \<open>auto simp: run_round_def intro: last_round\<close>)
qed


section \<open>The decode loop\<close>

lemma run_round_keeps:
  assumes "entered E holds base d" "rd_spec_k d \<noteq> Some 0" "run_round E x d = (Inr (Continue y), d')"
  shows "entered E holds base d'"
  using run_round_outcome [OF assms] by simp

text \<open>What is left when the loop ends.\<close>

fun loop_outcome :: "token_id list \<Rightarrow> (exit + unit) \<times> ('o, 'h, 'g, 'c) driver \<Rightarrow> bool" where
  "loop_outcome base (Inl Panic, d) \<longleftrightarrow> False"
| "loop_outcome base (Inl (Error e), d) \<longleftrightarrow> failed_forward E (rd_ops d) \<or> aligned E holds base d"
| "loop_outcome base (Inr u, d) \<longleftrightarrow> aligned E holds base d"

lemma decode_loop_outcome:
  assumes "entered E holds base d" "rd_spec_k d \<noteq> Some 0"
  shows "loop_outcome base (decode_loop E x d)"
  using assms
proof (induction "rd_max_tokens d - rd_used d" arbitrary: x d rule: less_induct)
  case less
  note unf = decode_loop.simps [of E x d]
  show ?case
  proof (cases "rd_used d < rd_max_tokens d")
    case False
    then show ?thesis using unf entered_aligned [OF less.prems(1)] by simp
  next
    case True
    obtain res d' where r: "run_round E x d = (res, d')" by (cases "run_round E x d")
    note out = run_round_outcome [OF less.prems r]
    show ?thesis
    proof (cases res)
      case (Inl e)
      then show ?thesis using unf True r out by (cases e) simp_all
    next
      case (Inr re)
      note pr = run_round_progress [OF r [unfolded Inr]]
      show ?thesis
      proof (cases re)
        case (Continue y)
        then have "decode_loop E x d = decode_loop E y d'" using unf True r Inr by simp
        moreover have "rd_max_tokens d' - rd_used d' < rd_max_tokens d - rd_used d" using pr True by (simp add: diff_less_mono2)
        ultimately show ?thesis using less.hyps [of d' y] out pr less.prems(2) Inr Continue by simp
      qed (use unf True r Inr out in simp_all)
    qed
  qed
qed

lemma decode_loop_plain:
  assumes "entered E holds base d" "rd_spec_k d \<noteq> Some 0" "is_greedy (rd_sampler d)"
    and "decode_loop E x d = (Inr (), d')"
  shows "plain_loop (en_tokenizer E) (en_on_token E) succ base x (core d) = (Inr (), core d')"
  using assms
proof (induction "rd_max_tokens d - rd_used d" arbitrary: x d rule: less_induct)
  case less
  note unf = decode_loop.simps [of E x d]
  show ?case
  proof (cases "rd_used d < rd_max_tokens d")
    case False
    then show ?thesis using unf less.prems(4) by (simp add: plain_loop.simps [of _ _ _ _ x])
  next
    case True
    obtain res d1 where r: "run_round E x d = (res, d1)" by (cases "run_round E x d")
    note out = run_round_outcome [OF less.prems(1,2) r]
    obtain re where re: "res = Inr re" using less.prems(4) unf True r by (cases res) auto
    note pr = run_round_progress [OF r [unfolded re]]
    note pl = run_round_plain [OF less.prems(1,2,3) r [unfolded re]]
    have run: "plain_loop (en_tokenizer E) (en_on_token E) succ base x (core d)
      = (case re of Continue y \<Rightarrow> plain_loop (en_tokenizer E) (en_on_token E) succ base y (core d1) | _ \<Rightarrow> (Inr (), core d1))"
      using plain_run_loop [OF pl] True by simp
    show ?thesis
    proof (cases re)
      case (Continue y)
      have "settings (core d1) = settings (core d)" using plain_run_settings [OF pl] by blast
      then have g: "is_greedy (rd_sampler d1)" using less.prems(3) by (simp add: is_greedy_def settings_def)
      have "decode_loop E y d1 = (Inr (), d')" using less.prems(4) unf True r re Continue by simp
      moreover have "rd_max_tokens d1 - rd_used d1 < rd_max_tokens d - rd_used d" using pr True by (simp add: diff_less_mono2)
      ultimately show ?thesis using less.hyps [of d1 y] out pr less.prems(2) re Continue g run by simp
    qed (use run less.prems(4) unf True r re in simp_all)
  qed
qed

end

end
