(* ===== verification/Session_Ops.thy ===== *)
theory Session_Ops
  imports Round_Greedy Layer_Cache
begin

text \<open>
  The round operations on the real caches (\<open>SessionOps\<close> of \<open>src/src/engine/spec.rs\<close>). The forward
  passes of the model and the array operations on the device are parameters, functions on a device
  state of type \<open>'d\<close> that may fail; logits have type \<open>'l\<close>, hidden rows type \<open>'h\<close>. Array shapes are
  \<open>int\<close> as the code's \<open>i32\<close>; positions stay below \<open>2 ^ 31\<close> (\<open>append_fits_i32\<close>), so the casts are exact.
\<close>

section \<open>Model and device\<close>

type_synonym ('a, 'b) layers = "('a, 'b) layer_cache list"

record ('a, 'b, 'h, 'l, 'd) session_env =
  md_forward :: "token_id list \<Rightarrow> ('a, 'b) layers \<Rightarrow> 'd \<Rightarrow> (engine_error + 'l) \<times> ('a, 'b) layers \<times> 'd"
  md_forward_hidden ::
    "token_id list \<Rightarrow> ('a, 'b) layers \<Rightarrow> 'd \<Rightarrow> (engine_error + 'h list \<times> 'l) \<times> ('a, 'b) layers \<times> 'd"
  md_forward_mtp ::
    "token_id list \<Rightarrow> 'h list \<Rightarrow> ('a, 'b) layers \<Rightarrow> 'd \<Rightarrow> (engine_error + 'h \<times> 'l) \<times> ('a, 'b) layers \<times> 'd"
  dv_from_slice :: "token_id list \<Rightarrow> 'd \<Rightarrow> engine_error option \<times> 'd"
  dv_eval :: "'l \<Rightarrow> 'd \<Rightarrow> engine_error option \<times> 'd"
  dv_argmax :: "'l \<Rightarrow> 'd \<Rightarrow> (engine_error + token_id list) \<times> 'd"
  dv_softmax :: "rat \<Rightarrow> 'l \<Rightarrow> 'd \<Rightarrow> (engine_error + rat list) \<times> 'd"
  dv_row :: "'l \<Rightarrow> int \<Rightarrow> int \<Rightarrow> 'd \<Rightarrow> (engine_error + 'l) \<times> 'd"
  dv_item :: "'l \<Rightarrow> 'd \<Rightarrow> (engine_error + token_id) \<times> 'd"
  dv_detach :: "'h list \<Rightarrow> 'd \<Rightarrow> (engine_error + 'h list) \<times> 'd"
  dv_recycle :: "'h \<Rightarrow> 'd \<Rightarrow> (engine_error + 'h) \<times> 'd"
  dv_concatenate :: "'h list \<Rightarrow> 'd \<Rightarrow> engine_error option \<times> 'd"
  lg_rows :: "'l \<Rightarrow> int"
  lg_vocab :: "'l \<Rightarrow> int"
  lg_ndim :: "'l \<Rightarrow> nat"

record ('a, 'b, 'd) session_ops =
  so_caches :: "('a, 'b) layers"
  so_mtp :: "('a, 'b) layers option"
  so_device :: 'd

definition on_device :: "('d \<Rightarrow> 'r \<times> 'd) \<Rightarrow> ('a, 'b, 'd) session_ops \<Rightarrow> 'r \<times> ('a, 'b, 'd) session_ops" where
  "on_device f so = (case f (so_device so) of (r, dv) \<Rightarrow> (r, so\<lparr> so_device := dv \<rparr>))"

fun cache_message :: "cache_error \<Rightarrow> engine_error" where
  "cache_message DiscardedByTrim = EModel ''cannot truncate KV cache: positions were discarded by a window trim''"
| "cache_message NotYetFed = EModel ''cannot truncate KV cache: positions have not been fed''"
| "cache_message KindMismatch = EModel ''rollback state kind does not match the cache kind''"
| "cache_message WrongCacheKind = EModel ''found a different cache kind''"
| "cache_message AllocationDisappeared = EModel ''KV cache allocation disappeared''"
| "cache_message OpFailed = EMlx ''array operation failed''"


section \<open>Distributions of a feed\<close>

text \<open>Rows are completed one after another; a failure keeps those before it.\<close>

fun finish_rows :: "'g sampler \<Rightarrow> nat \<Rightarrow> nat \<Rightarrow> rat list \<Rightarrow> dist list \<Rightarrow> (engine_error \<times> dist list) + dist list" where
  "finish_rows s 0 vocab flat dists = Inr dists"
| "finish_rows s (Suc n) vocab flat dists =
     (case finish_batched_probability_row s (take vocab flat) of
        Inl e \<Rightarrow> Inl (e, dists)
      | Inr p \<Rightarrow> finish_rows s n vocab (drop vocab flat) (dists @ [Sampled p]))"

definition materialize_dists ::
  "('a, 'b, 'h, 'l, 'd) session_env \<Rightarrow> 'l \<Rightarrow> 'g sampler \<Rightarrow> 'd \<Rightarrow> ((engine_error \<times> dist list) + dist list) \<times> 'd" where
  "materialize_dists M logits s dv =
     (case dv_eval M logits dv of
        (Some e, dv) \<Rightarrow> (Inl (e, []), dv)
      | (None, dv) \<Rightarrow>
          (if is_greedy s then
             (case dv_argmax M logits dv of
                (Inl e, dv) \<Rightarrow> (Inl (e, []), dv)
              | (Inr toks, dv) \<Rightarrow>
                  (if int (length toks) \<noteq> lg_rows M logits
                   then (Inl (internal ''greedy argmax row-count mismatch'', []), dv)
                   else (Inr (map Greedy toks), dv)))
           else if lg_rows M logits < 0
           then (Inl (internal ''negative sampled distribution row count'', []), dv)
           else if lg_vocab M logits < 0
           then (Inl (internal ''negative sampled distribution vocabulary'', []), dv)
           else case dv_softmax M (cfg_temperature (smp_config s)) logits dv of
             (Inl e, dv) \<Rightarrow> (Inl (e, []), dv)
           | (Inr flat, dv) \<Rightarrow>
               (let n = nat (lg_rows M logits); vocab = nat (lg_vocab M logits) in
                if length flat \<noteq> n * vocab
                then (Inl (internal ''sampled softmax element-count mismatch'', []), dv)
                else (finish_rows s n vocab flat [], dv))))"

definition probs ::
  "('a, 'b, 'h, 'l, 'd) session_env \<Rightarrow> 'g sampler \<Rightarrow> 'l \<Rightarrow> 'd \<Rightarrow> (engine_error + rat list) \<times> 'd" where
  "probs M s logits dv =
     (if is_greedy s
      then (Inl (spec_err ''probs() requires temperature > 0; greedy decoding has no sampling distribution''), dv)
      else if lg_ndim M logits \<noteq> 1 then (Inl (spec_err ''probs() expects 1-D logits''), dv)
      else case dv_softmax M (cfg_temperature (smp_config s)) logits dv of
        (Inl e, dv) \<Rightarrow> (Inl e, dv)
      | (Inr p, dv) \<Rightarrow> (filter_and_normalize_probability_row (smp_config s) p ''probs()'', dv))"

definition row_dist ::
  "('a, 'b, 'h, 'l, 'd) session_env \<Rightarrow> 'l \<Rightarrow> int \<Rightarrow> int \<Rightarrow> 'g sampler \<Rightarrow> 'd \<Rightarrow> (engine_error + dist) \<times> 'd" where
  "row_dist M logits r vocab s dv =
     (case dv_row M logits r vocab dv of
        (Inl e, dv) \<Rightarrow> (Inl e, dv)
      | (Inr sliced, dv) \<Rightarrow>
          (if is_greedy s then
             (case dv_item M sliced dv of
                (Inl e, dv) \<Rightarrow> (Inl e, dv)
              | (Inr t, dv) \<Rightarrow> (Inr (Greedy t), dv))
           else
             (case probs M s sliced dv of
                (Inl e, dv) \<Rightarrow> (Inl e, dv)
              | (Inr p, dv) \<Rightarrow> (Inr (Sampled p), dv))))"


section \<open>Feeds\<close>

text \<open>The forward pass a feed makes: with hidden rows exactly when the prediction module is live.\<close>

definition forward_any ::
  "('a, 'b, 'h, 'l, 'd) session_env \<Rightarrow> token_id list \<Rightarrow> ('a, 'b, 'd) session_ops
    \<Rightarrow> (engine_error + 'h list option \<times> 'l) \<times> ('a, 'b, 'd) session_ops" where
  "forward_any M ids so =
     (case so_mtp so of
        Some _ \<Rightarrow>
          (case md_forward_hidden M ids (so_caches so) (so_device so) of
             (r, caches, dv) \<Rightarrow>
               (case r of Inl e \<Rightarrow> Inl e | Inr (h, logits) \<Rightarrow> Inr (Some h, logits),
                so\<lparr> so_caches := caches, so_device := dv \<rparr>))
      | None \<Rightarrow>
          (case md_forward M ids (so_caches so) (so_device so) of
             (r, caches, dv) \<Rightarrow>
               (case r of Inl e \<Rightarrow> Inl e | Inr logits \<Rightarrow> Inr (None, logits),
                so\<lparr> so_caches := caches, so_device := dv \<rparr>)))"

text \<open>The last step of a feed; \<open>salvage\<close> is what a failure to detach keeps.\<close>

definition detach_hidden ::
  "('a, 'b, 'h, 'l, 'd) session_env \<Rightarrow> 'h list option \<Rightarrow> dist list \<Rightarrow> 'r \<Rightarrow> ('a, 'b, 'd) session_ops
    \<Rightarrow> (op_error + 'h list \<times> 'r) \<times> ('a, 'b, 'd) session_ops" where
  "detach_hidden M hidden salvage r so =
     (case hidden of
        None \<Rightarrow> (Inr ([], r), so)
      | Some h \<Rightarrow>
          (case on_device (dv_detach M h) so of
             (Inl e, so) \<Rightarrow> (Inl (Host e salvage), so)
           | (Inr hs, so) \<Rightarrow> (Inr (hs, r), so)))"

definition so_verify_feed ::
  "('a, 'b, 'h, 'l, 'd) session_env \<Rightarrow> token_id list \<Rightarrow> 'g sampler \<Rightarrow> ('a, 'b, 'd) session_ops
    \<Rightarrow> (op_error + 'h list \<times> dist list) \<times> ('a, 'b, 'd) session_ops" where
  "so_verify_feed M ids s so =
     (case on_device (dv_from_slice M ids) so of
        (Some e, so) \<Rightarrow> (Inl (Host e []), so)
      | (None, so) \<Rightarrow>
          (case forward_any M ids so of
             (Inl e, so) \<Rightarrow> (Inl (Invalid e), so)
           | (Inr (hidden, logits), so) \<Rightarrow>
               (case on_device (materialize_dists M logits s) so of
                  (Inl (e, salvage), so) \<Rightarrow> (Inl (Host e salvage), so)
                | (Inr dists, so) \<Rightarrow> detach_hidden M hidden dists dists so)))"

definition so_replay_feed ::
  "('a, 'b, 'h, 'l, 'd) session_env \<Rightarrow> token_id list \<Rightarrow> bool \<Rightarrow> 'g sampler \<Rightarrow> ('a, 'b, 'd) session_ops
    \<Rightarrow> (op_error + 'h list \<times> dist option) \<times> ('a, 'b, 'd) session_ops" where
  "so_replay_feed M ids want_last_dist s so =
     (case on_device (dv_from_slice M ids) so of
        (Some e, so) \<Rightarrow> (Inl (Host e []), so)
      | (None, so) \<Rightarrow>
          (case forward_any M ids so of
             (Inl e, so) \<Rightarrow> (Inl (Invalid e), so)
           | (Inr (hidden, logits), so) \<Rightarrow>
               (if want_last_dist then
                  (case on_device (row_dist M logits (int (length ids) - 1) (lg_vocab M logits) s) so of
                     (Inl e, so) \<Rightarrow> (Inl (Host e []), so)
                   | (Inr di, so) \<Rightarrow> detach_hidden M hidden [di] (Some di) so)
                else detach_hidden M hidden [] None so)))"


section \<open>Positions and rollback\<close>

definition so_is_hybrid :: "('a, 'b, 'd) session_ops \<Rightarrow> bool" where
  "so_is_hybrid so = list_ex (\<lambda>c. \<not> is_attention c) (so_caches so)"

fun layer_position :: "('a, 'b) layer_cache \<Rightarrow> nat option" where
  "layer_position (Attention kv) = Some (nat (kv_offset kv))"
| "layer_position (Dhara d) = Some (nat (kv_offset (dh_attn d)))"
| "layer_position (GatedDelta _) = None"

definition so_target_pos :: "('a, 'b, 'd) session_ops \<Rightarrow> nat" where
  "so_target_pos so = (case find_map layer_position (so_caches so) of Some n \<Rightarrow> n | None \<Rightarrow> 0)"

fun layer_would_trim :: "int \<Rightarrow> ('a, 'b) layer_cache \<Rightarrow> bool" where
  "layer_would_trim added (Attention kv) = would_trim added kv"
| "layer_would_trim added (Dhara d) = would_trim added (dh_attn d)"
| "layer_would_trim added (GatedDelta _) = False"

definition so_window_would_trim :: "nat \<Rightarrow> ('a, 'b, 'd) session_ops \<Rightarrow> bool" where
  "so_window_would_trim added so = list_ex (layer_would_trim (int added)) (so_caches so)"

definition so_capture :: "('a, 'b, 'd) session_ops \<Rightarrow> 'b layer_rollback list" where
  "so_capture so = map rollback_state (so_caches so)"

text \<open>The loops over the layers stop at the first error and leave the layers before it changed.\<close>

fun restore_layers :: "('a, 'b) layers \<Rightarrow> 'b layer_rollback list \<Rightarrow> cache_error option \<times> ('a, 'b) layers" where
  "restore_layers (c # caches) (st # snap) =
     (case rollback st c of
        (Some e, c) \<Rightarrow> (Some e, c # caches)
      | (None, c) \<Rightarrow> map_prod id (Cons c) (restore_layers caches snap))"
| "restore_layers caches snap = (None, caches)"

fun truncate_layer :: "int \<Rightarrow> ('a, 'b) layer_cache \<Rightarrow> cache_error option \<times> ('a, 'b) layer_cache" where
  "truncate_layer off (Attention kv) = map_prod id Attention (truncate_to off kv)"
| "truncate_layer off (Dhara d) = map_prod id (\<lambda>kv. Dhara (d\<lparr> dh_attn := kv \<rparr>)) (truncate_to off (dh_attn d))"
| "truncate_layer off (GatedDelta g) = (None, GatedDelta g)"

fun truncate_layers :: "int \<Rightarrow> ('a, 'b) layers \<Rightarrow> cache_error option \<times> ('a, 'b) layers" where
  "truncate_layers off [] = (None, [])"
| "truncate_layers off (c # caches) =
     (case truncate_layer off c of
        (Some e, c) \<Rightarrow> (Some e, c # caches)
      | (None, c) \<Rightarrow> map_prod id (Cons c) (truncate_layers off caches))"

definition cache_result ::
  "(cache_error \<Rightarrow> op_error) \<Rightarrow> cache_error option \<times> 'x \<Rightarrow> (op_error + unit) \<times> 'x" where
  "cache_result wrap p = (case p of (Some e, x) \<Rightarrow> (Inl (wrap e), x) | (None, x) \<Rightarrow> (Inr (), x))"

definition so_restore ::
  "'b layer_rollback list \<Rightarrow> ('a, 'b, 'd) session_ops \<Rightarrow> (op_error + unit) \<times> ('a, 'b, 'd) session_ops" where
  "so_restore snap so =
     (case cache_result (\<lambda>e. Invalid (cache_message e)) (restore_layers (so_caches so) snap) of
        (r, caches) \<Rightarrow> (r, so\<lparr> so_caches := caches \<rparr>))"

definition so_truncate_target ::
  "nat \<Rightarrow> ('a, 'b, 'd) session_ops \<Rightarrow> (op_error + unit) \<times> ('a, 'b, 'd) session_ops" where
  "so_truncate_target abs_offset so =
     (case cache_result (\<lambda>e. Invalid (cache_message e)) (truncate_layers (int abs_offset) (so_caches so)) of
        (r, caches) \<Rightarrow> (r, so\<lparr> so_caches := caches \<rparr>))"


section \<open>The prediction module\<close>

definition so_mtp_alive :: "('a, 'b, 'd) session_ops \<Rightarrow> bool" where
  "so_mtp_alive so \<longleftrightarrow> so_mtp so \<noteq> None"

definition so_mtp_pairs :: "('a, 'b, 'd) session_ops \<Rightarrow> nat" where
  "so_mtp_pairs so = (case so_mtp so of None \<Rightarrow> 0 | Some caches \<Rightarrow> mtp_pairs_fed caches)"

definition so_mtp_step ::
  "('a, 'b, 'h, 'l, 'd) session_env \<Rightarrow> token_id \<Rightarrow> 'h \<Rightarrow> 'g sampler \<Rightarrow> ('a, 'b, 'd) session_ops
    \<Rightarrow> (op_error + 'h \<times> dist) \<times> ('a, 'b, 'd) session_ops" where
  "so_mtp_step M i prev s so =
     (case so_mtp so of
        None \<Rightarrow> (Inl (MtpForward (internal ''mtp_step without live MTP'')), so)
      | Some mtp \<Rightarrow>
          (case on_device (dv_from_slice M [i]) so of
             (Some e, so) \<Rightarrow> (Inl (Host e []), so)
           | (None, so) \<Rightarrow>
               (case md_forward_mtp M [i] [prev] mtp (so_device so) of
                  (r, mtp, dv) \<Rightarrow>
                    (let so = so\<lparr> so_mtp := Some mtp, so_device := dv \<rparr> in
                     case r of
                       Inl e \<Rightarrow> (Inl (MtpForward e), so)
                     | Inr (recycle, logits) \<Rightarrow>
                         (case on_device (row_dist M logits 0 (lg_vocab M logits) s) so of
                            (Inl e, so) \<Rightarrow> (Inl (Host e []), so)
                          | (Inr di, so) \<Rightarrow>
                              (case on_device (dv_recycle M recycle) so of
                                 (Inl e, so) \<Rightarrow> (Inl (Host e []), so)
                               | (Inr recycle, so) \<Rightarrow> (Inr (recycle, di), so)))))))"

definition so_mtp_commit ::
  "('a, 'b, 'h, 'l, 'd) session_env \<Rightarrow> token_id list \<Rightarrow> 'h list \<Rightarrow> ('a, 'b, 'd) session_ops
    \<Rightarrow> (op_error + unit) \<times> ('a, 'b, 'd) session_ops" where
  "so_mtp_commit M ids prevs so =
     (case so_mtp so of
        None \<Rightarrow> (Inl (MtpForward (internal ''mtp_commit without live MTP'')), so)
      | Some mtp \<Rightarrow>
          (case (if length prevs = 1 then (None, so) else on_device (dv_concatenate M prevs) so) of
             (Some e, so) \<Rightarrow> (Inl (Host e []), so)
           | (None, so) \<Rightarrow>
               (case on_device (dv_from_slice M ids) so of
                  (Some e, so) \<Rightarrow> (Inl (Host e []), so)
                | (None, so) \<Rightarrow>
                    (case md_forward_mtp M ids prevs mtp (so_device so) of
                       (r, mtp, dv) \<Rightarrow>
                         (case r of Inl e \<Rightarrow> Inl (MtpForward e) | Inr _ \<Rightarrow> Inr (),
                          so\<lparr> so_mtp := Some mtp, so_device := dv \<rparr>)))))"

definition so_mtp_truncate ::
  "nat \<Rightarrow> ('a, 'b, 'd) session_ops \<Rightarrow> (op_error + unit) \<times> ('a, 'b, 'd) session_ops" where
  "so_mtp_truncate pairs_fed so =
     (case so_mtp so of
        None \<Rightarrow> (Inl (MtpForward (internal ''mtp_truncate without live MTP'')), so)
      | Some mtp \<Rightarrow>
          (case cache_result (\<lambda>e. Host (cache_message e) []) (mtp_truncate_to pairs_fed mtp) of
             (r, mtp) \<Rightarrow> (r, so\<lparr> so_mtp := Some mtp \<rparr>)))"

definition so_mtp_discard :: "('a, 'b, 'd) session_ops \<Rightarrow> ('a, 'b, 'd) session_ops" where
  "so_mtp_discard so = so\<lparr> so_mtp := None \<rparr>"

definition session_round_ops ::
  "('a, 'b, 'h, 'l, 'd) session_env \<Rightarrow> (('a, 'b, 'd) session_ops, 'h, 'b layer_rollback list, 'g) round_ops" where
  "session_round_ops M =
     \<lparr> op_is_hybrid = so_is_hybrid, op_target_pos = so_target_pos, op_window_would_trim = so_window_would_trim,
       op_verify_feed = so_verify_feed M, op_replay_feed = so_replay_feed M, op_capture = so_capture,
       op_restore = so_restore, op_truncate_target = so_truncate_target, op_mtp_alive = so_mtp_alive,
       op_mtp_pairs = so_mtp_pairs, op_mtp_step = so_mtp_step M, op_mtp_commit = so_mtp_commit M,
       op_mtp_truncate = so_mtp_truncate, op_mtp_discard = so_mtp_discard \<rparr>"

end
