(* ===== verification/Session_Contract.thy ===== *)
theory Session_Contract
  imports Session_Ops
begin

text \<open>
  The session operations meet the driver's contract: with a causal model, a feed extends the history
  every layer cache stands for, and capture, restore and truncation act on that history as the driver
  expects. The results about rounds then hold for the real caches.
\<close>

section \<open>What the caches of a session stand for\<close>

text \<open>
  \<open>kvr i p\<close> is the key and value row layer \<open>i\<close> computes for the last token of the prefix \<open>p\<close>;
  \<open>recur i p\<close> its recurrent states after \<open>p\<close>.
\<close>

definition kv_rows_from :: "(nat \<Rightarrow> token_id list \<Rightarrow> 'a \<times> 'a) \<Rightarrow> nat \<Rightarrow> token_id list \<Rightarrow> token_id list \<Rightarrow> ('a \<times> 'a) list" where
  "kv_rows_from kvr i a ids = map (\<lambda>j. kvr i (a @ take (Suc j) ids)) [0..<length ids]"

abbreviation kv_rows :: "(nat \<Rightarrow> token_id list \<Rightarrow> 'a \<times> 'a) \<Rightarrow> nat \<Rightarrow> token_id list \<Rightarrow> ('a \<times> 'a) list" where
  "kv_rows kvr i a \<equiv> kv_rows_from kvr i [] a"

lemma length_kv_rows [simp]: "length (kv_rows_from kvr i a ids) = length ids"
  by (simp add: kv_rows_from_def)

lemma kv_rows_from_empty [simp]: "kv_rows_from kvr i a ids = [] \<longleftrightarrow> ids = []"
  by (simp add: kv_rows_from_def)

lemma kv_rows_append: "kv_rows kvr i (a @ ids) = kv_rows kvr i a @ kv_rows_from kvr i a ids"
  by (rule nth_equalityI) (auto simp: kv_rows_from_def nth_append Suc_diff_le)

lemma kv_rows_take: "kv_rows kvr i (take n a) = take n (kv_rows kvr i a)"
  by (cases "n \<le> length a") (auto simp: kv_rows_from_def take_map intro!: nth_equalityI)

fun layer_holds :: "('a \<times> 'a) list \<Rightarrow> 'b option list \<Rightarrow> ('a, 'b) layer_cache \<Rightarrow> bool" where
  "layer_holds h st (Attention c) \<longleftrightarrow> kv_pairs_rep c h"
| "layer_holds h st (GatedDelta c) \<longleftrightarrow> st = [gd_conv_state c, gd_recur_state c]"
| "layer_holds h st (Dhara c) \<longleftrightarrow> kv_pairs_rep (dh_attn c) h
     \<and> st = [dh_canon_a c, dh_canon_b_q c, dh_canon_b_k c, dh_canon_b_v c, dh_canon_c c, dh_canon_d c]"

definition caches_hold ::
  "str list \<Rightarrow> (nat \<Rightarrow> token_id list \<Rightarrow> 'a \<times> 'a) \<Rightarrow> (nat \<Rightarrow> token_id list \<Rightarrow> 'b option list)
    \<Rightarrow> ('a, 'b) layers \<Rightarrow> token_id list \<Rightarrow> bool" where
  "caches_hold kinds kvr recur L a \<longleftrightarrow> map kind_name L = kinds
     \<and> (\<forall>i < length L. layer_holds (kv_rows kvr i a) (recur i a) (L ! i))"

definition caches_low :: "('a, 'b) layers \<Rightarrow> nat" where
  "caches_low L = foldr (\<lambda>l m. max (layer_low l) m) L 0"

lemma caches_low_le: "caches_low L \<le> n \<longleftrightarrow> (\<forall>l \<in> set L. layer_low l \<le> n)"
  by (induction L) (auto simp: caches_low_def)

lemma caches_low_cong: "map layer_low L = map layer_low L' \<Longrightarrow> caches_low L = caches_low L'"
  by (induction L arbitrary: L') (auto simp: caches_low_def map_eq_Cons_conv)

definition session_holds ::
  "str list \<Rightarrow> (nat \<Rightarrow> token_id list \<Rightarrow> 'a \<times> 'a) \<Rightarrow> (nat \<Rightarrow> token_id list \<Rightarrow> 'b option list)
    \<Rightarrow> ('a, 'b, 'd) session_ops \<Rightarrow> token_id list \<Rightarrow> bool" where
  "session_holds kinds kvr recur so a \<longleftrightarrow> caches_hold kinds kvr recur (so_caches so) a
     \<and> (case so_mtp so of None \<Rightarrow> True | Some ls \<Rightarrow> list_ex is_attention ls)"

definition session_snap ::
  "str list \<Rightarrow> (nat \<Rightarrow> token_id list \<Rightarrow> 'a \<times> 'a) \<Rightarrow> (nat \<Rightarrow> token_id list \<Rightarrow> 'b option list)
    \<Rightarrow> 'b layer_rollback list \<Rightarrow> token_id list \<Rightarrow> bool" where
  "session_snap kinds kvr recur sn a \<longleftrightarrow> (\<exists>L. caches_hold kinds kvr recur L a \<and> sn = map rollback_state L)"


section \<open>A causal model\<close>

text \<open>What a completed forward pass leaves in a layer: its new rows appended, its states replaced.\<close>

fun feed_layer :: "'a \<Rightarrow> ('a \<times> 'a) list \<Rightarrow> 'b option list \<Rightarrow> ('a, 'b) layer_cache \<Rightarrow> ('a, 'b) layer_cache" where
  "feed_layer z us st (Attention c) = Attention (snd (kv_append_pairs z us c))"
| "feed_layer z us st (GatedDelta c) = GatedDelta (c\<lparr> gd_conv_state := st ! 0, gd_recur_state := st ! 1 \<rparr>)"
| "feed_layer z us st (Dhara c) = Dhara (c\<lparr> dh_attn := snd (kv_append_pairs z us (dh_attn c)),
     dh_canon_a := st ! 0, dh_canon_b_q := st ! 1, dh_canon_b_k := st ! 2, dh_canon_b_v := st ! 3,
     dh_canon_c := st ! 4, dh_canon_d := st ! 5 \<rparr>)"

definition feed_layers ::
  "'a \<Rightarrow> (nat \<Rightarrow> token_id list \<Rightarrow> 'a \<times> 'a) \<Rightarrow> (nat \<Rightarrow> token_id list \<Rightarrow> 'b option list)
    \<Rightarrow> token_id list \<Rightarrow> token_id list \<Rightarrow> ('a, 'b) layers \<Rightarrow> ('a, 'b) layers" where
  "feed_layers z kvr recur a ids L =
     map (\<lambda>i. feed_layer z (kv_rows_from kvr i a ids) (recur i (a @ ids)) (L ! i)) [0..<length L]"

fun state_count :: "str \<Rightarrow> nat" where
  "state_count k = (if k = ''gated-delta'' then 2 else if k = ''dhara'' then 6 else 0)"

definition choices :: "(token_id list \<Rightarrow> token_id) \<Rightarrow> token_id list \<Rightarrow> token_id list \<Rightarrow> token_id list" where
  "choices succ a ids = map (\<lambda>j. succ (a @ take (Suc j) ids)) [0..<length ids]"

text \<open>
  \<open>choice l\<close>: the best token of every row of the logits \<open>l\<close>. Building an index array is assumed not to
  fail (its shape always fits); every other operation may.
\<close>

locale session_model =
  fixes M :: "('a, 'b, 'h, 'l, 'd) session_env"
    and kinds :: "str list"
    and kvr :: "nat \<Rightarrow> token_id list \<Rightarrow> 'a \<times> 'a"
    and recur :: "nat \<Rightarrow> token_id list \<Rightarrow> 'b option list"
    and z :: 'a
    and succ :: "token_id list \<Rightarrow> token_id"
    and choice :: "'l \<Rightarrow> token_id list"
  assumes positioned: "\<exists>k \<in> set kinds. k \<noteq> ''gated-delta''"
    and states: "i < length kinds \<Longrightarrow> kinds ! i \<noteq> ''attention'' \<Longrightarrow> length (recur i a) = state_count (kinds ! i)"
    and forward_law: "caches_hold kinds kvr recur L a \<Longrightarrow> ids \<noteq> [] \<Longrightarrow> md_forward M ids L dv = (Inr lg, L', dv') \<Longrightarrow>
      L' = feed_layers z kvr recur a ids L \<and> lg_rows M lg = int (length ids) \<and> choice lg = choices succ a ids"
    and hidden_law: "caches_hold kinds kvr recur L a \<Longrightarrow> ids \<noteq> [] \<Longrightarrow>
      md_forward_hidden M ids L dv = (Inr (h, lg), L', dv') \<Longrightarrow>
      L' = feed_layers z kvr recur a ids L \<and> lg_rows M lg = int (length ids) \<and> choice lg = choices succ a ids
      \<and> length h = length ids"
    and mtp_law: "list_ex is_attention mtp \<Longrightarrow> length prevs = length ids \<Longrightarrow>
      md_forward_mtp M ids prevs mtp dv = (r, mtp', dv') \<Longrightarrow>
      list_ex is_attention mtp' \<and> (\<forall>x. r = Inr x \<longrightarrow> mtp_pairs_fed mtp' = mtp_pairs_fed mtp + length ids)"
    and from_slice_law: "fst (dv_from_slice M ids dv) = None"
    and argmax_law: "dv_argmax M lg dv = (Inr toks, dv') \<Longrightarrow> toks = choice lg"
    and row_law: "dv_row M lg j v dv = (Inr lg', dv') \<Longrightarrow> 0 \<le> j \<Longrightarrow> nat j < length (choice lg) \<Longrightarrow>
      choice lg' = [choice lg ! nat j]"
    and item_law: "dv_item M lg dv = (Inr t, dv') \<Longrightarrow> choice lg = [c] \<Longrightarrow> t = c"
    and detach_law: "dv_detach M h dv = (Inr hs, dv') \<Longrightarrow> length hs = length h"

locale session_round = session_model M kinds kvr recur z succ choice
  for M :: "('a, 'b, 'h, 'l, 'd) session_env" and kinds kvr recur z succ choice +
  fixes E :: "(('a, 'b, 'd) session_ops, 'h, 'b layer_rollback list, 'g, 'c) round_env"
  assumes ops_law: "en_ops E = session_round_ops M"


section \<open>Layer by layer\<close>

lemma kv_append_fed:
  assumes "kv_pairs_rep c h" "us \<noteq> []"
  shows "kv_pairs_rep (snd (kv_append_pairs z us c)) (h @ us)
    \<and> kv_window (snd (kv_append_pairs z us c)) = kv_window c
    \<and> kv_start (snd (kv_append_pairs z us c))
      = trimmed_start (kv_window c) (view_start (int (length us)) c) (kv_offset c + int (length us)) 0"
  using kv_append_pairs_ok [OF assms, of z]
    update_and_fetch_ok [OF assms(1) [unfolded kv_pairs_rep_def], of "map fst us" "map snd us" z] assms(2)
  by (auto simp: kv_append_pairs_def)

text \<open>An append the preflight admits moves neither the low mark nor, for what is left of it, the preflight.\<close>

lemma kv_append_untrimmed:
  assumes "kv_pairs_rep c h" "us \<noteq> []" "\<not> would_trim (int (length us) + int n) c"
  shows "kv_start (snd (kv_append_pairs z us c)) = kv_start c"
    "\<not> would_trim (int n) (snd (kv_append_pairs z us c))"
proof -
  note F = kv_append_fed [OF assms(1,2), of z]
  have off: "kv_offset c = int (length h)"
    "kv_offset (snd (kv_append_pairs z us c)) = int (length h) + int (length us)"
    using kv_repD(1) F assms(1) by (fastforce simp: kv_pairs_rep_def)+
  show "kv_start (snd (kv_append_pairs z us c)) = kv_start c"
    using F assms(3) off(1) by (auto simp: view_start_eq trimmed_start_def would_trim_def split: option.splits)
  then show "\<not> would_trim (int n) (snd (kv_append_pairs z us c))"
    using F assms(3) off by (auto simp: would_trim_def split: option.splits)
qed

lemma feed_layer_holds:
  assumes "layer_holds h st0 l" "us \<noteq> []" "\<not> is_attention l \<longrightarrow> length st = state_count (kind_name l)"
  shows "layer_holds (h @ us) st (feed_layer z us st l)" "kind_name (feed_layer z us st l) = kind_name l"
  using assms kv_append_fed [of _ h us z]
  by (cases l; auto simp: numeral_2_eq_2 length_Suc_conv eval_nat_numeral)+

lemma feed_layer_untrimmed:
  assumes "layer_holds h st0 l" "us \<noteq> []" "\<not> layer_would_trim (int (length us) + int n) l"
  shows "layer_low (feed_layer z us st l) = layer_low l \<and> \<not> layer_would_trim (int n) (feed_layer z us st l)"
  using assms kv_append_untrimmed [of _ h us n z] by (cases l) auto

lemma layer_holds_low: "layer_holds h st l \<Longrightarrow> layer_low l \<le> length h"
  using kv.low_le by (cases l) auto

lemma layer_position_holds: "layer_holds h st l \<Longrightarrow> kind_name l \<noteq> ''gated-delta'' \<Longrightarrow> layer_position l = Some (length h)"
  using kv_repD(1) by (cases l) (fastforce simp: kv_pairs_rep_def)+

lemma rollback_holds:
  assumes "layer_holds h st l0" "layer_holds (h @ us) st' l" "kind_name l = kind_name l0" "layer_low l \<le> length h"
  shows "\<exists>l'. rollback (rollback_state l0) l = (None, l') \<and> layer_holds h st l' \<and> kind_name l' = kind_name l"
  using assms truncate_to_history(1) [of _ h _ us]
  by (cases l; cases l0) (auto simp: Let_def split: prod.split; fastforce)+

lemma truncate_holds:
  assumes "layer_holds h st l" "layer_low l \<le> n" "n \<le> length h" "is_attention l \<or> n = length h"
  shows "\<exists>l'. truncate_layer (int n) l = (None, l') \<and> layer_holds (take n h) st l' \<and> kind_name l' = kind_name l"
proof (cases l)
  case (Attention c)
  then show ?thesis using kv.cut_law [of c h n] assms by auto
next
  case (Dhara c)
  then show ?thesis using kv.cut_law [of "dh_attn c" h n] assms by auto
qed (use assms in auto)


section \<open>All layers\<close>

lemma caches_holdD:
  assumes "caches_hold kinds kvr recur L a" "i < length L"
  shows "layer_holds (kv_rows kvr i a) (recur i a) (L ! i)" "kind_name (L ! i) = kinds ! i" "length L = length kinds"
  using assms by (auto simp: caches_hold_def)

lemma caches_low_holds: "caches_hold kinds kvr recur L a \<Longrightarrow> caches_low L \<le> length a"
  using layer_holds_low [OF caches_holdD(1)] by (fastforce simp: caches_low_le in_set_conv_nth)

lemma is_attention_kind: "is_attention l \<longleftrightarrow> kind_name l = ''attention''"
  by (cases l) auto

lemma hybrid_kinds: "caches_hold kinds kvr recur (so_caches so) a \<Longrightarrow> so_is_hybrid so \<longleftrightarrow> (\<exists>k \<in> set kinds. k \<noteq> ''attention'')"
  by (auto simp: so_is_hybrid_def caches_hold_def list_ex_iff is_attention_kind)

lemma layer_position_gated: "kind_name l = ''gated-delta'' \<longleftrightarrow> layer_position l = None"
  by (cases l) auto

lemma find_map_const:
  "(\<forall>x \<in> set xs. f x = None \<or> f x = Some n) \<Longrightarrow> \<exists>x \<in> set xs. f x \<noteq> None \<Longrightarrow> find_map f xs = Some n"
  by (induction xs) (auto split: option.splits)

lemma target_pos_holds:
  assumes "caches_hold kinds kvr recur (so_caches so) a" "\<exists>k \<in> set kinds. k \<noteq> ''gated-delta''"
  shows "so_target_pos so = length a"
proof -
  have "\<forall>l \<in> set (so_caches so). layer_position l = None \<or> layer_position l = Some (length a)"
    using caches_holdD(1) [OF assms(1)] layer_position_holds layer_position_gated
    by (fastforce simp: in_set_conv_nth)
  moreover have "\<exists>l \<in> set (so_caches so). layer_position l \<noteq> None"
    using assms by (force simp: caches_hold_def simp flip: layer_position_gated)
  ultimately show ?thesis by (simp add: so_target_pos_def find_map_const)
qed

lemma feed_layers_holds:
  assumes "caches_hold kinds kvr recur L a" "ids \<noteq> []"
    and "\<And>i. i < length kinds \<Longrightarrow> kinds ! i \<noteq> ''attention'' \<Longrightarrow> length (recur i (a @ ids)) = state_count (kinds ! i)"
  shows "caches_hold kinds kvr recur (feed_layers z kvr recur a ids L) (a @ ids)"
proof -
  have len: "length L = length kinds" using assms(1) by (auto simp: caches_hold_def)
  have one: "layer_holds (kv_rows kvr i (a @ ids)) (recur i (a @ ids)) (feed_layers z kvr recur a ids L ! i)
      \<and> kind_name (feed_layers z kvr recur a ids L ! i) = kinds ! i" if "i < length L" for i
    using feed_layer_holds [OF caches_holdD(1) [OF assms(1) that], of "kv_rows_from kvr i a ids" "recur i (a @ ids)" z]
      caches_holdD(2) [OF assms(1) that] assms(2,3) len that
    by (simp add: feed_layers_def kv_rows_append is_attention_kind)
  then show ?thesis using len
    by (auto simp: caches_hold_def feed_layers_def intro!: nth_equalityI)
qed

lemma feed_layers_untrimmed:
  assumes "caches_hold kinds kvr recur L a" "ids \<noteq> []"
    and "\<not> list_ex (layer_would_trim (int (length ids) + int n)) L"
  shows "caches_low (feed_layers z kvr recur a ids L) = caches_low L
    \<and> \<not> list_ex (layer_would_trim (int n)) (feed_layers z kvr recur a ids L)"
proof -
  have "layer_low (feed_layers z kvr recur a ids L ! i) = layer_low (L ! i)
      \<and> \<not> layer_would_trim (int n) (feed_layers z kvr recur a ids L ! i)" if "i < length L" for i
    using feed_layer_untrimmed [OF caches_holdD(1) [OF assms(1) that], of "kv_rows_from kvr i a ids" n]
      assms(2,3) that by (auto simp: feed_layers_def list_ex_iff)
  then show ?thesis
    by (auto simp: feed_layers_def list_ex_length intro!: caches_low_cong nth_equalityI)
qed

lemma restore_layers_holds:
  assumes "length L = length L0"
    and "\<And>i. i < length L \<Longrightarrow> layer_holds (h i) (st i) (L0 ! i) \<and> layer_holds (h i @ us i) (st' i) (L ! i)
      \<and> kind_name (L ! i) = kind_name (L0 ! i) \<and> layer_low (L ! i) \<le> length (h i)"
  shows "\<exists>L'. restore_layers L (map rollback_state L0) = (None, L') \<and> length L' = length L
    \<and> (\<forall>i < length L. layer_holds (h i) (st i) (L' ! i) \<and> kind_name (L' ! i) = kind_name (L ! i))"
  using assms
proof (induction L arbitrary: L0 h st us st')
  case Nil
  then show ?case by simp
next
  case (Cons l L)
  then obtain l0 L1 where L0: "L0 = l0 # L1" by (cases L0) auto
  obtain l' where l': "rollback (rollback_state l0) l = (None, l')" "layer_holds (h 0) (st 0) l'" "kind_name l' = kind_name l"
    using rollback_holds [of "h 0" "st 0" l0 "us 0" "st' 0" l] Cons.prems(2) [of 0] L0 by auto
  obtain L' where "restore_layers L (map rollback_state L1) = (None, L')" "length L' = length L"
    "\<forall>i < length L. layer_holds (h (Suc i)) (st (Suc i)) (L' ! i) \<and> kind_name (L' ! i) = kind_name (L ! i)"
    using Cons.IH [of L1 "\<lambda>i. h (Suc i)" "\<lambda>i. st (Suc i)" "\<lambda>i. us (Suc i)" "\<lambda>i. st' (Suc i)"] Cons.prems L0
    by fastforce
  then show ?case using l' L0 by (auto simp: nth_Cons split: nat.split)
qed

lemma truncate_layers_holds:
  assumes "\<And>i. i < length L \<Longrightarrow> layer_holds (h i) (st i) (L ! i) \<and> layer_low (L ! i) \<le> n \<and> n \<le> length (h i)
      \<and> (is_attention (L ! i) \<or> n = length (h i))"
  shows "\<exists>L'. truncate_layers (int n) L = (None, L') \<and> length L' = length L
    \<and> (\<forall>i < length L. layer_holds (take n (h i)) (st i) (L' ! i) \<and> kind_name (L' ! i) = kind_name (L ! i))"
  using assms
proof (induction L arbitrary: h st)
  case Nil
  then show ?case by simp
next
  case (Cons l L)
  obtain l' where l': "truncate_layer (int n) l = (None, l')" "layer_holds (take n (h 0)) (st 0) l'" "kind_name l' = kind_name l"
    using truncate_holds [of "h 0" "st 0" l n] Cons.prems [of 0] by auto
  obtain L' where "truncate_layers (int n) L = (None, L')" "length L' = length L"
    "\<forall>i < length L. layer_holds (take n (h (Suc i))) (st (Suc i)) (L' ! i) \<and> kind_name (L' ! i) = kind_name (L ! i)"
    using Cons.IH [of "\<lambda>i. h (Suc i)" "\<lambda>i. st (Suc i)"] Cons.prems by fastforce
  then show ?case using l' by (auto simp: nth_Cons split: nat.split)
qed

lemma same_layers:
  assumes "map kind_name L = kinds" "length L' = length L"
    and "\<forall>i < length L. layer_holds (kv_rows kvr i a) (recur i a) (L' ! i) \<and> kind_name (L' ! i) = kind_name (L ! i)"
  shows "caches_hold kinds kvr recur L' a"
  using assms by (auto simp: caches_hold_def intro!: nth_equalityI)

lemma so_restore_holds:
  assumes "session_snap kinds kvr recur sn a" "caches_hold kinds kvr recur (so_caches so) (a @ us)"
    "caches_low (so_caches so) \<le> length a"
  shows "\<exists>L'. so_restore sn so = (Inr (), so\<lparr> so_caches := L' \<rparr>) \<and> caches_hold kinds kvr recur L' a"
proof -
  obtain L0 where L0: "caches_hold kinds kvr recur L0 a" "sn = map rollback_state L0"
    using assms(1) by (auto simp: session_snap_def)
  let ?L = "so_caches so"
  have "length ?L = length L0" using L0(1) assms(2) by (metis caches_hold_def length_map)
  moreover have "layer_holds (kv_rows kvr i a) (recur i a) (L0 ! i)
      \<and> layer_holds (kv_rows kvr i a @ kv_rows_from kvr i a us) (recur i (a @ us)) (?L ! i)
      \<and> kind_name (?L ! i) = kind_name (L0 ! i) \<and> layer_low (?L ! i) \<le> length (kv_rows kvr i a)" if "i < length ?L" for i
    using caches_holdD [OF L0(1), of i] caches_holdD [OF assms(2) that] assms(3) that calculation
    by (auto simp: caches_low_le kv_rows_append)
  ultimately obtain L' where "restore_layers ?L sn = (None, L')" "length L' = length ?L"
    "\<forall>i < length ?L. layer_holds (kv_rows kvr i a) (recur i a) (L' ! i) \<and> kind_name (L' ! i) = kind_name (?L ! i)"
    unfolding L0(2) using restore_layers_holds [of ?L L0 "\<lambda>i. kv_rows kvr i a" "\<lambda>i. recur i a"
      "\<lambda>i. kv_rows_from kvr i a us" "\<lambda>i. recur i (a @ us)"] by blast
  then show ?thesis using same_layers [of ?L kinds L' kvr a recur] assms(2)
    by (auto simp: so_restore_def cache_result_def caches_hold_def)
qed

lemma attention_states:
  assumes "layer_holds h st l" "is_attention l"
  shows "layer_holds h st2 l"
  using assms by (cases l) auto

lemma so_truncate_holds:
  assumes "caches_hold kinds kvr recur (so_caches so) a" "caches_low (so_caches so) \<le> n" "n \<le> length a"
    "\<not> so_is_hybrid so \<or> n = length a"
  shows "\<exists>L'. so_truncate_target n so = (Inr (), so\<lparr> so_caches := L' \<rparr>) \<and> caches_hold kinds kvr recur L' (take n a)"
proof -
  let ?L = "so_caches so"
  have att: "is_attention (?L ! i) \<or> n = length a" if "i < length ?L" for i
    using assms(4) that by (auto simp: so_is_hybrid_def list_ex_iff)
  have "layer_holds (kv_rows kvr i a) (recur i (take n a)) (?L ! i) \<and> layer_low (?L ! i) \<le> n
      \<and> n \<le> length (kv_rows kvr i a) \<and> (is_attention (?L ! i) \<or> n = length (kv_rows kvr i a))" if "i < length ?L" for i
    using caches_holdD(1) [OF assms(1) that] attention_states [of "kv_rows kvr i a" "recur i a" "?L ! i"]
      att [OF that] assms(2,3) that
    by (auto simp: caches_low_le)
  then obtain L' where "truncate_layers (int n) ?L = (None, L')" "length L' = length ?L"
    "\<forall>i < length ?L. layer_holds (take n (kv_rows kvr i a)) (recur i (take n a)) (L' ! i) \<and> kind_name (L' ! i) = kind_name (?L ! i)"
    using truncate_layers_holds [of ?L "\<lambda>i. kv_rows kvr i a" "\<lambda>i. recur i (take n a)" n] by blast
  then show ?thesis using same_layers [of ?L kinds L' kvr "take n a" recur] assms(1)
    by (auto simp: so_truncate_target_def cache_result_def caches_hold_def kv_rows_take)
qed

section \<open>The prediction module\<close>

lemma map_prod_id_eq: "map_prod id f p = (r, y) \<longleftrightarrow> (\<exists>x. p = (r, x) \<and> y = f x)"
  by (cases p) auto

lemma mtp_truncate_to_kinds:
  "mtp_truncate_to n ls = (r, ls') \<Longrightarrow> list_ex is_attention ls' = list_ex is_attention ls"
proof (induction ls arbitrary: r ls')
  case (Cons l ls)
  then show ?case
    by (cases l) (auto simp: truncate_to_def map_prod_id_eq split: if_splits prod.splits)
qed simp

lemma mtp_truncate_to_pairs:
  "mtp_truncate_to n ls = (None, ls') \<Longrightarrow> list_ex is_attention ls \<Longrightarrow> mtp_pairs_fed ls' = n"
proof (induction ls arbitrary: ls')
  case (Cons l ls)
  then show ?case
    by (cases l) (auto simp: truncate_to_def mtp_pairs_fed_def map_prod_id_eq split: if_splits prod.splits)
qed simp


section \<open>Feeds\<close>

lemma nth_choices: "i < length ids \<Longrightarrow> choices succ a ids ! i = succ (a @ take (Suc i) ids)"
  by (simp add: choices_def)

lemma length_choices [simp]: "length (choices succ a ids) = length ids"
  by (simp add: choices_def)

lemma finish_rows_length: "finish_rows s n v flat ds = Inr ds' \<Longrightarrow> length ds' = length ds + n"
  by (induction s n v flat ds rule: finish_rows.induct) (auto split: sum.splits)

lemma on_device_eq: "on_device f so = (r, so') \<longleftrightarrow> (\<exists>dv. f (so_device so) = (r, dv) \<and> so' = so\<lparr> so_device := dv \<rparr>)"
  by (auto simp: on_device_def split: prod.splits)

lemma session_holds_device [simp]:
  "session_holds kinds kvr recur (so\<lparr> so_device := dv \<rparr>) a = session_holds kinds kvr recur so a"
  by (simp add: session_holds_def)

context session_model
begin

abbreviation "Holds \<equiv> session_holds kinds kvr recur"

text \<open>What a completed forward pass leaves behind; the device state is free.\<close>

definition fed_session :: "token_id list \<Rightarrow> token_id list \<Rightarrow> ('a, 'b, 'd) session_ops \<Rightarrow> ('a, 'b, 'd) session_ops \<Rightarrow> bool" where
  "fed_session a ids so so' \<longleftrightarrow> so_caches so' = feed_layers z kvr recur a ids (so_caches so) \<and> so_mtp so' = so_mtp so"

lemma forward_any_ok:
  assumes "Holds so a" "ids \<noteq> []" "forward_any M ids so = (Inr (hidden, lg), so')"
  shows "fed_session a ids so so'" "lg_rows M lg = int (length ids)" "choice lg = choices succ a ids"
    "(hidden = None \<and> so_mtp so = None) \<or> (\<exists>h. hidden = Some h \<and> length h = length ids)"
proof -
  have h: "caches_hold kinds kvr recur (so_caches so) a" using assms(1) by (simp add: session_holds_def)
  show "fed_session a ids so so'" "lg_rows M lg = int (length ids)" "choice lg = choices succ a ids"
    "(hidden = None \<and> so_mtp so = None) \<or> (\<exists>h. hidden = Some h \<and> length h = length ids)"
    using assms(3) forward_law [OF h assms(2)] hidden_law [OF h assms(2)]
    by (auto simp: forward_any_def fed_session_def split: option.splits prod.splits sum.splits)
qed

lemma materialize_ok:
  assumes "lg_rows M lg = int n" "materialize_dists M lg s dv = (Inr ds, dv')"
  shows "length ds = n" "is_greedy s \<Longrightarrow> ds = map Greedy (choice lg)"
  using assms argmax_law finish_rows_length [of s n]
  by (auto simp: materialize_dists_def Let_def split: option.splits prod.splits sum.splits if_splits)

lemma materialize_failed:
  assumes "is_greedy s" "materialize_dists M lg s dv = (Inl (e, salvage), dv')"
  shows "salvage = []"
  using assms by (auto simp: materialize_dists_def split: option.splits prod.splits sum.splits if_splits)

lemma row_dist_ok:
  assumes "is_greedy s" "0 \<le> j" "nat j < length (choice lg)" "row_dist M lg j v s dv = (Inr di, dv')"
  shows "di = Greedy (choice lg ! nat j)"
  using assms(1,4) row_law [OF _ assms(2,3)] item_law
  by (fastforce simp: row_dist_def split: prod.splits sum.splits)

lemma detach_hidden_ok:
  assumes "detach_hidden M hidden salvage r so = (res, so')"
  shows "so_caches so' = so_caches so \<and> so_mtp so' = so_mtp so
    \<and> (case res of Inr (hs, r') \<Rightarrow> r' = r \<and> (\<forall>h. hidden = Some h \<longrightarrow> length hs = length h)
       | Inl oe \<Rightarrow> \<exists>e. oe = Host e salvage)"
  using assms detach_law
  by (auto simp: detach_hidden_def on_device_eq split: option.splits prod.splits sum.splits)

lemma verify_feed_cases:
  assumes "Holds so a" "ids \<noteq> []" "so_verify_feed M ids s so = (res, so')"
  shows "case res of
      Inr (hs, ds) \<Rightarrow> fed_session a ids so so' \<and> length ds = length ids
        \<and> (so_mtp so \<noteq> None \<longrightarrow> length hs = length ids) \<and> (is_greedy s \<longrightarrow> ds = map Greedy (choices succ a ids))
    | Inl (Host e sv) \<Rightarrow> fed_session a ids so so' \<and> (is_greedy s \<longrightarrow> sv = [] \<or> sv = map Greedy (choices succ a ids))
    | Inl _ \<Rightarrow> True"
proof -
  obtain dv1 where dv1: "dv_from_slice M ids (so_device so) = (None, dv1)"
    using from_slice_law [of ids "so_device so"] by (metis prod.collapse)
  let ?so1 = "so\<lparr> so_device := dv1 \<rparr>"
  have h1: "Holds ?so1 a" using assms(1) by simp
  obtain fr so2 where fr: "forward_any M ids ?so1 = (fr, so2)" by (cases "forward_any M ids ?so1")
  show ?thesis
  proof (cases fr)
    case (Inl e)
    then show ?thesis using assms(3) dv1 fr by (auto simp: so_verify_feed_def on_device_def)
  next
    case (Inr p)
    obtain hidden lg where p: "p = (hidden, lg)" by (cases p)
    note F = forward_any_ok [OF h1 assms(2) fr [unfolded Inr p]]
    obtain mr dv3 where mr: "materialize_dists M lg s (so_device so2) = (mr, dv3)"
      by (cases "materialize_dists M lg s (so_device so2)")
    let ?so3 = "so2\<lparr> so_device := dv3 \<rparr>"
    have fed3: "fed_session a ids so ?so3" using F(1) by (simp add: fed_session_def)
    show ?thesis
    proof (cases mr)
      case (Inl es)
      then have "res = Inl (Host (fst es) (snd es))" "so' = ?so3"
        using assms(3) dv1 fr Inr p mr by (auto simp: so_verify_feed_def on_device_def split: prod.splits)
      then show ?thesis using fed3 materialize_failed [of s lg _ "fst es" "snd es"] mr Inl by auto
    next
      case (Inr ds)
      then have dt: "detach_hidden M hidden ds ds ?so3 = (res, so')"
        using assms(3) dv1 fr \<open>fr = Inr p\<close> p mr by (auto simp: so_verify_feed_def on_device_def)
      note D = detach_hidden_ok [OF dt] and MM = materialize_ok [OF F(2) mr [unfolded Inr]]
      have "fed_session a ids so so'" using D fed3 by (auto simp: fed_session_def)
      then show ?thesis using D MM F(3,4) by (auto split: sum.splits)
    qed
  qed
qed

lemma replay_feed_cases:
  assumes "Holds so a" "ids \<noteq> []" "so_replay_feed M ids w s so = (res, so')"
  shows "case res of
      Inr (hs, od) \<Rightarrow> fed_session a ids so so' \<and> (so_mtp so \<noteq> None \<longrightarrow> length hs = length ids)
        \<and> (w \<and> is_greedy s \<longrightarrow> od = Some (Greedy (succ (a @ ids))))
    | Inl (Host e sv) \<Rightarrow> fed_session a ids so so' \<and> (w \<and> is_greedy s \<longrightarrow> sv = [] \<or> sv = [Greedy (succ (a @ ids))])
    | Inl _ \<Rightarrow> True"
proof -
  obtain dv1 where dv1: "dv_from_slice M ids (so_device so) = (None, dv1)"
    using from_slice_law [of ids "so_device so"] by (metis prod.collapse)
  let ?so1 = "so\<lparr> so_device := dv1 \<rparr>"
  have h1: "Holds ?so1 a" using assms(1) by simp
  obtain fr so2 where fr: "forward_any M ids ?so1 = (fr, so2)" by (cases "forward_any M ids ?so1")
  show ?thesis
  proof (cases fr)
    case (Inl e)
    then show ?thesis using assms(3) dv1 fr by (auto simp: so_replay_feed_def on_device_def)
  next
    case (Inr p)
    obtain hidden lg where p: "p = (hidden, lg)" by (cases p)
    note F = forward_any_ok [OF h1 assms(2) fr [unfolded Inr p]]
    let ?j = "int (length ids) - 1"
    have j: "0 \<le> ?j" "nat ?j < length (choice lg)" using assms(2) F(3) by (cases ids; simp)+
    have last: "choice lg ! nat ?j = succ (a @ ids)"
      using assms(2) F(3) nth_choices [of "length ids - 1" ids succ a] by (cases ids) (simp_all add: nat_diff_distrib)
    have fed2: "fed_session a ids so so2" using F(1) by (simp add: fed_session_def)
    show ?thesis
    proof (cases w)
      case False
      then have dt: "detach_hidden M hidden [] None so2 = (res, so')"
        using assms(3) dv1 fr Inr p by (auto simp: so_replay_feed_def on_device_def)
      note D = detach_hidden_ok [OF dt]
      have "fed_session a ids so so'" using D fed2 by (auto simp: fed_session_def)
      then show ?thesis using D F(4) False by (auto split: sum.splits)
    next
      case True
      obtain rd dv3 where rd: "row_dist M lg ?j (lg_vocab M lg) s (so_device so2) = (rd, dv3)"
        by (cases "row_dist M lg ?j (lg_vocab M lg) s (so_device so2)")
      let ?so3 = "so2\<lparr> so_device := dv3 \<rparr>"
      have fed3: "fed_session a ids so ?so3" using F(1) by (simp add: fed_session_def)
      show ?thesis
      proof (cases rd)
        case (Inl e)
        then have "res = Inl (Host e [])" "so' = ?so3"
          using assms(3) dv1 fr \<open>fr = Inr p\<close> p rd True by (auto simp: so_replay_feed_def on_device_def split: prod.splits)
        then show ?thesis using fed3 by auto
      next
        case (Inr di)
        then have dt: "detach_hidden M hidden [di] (Some di) ?so3 = (res, so')"
          using assms(3) dv1 fr \<open>fr = Inr p\<close> p rd True by (auto simp: so_replay_feed_def on_device_def)
        note D = detach_hidden_ok [OF dt]
        have "is_greedy s \<longrightarrow> di = Greedy (succ (a @ ids))"
          using row_dist_ok [OF _ j] rd Inr last by metis
        moreover have "fed_session a ids so so'" using D fed3 by (auto simp: fed_session_def)
        ultimately show ?thesis using D F(4) by (auto split: sum.splits)
      qed
    qed
  qed
qed

end

end
