(* ===== verification/Session_Rounds.thy ===== *)
theory Session_Rounds
  imports Session_Contract
begin

text \<open>
  Rounds on the real caches: the session operations of a causal model give the driver's contract, so the
  ledger and the exactness of greedy speculation hold of the session itself. A bigram model, with caches
  of every kind and with failures, shows that the laws can hold.
\<close>

section \<open>The contract holds of the session\<close>

context session_round
begin

lemma session_op [simp]:
  "op_is_hybrid (en_ops E) = so_is_hybrid" "op_target_pos (en_ops E) = so_target_pos"
  "op_window_would_trim (en_ops E) = so_window_would_trim" "op_verify_feed (en_ops E) = so_verify_feed M"
  "op_replay_feed (en_ops E) = so_replay_feed M" "op_capture (en_ops E) = so_capture"
  "op_restore (en_ops E) = so_restore" "op_truncate_target (en_ops E) = so_truncate_target"
  "op_mtp_alive (en_ops E) = so_mtp_alive" "op_mtp_pairs (en_ops E) = so_mtp_pairs"
  "op_mtp_step (en_ops E) = so_mtp_step M" "op_mtp_commit (en_ops E) = so_mtp_commit M"
  "op_mtp_truncate (en_ops E) = so_mtp_truncate" "op_mtp_discard (en_ops E) = so_mtp_discard"
  by (simp_all add: ops_law session_round_ops_def)

abbreviation "session_low \<equiv> \<lambda>so. caches_low (so_caches so)"

lemma holds_hybrid: "Holds so a \<Longrightarrow> so_is_hybrid so \<longleftrightarrow> (\<exists>k \<in> set kinds. k \<noteq> ''attention'')"
  using hybrid_kinds [of kinds kvr recur so a] by (simp add: session_holds_def)

lemma same_mtp: "Holds so a \<Longrightarrow> Holds so' b \<Longrightarrow> so_mtp so' = so_mtp so \<Longrightarrow> mtp_same E so so'"
  by (simp add: mtp_same_def so_mtp_alive_def so_mtp_pairs_def holds_hybrid)

lemma same_target: "so_caches so' = so_caches so \<Longrightarrow> target_same E session_low so so'"
  by (simp add: target_same_def so_window_would_trim_def so_is_hybrid_def)

lemma fed_session_fed:
  assumes "Holds so a" "ids \<noteq> []" "fed_session a ids so so'"
  shows "fed E Holds session_low ids a so so'"
proof -
  have h: "caches_hold kinds kvr recur (so_caches so) a" using assms(1) by (simp add: session_holds_def)
  have "Holds so' (a @ ids)"
    using feed_layers_holds [OF h assms(2) states, of z] assms(1,3) by (simp add: session_holds_def fed_session_def)
  then show ?thesis
    using assms(1,3) same_mtp [of so a so' "a @ ids"] feed_layers_untrimmed [OF h assms(2), of _ z]
    by (auto simp: fed_def fed_session_def so_window_would_trim_def)
qed

lemma step_shape:
  assumes "Holds so a" "so_mtp_step M i p s so = (r, so')"
  shows "so_caches so' = so_caches so \<and> (so_mtp so' = None \<longleftrightarrow> so_mtp so = None) \<and> Holds so' a"
  using assms mtp_law [of _ "[p]" "[i]"]
  by (fastforce simp: so_mtp_step_def on_device_def session_holds_def Let_def split: option.splits prod.splits sum.splits)

lemma commit_shape:
  assumes "Holds so a" "so_mtp so \<noteq> None" "length prevs = length ids" "so_mtp_commit M ids prevs so = (rc, so')"
  shows "so_caches so' = so_caches so \<and> so_mtp so' \<noteq> None \<and> Holds so' a
    \<and> (rc = Inr () \<longrightarrow> so_mtp_pairs so' = so_mtp_pairs so + length ids)"
  using assms mtp_law [of _ prevs ids]
  by (fastforce simp: so_mtp_commit_def on_device_def session_holds_def so_mtp_pairs_def
      split: option.splits prod.splits sum.splits if_splits)

lemma mtp_truncate_shape:
  assumes "Holds so a" "so_mtp so \<noteq> None" "so_mtp_truncate n so = (rc, so')"
  shows "so_caches so' = so_caches so \<and> so_mtp so' \<noteq> None \<and> Holds so' a
    \<and> (rc = Inr () \<longrightarrow> so_mtp_pairs so' = n)"
proof -
  obtain ls where ls: "so_mtp so = Some ls" "list_ex is_attention ls" using assms(1,2) by (auto simp: session_holds_def)
  obtain r ls' where t: "mtp_truncate_to n ls = (r, ls')" by (cases "mtp_truncate_to n ls")
  then have "so' = so\<lparr> so_mtp := Some ls' \<rparr>" "rc = Inr () \<longrightarrow> r = None"
    using assms(3) ls(1) by (auto simp: so_mtp_truncate_def cache_result_def split: option.splits)
  then show ?thesis
    using assms(1) ls(2) mtp_truncate_to_kinds [OF t] mtp_truncate_to_pairs [of n ls ls'] t
    by (auto simp: session_holds_def so_mtp_pairs_def)
qed

lemma verify_laws:
  assumes "Holds o1 a" "ids \<noteq> []"
  shows "op_verify_feed (en_ops E) ids s o1 = (Inr (hs, ds), o2) \<Longrightarrow>
      fed E Holds session_low ids a o1 o2 \<and> length ds = length ids
      \<and> (op_mtp_alive (en_ops E) o1 \<longrightarrow> length hs = length ids)
      \<and> (is_greedy s \<longrightarrow> (\<forall>i < length ids. ds ! i = Greedy (succ (a @ take (Suc i) ids))))"
    and "op_verify_feed (en_ops E) ids s o1 = (Inl (Host e sv), o2) \<Longrightarrow>
      fed E Holds session_low ids a o1 o2
      \<and> (is_greedy s \<longrightarrow> (\<forall>di. first_of sv = Some di \<longrightarrow> di = Greedy (succ (a @ [hd ids]))))"
proof -
  note C = verify_feed_cases [OF assms]
  have first: "first_of (map Greedy (choices succ a ids)) = Some (Greedy (succ (a @ [hd ids])))"
    using assms(2) by (cases ids) (simp_all add: choices_def map_upt_Suc del: upt_Suc)
  show "op_verify_feed (en_ops E) ids s o1 = (Inr (hs, ds), o2) \<Longrightarrow>
      fed E Holds session_low ids a o1 o2 \<and> length ds = length ids
      \<and> (op_mtp_alive (en_ops E) o1 \<longrightarrow> length hs = length ids)
      \<and> (is_greedy s \<longrightarrow> (\<forall>i < length ids. ds ! i = Greedy (succ (a @ take (Suc i) ids))))"
    using C [of s "Inr (hs, ds)" o2] fed_session_fed [OF assms] by (auto simp: so_mtp_alive_def nth_choices)
  show "op_verify_feed (en_ops E) ids s o1 = (Inl (Host e sv), o2) \<Longrightarrow>
      fed E Holds session_low ids a o1 o2
      \<and> (is_greedy s \<longrightarrow> (\<forall>di. first_of sv = Some di \<longrightarrow> di = Greedy (succ (a @ [hd ids]))))"
    using C [of s "Inl (Host e sv)" o2] fed_session_fed [OF assms] first by auto
qed

lemma replay_laws:
  assumes "Holds o1 a" "ids \<noteq> []"
  shows "op_replay_feed (en_ops E) ids w s o1 = (Inr (hs, od), o2) \<Longrightarrow>
      fed E Holds session_low ids a o1 o2 \<and> (op_mtp_alive (en_ops E) o1 \<longrightarrow> length hs = length ids)
      \<and> (w \<and> is_greedy s \<longrightarrow> (\<forall>di. od = Some di \<longrightarrow> di = Greedy (succ (a @ ids))))"
    and "op_replay_feed (en_ops E) ids w s o1 = (Inl (Host e sv), o2) \<Longrightarrow>
      fed E Holds session_low ids a o1 o2
      \<and> (w \<and> is_greedy s \<longrightarrow> (\<forall>di. last_of sv = Some di \<longrightarrow> di = Greedy (succ (a @ ids))))"
proof -
  note C = replay_feed_cases [OF assms]
  show "op_replay_feed (en_ops E) ids w s o1 = (Inr (hs, od), o2) \<Longrightarrow>
      fed E Holds session_low ids a o1 o2 \<and> (op_mtp_alive (en_ops E) o1 \<longrightarrow> length hs = length ids)
      \<and> (w \<and> is_greedy s \<longrightarrow> (\<forall>di. od = Some di \<longrightarrow> di = Greedy (succ (a @ ids))))"
    using C [of w s "Inr (hs, od)" o2] fed_session_fed [OF assms] by (auto simp: so_mtp_alive_def)
  show "op_replay_feed (en_ops E) ids w s o1 = (Inl (Host e sv), o2) \<Longrightarrow>
      fed E Holds session_low ids a o1 o2
      \<and> (w \<and> is_greedy s \<longrightarrow> (\<forall>di. last_of sv = Some di \<longrightarrow> di = Greedy (succ (a @ ids))))"
    using C [of w s "Inl (Host e sv)" o2] fed_session_fed [OF assms] by (auto simp: last_of_def)
qed

lemma cut_laws:
  "session_snap kinds kvr recur sn a \<Longrightarrow> Holds o1 (a @ us) \<Longrightarrow> session_low o1 \<le> length a \<Longrightarrow>
      \<exists>o2. op_restore (en_ops E) sn o1 = (Inr (), o2) \<and> Holds o2 a \<and> mtp_same E o1 o2"
  "Holds o1 a \<Longrightarrow> session_low o1 \<le> n \<Longrightarrow> n \<le> length a \<Longrightarrow> \<not> op_is_hybrid (en_ops E) o1 \<or> n = length a \<Longrightarrow>
      \<exists>o2. op_truncate_target (en_ops E) n o1 = (Inr (), o2) \<and> Holds o2 (take n a) \<and> mtp_same E o1 o2"
proof -
  show "\<exists>o2. op_restore (en_ops E) sn o1 = (Inr (), o2) \<and> Holds o2 a \<and> mtp_same E o1 o2"
    if p: "session_snap kinds kvr recur sn a" "Holds o1 (a @ us)" "session_low o1 \<le> length a"
  proof -
    obtain L' where L': "so_restore sn o1 = (Inr (), o1\<lparr> so_caches := L' \<rparr>)" "caches_hold kinds kvr recur L' a"
      using so_restore_holds [OF p(1)] p(2,3) by (auto simp: session_holds_def)
    then have "Holds (o1\<lparr> so_caches := L' \<rparr>) a" using p(2) by (simp add: session_holds_def)
    then show ?thesis using L'(1) same_mtp [OF p(2)] by auto
  qed
  show "\<exists>o2. op_truncate_target (en_ops E) n o1 = (Inr (), o2) \<and> Holds o2 (take n a) \<and> mtp_same E o1 o2"
    if p: "Holds o1 a" "session_low o1 \<le> n" "n \<le> length a" "\<not> op_is_hybrid (en_ops E) o1 \<or> n = length a"
  proof -
    obtain L' where L': "so_truncate_target n o1 = (Inr (), o1\<lparr> so_caches := L' \<rparr>)" "caches_hold kinds kvr recur L' (take n a)"
      using so_truncate_holds [of kinds kvr recur o1 a n] p by (auto simp: session_holds_def)
    then have "Holds (o1\<lparr> so_caches := L' \<rparr>) (take n a)" using p(1) by (simp add: session_holds_def)
    then show ?thesis using L'(1) same_mtp [OF p(1)] by auto
  qed
qed

end

sublocale session_round \<subseteq> rounds: round_contract E Holds "session_snap kinds kvr recur" session_low succ
proof
  fix o1 o2 :: "('a, 'b, 'd) session_ops" and a ids :: "token_id list" and i p n
    and s :: "'g sampler" and r rc and prevs :: "'h list"
  assume h: "Holds o1 a"
  have c: "caches_hold kinds kvr recur (so_caches o1) a" using h by (simp add: session_holds_def)
  show "session_low o1 \<le> length a" using caches_low_holds [OF c] .
  show "op_target_pos (en_ops E) o1 = length a" using target_pos_holds [OF c positioned] by simp
  show "session_snap kinds kvr recur (op_capture (en_ops E) o1) a" using c by (auto simp: session_snap_def so_capture_def)
  show "op_mtp_step (en_ops E) i p s o1 = (r, o2) \<Longrightarrow>
      Holds o2 a \<and> target_same E session_low o1 o2 \<and> op_mtp_alive (en_ops E) o2 = op_mtp_alive (en_ops E) o1"
    using step_shape [OF h, of i p s r o2] same_target by (auto simp: so_mtp_alive_def)
  show "Holds (op_mtp_discard (en_ops E) o1) a \<and> target_same E session_low o1 (op_mtp_discard (en_ops E) o1)
      \<and> \<not> op_mtp_alive (en_ops E) (op_mtp_discard (en_ops E) o1)"
    using c same_target by (auto simp: so_mtp_discard_def so_mtp_alive_def session_holds_def)
  assume al: "op_mtp_alive (en_ops E) o1"
  then have m: "so_mtp o1 \<noteq> None" by (simp add: so_mtp_alive_def)
  show "length prevs = length ids \<Longrightarrow> op_mtp_commit (en_ops E) ids prevs o1 = (rc, o2) \<Longrightarrow>
      Holds o2 a \<and> target_same E session_low o1 o2 \<and> op_mtp_alive (en_ops E) o2
      \<and> (rc = Inr () \<longrightarrow> op_mtp_pairs (en_ops E) o2 = op_mtp_pairs (en_ops E) o1 + length ids)"
    using commit_shape [OF h m, of prevs ids rc o2] same_target by (auto simp: so_mtp_alive_def)
  show "op_mtp_truncate (en_ops E) n o1 = (rc, o2) \<Longrightarrow>
      Holds o2 a \<and> target_same E session_low o1 o2 \<and> op_mtp_alive (en_ops E) o2
      \<and> (rc = Inr () \<longrightarrow> op_mtp_pairs (en_ops E) o2 = n)"
    using mtp_truncate_shape [OF h m, of n rc o2] same_target by (auto simp: so_mtp_alive_def)
qed (rule verify_laws replay_laws cut_laws; assumption)+

context session_round
begin

lemma session_loop:
  assumes "entered E Holds base d" "rd_spec_k d \<noteq> Some 0" "decode_loop E x d = (r, d')"
  shows "r \<noteq> Inl Panic" "r = Inr () \<or> \<not> failed_forward E (rd_ops d') \<Longrightarrow> aligned E Holds base d'"
proof -
  have "rounds.loop_outcome base (r, d')" using rounds.decode_loop_outcome [OF assms(1,2), of x] assms(3) by simp
  then have "r \<noteq> Inl Panic \<and> (r = Inr () \<or> \<not> failed_forward E (rd_ops d') \<longrightarrow> aligned E Holds base d')"
    by (cases r rule: sum.exhaust; cases "projl r"; auto)
  then show "r \<noteq> Inl Panic" "r = Inr () \<or> \<not> failed_forward E (rd_ops d') \<Longrightarrow> aligned E Holds base d'" by blast+
qed

lemma session_loop_greedy:
  assumes "entered E Holds base d" "rd_spec_k d \<noteq> Some 0" "is_greedy (rd_sampler d)" "decode_loop E x d = (Inr (), d')"
  shows "plain_loop (en_tokenizer E) (en_on_token E) succ base x (core d) = (Inr (), core d')"
  by (rule rounds.decode_loop_plain [OF assms])

end

end
