(* ===== verification/Generate.thy ===== *)
theory Generate
  imports Session_Rounds Prompt_Cache Tool_Calls
begin

text \<open>
  One generation call (\<open>Session\<close> in \<open>src/src/engine/generate.rs\<close>): the context check, the lookup in the
  prompt pool, chunked prefill with priming of the prediction module, the decode loop, the insert into
  the pool and the assembly of the reply. Chat template, tokenizer, media preprocessing, forward passes
  and array operations are parameters; the device state \<open>'d\<close> also carries the clock and the caller's
  cancellation flag, which other threads set.
\<close>

section \<open>The engine and its options\<close>

datatype media_kind = Image | Audio | Video

datatype content_part = TextPart | TranslationPart | MediaPart media_kind

record media_placeholder_ids =
  ph_image :: "token_id option"
  ph_audio :: "token_id option"
  ph_video :: "token_id option"

record generate_options =
  go_max_tokens :: nat
  go_context_tokens :: nat
  go_sampling :: sampling_config
  go_enable_thinking :: "bool option"
  go_reasoning_budget_tokens :: "nat option"
  go_prompt_cache :: "bool option"
  go_speculative_tokens :: "nat option"

definition default_options :: generate_options where
  "default_options =
     \<lparr> go_max_tokens = 256, go_context_tokens = 16384, go_sampling = default_sampling,
       go_enable_thinking = None, go_reasoning_budget_tokens = None, go_prompt_cache = None,
       go_speculative_tokens = None \<rparr>"

text \<open>
  \<open>eg_expand_media\<close> preprocesses the attachments and expands their placeholders; \<open>eg_render\<close> is the chat
  template, its flag the generation prompt.
\<close>

record ('a, 'b, 'h, 'l, 'd, 'm, 'msg, 'g) engine =
  eg_model :: "('a, 'b, 'h, 'l, 'd) session_env"
  eg_new_caches :: "('a, 'b) layers"
  eg_new_mtp_caches :: "('a, 'b) layers"
  eg_forward_media :: "token_id list \<Rightarrow> 'm list \<Rightarrow> 'm list \<Rightarrow> bool \<Rightarrow> ('a, 'b) layers \<Rightarrow> 'd
    \<Rightarrow> (engine_error + 'l) \<times> ('a, 'b) layers \<times> 'd"
  eg_eval_last :: "'l \<Rightarrow> 'd \<Rightarrow> engine_error option \<times> 'd"
  eg_eval_hidden :: "'h \<Rightarrow> 'd \<Rightarrow> engine_error option \<times> 'd"
  eg_slice_rows :: "nat \<Rightarrow> nat \<Rightarrow> 'h list \<Rightarrow> 'd \<Rightarrow> (engine_error + 'h list) \<times> 'd"
  eg_cancelled :: "'d \<Rightarrow> bool \<times> 'd"
  eg_now :: "'d \<Rightarrow> nat \<times> 'd"
  eg_tokenizer :: tokenizer
  eg_decode_raw :: "token_id list \<Rightarrow> engine_error + str"
  eg_eos_ids :: "token_id list"
  eg_format :: tool_call_format
  eg_render :: "'msg list \<Rightarrow> bool \<Rightarrow> tool list option \<Rightarrow> bool option \<Rightarrow> engine_error + str"
  eg_content :: "'msg \<Rightarrow> content_part list"
  eg_vision :: bool
  eg_placeholders :: media_placeholder_ids
  eg_expand_media :: "'msg list \<Rightarrow> token_id list \<Rightarrow> (nat \<times> nat) option \<Rightarrow> bool \<Rightarrow> 'd
    \<Rightarrow> (engine_error + token_id list \<times> 'm list \<times> 'm list) \<times> 'd"
  eg_mtp_certified :: bool
  eg_context_limit :: "nat option"
  eg_gen :: "'g uniform"
  eg_rng :: "sampling_config \<Rightarrow> 'd \<Rightarrow> 'g \<times> 'd"
  eg_from_str :: json_parser
  eg_debug :: bool


section \<open>Steps on the working state\<close>

text \<open>What prefill works on: the target caches, the prediction module's state, the device.\<close>

record ('a, 'b, 'h, 'd) work =
  wk_caches :: "('a, 'b) layers"
  wk_mtp :: "(('a, 'b) layers \<times> 'h) option"
  wk_device :: 'd

type_synonym ('w, 'x) step = "'w \<Rightarrow> (exit + 'x) \<times> 'w"

definition ok :: "'x \<Rightarrow> ('w, 'x) step" where
  "ok x w = (Inr x, w)"

definition fail :: "engine_error \<Rightarrow> ('w, 'x) step" where
  "fail e w = (Inl (Error e), w)"

definition and_then :: "('w, 'x) step \<Rightarrow> ('x \<Rightarrow> ('w, 'y) step) \<Rightarrow> ('w, 'y) step" where
  "and_then m k w = (case m w of (Inl e, w) \<Rightarrow> (Inl e, w) | (Inr x, w) \<Rightarrow> k x w)"

definition lift_result :: "engine_error + 'x \<Rightarrow> exit + 'x" where
  "lift_result r = (case r of Inl e \<Rightarrow> Inl (Error e) | Inr x \<Rightarrow> Inr x)"

text \<open>An operation of the device: with a value, and without one.\<close>

definition device :: "('d \<Rightarrow> (engine_error + 'x) \<times> 'd) \<Rightarrow> (('a, 'b, 'h, 'd) work, 'x) step" where
  "device f w = (case f (wk_device w) of (r, dv) \<Rightarrow> (lift_result r, w\<lparr> wk_device := dv \<rparr>))"

definition device_unit :: "('d \<Rightarrow> engine_error option \<times> 'd) \<Rightarrow> (('a, 'b, 'h, 'd) work, unit) step" where
  "device_unit f =
     device (\<lambda>dv. case f dv of (Some e, dv) \<Rightarrow> (Inl e, dv) | (None, dv) \<Rightarrow> (Inr (), dv))"

text \<open>\<open>Cancellation::checkpoint\<close>: only a cooperative caller is asked.\<close>

definition checkpoint_on :: "('d \<Rightarrow> bool \<times> 'd) \<Rightarrow> bool \<Rightarrow> 'd \<Rightarrow> engine_error option \<times> 'd" where
  "checkpoint_on cancelled cooperative dv =
     (if cooperative then (case cancelled dv of (c, dv) \<Rightarrow> (if c then Some ECancelled else None, dv))
      else (None, dv))"

definition checkpoint ::
  "('a, 'b, 'h, 'l, 'd, 'm, 'msg, 'g) engine \<Rightarrow> bool \<Rightarrow> (('a, 'b, 'h, 'd) work, unit) step" where
  "checkpoint G cooperative = device_unit (checkpoint_on (eg_cancelled G) cooperative)"


section \<open>Sampling the first token\<close>

text \<open>\<open>Sampler::sample\<close>; the exact arithmetic has no rounding, so the mass check is the sign check.\<close>

definition sample_filtered :: "'g uniform \<Rightarrow> rat list \<Rightarrow> 'g sampler \<Rightarrow> (engine_error + token_id) \<times> 'g sampler" where
  "sample_filtered gen row_probs s =
     (case validate_probability_mass row_probs ''sample()'' ''softmax'' of
        Inl e \<Rightarrow> (Inl e, s)
      | Inr _ \<Rightarrow>
          (let cfg = smp_config s;
               row_probs = (case cfg_top_k cfg of
                 Some k \<Rightarrow> (if k > 0 then top_k_filter row_probs (nat k) else row_probs) | None \<Rightarrow> row_probs);
               row_probs = (if cfg_top_p cfg < 1 then top_p_filter row_probs (cfg_top_p cfg) else row_probs);
               mass = sum_list row_probs
           in if mass \<le> 0 then (Inl (spec_err ''sample() invariant violated: post-filter mass''), s)
           else case gen (smp_rng s) of
             (u, g) \<Rightarrow>
               (Inr (word_of_nat (case cdf_walk (u * mass) 0 row_probs of
                                    Some i \<Rightarrow> i | None \<Rightarrow> last_max 0 None row_probs)),
                s\<lparr> smp_rng := g \<rparr>)))"

definition sample ::
  "('a, 'b, 'h, 'l, 'd, 'm, 'msg, 'g) engine \<Rightarrow> 'l \<Rightarrow> 'g sampler
    \<Rightarrow> (('a, 'b, 'h, 'd) work, token_id \<times> 'g sampler) step" where
  "sample G logits s =
     (if is_greedy s then
        and_then (device (dv_item (eg_model G) logits)) (\<lambda>t. ok (t, s))
      else
        and_then (device (dv_softmax (eg_model G) (cfg_temperature (smp_config s)) logits)) (\<lambda>row_probs.
          case sample_filtered (eg_gen G) row_probs s of
            (Inl e, s) \<Rightarrow> fail e
          | (Inr t, s) \<Rightarrow> ok (t, s)))"

definition sample_last ::
  "('a, 'b, 'h, 'l, 'd, 'm, 'msg, 'g) engine \<Rightarrow> 'l \<Rightarrow> 'g sampler
    \<Rightarrow> (('a, 'b, 'h, 'd) work, token_id \<times> 'g sampler) step" where
  "sample_last G logits s =
     and_then (device (dv_row (eg_model G) logits (lg_rows (eg_model G) logits - 1) (lg_vocab (eg_model G) logits)))
       (\<lambda>last. sample G last s)"


section \<open>Prefill\<close>

definition PREFILL_CHUNK_TOKENS :: nat where
  "PREFILL_CHUNK_TOKENS = 512"

text \<open>\<open>slice::chunks\<close>, which panics on a chunk size of 0; the size is positive here.\<close>

function chunks :: "nat \<Rightarrow> 'x list \<Rightarrow> 'x list list" where
  "chunks n xs = (if xs = [] \<or> n = 0 then [] else take n xs # chunks n (drop n xs))"
  by pat_completeness auto
termination by (relation "measure (\<lambda>(n, xs). length xs)") auto

declare chunks.simps [simp del]

definition div_ceil :: "nat \<Rightarrow> nat \<Rightarrow> nat" where
  "div_ceil n m = (n + m - 1) div m"

definition empty_suffix :: engine_error where
  "empty_suffix = EModel ''cannot prefill an empty prompt suffix''"

fun prefill_loop ::
  "('w, unit) step \<Rightarrow> (token_id list \<Rightarrow> bool \<Rightarrow> ('w, 'x) step) \<Rightarrow> nat \<Rightarrow> nat \<Rightarrow> token_id list list \<Rightarrow> 'x option
    \<Rightarrow> ('w, 'x) step" where
  "prefill_loop check forward chunk_count index [] out =
     (case out of None \<Rightarrow> fail empty_suffix | Some x \<Rightarrow> ok x)"
| "prefill_loop check forward chunk_count index (c # cs) out =
     and_then check (\<lambda>_.
     and_then (forward c (index + 1 = chunk_count)) (\<lambda>x.
     and_then check (\<lambda>_.
       prefill_loop check forward chunk_count (index + 1) cs (Some x))))"

definition run_prefill_chunks ::
  "bool \<Rightarrow> ('w, unit) step \<Rightarrow> token_id list \<Rightarrow> (token_id list \<Rightarrow> bool \<Rightarrow> ('w, 'x) step) \<Rightarrow> ('w, 'x) step" where
  "run_prefill_chunks cooperative check prompt_ids forward =
     (if prompt_ids = [] then fail empty_suffix
      else let chunk_tokens = (if cooperative then PREFILL_CHUNK_TOKENS else length prompt_ids) in
        prefill_loop check forward (div_ceil (length prompt_ids) chunk_tokens) 0 (chunks chunk_tokens prompt_ids) None)"

text \<open>The batch dimension of the logits is 1 by construction.\<close>

definition eval_last_logits ::
  "('a, 'b, 'h, 'l, 'd, 'm, 'msg, 'g) engine \<Rightarrow> 'l \<Rightarrow> (('a, 'b, 'h, 'd) work, unit) step" where
  "eval_last_logits G logits =
     (if lg_ndim (eg_model G) logits \<noteq> 3 \<or> lg_rows (eg_model G) logits \<le> 0 \<or> lg_vocab (eg_model G) logits \<le> 0
      then fail (EModel ''prefill produced invalid logits shape'')
      else device_unit (eg_eval_last G logits))"

definition check_i32 :: "str \<Rightarrow> nat \<Rightarrow> ('w, unit) step" where
  "check_i32 msg n = (if n < 2 ^ 31 then ok () else fail (EModel msg))"

text \<open>Natural numbers evaluate in unary; the bounds compare as integers.\<close>

lemma check_i32_code [code]: "check_i32 msg n = (if int n < 2147483648 then ok () else fail (EModel msg))"
  by (simp add: check_i32_def)

text \<open>A forward pass over the target caches, without and with hidden rows.\<close>

definition forward ::
  "('a, 'b, 'h, 'l, 'd, 'm, 'msg, 'g) engine \<Rightarrow> token_id list \<Rightarrow> (('a, 'b, 'h, 'd) work, 'l) step" where
  "forward G ids w =
     (case md_forward (eg_model G) ids (wk_caches w) (wk_device w) of
        (r, caches, dv) \<Rightarrow> (lift_result r, w\<lparr> wk_caches := caches, wk_device := dv \<rparr>))"

definition forward_hidden ::
  "('a, 'b, 'h, 'l, 'd, 'm, 'msg, 'g) engine \<Rightarrow> token_id list \<Rightarrow> (('a, 'b, 'h, 'd) work, 'h list \<times> 'l) step" where
  "forward_hidden G ids w =
     (case md_forward_hidden (eg_model G) ids (wk_caches w) (wk_device w) of
        (r, caches, dv) \<Rightarrow> (lift_result r, w\<lparr> wk_caches := caches, wk_device := dv \<rparr>))"

definition prefill_plain ::
  "('a, 'b, 'h, 'l, 'd, 'm, 'msg, 'g) engine \<Rightarrow> bool \<Rightarrow> token_id list \<Rightarrow> (('a, 'b, 'h, 'd) work, 'l) step" where
  "prefill_plain G cooperative prompt_ids =
     run_prefill_chunks cooperative (checkpoint G cooperative) prompt_ids (\<lambda>chunk is_last.
       and_then (check_i32 ''prefill chunk length exceeds i32'' (length chunk)) (\<lambda>_.
       and_then (device_unit (dv_from_slice (eg_model G) chunk)) (\<lambda>_.
       and_then (forward G chunk) (\<lambda>logits.
       and_then (if is_last then ok () else eval_last_logits G logits) (\<lambda>_. ok logits)))))"

text \<open>One step of the prediction module, whose cache-producing part is evaluated at once.\<close>

definition forward_mtp ::
  "('a, 'b, 'h, 'l, 'd, 'm, 'msg, 'g) engine \<Rightarrow> token_id list \<Rightarrow> 'h list \<Rightarrow> ('a, 'b) layers
    \<Rightarrow> (('a, 'b, 'h, 'd) work, ('a, 'b) layers) step" where
  "forward_mtp G ids prev module_caches w =
     (case md_forward_mtp (eg_model G) ids prev module_caches (wk_device w) of
        (Inl e, _, dv) \<Rightarrow> (Inl (Error e), w\<lparr> wk_device := dv \<rparr>)
      | (Inr (recycle_hidden, _), module_caches, dv) \<Rightarrow>
          and_then (device_unit (eg_eval_hidden G recycle_hidden)) (\<lambda>_. ok module_caches) (w\<lparr> wk_device := dv \<rparr>))"

text \<open>The last row of the block, detached on its own.\<close>

definition detach_frontier ::
  "('a, 'b, 'h, 'l, 'd, 'm, 'msg, 'g) engine \<Rightarrow> nat \<Rightarrow> 'h list \<Rightarrow> (('a, 'b, 'h, 'd) work, 'h) step" where
  "detach_frontier G len block =
     and_then (device (eg_slice_rows G (len - 1) len block)) (\<lambda>last.
       case first_of last of
         None \<Rightarrow> fail (EModel ''empty frontier row'')
       | Some h \<Rightarrow> device (dv_recycle (eg_model G) h))"

definition prime_mtp ::
  "('a, 'b, 'h, 'l, 'd, 'm, 'msg, 'g) engine \<Rightarrow> bool \<Rightarrow> token_id list \<Rightarrow> 'h list
    \<Rightarrow> (('a, 'b, 'h, 'd) work, ('a, 'b) layers \<times> 'h) step" where
  "prime_mtp G cooperative prompt_ids hidden =
     (let len = length prompt_ids in
      and_then (device (dv_detach (eg_model G) hidden)) (\<lambda>block.
      and_then (checkpoint G cooperative) (\<lambda>_.
      and_then
        (if len \<ge> 2 then
           and_then (device (eg_slice_rows G 0 (len - 1) block)) (\<lambda>prev.
           and_then (device_unit (dv_from_slice (eg_model G) (tl prompt_ids))) (\<lambda>_.
           and_then (forward_mtp G (tl prompt_ids) prev (eg_new_mtp_caches G)) (\<lambda>module_caches.
           and_then (checkpoint G cooperative) (\<lambda>_. ok module_caches))))
         else ok (eg_new_mtp_caches G)) (\<lambda>module_caches.
      and_then (detach_frontier G len block) (\<lambda>frontier.
      and_then (checkpoint G cooperative) (\<lambda>_. ok (module_caches, frontier)))))))"

definition prime_mtp_resume ::
  "('a, 'b, 'h, 'l, 'd, 'm, 'msg, 'g) engine \<Rightarrow> bool \<Rightarrow> ('a, 'b) layers \<times> 'h \<Rightarrow> token_id list \<Rightarrow> 'h list
    \<Rightarrow> (('a, 'b, 'h, 'd) work, ('a, 'b) layers \<times> 'h) step" where
  "prime_mtp_resume G cooperative mtp suffix_ids hidden =
     (let module_caches = fst mtp; frontier = snd mtp; len = length suffix_ids in
      and_then (device (dv_detach (eg_model G) hidden)) (\<lambda>block.
      and_then (checkpoint G cooperative) (\<lambda>_.
      and_then
        (if len \<ge> 2 then
           and_then (device (eg_slice_rows G 0 (len - 1) block)) (\<lambda>head.
           and_then (device_unit (dv_concatenate (eg_model G) (frontier # head))) (\<lambda>_. ok (frontier # head)))
         else ok [frontier]) (\<lambda>prev.
      and_then (device_unit (dv_from_slice (eg_model G) suffix_ids)) (\<lambda>_.
      and_then (forward_mtp G suffix_ids prev module_caches) (\<lambda>module_caches.
      and_then (checkpoint G cooperative) (\<lambda>_.
      and_then (detach_frontier G len block) (\<lambda>new_frontier.
      and_then (checkpoint G cooperative) (\<lambda>_. ok (module_caches, new_frontier))))))))))"

text \<open>\<open>mtp.take()\<close> before the chunk is primed, and the new state after.\<close>

definition prime_chunk ::
  "('a, 'b, 'h, 'l, 'd, 'm, 'msg, 'g) engine \<Rightarrow> bool \<Rightarrow> token_id list \<Rightarrow> 'h list \<Rightarrow> (('a, 'b, 'h, 'd) work, unit) step" where
  "prime_chunk G cooperative chunk hidden w =
     and_then (case wk_mtp w of
                 Some state \<Rightarrow> prime_mtp_resume G cooperative state chunk hidden
               | None \<Rightarrow> prime_mtp G cooperative chunk hidden)
       (\<lambda>state w. (Inr (), w\<lparr> wk_mtp := Some state \<rparr>)) (w\<lparr> wk_mtp := None \<rparr>)"

definition prefill_mtp ::
  "('a, 'b, 'h, 'l, 'd, 'm, 'msg, 'g) engine \<Rightarrow> bool \<Rightarrow> token_id list \<Rightarrow> (('a, 'b) layers \<times> 'h) option
    \<Rightarrow> (('a, 'b, 'h, 'd) work, 'l \<times> (('a, 'b) layers \<times> 'h)) step" where
  "prefill_mtp G cooperative prompt_ids initial_mtp w =
     and_then
       (run_prefill_chunks cooperative (checkpoint G cooperative) prompt_ids (\<lambda>chunk is_last.
         and_then (check_i32 ''MTP prefill chunk length exceeds i32'' (length chunk)) (\<lambda>_.
         and_then (device_unit (dv_from_slice (eg_model G) chunk)) (\<lambda>_.
         and_then (forward_hidden G chunk) (\<lambda>(hidden, logits).
         and_then (if is_last then ok () else eval_last_logits G logits) (\<lambda>_.
         and_then (prime_chunk G cooperative chunk hidden) (\<lambda>_. ok logits)))))))
       (\<lambda>logits w. case wk_mtp w of
          None \<Rightarrow> fail (EModel ''MTP prefill produced no state'') w
        | Some mtp \<Rightarrow> ok (logits, mtp) w) (w\<lparr> wk_mtp := initial_mtp \<rparr>)"

definition prefill_prompt ::
  "('a, 'b, 'h, 'l, 'd, 'm, 'msg, 'g) engine \<Rightarrow> bool \<Rightarrow> token_id list \<Rightarrow> 'g sampler \<Rightarrow> bool
    \<Rightarrow> (('a, 'b, 'h, 'd) work, (token_id \<times> 'g sampler) \<times> (('a, 'b) layers \<times> 'h) option) step" where
  "prefill_prompt G cooperative prompt_ids s speculate =
     (if \<not> speculate then
        and_then (prefill_plain G cooperative prompt_ids) (\<lambda>logits.
        and_then (sample_last G logits s) (\<lambda>first. ok (first, None)))
      else
        and_then (prefill_mtp G cooperative prompt_ids None) (\<lambda>(logits, state).
        and_then (sample_last G logits s) (\<lambda>first.
        and_then (checkpoint G cooperative) (\<lambda>_. ok (first, Some state)))))"

definition prefill_resume ::
  "('a, 'b, 'h, 'l, 'd, 'm, 'msg, 'g) engine \<Rightarrow> bool \<Rightarrow> token_id list \<Rightarrow> 'g sampler \<Rightarrow> ('a, 'b) layers \<times> 'h
    \<Rightarrow> (('a, 'b, 'h, 'd) work, (token_id \<times> 'g sampler) \<times> (('a, 'b) layers \<times> 'h) option) step" where
  "prefill_resume G cooperative suffix_ids s mtp =
     and_then (prefill_mtp G cooperative suffix_ids (Some mtp)) (\<lambda>(logits, state).
     and_then (sample_last G logits s) (\<lambda>first.
     and_then (checkpoint G cooperative) (\<lambda>_. ok (first, Some state))))"


section \<open>The decode loop of a session\<close>

record ('a, 'b, 'h) decode_outcome =
  do_emitted :: "token_id list"
  do_committed_len :: nat
  do_speculation :: "speculation_stats option"
  do_mtp :: "('a, 'b, 'h) mtp_state option"
  do_reasoning_forced_closed :: bool

definition driver_env ::
  "('a, 'b, 'h, 'l, 'd, 'm, 'msg, 'g) engine \<Rightarrow> 'c callback
    \<Rightarrow> (('a, 'b, 'd) session_ops, 'h, 'b layer_rollback list, 'g, 'c) round_env" where
  "driver_env G on_token =
     \<lparr> en_ops = session_round_ops (eg_model G), en_tokenizer = eg_tokenizer G, en_on_token = on_token,
       en_gen = eg_gen G, en_debug = eg_debug G \<rparr>"

definition decode_classifier :: "tool_call_format \<Rightarrow> marker_pair option \<Rightarrow> stream_classifier" where
  "decode_classifier fmt pending =
     (case pending of None \<Rightarrow> sc_new fmt | Some (_, close) \<Rightarrow> seed_reasoning close (sc_new fmt))"

definition decode_budget :: "nat option \<Rightarrow> marker_pair option \<Rightarrow> reasoning_budget option" where
  "decode_budget budget_tokens pending =
     (case map_option rb_new budget_tokens of
        None \<Rightarrow> None
      | Some b \<Rightarrow> Some (case pending of None \<Rightarrow> b | Some pair \<Rightarrow> seed_open pair b))"

definition decode_start ::
  "('a, 'b, 'h, 'l, 'd, 'm, 'msg, 'g) engine \<Rightarrow> ('a, 'b) layers \<Rightarrow> 'g sampler \<Rightarrow> generate_options \<Rightarrow> marker_pair option
    \<Rightarrow> (('a, 'b) layers \<times> 'h) option \<Rightarrow> 'c \<Rightarrow> 'd \<Rightarrow> (('a, 'b, 'd) session_ops, 'h, 'g, 'c) driver" where
  "decode_start G caches s options pending mtp client dv =
     (let frontier = map_option snd mtp in
      rd_new \<lparr> so_caches = caches, so_mtp = map_option fst mtp, so_device = dv \<rparr>
        (te_new (eg_eos_ids G) (decode_classifier (eg_format G) pending) client)
        (decode_budget (go_reasoning_budget_tokens options) pending) s (go_max_tokens options)
        (if frontier \<noteq> None then resolve_speculative_tokens (go_speculative_tokens options) else None) frontier)"

text \<open>
  The hand-off of the prediction module: a frontier that cannot be detached drops it. The caller's state
  comes back with the outcome: the final flush may have called it once more.
\<close>

definition decode_mtp ::
  "('a, 'b, 'h, 'l, 'd, 'm, 'msg, 'g) engine \<Rightarrow> ('a, 'b) layers option \<Rightarrow> 'h option \<Rightarrow> 'd
    \<Rightarrow> ('a, 'b, 'h) mtp_state option \<times> 'd" where
  "decode_mtp G mtp frontier dv =
     (case (mtp, frontier) of
        (Some caches, Some frontier) \<Rightarrow>
          (case dv_recycle (eg_model G) frontier dv of
             (Inr h, dv) \<Rightarrow> (Some \<lparr> mtp_caches = caches, mtp_pairs = mtp_pairs_fed caches, mtp_frontier = h \<rparr>, dv)
           | (Inl _, dv) \<Rightarrow> (None, dv))
      | _ \<Rightarrow> (None, dv))"

definition decode_finish ::
  "('a, 'b, 'h, 'l, 'd, 'm, 'msg, 'g) engine \<Rightarrow> 'c callback \<Rightarrow> (('a, 'b, 'd) session_ops, 'h, 'g, 'c) driver
    \<Rightarrow> (('a, 'b, 'h) decode_outcome \<times> 'c) \<times> ('a, 'b) layers \<times> 'd" where
  "decode_finish G on_token d =
     (case rd_finish (driver_env G on_token) d of
        (ids, committed_len, stats, ops, frontier) \<Rightarrow>
          (case decode_mtp G (so_mtp ops) frontier (so_device ops) of
             (mtp, dv) \<Rightarrow>
               ((\<lparr> do_emitted = ids, do_committed_len = committed_len,
                   do_speculation = (if ss_rounds stats > 0 \<or> ss_drafted stats > 0 then Some stats else None),
                   do_mtp = mtp, do_reasoning_forced_closed = rd_forced_closed d \<rparr>,
                 te_client (snd (into_emitted on_token (rd_emitter d)))), so_caches ops, dv)))"

definition session_decode ::
  "('a, 'b, 'h, 'l, 'd, 'm, 'msg, 'g) engine \<Rightarrow> 'c callback \<Rightarrow> token_id \<Rightarrow> 'g sampler \<Rightarrow> generate_options
    \<Rightarrow> marker_pair option \<Rightarrow> (('a, 'b) layers \<times> 'h) option \<Rightarrow> 'c
    \<Rightarrow> (('a, 'b, 'h, 'd) work, ('a, 'b, 'h) decode_outcome \<times> 'c) step" where
  "session_decode G on_token first s options pending mtp client w =
     (case decode_loop (driver_env G on_token) first
         (decode_start G (wk_caches w) s options pending mtp client (wk_device w)) of
        (Inl e, d) \<Rightarrow> (Inl e, w\<lparr> wk_caches := so_caches (rd_ops d), wk_device := so_device (rd_ops d) \<rparr>)
      | (Inr _, d) \<Rightarrow>
          (case decode_finish G on_token d of
             (res, caches, dv) \<Rightarrow> (Inr res, w\<lparr> wk_caches := caches, wk_device := dv \<rparr>)))"

definition sampler_new ::
  "('a, 'b, 'h, 'l, 'd, 'm, 'msg, 'g) engine \<Rightarrow> sampling_config \<Rightarrow> (('a, 'b, 'h, 'd) work, 'g sampler) step" where
  "sampler_new G config =
     device (\<lambda>dv. case eg_rng G config dv of (g, dv) \<Rightarrow> (Inr \<lparr> smp_config = config, smp_rng = g \<rparr>, dv))"

definition may_speculate :: "('a, 'b, 'h, 'l, 'd, 'm, 'msg, 'g) engine \<Rightarrow> generate_options \<Rightarrow> ('a, 'b) layers \<Rightarrow> bool" where
  "may_speculate G options caches \<longleftrightarrow>
     resolve_speculative_tokens (go_speculative_tokens options) \<noteq> None \<and> eg_mtp_certified G
     \<and> list_all layer_is_pristine caches"

text \<open>The prefill over media, one forward pass of the model that splices the features in.\<close>

definition forward_media ::
  "('a, 'b, 'h, 'l, 'd, 'm, 'msg, 'g) engine \<Rightarrow> bool \<Rightarrow> token_id list \<Rightarrow> 'm list \<times> 'm list \<Rightarrow> (('a, 'b, 'h, 'd) work, 'l) step" where
  "forward_media G cooperative ids media w =
     (case eg_forward_media G ids (fst media) (snd media) cooperative (wk_caches w) (wk_device w) of
        (r, caches, dv) \<Rightarrow> (lift_result r, w\<lparr> wk_caches := caches, wk_device := dv \<rparr>))"

definition media_prefill ::
  "('a, 'b, 'h, 'l, 'd, 'm, 'msg, 'g) engine \<Rightarrow> bool \<Rightarrow> token_id list \<Rightarrow> 'm list \<times> 'm list \<Rightarrow> 'g sampler
    \<Rightarrow> (('a, 'b, 'h, 'd) work, (token_id \<times> 'g sampler) \<times> (('a, 'b) layers \<times> 'h) option) step" where
  "media_prefill G cooperative ids media s =
     and_then (checkpoint G cooperative) (\<lambda>_.
     and_then (device_unit (dv_from_slice (eg_model G) ids)) (\<lambda>_.
     and_then (forward_media G cooperative ids media) (\<lambda>logits.
     and_then (sample_last G logits s) (\<lambda>first.
     and_then (checkpoint G cooperative) (\<lambda>_. ok (first, None))))))"

definition generate_with_media_inner ::
  "('a, 'b, 'h, 'l, 'd, 'm, 'msg, 'g) engine \<Rightarrow> bool \<Rightarrow> 'c callback \<Rightarrow> token_id list \<Rightarrow> 'm list \<times> 'm list
    \<Rightarrow> generate_options \<Rightarrow> marker_pair option \<Rightarrow> (('a, 'b) layers \<times> 'h) option \<Rightarrow> 'c
    \<Rightarrow> (('a, 'b, 'h, 'd) work, ('a, 'b, 'h) decode_outcome \<times> 'c) step" where
  "generate_with_media_inner G cooperative on_token ids media options pending resume_mtp client =
     and_then (checkpoint G cooperative) (\<lambda>_.
     and_then (sampler_new G (go_sampling options)) (\<lambda>s.
     and_then
       (if media = ([], []) then
          (case resume_mtp of
             Some state \<Rightarrow> prefill_resume G cooperative ids s state
           | None \<Rightarrow> (\<lambda>w. prefill_prompt G cooperative ids s (may_speculate G options (wk_caches w)) w))
        else media_prefill G cooperative ids media s) (\<lambda>((first, s), mtp).
     and_then (checkpoint G cooperative) (\<lambda>_.
       session_decode G on_token first s options pending mtp client))))"

definition generate_with_caches ::
  "('a, 'b, 'h, 'l, 'd, 'm, 'msg, 'g) engine \<Rightarrow> 'c callback \<Rightarrow> token_id list \<Rightarrow> generate_options \<Rightarrow> 'c
    \<Rightarrow> (('a, 'b, 'h, 'd) work, token_id list \<times> 'c) step" where
  "generate_with_caches G on_token ids options client =
     and_then (sampler_new G (go_sampling options)) (\<lambda>s.
     and_then (\<lambda>w. prefill_prompt G False ids s (may_speculate G options (wk_caches w)) w) (\<lambda>((first, s), mtp).
     and_then (session_decode G on_token first s options None mtp client) (\<lambda>(out, client).
       ok (do_emitted out, client))))"

definition generate ::
  "('a, 'b, 'h, 'l, 'd, 'm, 'msg, 'g) engine \<Rightarrow> 'c callback \<Rightarrow> token_id list \<Rightarrow> generate_options \<Rightarrow> 'c
    \<Rightarrow> 'd \<Rightarrow> (exit + token_id list \<times> 'c) \<times> ('a, 'b, 'h, 'd) work" where
  "generate G on_token ids options client dv =
     generate_with_caches G on_token ids options client \<lparr> wk_caches = eg_new_caches G, wk_mtp = None, wk_device = dv \<rparr>"


definition generate_with_media ::
  "('a, 'b, 'h, 'l, 'd, 'm, 'msg, 'g) engine \<Rightarrow> 'c callback \<Rightarrow> token_id list \<Rightarrow> 'm list \<times> 'm list \<Rightarrow> generate_options
    \<Rightarrow> 'c \<Rightarrow> (('a, 'b, 'h, 'd) work, token_id list \<times> 'c) step" where
  "generate_with_media G on_token ids media options client =
     and_then (generate_with_media_inner G False on_token ids media options None None client) (\<lambda>(out, client).
       ok (do_emitted out, client))"

definition generate_media ::
  "('a, 'b, 'h, 'l, 'd, 'm, 'msg, 'g) engine \<Rightarrow> 'c callback \<Rightarrow> token_id list \<Rightarrow> 'm list \<times> 'm list \<Rightarrow> generate_options
    \<Rightarrow> 'c \<Rightarrow> 'd \<Rightarrow> (exit + token_id list \<times> 'c) \<times> ('a, 'b, 'h, 'd) work" where
  "generate_media G on_token ids media options client dv =
     generate_with_media G on_token ids media options client
       \<lparr> wk_caches = eg_new_caches G, wk_mtp = None, wk_device = dv \<rparr>"


section \<open>Encoding the prompt\<close>

fun content_part_media_kind :: "content_part \<Rightarrow> media_kind option" where
  "content_part_media_kind (MediaPart k) = Some k"
| "content_part_media_kind _ = None"

definition known_placeholders :: "media_placeholder_ids \<Rightarrow> (media_kind \<times> token_id option) list" where
  "known_placeholders ids = [(Image, ph_image ids), (Audio, ph_audio ids), (Video, ph_video ids)]"

text \<open>Two kinds with the same placeholder are refused once the prompt or an attachment makes it matter.\<close>

fun ambiguous_placeholder ::
  "media_kind list \<Rightarrow> token_id list \<Rightarrow> (media_kind \<times> token_id option) list \<Rightarrow> bool" where
  "ambiguous_placeholder attachments prompt_ids [] = False"
| "ambiguous_placeholder attachments prompt_ids ((left_kind, left_id) # known) =
     ((case left_id of
         None \<Rightarrow> False
       | Some i \<Rightarrow> list_ex (\<lambda>(right_kind, right_id). Some i = right_id
           \<and> (i \<in> set prompt_ids \<or> left_kind \<in> set attachments \<or> right_kind \<in> set attachments)) known)
      \<or> ambiguous_placeholder attachments prompt_ids known)"

definition prompt_placeholders :: "(media_kind \<times> token_id option) list \<Rightarrow> token_id list \<Rightarrow> media_kind list" where
  "prompt_placeholders known prompt_ids =
     List.map_filter (\<lambda>t. map_option fst (find (\<lambda>(kind, i). i = Some t) known)) prompt_ids"

definition validate_media_bindings ::
  "content_part list \<Rightarrow> token_id list \<Rightarrow> media_placeholder_ids \<Rightarrow> engine_error + unit" where
  "validate_media_bindings parts prompt_ids ids =
     (let attachments = List.map_filter content_part_media_kind parts; known = known_placeholders ids in
      if ambiguous_placeholder attachments prompt_ids known
      then Inl (EModel ''ambiguous multimodal placeholder token'')
      else if attachments \<noteq> prompt_placeholders known prompt_ids
      then Inl (EModel ''rendered multimodal placeholders do not exactly match attachments'')
      else Inr ())"

definition check_media_support ::
  "('a, 'b, 'h, 'l, 'd, 'm, 'msg, 'g) engine \<Rightarrow> content_part list \<Rightarrow> engine_error + unit" where
  "check_media_support G parts =
     (let kinds = set (List.map_filter content_part_media_kind parts); ids = eg_placeholders G in
      if (Image \<in> kinds \<or> Video \<in> kinds) \<and> \<not> eg_vision G
      then Inl (EModel ''images/videos were attached but this model has no vision support'')
      else if (Image \<in> kinds \<or> Video \<in> kinds) \<and> ph_image ids = None
      then Inl (EModel ''model vision configuration is incomplete: image token IDs are missing'')
      else if Audio \<in> kinds \<and> ph_audio ids = None
      then Inl (EModel ''audio was attached but this model has no audio support'')
      else if Video \<in> kinds \<and> ph_video ids = None
      then Inl (EModel ''model vision configuration is incomplete: video token ID is missing'')
      else Inr ())"

definition prompt_parts :: "('a, 'b, 'h, 'l, 'd, 'm, 'msg, 'g) engine \<Rightarrow> 'msg list \<Rightarrow> content_part list" where
  "prompt_parts G messages = concat (map (eg_content G) messages)"

text \<open>The call's state: the session's pool, the device, the caller, and the counter of tool-call ids.\<close>

record ('a, 'b, 'h, 'd, 'c) world =
  wl_pool :: "('a, 'b, 'h) prompt_cache_pool"
  wl_device :: 'd
  wl_client :: 'c
  wl_call_ids :: "64 word"

definition world_device :: "('d \<Rightarrow> (engine_error + 'x) \<times> 'd) \<Rightarrow> (('a, 'b, 'h, 'd, 'c) world, 'x) step" where
  "world_device f w = (case f (wl_device w) of (r, dv) \<Rightarrow> (lift_result r, w\<lparr> wl_device := dv \<rparr>))"

definition world_checkpoint ::
  "('a, 'b, 'h, 'l, 'd, 'm, 'msg, 'g) engine \<Rightarrow> bool \<Rightarrow> (('a, 'b, 'h, 'd, 'c) world, unit) step" where
  "world_checkpoint G cooperative =
     world_device (\<lambda>dv. case checkpoint_on (eg_cancelled G) cooperative dv of
        (Some e, dv) \<Rightarrow> (Inl e, dv) | (None, dv) \<Rightarrow> (Inr (), dv))"

text \<open>A step of prefill or decoding on given caches; what it leaves in them comes back with its value.\<close>

definition on_caches ::
  "('a, 'b) layers \<Rightarrow> (('a, 'b, 'h, 'd) work, 'x) step \<Rightarrow> (('a, 'b, 'h, 'd, 'c) world, 'x \<times> ('a, 'b) layers) step" where
  "on_caches caches m w =
     (case m \<lparr> wk_caches = caches, wk_mtp = None, wk_device = wl_device w \<rparr> of
        (Inl e, wk) \<Rightarrow> (Inl e, w\<lparr> wl_device := wk_device wk \<rparr>)
      | (Inr x, wk) \<Rightarrow> (Inr (x, wk_caches wk), w\<lparr> wl_device := wk_device wk \<rparr>))"

definition pure_result :: "engine_error + 'x \<Rightarrow> ('w, 'x) step" where
  "pure_result r w = (lift_result r, w)"

definition encode_chat_with_media_full_inner ::
  "('a, 'b, 'h, 'l, 'd, 'm, 'msg, 'g) engine \<Rightarrow> bool \<Rightarrow> 'msg list \<Rightarrow> tool list option \<Rightarrow> bool option \<Rightarrow> (nat \<times> nat) option
    \<Rightarrow> (('a, 'b, 'h, 'd, 'c) world, token_id list \<times> ('m list \<times> 'm list) \<times> marker_pair option) step" where
  "encode_chat_with_media_full_inner G cooperative messages tools enable_thinking budget =
     (let enable_thinking = (case enable_thinking of None \<Rightarrow> Some False | Some b \<Rightarrow> Some b);
          parts = prompt_parts G messages in
      and_then (world_checkpoint G cooperative) (\<lambda>_.
      and_then (pure_result (eg_render G messages True tools enable_thinking)) (\<lambda>prompt.
      and_then (pure_result (tk_encode (eg_tokenizer G) prompt)) (\<lambda>base_ids.
      and_then (world_checkpoint G cooperative) (\<lambda>_.
      and_then (pure_result (check_media_support G parts)) (\<lambda>_.
      and_then (pure_result (validate_media_bindings parts base_ids (eg_placeholders G))) (\<lambda>_.
        if List.map_filter content_part_media_kind parts = []
        then ok (base_ids, ([], []), pending_marker prompt)
        else and_then (world_device (eg_expand_media G messages base_ids budget cooperative)) (\<lambda>(ids, media).
          ok (ids, media, pending_marker prompt)))))))))"

definition encode_chat_with_media_full ::
  "('a, 'b, 'h, 'l, 'd, 'm, 'msg, 'g) engine \<Rightarrow> 'msg list \<Rightarrow> tool list option \<Rightarrow> bool option
    \<Rightarrow> (('a, 'b, 'h, 'd, 'c) world, token_id list \<times> ('m list \<times> 'm list)) step" where
  "encode_chat_with_media_full G messages tools enable_thinking =
     and_then (encode_chat_with_media_full_inner G False messages tools enable_thinking None) (\<lambda>(ids, media, pending).
       ok (ids, media))"

definition conversation_boundary_len ::
  "('a, 'b, 'h, 'l, 'd, 'm, 'msg, 'g) engine \<Rightarrow> 'msg list \<Rightarrow> tool list option \<Rightarrow> bool option \<Rightarrow> token_id list \<Rightarrow> nat option" where
  "conversation_boundary_len G messages tools enable_thinking full_ids =
     (case eg_render G messages False tools enable_thinking of
        Inl _ \<Rightarrow> None
      | Inr rendered \<Rightarrow>
          (case tk_encode (eg_tokenizer G) rendered of
             Inl _ \<Rightarrow> None
           | Inr ids \<Rightarrow> (if is_prefix ids full_ids then Some (length ids) else None)))"


section \<open>Replies\<close>

record usage =
  us_prompt_tokens :: nat
  us_cached_tokens :: nat
  us_completion_tokens :: nat

datatype finish_reason = Stop | Length | ToolCalls | AbortedByCaller

definition classify_finish :: "token_id list \<Rightarrow> token_id list \<Rightarrow> bool \<Rightarrow> bool \<Rightarrow> finish_reason" where
  "classify_finish generated eos_ids has_tool_calls aborted =
     (if has_tool_calls then ToolCalls
      else if (case last_of generated of None \<Rightarrow> False | Some i \<Rightarrow> i \<in> set eos_ids) then Stop
      else if aborted then AbortedByCaller
      else Length)"

record generate_reply =
  gr_text :: str
  gr_tool_calls :: "tool_call list"
  gr_usage :: usage
  gr_reasoning :: "str option"
  gr_finish_reason :: finish_reason
  gr_speculation :: "speculation_stats option"

datatype progress_phase = PromptPhase | PrefillPhase | DecodePhase

record generation_progress =
  gp_phase :: progress_phase
  gp_prompt_tokens :: nat
  gp_cached_tokens :: "nat option"
  gp_completion_tokens :: nat
  gp_max_output_tokens :: nat
  gp_context_limit :: nat

text \<open>The caller during decoding: what was reported, whether it aborted, and its own state.\<close>

record 'c call_client =
  cc_reported_tokens :: nat
  cc_aborted :: bool
  cc_user :: 'c

definition completion_observe :: "generated_token \<Rightarrow> nat \<Rightarrow> nat option \<times> nat" where
  "completion_observe tok reported =
     (if gt_completion_tokens tok \<le> reported then (None, reported)
      else (Some (gt_completion_tokens tok), gt_completion_tokens tok))"

definition call_user_token :: "'c callback \<Rightarrow> generated_token \<Rightarrow> 'c call_client \<Rightarrow> bool \<times> 'c call_client" where
  "call_user_token on_token tok cc =
     (case on_token tok (cc_user cc) of
        (keep_going, c) \<Rightarrow> (keep_going, cc\<lparr> cc_user := c, cc_aborted := cc_aborted cc \<or> \<not> keep_going \<rparr>))"

definition caller_on_token ::
  "(generation_progress \<Rightarrow> 'c \<Rightarrow> bool \<times> 'c) \<Rightarrow> 'c callback \<Rightarrow> (nat \<Rightarrow> generation_progress) \<Rightarrow> 'c call_client callback" where
  "caller_on_token on_progress on_token progress tok cc =
     (case completion_observe tok (cc_reported_tokens cc) of
        (None, n) \<Rightarrow> call_user_token on_token tok (cc\<lparr> cc_reported_tokens := n \<rparr>)
      | (Some k, n) \<Rightarrow>
          (case on_progress (progress k) (cc_user cc) of
             (True, c) \<Rightarrow> call_user_token on_token tok (cc\<lparr> cc_reported_tokens := n, cc_user := c \<rparr>)
           | (False, c) \<Rightarrow> (False, cc\<lparr> cc_reported_tokens := n, cc_user := c, cc_aborted := True \<rparr>)))"

text \<open>The reply, from the generated ids.\<close>

definition build_reply ::
  "('a, 'b, 'h, 'l, 'd, 'm, 'msg, 'g) engine \<Rightarrow> tool list option \<Rightarrow> marker_pair option \<Rightarrow> usage \<Rightarrow> bool \<Rightarrow> bool
    \<Rightarrow> speculation_stats option \<Rightarrow> token_id list \<Rightarrow> 64 word \<Rightarrow> (engine_error + generate_reply) \<times> 64 word" where
  "build_reply G tools pending usage aborted forced_closed speculation generated_ids counter =
     (case eg_decode_raw G (filter (\<lambda>i. i \<notin> set (eg_eos_ids G)) generated_ids) of
        Inl e \<Rightarrow> (Inl e, counter)
      | Inr raw_text \<Rightarrow>
          (let raw_reply = (case pending of Some (open_marker, _) \<Rightarrow> open_marker @ raw_text | None \<Rightarrow> raw_text) in
           case (if forced_closed then split_reasoning_after_forced_close raw_reply else split_reasoning raw_reply) of
             (reasoning, txt) \<Rightarrow>
               (case (if eg_format G = NoTools then ((txt, []), counter)
                      else parse_and_strip_tool_calls (eg_from_str G) txt (eg_format G)
                        (case tools of None \<Rightarrow> [] | Some ts \<Rightarrow> ts) counter) of
                  ((txt, calls), counter) \<Rightarrow>
                    (Inr \<lparr> gr_text = txt, gr_tool_calls = calls, gr_usage = usage, gr_reasoning = reasoning,
                       gr_finish_reason = classify_finish generated_ids (eg_eos_ids G) (calls \<noteq> []) aborted,
                       gr_speculation = speculation \<rparr>, counter))))"


section \<open>One cached call\<close>

definition progress_step ::
  "(generation_progress \<Rightarrow> 'c \<Rightarrow> bool \<times> 'c) \<Rightarrow> generation_progress \<Rightarrow> (('a, 'b, 'h, 'd, 'c) world, unit) step" where
  "progress_step on_progress p w =
     (case on_progress p (wl_client w) of
        (True, c) \<Rightarrow> (Inr (), w\<lparr> wl_client := c \<rparr>)
      | (False, c) \<Rightarrow> (Inl (Error ECancelled), w\<lparr> wl_client := c \<rparr>))"

definition world_now ::
  "('a, 'b, 'h, 'l, 'd, 'm, 'msg, 'g) engine \<Rightarrow> (('a, 'b, 'h, 'd, 'c) world, nat) step" where
  "world_now G = world_device (\<lambda>dv. case eg_now G dv of (t, dv) \<Rightarrow> (Inr t, dv))"

text \<open>
  What the call starts from: caches, how many prompt tokens and media they hold, the prediction module's
  state. The clock is read when entries expire and when the hit is touched.
\<close>

record ('a, 'b, 'h) warm_start =
  ws_caches :: "('a, 'b) layers"
  ws_fed_len :: nat
  ws_fed_images :: nat
  ws_fed_audios :: nat
  ws_mtp :: "(('a, 'b) layers \<times> 'h) option"

definition cold_start :: "('a, 'b, 'h, 'l, 'd, 'm, 'msg, 'g) engine \<Rightarrow> ('a, 'b, 'h) warm_start" where
  "cold_start G =
     \<lparr> ws_caches = eg_new_caches G, ws_fed_len = 0, ws_fed_images = 0, ws_fed_audios = 0, ws_mtp = None \<rparr>"

definition pool_lookup ::
  "('a, 'b, 'h, 'l, 'd, 'm, 'msg, 'g) engine \<Rightarrow> token_id list \<Rightarrow> bool
    \<Rightarrow> (('a, 'b, 'h, 'd, 'c) world, ('a, 'b, 'h) warm_start) step" where
  "pool_lookup G full_ids spec_requested =
     and_then (world_now G) (\<lambda>now_expire.
     and_then (world_now G) (\<lambda>now_touch w.
       case find_longest_compatible_prefix now_expire now_touch full_ids spec_requested (wl_pool w) of
         (hit, p) \<Rightarrow>
           ok (case hit of
                 None \<Rightarrow> cold_start G
               | Some (entry, shared) \<Rightarrow>
                   \<lparr> ws_caches = ce_caches entry, ws_fed_len = shared, ws_fed_images = ce_fed_images entry,
                     ws_fed_audios = ce_fed_audios entry,
                     ws_mtp = (if spec_requested
                       then map_option (\<lambda>m. (mtp_caches m, mtp_frontier m)) (ce_mtp entry) else None) \<rparr>)
             (w\<lparr> wl_pool := p \<rparr>)))"

definition call_start ::
  "('a, 'b, 'h, 'l, 'd, 'm, 'msg, 'g) engine \<Rightarrow> bool \<Rightarrow> token_id list \<Rightarrow> bool
    \<Rightarrow> (('a, 'b, 'h, 'd, 'c) world, ('a, 'b, 'h) warm_start) step" where
  "call_start G cache_enabled full_ids spec_requested =
     and_then (if cache_enabled then pool_lookup G full_ids spec_requested else ok (cold_start G)) (\<lambda>ws.
       ok (if ws_fed_len ws \<ge> length full_ids then cold_start G else ws))"

text \<open>The boundary pre-feed and its snapshot, and the state the rest of the prompt continues from.\<close>

definition boundary_prefill ::
  "('a, 'b, 'h, 'l, 'd, 'm, 'msg, 'g) engine \<Rightarrow> bool \<Rightarrow> bool \<Rightarrow> token_id list \<Rightarrow> (('a, 'b) layers \<times> 'h) option
    \<Rightarrow> (('a, 'b, 'h, 'd) work, (('a, 'b) layers \<times> 'h) option) step" where
  "boundary_prefill G cooperative spec_requested pre mtp =
     (if spec_requested then
        and_then (prefill_mtp G cooperative pre mtp) (\<lambda>(logits, state).
        and_then (checkpoint G cooperative) (\<lambda>_. ok (Some state)))
      else
        and_then (prefill_plain G cooperative pre) (\<lambda>logits.
        and_then (eval_last_logits G logits) (\<lambda>_.
        and_then (checkpoint G cooperative) (\<lambda>_. ok mtp))))"

definition mtp_snapshot :: "(('a, 'b) layers \<times> 'h) option \<Rightarrow> ('a, 'b, 'h) mtp_state option" where
  "mtp_snapshot mtp =
     map_option (\<lambda>(caches, frontier).
       \<lparr> mtp_caches = caches, mtp_pairs = mtp_pairs_fed caches, mtp_frontier = frontier \<rparr>) mtp"

type_synonym ('a, 'b, 'h) snapshot = "(token_id list \<times> ('a, 'b) layers \<times> ('a, 'b, 'h) mtp_state option) option"

definition boundary_snapshot ::
  "('a, 'b, 'h, 'l, 'd, 'm, 'msg, 'g) engine \<Rightarrow> bool \<Rightarrow> bool \<Rightarrow> nat option \<Rightarrow> token_id list \<Rightarrow> ('a, 'b, 'h) warm_start
    \<Rightarrow> (('a, 'b, 'h, 'd, 'c) world, ('a, 'b, 'h) snapshot \<times> ('a, 'b, 'h) warm_start) step" where
  "boundary_snapshot G cooperative spec_requested boundary full_ids ws =
     (case boundary of
        None \<Rightarrow> ok (None, ws)
      | Some boundary_len \<Rightarrow>
          (if boundary_len > ws_fed_len ws \<and> boundary_len < length full_ids then
             and_then (on_caches (ws_caches ws)
                 (boundary_prefill G cooperative spec_requested
                   (drop (ws_fed_len ws) (take boundary_len full_ids)) (ws_mtp ws))) (\<lambda>(mtp, caches).
               ok (Some (take boundary_len full_ids, caches, mtp_snapshot mtp),
                   ws\<lparr> ws_caches := caches, ws_mtp := mtp, ws_fed_len := boundary_len \<rparr>))
           else ok (None, ws)))"

definition store_call ::
  "('a, 'b, 'h, 'l, 'd, 'm, 'msg, 'g) engine \<Rightarrow> ('a, 'b, 'h) snapshot \<Rightarrow> token_id list \<Rightarrow> 'm list \<times> 'm list
    \<Rightarrow> ('a, 'b, 'h) decode_outcome \<Rightarrow> ('a, 'b) layers \<Rightarrow> (('a, 'b, 'h, 'd, 'c) world, unit) step" where
  "store_call G snapshot full_ids media out caches =
     and_then (world_now G) (\<lambda>now_expire.
     and_then (world_now G) (\<lambda>now w.
       case snapshot of
         Some (boundary_ids, boundary_caches, boundary_mtp) \<Rightarrow>
           ok () (w\<lparr> wl_pool :=
             insert_or_update now_expire now boundary_ids boundary_caches 0 0 False boundary_mtp (wl_pool w) \<rparr>)
       | None \<Rightarrow>
           (if do_committed_len out \<le> length (do_emitted out)
            then ok () (w\<lparr> wl_pool :=
              insert_or_update now_expire now (full_ids @ take (do_committed_len out) (do_emitted out)) caches
                (length (fst media)) (length (snd media)) False (do_mtp out) (wl_pool w) \<rparr>)
            else (Inl Panic, w))))"

definition context_exceeded :: "nat \<Rightarrow> nat \<Rightarrow> nat \<Rightarrow> engine_error + unit" where
  "context_exceeded prompt_tokens max_output limit =
     (if prompt_tokens + max_output > USIZE_MAX \<or> prompt_tokens + max_output > limit
      then Inl (EContextExceeded prompt_tokens max_output limit) else Inr ())"

lemma context_exceeded_code [code]:
  "context_exceeded n k l =
     (if int n + int k > 18446744073709551615 \<or> n + k > l then Inl (EContextExceeded n k l) else Inr ())"
  by (auto simp: context_exceeded_def USIZE_MAX_def)

text \<open>The decode phase of a call, the caller wrapped, and the reply.\<close>

definition decode_call ::
  "('a, 'b, 'h, 'l, 'd, 'm, 'msg, 'g) engine \<Rightarrow> bool \<Rightarrow> 'c call_client callback \<Rightarrow> token_id list \<Rightarrow> 'm list \<times> 'm list
    \<Rightarrow> generate_options \<Rightarrow> marker_pair option \<Rightarrow> ('a, 'b, 'h) warm_start
    \<Rightarrow> (('a, 'b, 'h, 'd, 'c) world, (('a, 'b, 'h) decode_outcome \<times> bool) \<times> ('a, 'b) layers) step" where
  "decode_call G cooperative on_token new_suffix new_media options pending ws w =
     (case on_caches (ws_caches ws)
         (generate_with_media_inner G cooperative on_token new_suffix new_media options pending (ws_mtp ws)
           \<lparr> cc_reported_tokens = 0, cc_aborted = False, cc_user = wl_client w \<rparr>) w of
        (Inl e, w) \<Rightarrow> (Inl e, w)
      | (Inr ((out, cc), caches), w) \<Rightarrow>
          (Inr ((out, cc_aborted cc), caches), w\<lparr> wl_client := cc_user cc \<rparr>))"

definition reply_step ::
  "(64 word \<Rightarrow> (engine_error + generate_reply) \<times> 64 word) \<Rightarrow> (('a, 'b, 'h, 'd, 'c) world, generate_reply) step" where
  "reply_step f w = (case f (wl_call_ids w) of (r, n) \<Rightarrow> (lift_result r, w\<lparr> wl_call_ids := n \<rparr>))"

definition generate_cached_inner ::
  "('a, 'b, 'h, 'l, 'd, 'm, 'msg, 'g) engine \<Rightarrow> bool \<Rightarrow> (generation_progress \<Rightarrow> 'c \<Rightarrow> bool \<times> 'c) \<Rightarrow> 'c callback
    \<Rightarrow> 'msg list \<Rightarrow> tool list option \<Rightarrow> generate_options \<Rightarrow> (('a, 'b, 'h, 'd, 'c) world, generate_reply) step" where
  "generate_cached_inner G cooperative on_progress on_token messages tools options =
     (let context_limit = (case eg_context_limit G of
            None \<Rightarrow> go_context_tokens options | Some limit \<Rightarrow> min limit (go_context_tokens options));
          cache_enabled = (case go_prompt_cache options of None \<Rightarrow> True | Some b \<Rightarrow> b);
          wants_mtp = (resolve_speculative_tokens (go_speculative_tokens options) \<noteq> None);
          progress = (\<lambda>phase n cached completed.
            \<lparr> gp_phase = phase, gp_prompt_tokens = n, gp_cached_tokens = cached, gp_completion_tokens = completed,
              gp_max_output_tokens = go_max_tokens options, gp_context_limit = context_limit \<rparr>) in
      and_then (world_checkpoint G cooperative) (\<lambda>_.
      and_then (if wants_mtp \<and> \<not> eg_mtp_certified G
                then fail (ECapabilityUnavailable ''acceleration:mtp'' ''loaded checkpoint is not covered'') else ok ()) (\<lambda>_.
      and_then (encode_chat_with_media_full_inner G cooperative messages tools (go_enable_thinking options)
                 (Some (go_max_tokens options, context_limit))) (\<lambda>(full_ids, media, pending).
      and_then (progress_step on_progress (progress PromptPhase (length full_ids) None 0)) (\<lambda>_.
      and_then (pure_result (context_exceeded (length full_ids) (go_max_tokens options) context_limit)) (\<lambda>_.
      and_then (world_checkpoint G cooperative) (\<lambda>_.
      let spec_requested = (wants_mtp \<and> eg_mtp_certified G \<and> media = ([], [])) in
      and_then (call_start G cache_enabled full_ids spec_requested) (\<lambda>ws.
      let pool_hit_tokens = ws_fed_len ws in
      and_then (progress_step on_progress (progress PrefillPhase (length full_ids) (Some pool_hit_tokens) 0)) (\<lambda>_.
      and_then (boundary_snapshot G cooperative spec_requested
                 (if cache_enabled \<and> media = ([], [])
                  then conversation_boundary_len G messages tools (go_enable_thinking options) full_ids else None)
                 full_ids ws) (\<lambda>(snapshot, ws).
      and_then (decode_call G cooperative
                 (caller_on_token on_progress on_token
                   (\<lambda>completed. progress DecodePhase (length full_ids) (Some pool_hit_tokens) completed))
                 (drop (ws_fed_len ws) full_ids)
                 (drop (ws_fed_images ws) (fst media), drop (ws_fed_audios ws) (snd media)) options pending ws)
        (\<lambda>((out, aborted), caches).
      and_then (world_checkpoint G cooperative) (\<lambda>_.
      and_then (if cache_enabled then store_call G snapshot full_ids media out caches else ok ()) (\<lambda>_.
        reply_step (build_reply G tools pending
          \<lparr> us_prompt_tokens = length full_ids, us_cached_tokens = pool_hit_tokens,
            us_completion_tokens = length (do_emitted out) \<rparr>
          aborted (do_reasoning_forced_closed out) (do_speculation out) (do_emitted out)))))))))))))))"

definition generate_cached ::
  "('a, 'b, 'h, 'l, 'd, 'm, 'msg, 'g) engine \<Rightarrow> 'c callback \<Rightarrow> 'msg list \<Rightarrow> tool list option \<Rightarrow> generate_options
    \<Rightarrow> (('a, 'b, 'h, 'd, 'c) world, generate_reply) step" where
  "generate_cached G on_token = generate_cached_inner G False (\<lambda>_ c. (True, c)) on_token"

definition generate_cached_cancellable ::
  "('a, 'b, 'h, 'l, 'd, 'm, 'msg, 'g) engine \<Rightarrow> (generation_progress \<Rightarrow> 'c \<Rightarrow> bool \<times> 'c) \<Rightarrow> 'c callback
    \<Rightarrow> 'msg list \<Rightarrow> tool list option \<Rightarrow> generate_options \<Rightarrow> (('a, 'b, 'h, 'd, 'c) world, generate_reply) step" where
  "generate_cached_cancellable G on_progress on_token = generate_cached_inner G True on_progress on_token"

end
