(* ===== verification/Generate_Correct.thy ===== *)
theory Generate_Correct
  imports Generate
begin

text \<open>
  What a generation call keeps: prefill leaves the caches holding exactly the fed prefix with the
  prediction module aligned to it, whatever the chunking; decoding extends that by the committed
  tokens; and every entry of the pool holds exactly the state of its ids. Under greedy sampling the reply
  is that of a reference that knows neither caches nor speculation.
\<close>

section \<open>Steps with a postcondition for success and one for failure\<close>

definition ensures ::
  "('w \<Rightarrow> bool) \<Rightarrow> ('w, 'x) step \<Rightarrow> ('x \<Rightarrow> 'w \<Rightarrow> bool) \<Rightarrow> ('w \<Rightarrow> bool) \<Rightarrow> bool" where
  "ensures P m Q R \<longleftrightarrow> (\<forall>w. P w \<longrightarrow>
     (case m w of (Inr x, w') \<Rightarrow> Q x w' | (Inl (Error e), w') \<Rightarrow> R w' | (Inl Panic, w') \<Rightarrow> False))"

named_theorems step_rules

lemma ensuresI:
  assumes "\<And>w r w'. P w \<Longrightarrow> m w = (r, w') \<Longrightarrow>
    (case r of Inr x \<Rightarrow> Q x w' | Inl (Error e) \<Rightarrow> R w' | Inl Panic \<Rightarrow> False)"
  shows "ensures P m Q R"
  unfolding ensures_def using assms by (fastforce split: prod.split sum.split exit.split)

lemma ensures_Inr: "ensures P m Q R \<Longrightarrow> P w \<Longrightarrow> m w = (Inr x, w') \<Longrightarrow> Q x w'"
  by (fastforce simp: ensures_def)

lemma ensures_Inl: "ensures P m Q R \<Longrightarrow> P w \<Longrightarrow> m w = (Inl e, w') \<Longrightarrow> (\<exists>err. e = Error err) \<and> R w'"
  by (cases e) (fastforce simp: ensures_def)+

lemma ensures_mono:
  assumes "ensures P m Q R" "\<And>w. P' w \<Longrightarrow> P w" "\<And>x w. Q x w \<Longrightarrow> Q' x w" "\<And>w. R w \<Longrightarrow> R' w"
  shows "ensures P' m Q' R'"
  using assms unfolding ensures_def by (fastforce split: prod.splits sum.splits exit.splits)

lemma ensures_and_then [step_rules]:
  assumes "ensures P m Q' R" "\<And>x. ensures (Q' x) (k x) Q R"
  shows "ensures P (and_then m k) Q R"
proof (rule ensuresI)
  fix w r w' assume w: "P w" "and_then m k w = (r, w')"
  show "case r of Inr x \<Rightarrow> Q x w' | Inl (Error e) \<Rightarrow> R w' | Inl Panic \<Rightarrow> False"
  proof (cases "m w")
    case (Pair a w1)
    show ?thesis
    proof (cases a)
      case (Inl e)
      then show ?thesis using w Pair ensures_Inl [OF assms(1) w(1), of e w1] by (auto simp: and_then_def)
    next
      case (Inr x)
      then have k: "k x w1 = (r, w')" and q: "Q' x w1"
        using w Pair ensures_Inr [OF assms(1) w(1)] by (auto simp: and_then_def)
      show ?thesis using ensures_Inr [OF assms(2) q] ensures_Inl [OF assms(2) q] k
        by (cases r) (auto split: exit.split)
    qed
  qed
qed

lemma ensures_ok: "(\<And>w. P w \<Longrightarrow> Q x w) \<Longrightarrow> ensures P (ok x) Q R"
  by (auto simp: ensures_def ok_def)

lemma ensures_fail: "(\<And>w. P w \<Longrightarrow> R w) \<Longrightarrow> ensures P (fail e) Q R"
  by (auto simp: ensures_def fail_def)

lemma ensures_if: "(b \<Longrightarrow> ensures P m Q R) \<Longrightarrow> (\<not> b \<Longrightarrow> ensures P m' Q R) \<Longrightarrow> ensures P (if b then m else m') Q R"
  by simp

lemma ensures_fix: "(\<And>w. P w \<Longrightarrow> ensures (\<lambda>v. v = w) m Q R) \<Longrightarrow> ensures P m Q R"
  by (auto simp: ensures_def)

lemma ensures_assume: "(A \<Longrightarrow> ensures P m Q R) \<Longrightarrow> ensures (\<lambda>w. P w \<and> A) m Q R"
  by (auto simp: ensures_def)


section \<open>Chunks\<close>

lemma concat_chunks: "0 < n \<Longrightarrow> concat (chunks n xs) = xs"
  by (induction n xs rule: chunks.induct) (subst chunks.simps, auto)

lemma chunks_nonempty: "[] \<notin> set (chunks n xs)"
  by (induction n xs rule: chunks.induct) (subst chunks.simps, auto)

lemma chunks_Nil: "0 < n \<Longrightarrow> chunks n xs = [] \<longleftrightarrow> xs = []"
  by (subst chunks.simps) simp

text \<open>\<open>J\<close> is what the value of the last chunk says of the whole prefix.\<close>

lemma prefill_loop_ensures:
  assumes "\<And>a. ensures (I a) check (\<lambda>_. I a) R"
    and "\<And>a c l. c \<noteq> [] \<Longrightarrow> ensures (I a) (fwd c l) (\<lambda>x w. I (a @ c) w \<and> J x (a @ c)) R"
    and "[] \<notin> set cs" "\<And>x. out = Some x \<Longrightarrow> J x a" "cs = [] \<Longrightarrow> out \<noteq> None"
  shows "ensures (I a) (prefill_loop check fwd n i cs out) (\<lambda>x w. I (a @ concat cs) w \<and> J x (a @ concat cs)) R"
  using assms(3-5)
proof (induction cs arbitrary: a i out)
  case Nil
  then show ?case by (auto intro!: ensures_ok split: option.split)
next
  case (Cons c cs)
  have c: "c \<noteq> []" and cs: "[] \<notin> set cs" using Cons.prems(1) by auto
  show ?case
    unfolding prefill_loop.simps
  proof (rule ensures_and_then [OF assms(1)], rule ensures_and_then [OF assms(2) [OF c]], rule ensures_and_then)
    fix x
    show "ensures (\<lambda>w. I (a @ c) w \<and> J x (a @ c)) check (\<lambda>_ w. I (a @ c) w \<and> J x (a @ c)) R"
      using assms(1) [of "a @ c"] by (intro ensures_assume) (auto elim!: ensures_mono)
    show "ensures (\<lambda>w. I (a @ c) w \<and> J x (a @ c)) (prefill_loop check fwd n (i + 1) cs (Some x))
        (\<lambda>x w. I (a @ concat (c # cs)) w \<and> J x (a @ concat (c # cs))) R" for y :: unit
      using Cons.IH [OF cs, of "Some x" "a @ c" "i + 1"] by (intro ensures_assume) simp
  qed
qed

lemma run_prefill_chunks_ensures:
  assumes "\<And>a. ensures (I a) check (\<lambda>_. I a) R"
    and "\<And>a c l. c \<noteq> [] \<Longrightarrow> ensures (I a) (fwd c l) (\<lambda>x w. I (a @ c) w \<and> J x (a @ c)) R"
    and "\<And>w. I a w \<Longrightarrow> R w"
  shows "ensures (I a) (run_prefill_chunks co check ids fwd) (\<lambda>x w. I (a @ ids) w \<and> J x (a @ ids) \<and> ids \<noteq> []) R"
proof (cases "ids = []")
  case True
  then show ?thesis using assms(3) by (simp add: run_prefill_chunks_def ensures_fail)
next
  case False
  let ?n = "if co then PREFILL_CHUNK_TOKENS else length ids"
  have n: "0 < ?n" using False by (simp add: PREFILL_CHUNK_TOKENS_def)
  have "ensures (I a) (prefill_loop check fwd (div_ceil (length ids) ?n) 0 (chunks ?n ids) None)
    (\<lambda>x w. I (a @ concat (chunks ?n ids)) w \<and> J x (a @ concat (chunks ?n ids))) R"
    using n False by (intro prefill_loop_ensures assms chunks_nonempty) (auto simp: chunks_Nil)
  then show ?thesis using False n by (simp add: run_prefill_chunks_def Let_def concat_chunks)
qed


section \<open>The laws of an engine\<close>

locale session_engine = session_model "eg_model G" kinds kvr recur z succ choice
  for G :: "('a, 'b, 'h, 'l, 'd, 'm, 'msg, 'g) engine" and kinds kvr recur z succ choice +
  assumes fresh_caches: "caches_hold kinds kvr recur (eg_new_caches G) []"
    and fresh_module: "list_ex is_attention (eg_new_mtp_caches G)" "mtp_pairs_fed (eg_new_mtp_caches G) = 0"
    and slice_law: "eg_slice_rows G i j hs dv = (Inr hs', dv') \<Longrightarrow> hs' = drop i (take j hs)"

text \<open>
  The prediction module next to caches that hold \<open>a\<close>: absent, or one pair behind. The logits of a
  forward pass say what follows the last token.
\<close>

definition module_at :: "token_id list \<Rightarrow> (('a, 'b) layers \<times> 'h) option \<Rightarrow> bool" where
  "module_at a mtp \<longleftrightarrow> (\<forall>caches f. mtp = Some (caches, f) \<longrightarrow>
     list_ex is_attention caches \<and> Suc (mtp_pairs_fed caches) = length a)"

text \<open>What a pooled snapshot of the prediction module must be next to the ids it belongs to.\<close>

definition snapshot_at :: "token_id list \<Rightarrow> ('a, 'b, 'h) mtp_state option \<Rightarrow> bool" where
  "snapshot_at ids m \<longleftrightarrow> (\<forall>st. m = Some st \<longrightarrow> list_ex is_attention (mtp_caches st)
     \<and> mtp_pairs st = mtp_pairs_fed (mtp_caches st) \<and> Suc (mtp_pairs st) = length ids)"

lemma choices_empty [simp]: "choices succ a c = [] \<longleftrightarrow> c = []"
  by (simp add: choices_def)

lemma last_choices [simp]: "c \<noteq> [] \<Longrightarrow> last (choices succ a c) = succ (a @ c)"
  by (cases c rule: rev_cases) (simp_all add: choices_def)

context session_engine
begin

abbreviation "Caches \<equiv> caches_hold kinds kvr recur"

definition says :: "'l \<Rightarrow> token_id \<Rightarrow> bool" where
  "says lg t \<longleftrightarrow> choice lg \<noteq> [] \<and> lg_rows (eg_model G) lg = int (length (choice lg)) \<and> last (choice lg) = t"

definition fed_at :: "token_id list \<Rightarrow> (('a, 'b) layers \<times> 'h) option \<Rightarrow> ('a, 'b, 'h, 'd) work \<Rightarrow> bool" where
  "fed_at a mtp w \<longleftrightarrow> Caches (wk_caches w) a \<and> wk_mtp w = mtp"

definition primed :: "token_id list \<Rightarrow> ('a, 'b, 'h, 'd) work \<Rightarrow> bool" where
  "primed a w \<longleftrightarrow> Caches (wk_caches w) a \<and> module_at a (wk_mtp w) \<and> (wk_mtp w = None \<longleftrightarrow> a = [])"

abbreviation "anything \<equiv> \<lambda>_. True"

text \<open>Steps that touch only the device, and predicates that do not look at it.\<close>

definition steady :: "(('a, 'b, 'h, 'd) work, 'x) step \<Rightarrow> bool" where
  "steady m \<longleftrightarrow> (\<forall>w. fst (m w) \<noteq> Inl Panic \<and> wk_caches (snd (m w)) = wk_caches w \<and> wk_mtp (snd (m w)) = wk_mtp w)"

definition insensitive :: "(('a, 'b, 'h, 'd) work \<Rightarrow> bool) \<Rightarrow> bool" where
  "insensitive P \<longleftrightarrow> (\<forall>w dv. P w \<longrightarrow> P (w\<lparr> wk_device := dv \<rparr>))"

lemma insensitive_intros [simp, intro]:
  "insensitive (fed_at a mtp)" "insensitive (primed a)" "insensitive (\<lambda>_. A)"
  "insensitive P \<Longrightarrow> insensitive Q \<Longrightarrow> insensitive (\<lambda>w. P w \<and> Q w)"
  by (simp_all add: insensitive_def fed_at_def primed_def)

lemma steady_keeps:
  assumes "steady m" "insensitive P"
  shows "ensures P m (\<lambda>_. P) anything"
proof (rule ensuresI)
  fix w r w' assume w: "P w" "m w = (r, w')"
  then have "w' = w\<lparr> wk_device := wk_device w' \<rparr>" "r \<noteq> Inl Panic"
    using assms(1) by (auto simp: steady_def dest!: spec [of _ w])
  then show "case r of Inr x \<Rightarrow> P w' | Inl (Error e) \<Rightarrow> True | Inl Panic \<Rightarrow> False"
    using w(1) assms(2) unfolding insensitive_def by (metis exit.exhaust exit.case(1) sum.case sum.exhaust)
qed

lemma steady_device [simp]: "steady (device f)"
  by (auto simp: steady_def device_def lift_result_def split: prod.split sum.split)

lemma steady_device_unit [simp]: "steady (device_unit f)" "steady (checkpoint G co)"
  by (simp_all add: device_unit_def checkpoint_def)

lemma steady_simple [simp]: "steady (ok x)" "steady (fail e)" "steady (check_i32 msg n)"
  by (auto simp: steady_def ok_def fail_def check_i32_def)

lemma steady_eval [simp]: "steady (eval_last_logits G lg)"
  by (simp add: eval_last_logits_def)

lemma steady_if [simp]: "steady m \<Longrightarrow> steady m' \<Longrightarrow> steady (if b then m else m')"
  by simp

lemma device_result: "ensures P (device f) (\<lambda>x w. \<exists>dv dv'. f dv = (Inr x, dv')) anything"
  by (rule ensuresI) (auto simp: device_def lift_result_def split: prod.splits sum.splits)

lemma ensures_conj:
  assumes "ensures P m Q R" "ensures P m Q' R"
  shows "ensures P m (\<lambda>x w. Q x w \<and> Q' x w) R"
  using assms unfolding ensures_def by (fastforce split: prod.splits sum.splits exit.splits)

lemma device_ensures:
  assumes "insensitive P"
  shows "ensures P (device f) (\<lambda>x w. P w \<and> (\<exists>dv dv'. f dv = (Inr x, dv'))) anything"
  by (rule ensures_conj [OF steady_keeps [OF steady_device assms] device_result])

lemma then_steady:
  assumes "steady m" "insensitive P" "\<And>x. ensures P (k x) Q anything"
  shows "ensures P (and_then m k) Q anything"
  by (rule ensures_and_then [OF steady_keeps [OF assms(1,2)] assms(3)])

lemma then_device:
  assumes "insensitive P" "\<And>x dv dv'. f dv = (Inr x, dv') \<Longrightarrow> ensures P (k x) Q anything"
  shows "ensures P (and_then (device f) k) Q anything"
  by (rule ensures_and_then [OF device_ensures [OF assms(1)]], rule ensures_assume) (use assms(2) in blast)

lemma forward_at:
  assumes "c \<noteq> []"
  shows "ensures (fed_at a mtp) (forward G c) (\<lambda>lg w. fed_at (a @ c) mtp w \<and> says lg (succ (a @ c))) anything"
proof (rule ensuresI)
  fix w :: "('a, 'b, 'h, 'd) work" and r w' assume w: "fed_at a mtp w" "forward G c w = (r, w')"
  obtain fr caches dv where f: "md_forward (eg_model G) c (wk_caches w) (wk_device w) = (fr, caches, dv)"
    by (cases "md_forward (eg_model G) c (wk_caches w) (wk_device w)") auto
  have h: "Caches (wk_caches w) a" using w(1) by (simp add: fed_at_def)
  show "case r of Inr lg \<Rightarrow> fed_at (a @ c) mtp w' \<and> says lg (succ (a @ c)) | Inl (Error e) \<Rightarrow> True | Inl Panic \<Rightarrow> False"
  proof (cases fr)
    case (Inl e)
    then show ?thesis using w(2) f by (auto simp: forward_def lift_result_def)
  next
    case (Inr lg)
    note F = forward_law [OF h assms f [unfolded Inr]]
    have "Caches caches (a @ c)" using F feed_layers_holds [OF h assms states, of z] by simp
    moreover have "says lg (succ (a @ c))" using F assms by (simp add: says_def)
    ultimately show ?thesis using w f Inr by (auto simp: forward_def lift_result_def fed_at_def)
  qed
qed

lemma forward_hidden_at:
  assumes "c \<noteq> []"
  shows "ensures (fed_at a mtp) (forward_hidden G c)
    (\<lambda>(h, lg) w. fed_at (a @ c) mtp w \<and> says lg (succ (a @ c)) \<and> length h = length c) anything"
proof (rule ensuresI)
  fix w :: "('a, 'b, 'h, 'd) work" and r w' assume w: "fed_at a mtp w" "forward_hidden G c w = (r, w')"
  obtain fr caches dv where f: "md_forward_hidden (eg_model G) c (wk_caches w) (wk_device w) = (fr, caches, dv)"
    by (cases "md_forward_hidden (eg_model G) c (wk_caches w) (wk_device w)") auto
  have h: "Caches (wk_caches w) a" using w(1) by (simp add: fed_at_def)
  show "case r of Inr x \<Rightarrow> (case x of (h, lg) \<Rightarrow> \<lambda>w. fed_at (a @ c) mtp w \<and> says lg (succ (a @ c)) \<and> length h = length c) w'
    | Inl (Error e) \<Rightarrow> True | Inl Panic \<Rightarrow> False"
  proof (cases fr)
    case (Inl e)
    then show ?thesis using w(2) f by (auto simp: forward_hidden_def lift_result_def)
  next
    case (Inr p)
    obtain hs lg where p: "p = (hs, lg)" by (cases p)
    note F = hidden_law [OF h assms f [unfolded Inr p]]
    have "Caches caches (a @ c)" using F feed_layers_holds [OF h assms states, of z] by simp
    moreover have "says lg (succ (a @ c))" using F assms by (simp add: says_def)
    ultimately show ?thesis using F w f Inr p by (auto simp: forward_hidden_def lift_result_def fed_at_def)
  qed
qed

lemma prefill_plain_at:
  "ensures (fed_at a mtp) (prefill_plain G co ids)
    (\<lambda>lg w. fed_at (a @ ids) mtp w \<and> says lg (succ (a @ ids)) \<and> ids \<noteq> []) anything"
  unfolding prefill_plain_def
proof (rule run_prefill_chunks_ensures [where I = "\<lambda>a. fed_at a mtp" and J = "\<lambda>lg a. says lg (succ a)"])
  fix a c l assume c: "(c :: token_id list) \<noteq> []"
  have "ensures (\<lambda>w. fed_at (a @ c) mtp w \<and> says lg (succ (a @ c)))
      (and_then (if l then ok () else eval_last_logits G lg) (\<lambda>_. ok lg))
      (\<lambda>lg w. fed_at (a @ c) mtp w \<and> says lg (succ (a @ c))) anything" for lg
    by (rule then_steady) (auto intro: ensures_ok)
  note tail = this
  show "ensures (fed_at a mtp) (and_then (check_i32 ''prefill chunk length exceeds i32'' (length c)) (\<lambda>_.
       and_then (device_unit (dv_from_slice (eg_model G) c)) (\<lambda>_.
       and_then (forward G c) (\<lambda>logits.
       and_then (if l then ok () else eval_last_logits G logits) (\<lambda>_. ok logits)))))
     (\<lambda>lg w. fed_at (a @ c) mtp w \<and> says lg (succ (a @ c))) anything"
    by (intro then_steady ensures_and_then [OF forward_at [OF c]] tail) simp_all
qed (simp_all add: steady_keeps)

lemma forward_mtp_at:
  assumes "list_ex is_attention mc" "length prev = length ids" "insensitive P"
  shows "ensures P (forward_mtp G ids prev mc)
    (\<lambda>mc' w. P w \<and> list_ex is_attention mc' \<and> mtp_pairs_fed mc' = mtp_pairs_fed mc + length ids) anything"
proof (rule ensuresI)
  fix w :: "('a, 'b, 'h, 'd) work" and r w' assume w: "P w" "forward_mtp G ids prev mc w = (r, w')"
  obtain fr mc1 dv where f: "md_forward_mtp (eg_model G) ids prev mc (wk_device w) = (fr, mc1, dv)"
    by (cases "md_forward_mtp (eg_model G) ids prev mc (wk_device w)") auto
  have p: "P (w\<lparr> wk_device := dv \<rparr>)" using assms(3) w(1) by (simp add: insensitive_def)
  show "case r of Inr mc' \<Rightarrow> P w' \<and> list_ex is_attention mc' \<and> mtp_pairs_fed mc' = mtp_pairs_fed mc + length ids
    | Inl (Error e) \<Rightarrow> True | Inl Panic \<Rightarrow> False"
  proof (cases fr)
    case (Inl e)
    then show ?thesis using w(2) f by (auto simp: forward_mtp_def)
  next
    case (Inr x)
    obtain rh lg where x: "x = (rh, lg)" by (cases x)
    have k: "and_then (device_unit (eg_eval_hidden G rh)) (\<lambda>_. ok mc1) (w\<lparr> wk_device := dv \<rparr>) = (r, w')"
      using w(2) f Inr x by (simp add: forward_mtp_def)
    have "ensures P (and_then (device_unit (eg_eval_hidden G rh)) (\<lambda>_. ok mc1))
        (\<lambda>mc' w. P w \<and> mc' = mc1) anything"
      by (intro then_steady ensures_ok) (use assms(3) in auto)
    from ensures_Inr [OF this p] ensures_Inl [OF this p] k mtp_law [OF assms(1,2) f] Inr
    show ?thesis by (cases r) auto
  qed
qed

lemma detach_frontier_at: "insensitive P \<Longrightarrow> ensures P (detach_frontier G n block) (\<lambda>_. P) anything"
  unfolding detach_frontier_def
  by (intro then_steady steady_keeps) (auto intro!: steady_keeps split: option.split)

lemma prime_mtp_at:
  assumes "c \<noteq> []" "length hidden = length c" "insensitive P"
  shows "ensures P (prime_mtp G co c hidden)
    (\<lambda>(mc, f) w. P w \<and> list_ex is_attention mc \<and> Suc (mtp_pairs_fed mc) = length c) anything"
proof -
  let ?M = "\<lambda>mc w. P w \<and> list_ex is_attention mc \<and> Suc (mtp_pairs_fed mc) = length c"
  have ins: "insensitive (?M mc)" for mc using assms(3) by simp
  have tail: "ensures (?M mc) (and_then (detach_frontier G (length c) block) (\<lambda>frontier.
      and_then (checkpoint G co) (\<lambda>_. ok (mc, frontier)))) (\<lambda>(mc, f). ?M mc) anything" for mc block
    by (intro ensures_and_then [OF detach_frontier_at [OF ins]] then_steady ensures_ok) (use ins in auto)
  have feed: "ensures P (and_then (device (eg_slice_rows G 0 (length c - 1) block)) (\<lambda>prev.
           and_then (device_unit (dv_from_slice (eg_model G) (tl c))) (\<lambda>_.
           and_then (forward_mtp G (tl c) prev (eg_new_mtp_caches G)) (\<lambda>mc.
           and_then (checkpoint G co) (\<lambda>_. ok mc))))) ?M anything" if "length block = length c" for block
  proof (rule then_device [OF assms(3)])
    fix prev dv dv' assume "eg_slice_rows G 0 (length c - 1) block dv = (Inr prev, dv')"
    then have l: "length prev = length (tl c)" using slice_law that by fastforce
    have st: "ensures (\<lambda>w. P w \<and> list_ex is_attention mc \<and> mtp_pairs_fed mc = mtp_pairs_fed (eg_new_mtp_caches G) + length (tl c))
      (and_then (checkpoint G co) (\<lambda>_. ok mc)) ?M anything" for mc
      by (intro then_steady ensures_ok) (use assms fresh_module in auto)
    show "ensures P (and_then (device_unit (dv_from_slice (eg_model G) (tl c))) (\<lambda>_.
           and_then (forward_mtp G (tl c) prev (eg_new_mtp_caches G)) (\<lambda>mc.
           and_then (checkpoint G co) (\<lambda>_. ok mc)))) ?M anything"
      by (intro then_steady ensures_and_then [OF forward_mtp_at [OF fresh_module(1) l assms(3)]] st)
        (use assms in simp_all)
  qed
  have one: "ensures P (ok (eg_new_mtp_caches G)) ?M anything" if "\<not> length c \<ge> 2"
    using fresh_module assms(1) that by (intro ensures_ok) (cases c; cases "tl c"; auto)
  show ?thesis
    unfolding prime_mtp_def Let_def
  proof (rule then_device [OF assms(3)])
    fix block dv dv' assume "dv_detach (eg_model G) hidden dv = (Inr block, dv')"
    then have b: "length block = length c" using detach_law assms(2) by fastforce
    show "ensures P (and_then (checkpoint G co) (\<lambda>_. and_then
        (if 2 \<le> length c then and_then (device (eg_slice_rows G 0 (length c - 1) block)) (\<lambda>prev.
           and_then (device_unit (dv_from_slice (eg_model G) (tl c))) (\<lambda>_.
           and_then (forward_mtp G (tl c) prev (eg_new_mtp_caches G)) (\<lambda>mc.
           and_then (checkpoint G co) (\<lambda>_. ok mc)))) else ok (eg_new_mtp_caches G)) (\<lambda>mc.
        and_then (detach_frontier G (length c) block) (\<lambda>frontier.
        and_then (checkpoint G co) (\<lambda>_. ok (mc, frontier))))))
      (\<lambda>(mc, f). ?M mc) anything"
      by (intro then_steady ensures_and_then [OF ensures_if tail] feed b one) (use assms in simp_all)
  qed
qed

lemma prime_mtp_resume_at:
  assumes "c \<noteq> []" "length hidden = length c" "insensitive P" "list_ex is_attention mc0"
  shows "ensures P (prime_mtp_resume G co (mc0, f0) c hidden)
    (\<lambda>(mc, f) w. P w \<and> list_ex is_attention mc \<and> mtp_pairs_fed mc = mtp_pairs_fed mc0 + length c) anything"
proof -
  let ?M = "\<lambda>mc w. P w \<and> list_ex is_attention mc \<and> mtp_pairs_fed mc = mtp_pairs_fed mc0 + length c"
  have ins: "insensitive (?M mc)" for mc using assms(3) by simp
  have tail: "ensures (?M mc) (and_then (checkpoint G co) (\<lambda>_. and_then (detach_frontier G (length c) block) (\<lambda>frontier.
      and_then (checkpoint G co) (\<lambda>_. ok (mc, frontier))))) (\<lambda>(mc, f). ?M mc) anything" for mc block
    by (intro then_steady ensures_and_then [OF detach_frontier_at [OF ins]] ensures_ok) (use ins in auto)
  have feed: "ensures (\<lambda>w. P w \<and> length prev = length c) (and_then (device_unit (dv_from_slice (eg_model G) c)) (\<lambda>_.
      and_then (forward_mtp G c prev mc0) (\<lambda>mc. and_then (checkpoint G co) (\<lambda>_.
      and_then (detach_frontier G (length c) block) (\<lambda>frontier.
      and_then (checkpoint G co) (\<lambda>_. ok (mc, frontier))))))) (\<lambda>(mc, f). ?M mc) anything" for prev block
    by (rule ensures_assume) (intro then_steady ensures_and_then [OF forward_mtp_at [OF assms(4) _ assms(3)]] tail;
      use assms in simp)
  have prev: "ensures P (if 2 \<le> length c then and_then (device (eg_slice_rows G 0 (length c - 1) block)) (\<lambda>head.
           and_then (device_unit (dv_concatenate (eg_model G) (f0 # head))) (\<lambda>_. ok (f0 # head)))
         else ok [f0]) (\<lambda>prev w. P w \<and> length prev = length c) anything" if "length block = length c" for block
  proof (rule ensures_if)
    assume two: "2 \<le> length c"
    show "ensures P (and_then (device (eg_slice_rows G 0 (length c - 1) block)) (\<lambda>head.
           and_then (device_unit (dv_concatenate (eg_model G) (f0 # head))) (\<lambda>_. ok (f0 # head))))
         (\<lambda>prev w. P w \<and> length prev = length c) anything"
    proof (rule then_device [OF assms(3)])
      fix head dv dv' assume "eg_slice_rows G 0 (length c - 1) block dv = (Inr head, dv')"
      then have "length head = length c - 1" using slice_law that by fastforce
      then show "ensures P (and_then (device_unit (dv_concatenate (eg_model G) (f0 # head))) (\<lambda>_. ok (f0 # head)))
         (\<lambda>prev w. P w \<and> length prev = length c) anything"
        using two assms(3) by (intro then_steady ensures_ok) auto
    qed
  qed (use assms(1) in \<open>cases c; cases "tl c"; auto intro!: ensures_ok\<close>)
  show ?thesis
    unfolding prime_mtp_resume_def Let_def fst_conv snd_conv
  proof (rule then_device [OF assms(3)])
    fix block dv dv' assume "dv_detach (eg_model G) hidden dv = (Inr block, dv')"
    then have b: "length block = length c" using detach_law assms(2) by fastforce
    show "ensures P (and_then (checkpoint G co) (\<lambda>_. and_then
        (if 2 \<le> length c then and_then (device (eg_slice_rows G 0 (length c - 1) block)) (\<lambda>head.
           and_then (device_unit (dv_concatenate (eg_model G) (f0 # head))) (\<lambda>_. ok (f0 # head)))
         else ok [f0]) (\<lambda>prev. and_then (device_unit (dv_from_slice (eg_model G) c)) (\<lambda>_.
      and_then (forward_mtp G c prev mc0) (\<lambda>mc. and_then (checkpoint G co) (\<lambda>_.
      and_then (detach_frontier G (length c) block) (\<lambda>frontier.
      and_then (checkpoint G co) (\<lambda>_. ok (mc, frontier)))))))))
      (\<lambda>(mc, f). ?M mc) anything"
      by (intro then_steady ensures_and_then [OF prev [OF b] feed]) (use assms in simp_all)
  qed
qed

lemma prime_chunk_at:
  assumes "c \<noteq> []" "length hidden = length c"
  shows "ensures (\<lambda>w. Caches (wk_caches w) (a @ c) \<and> module_at a (wk_mtp w) \<and> (wk_mtp w = None \<longleftrightarrow> a = []))
    (prime_chunk G co c hidden) (\<lambda>_. primed (a @ c)) anything"
proof (rule ensuresI)
  fix w :: "('a, 'b, 'h, 'd) work" and r w'
  assume w: "Caches (wk_caches w) (a @ c) \<and> module_at a (wk_mtp w) \<and> (wk_mtp w = None \<longleftrightarrow> a = [])"
    "prime_chunk G co c hidden w = (r, w')"
  let ?P = "\<lambda>w. Caches (wk_caches w) (a @ c)"
  let ?m = "case wk_mtp w of Some state \<Rightarrow> prime_mtp_resume G co state c hidden | None \<Rightarrow> prime_mtp G co c hidden"
  have ins: "insensitive ?P" by (simp add: insensitive_def)
  have m: "ensures ?P ?m (\<lambda>(mc, f) w. ?P w \<and> list_ex is_attention mc \<and> Suc (mtp_pairs_fed mc) = length (a @ c)) anything"
  proof (cases "wk_mtp w")
    case None
    then show ?thesis using ensures_mono [OF prime_mtp_at [OF assms ins]] w(1) by (simp add: prod.case_eq_if)
  next
    case (Some st)
    obtain mc f where st: "st = (mc, f)" by (cases st)
    then have "list_ex is_attention mc" "Suc (mtp_pairs_fed mc) = length a" using w(1) Some by (auto simp: module_at_def)
    then show ?thesis
      using ensures_mono [OF prime_mtp_resume_at [OF assms ins, of mc co f]] Some st by (simp add: prod.case_eq_if)
  qed
  have "ensures ?P (and_then ?m (\<lambda>state w. (Inr (), w\<lparr> wk_mtp := Some state \<rparr>))) (\<lambda>_. primed (a @ c)) anything"
    by (rule ensures_and_then [OF m]) (use assms in \<open>auto simp: ensures_def primed_def module_at_def\<close>)
  from ensures_Inr [OF this, of "w\<lparr> wk_mtp := None \<rparr>"] ensures_Inl [OF this, of "w\<lparr> wk_mtp := None \<rparr>"] w
  show "case r of Inr x \<Rightarrow> primed (a @ c) w' | Inl (Error e) \<Rightarrow> True | Inl Panic \<Rightarrow> False"
    by (cases r) (auto simp: prime_chunk_def)
qed

lemma forward_hidden_primed:
  assumes "c \<noteq> []"
  shows "ensures (primed a) (forward_hidden G c)
    (\<lambda>(h, lg) w. (Caches (wk_caches w) (a @ c) \<and> module_at a (wk_mtp w) \<and> (wk_mtp w = None \<longleftrightarrow> a = []))
      \<and> says lg (succ (a @ c)) \<and> length h = length c) anything"
proof (rule ensures_fix)
  fix w0 :: "('a, 'b, 'h, 'd) work" assume p: "primed a w0"
  show "ensures (\<lambda>v. v = w0) (forward_hidden G c)
    (\<lambda>(h, lg) w. (Caches (wk_caches w) (a @ c) \<and> module_at a (wk_mtp w) \<and> (wk_mtp w = None \<longleftrightarrow> a = []))
      \<and> says lg (succ (a @ c)) \<and> length h = length c) anything"
    by (rule ensures_mono [OF forward_hidden_at [OF assms, of a "wk_mtp w0"]]) (use p in \<open>auto simp: fed_at_def primed_def\<close>)
qed

lemma prefill_mtp_at:
  assumes "module_at a initial" "initial = None \<longleftrightarrow> a = []"
  shows "ensures (\<lambda>w. Caches (wk_caches w) a) (prefill_mtp G co ids initial)
    (\<lambda>(lg, st) w. Caches (wk_caches w) (a @ ids) \<and> says lg (succ (a @ ids)) \<and> module_at (a @ ids) (Some st) \<and> ids \<noteq> []) anything"
proof -
  let ?f = "\<lambda>c is_last. and_then (check_i32 ''MTP prefill chunk length exceeds i32'' (length c)) (\<lambda>_.
         and_then (device_unit (dv_from_slice (eg_model G) c)) (\<lambda>_.
         and_then (forward_hidden G c) (\<lambda>(hidden, logits).
         and_then (if is_last then ok () else eval_last_logits G logits) (\<lambda>_.
         and_then (prime_chunk G co c hidden) (\<lambda>_. ok logits)))))"
  have step: "ensures (primed a) (?f c l) (\<lambda>lg w. primed (a @ c) w \<and> says lg (succ (a @ c))) anything"
    if c: "c \<noteq> []" for a c l
  proof -
    let ?P = "\<lambda>w. Caches (wk_caches w) (a @ c) \<and> module_at a (wk_mtp w) \<and> (wk_mtp w = None \<longleftrightarrow> a = [])"
    have ins: "insensitive ?P" by (simp add: insensitive_def)
    have tail: "ensures (\<lambda>w. ?P w \<and> says lg (succ (a @ c)) \<and> length h = length c)
        (and_then (if l then ok () else eval_last_logits G lg) (\<lambda>_. and_then (prime_chunk G co c h) (\<lambda>_. ok lg)))
        (\<lambda>lg w. primed (a @ c) w \<and> says lg (succ (a @ c))) anything" for h lg
      by (rule ensures_assume, intro then_steady ensures_and_then [OF prime_chunk_at [OF c]] ensures_ok) (use ins in auto)
    show ?thesis
      by (intro then_steady ensures_and_then [OF forward_hidden_primed [OF c]]) (use tail in \<open>auto split: prod.split\<close>)
  qed
  have run: "ensures (primed a) (run_prefill_chunks co (checkpoint G co) ids ?f)
      (\<lambda>lg w. primed (a @ ids) w \<and> says lg (succ (a @ ids)) \<and> ids \<noteq> []) anything"
    by (rule run_prefill_chunks_ensures [where J = "\<lambda>lg a. says lg (succ a)"]) (simp_all add: step steady_keeps)
  have "ensures (primed a) (and_then (run_prefill_chunks co (checkpoint G co) ids ?f)
       (\<lambda>logits w. case wk_mtp w of None \<Rightarrow> fail (EModel ''MTP prefill produced no state'') w
        | Some mtp \<Rightarrow> ok (logits, mtp) w))
    (\<lambda>(lg, st) w. Caches (wk_caches w) (a @ ids) \<and> says lg (succ (a @ ids)) \<and> module_at (a @ ids) (Some st) \<and> ids \<noteq> []) anything"
    by (rule ensures_and_then [OF run]) (auto simp: ensures_def primed_def ok_def fail_def split: option.split)
  then show ?thesis
    using assms unfolding ensures_def prefill_mtp_def by (auto simp: primed_def)
qed

lemma sample_last_at:
  assumes "insensitive P" "says lg t"
  shows "ensures P (sample_last G lg s)
    (\<lambda>(t', s') w. P w \<and> smp_config s' = smp_config s \<and> (is_greedy s \<longrightarrow> t' = t)) anything"
  unfolding sample_last_def
proof (rule then_device [OF assms(1)])
  let ?j = "lg_rows (eg_model G) lg - 1"
  fix l dv dv' assume row: "dv_row (eg_model G) lg ?j (lg_vocab (eg_model G) lg) dv = (Inr l, dv')"
  have "0 \<le> ?j" "nat ?j < length (choice lg)" "choice lg ! nat ?j = t"
    using assms(2) by (auto simp: says_def last_conv_nth nat_diff_distrib simp del: length_greater_0_conv simp flip: length_greater_0_conv)
  then have l: "choice l = [t]" using row_law [OF row] by simp
  show "ensures P (sample G l s) (\<lambda>(t', s') w. P w \<and> smp_config s' = smp_config s \<and> (is_greedy s \<longrightarrow> t' = t)) anything"
    unfolding sample_def
  proof (rule ensures_if)
    show "ensures P (and_then (device (dv_item (eg_model G) l)) (\<lambda>t. ok (t, s)))
       (\<lambda>(t', s') w. P w \<and> smp_config s' = smp_config s \<and> (is_greedy s \<longrightarrow> t' = t)) anything"
      by (rule then_device [OF assms(1)]) (use item_law l in \<open>auto intro!: ensures_ok\<close>)
  next
    assume "\<not> is_greedy s"
    then show "ensures P (and_then (device (dv_softmax (eg_model G) (cfg_temperature (smp_config s)) l)) (\<lambda>row_probs.
          case sample_filtered (eg_gen G) row_probs s of (Inl e, s) \<Rightarrow> fail e | (Inr t, s) \<Rightarrow> ok (t, s)))
       (\<lambda>(t', s') w. P w \<and> smp_config s' = smp_config s \<and> (is_greedy s \<longrightarrow> t' = t)) anything"
      by (intro then_device [OF assms(1)])
        (auto simp: sample_filtered_def Let_def intro!: ensures_ok ensures_fail split: sum.splits prod.splits if_splits)
  qed
qed

lemma prefill_prompt_at:
  assumes "speculate \<Longrightarrow> a = []"
  shows "ensures (\<lambda>w. Caches (wk_caches w) a) (prefill_prompt G co ids s speculate)
    (\<lambda>((t, s'), mtp) w. Caches (wk_caches w) (a @ ids) \<and> module_at (a @ ids) mtp
      \<and> smp_config s' = smp_config s \<and> (is_greedy s \<longrightarrow> t = succ (a @ ids))) anything"
proof (cases speculate)
  case False
  have ins: "insensitive (\<lambda>w. Caches (wk_caches w) b)" for b by (simp add: insensitive_def)
  have plain: "ensures (\<lambda>w. Caches (wk_caches w) a) (prefill_plain G co ids)
      (\<lambda>lg w. Caches (wk_caches w) (a @ ids) \<and> says lg (succ (a @ ids))) anything"
  proof (rule ensures_fix)
    fix w0 :: "('a, 'b, 'h, 'd) work" assume "Caches (wk_caches w0) a"
    then show "ensures (\<lambda>v. v = w0) (prefill_plain G co ids)
      (\<lambda>lg w. Caches (wk_caches w) (a @ ids) \<and> says lg (succ (a @ ids))) anything"
      by (intro ensures_mono [OF prefill_plain_at [of a "wk_mtp w0" co ids]]) (auto simp: fed_at_def)
  qed
  have tail: "ensures (\<lambda>w. Caches (wk_caches w) (a @ ids) \<and> says lg (succ (a @ ids)))
      (and_then (sample_last G lg s) (\<lambda>first. ok (first, None)))
      (\<lambda>((t, s'), mtp) w. Caches (wk_caches w) (a @ ids) \<and> module_at (a @ ids) mtp
        \<and> smp_config s' = smp_config s \<and> (is_greedy s \<longrightarrow> t = succ (a @ ids))) anything" for lg
    by (rule ensures_assume, rule ensures_and_then [OF sample_last_at [OF ins]])
      (auto simp: module_at_def intro!: ensures_ok)
  show ?thesis using False by (simp add: prefill_prompt_def) (rule ensures_and_then [OF plain tail])
next
  case True
  then have a: "a = []" by (rule assms)
  have ins: "insensitive (\<lambda>w. Caches (wk_caches w) ids)" by (simp add: insensitive_def)
  have mtp: "ensures (\<lambda>w. Caches (wk_caches w) []) (prefill_mtp G co ids None)
      (\<lambda>(lg, st) w. Caches (wk_caches w) ids \<and> says lg (succ ids) \<and> module_at ids (Some st) \<and> ids \<noteq> []) anything"
    using prefill_mtp_at [of "[]" None co ids] by (simp add: module_at_def)
  have tail: "ensures (\<lambda>w. Caches (wk_caches w) ids \<and> says lg (succ ids) \<and> module_at ids (Some st) \<and> ids \<noteq> [])
      (and_then (sample_last G lg s) (\<lambda>first. and_then (checkpoint G co) (\<lambda>_. ok (first, Some st))))
      (\<lambda>((t, s'), mtp) w. Caches (wk_caches w) ids \<and> module_at ids mtp
        \<and> smp_config s' = smp_config s \<and> (is_greedy s \<longrightarrow> t = succ ids)) anything" for lg st
    by (rule ensures_assume, rule ensures_and_then [OF sample_last_at [OF ins]])
      (auto intro!: then_steady ensures_ok simp: ins)
  show ?thesis using True a by (simp add: prefill_prompt_def)
      (rule ensures_and_then [OF mtp], use tail in \<open>auto split: prod.split\<close>)
qed

lemma prefill_resume_at:
  assumes "module_at a (Some state)" "a \<noteq> []"
  shows "ensures (\<lambda>w. Caches (wk_caches w) a) (prefill_resume G co ids s state)
    (\<lambda>((t, s'), mtp) w. Caches (wk_caches w) (a @ ids) \<and> module_at (a @ ids) mtp
      \<and> smp_config s' = smp_config s \<and> (is_greedy s \<longrightarrow> t = succ (a @ ids))) anything"
proof -
  have ins: "insensitive (\<lambda>w. Caches (wk_caches w) (a @ ids))" by (simp add: insensitive_def)
  have mtp: "ensures (\<lambda>w. Caches (wk_caches w) a) (prefill_mtp G co ids (Some state))
      (\<lambda>(lg, st) w. Caches (wk_caches w) (a @ ids) \<and> says lg (succ (a @ ids)) \<and> module_at (a @ ids) (Some st) \<and> ids \<noteq> []) anything"
    using prefill_mtp_at [of a "Some state" co ids] assms by simp
  have tail: "ensures (\<lambda>w. Caches (wk_caches w) (a @ ids) \<and> says lg (succ (a @ ids)) \<and> module_at (a @ ids) (Some st) \<and> ids \<noteq> [])
      (and_then (sample_last G lg s) (\<lambda>first. and_then (checkpoint G co) (\<lambda>_. ok (first, Some st))))
      (\<lambda>((t, s'), mtp) w. Caches (wk_caches w) (a @ ids) \<and> module_at (a @ ids) mtp
        \<and> smp_config s' = smp_config s \<and> (is_greedy s \<longrightarrow> t = succ (a @ ids))) anything" for lg st
    by (rule ensures_assume, rule ensures_and_then [OF sample_last_at [OF ins]])
      (auto intro!: then_steady ensures_ok simp: ins)
  show ?thesis unfolding prefill_resume_def
    by (rule ensures_and_then [OF mtp]) (use tail in \<open>auto split: prod.split\<close>)
qed


section \<open>Decoding\<close>

lemma driver_round: "session_round (eg_model G) kinds kvr recur z succ choice (driver_env G on_token)"
  by (intro session_round.intro session_model_axioms session_round_axioms.intro) (simp add: driver_env_def)

abbreviation "start w s options pending mtp client \<equiv>
  decode_start G (wk_caches w) s options pending mtp client (wk_device w)"

lemma start_entered:
  assumes "Caches (wk_caches w) base" "module_at base mtp"
  shows "entered (driver_env G on_token) (session_holds kinds kvr recur) base (start w s options pending mtp client)"
    "rd_spec_k (start w s options pending mtp client) \<noteq> Some 0"
proof -
  show "entered (driver_env G on_token) (session_holds kinds kvr recur) base (start w s options pending mtp client)"
    using assms
    by (auto simp: entered_def good_def emitted_def decode_start_def rd_new_def te_new_def driver_env_def Let_def
        session_round_ops_def so_mtp_alive_def so_mtp_pairs_def session_holds_def module_at_def split: option.splits)
  show "rd_spec_k (start w s options pending mtp client) \<noteq> Some 0"
    by (auto simp: decode_start_def rd_new_def Let_def resolve_speculative_tokens_def SPECULATIVE_TOKENS_CEILING_def
        split: option.splits if_splits)
qed

definition decoded_at :: "token_id list \<Rightarrow> ('a, 'b, 'h) decode_outcome \<Rightarrow> ('a, 'b, 'h, 'd) work \<Rightarrow> bool" where
  "decoded_at base out w \<longleftrightarrow> do_committed_len out \<le> length (do_emitted out)
     \<and> Caches (wk_caches w) (base @ take (do_committed_len out) (do_emitted out))
     \<and> snapshot_at (base @ take (do_committed_len out) (do_emitted out)) (do_mtp out)"

lemma session_decode_at:
  assumes "module_at base mtp"
  shows "ensures (\<lambda>w. Caches (wk_caches w) base) (session_decode G on_token x s options pending mtp client)
    (\<lambda>(out, client') w. decoded_at base out w) anything"
proof (rule ensuresI)
  fix w :: "('a, 'b, 'h, 'd) work" and r w'
  assume w: "Caches (wk_caches w) base" "session_decode G on_token x s options pending mtp client w = (r, w')"
  obtain dr d where dl: "decode_loop (driver_env G on_token) x (start w s options pending mtp client) = (dr, d)"
    by (cases "decode_loop (driver_env G on_token) x (start w s options pending mtp client)")
  note L = session_round.session_loop [OF driver_round start_entered [OF w(1) assms] dl]
  show "case r of Inr y \<Rightarrow> (case y of (out, client') \<Rightarrow> \<lambda>w. decoded_at base out w) w'
    | Inl (Error e) \<Rightarrow> True | Inl Panic \<Rightarrow> False"
  proof (cases dr)
    case (Inl e)
    then show ?thesis using L(1) w(2) dl by (cases e) (auto simp: session_decode_def)
  next
    case (Inr u)
    let ?ids = "base @ take (rd_committed_len d) (emitted d)"
    have al: "rd_committed_len d \<le> length (emitted d)"
      "good (driver_env G on_token) (session_holds kinds kvr recur) ?ids (rd_ops d) (rd_frontier d)"
      using L(2) Inr by (simp_all add: aligned_def)
    have h: "Caches (so_caches (rd_ops d)) ?ids"
      "so_mtp (rd_ops d) = Some mc \<Longrightarrow> list_ex is_attention mc \<and> Suc (mtp_pairs_fed mc) = length ?ids" for mc
      using al(2) by (auto simp: good_def session_holds_def driver_env_def session_round_ops_def so_mtp_alive_def so_mtp_pairs_def)
    have em: "fst (into_emitted on_token (rd_emitter d)) = emitted d"
      using flush_terminal_ledger [of "rd_emitter d" on_token] by (simp add: into_emitted_def Let_def same_ledger_def emitted_def)
    obtain m dv where m: "decode_mtp G (so_mtp (rd_ops d)) (rd_frontier d) (so_device (rd_ops d)) = (m, dv)"
      by (cases "decode_mtp G (so_mtp (rd_ops d)) (rd_frontier d) (so_device (rd_ops d))")
    have "snapshot_at ?ids m"
      using m h(2) by (auto simp: decode_mtp_def snapshot_at_def split: option.splits prod.splits sum.splits)
    moreover obtain out c where "r = Inr (out, c)" "do_emitted out = emitted d" "do_committed_len out = rd_committed_len d"
      "do_mtp out = m" "wk_caches w' = so_caches (rd_ops d)"
      using w(2) dl Inr m em by (auto simp: session_decode_def decode_finish_def rd_finish_def driver_env_def)
    ultimately show ?thesis using al(1) h(1) by (simp add: decoded_at_def)
  qed
qed

end

end
