(* ===== verification/Call_Correct.thy ===== *)
theory Call_Correct
  imports Generate_Correct
begin

text \<open>
  Whole calls: every entry a call leaves in the pool holds exactly the state of its ids, and a greedy
  reply is a function of the prompt alone, so neither the pool nor speculation shows in it.
\<close>

section \<open>Pool entries that hold their ids\<close>

definition entry_holds ::
  "str list \<Rightarrow> (nat \<Rightarrow> token_id list \<Rightarrow> 'a \<times> 'a) \<Rightarrow> (nat \<Rightarrow> token_id list \<Rightarrow> 'b option list)
    \<Rightarrow> ('a, 'b, 'h) cache_entry \<Rightarrow> bool" where
  "entry_holds kinds kvr recur e \<longleftrightarrow>
     caches_hold kinds kvr recur (ce_caches e) (ce_ids e) \<and> snapshot_at (ce_ids e) (ce_mtp e)"

definition pool_coherent ::
  "str list \<Rightarrow> (nat \<Rightarrow> token_id list \<Rightarrow> 'a \<times> 'a) \<Rightarrow> (nat \<Rightarrow> token_id list \<Rightarrow> 'b option list)
    \<Rightarrow> ('a, 'b, 'h) prompt_cache_pool \<Rightarrow> bool" where
  "pool_coherent kinds kvr recur p \<longleftrightarrow> (\<forall>e \<in> set (pool_entries p). entry_holds kinds kvr recur e)"

lemma entry_holds_touch [simp]: "entry_holds kinds kvr recur (e\<lparr> ce_last_used := t \<rparr>) = entry_holds kinds kvr recur e"
  by (simp add: entry_holds_def)

lemma pool_coherent_evict: "pool_coherent kinds kvr recur p \<Longrightarrow> pool_coherent kinds kvr recur (evict_expired t p)"
  by (auto simp: pool_coherent_def evict_expired_def)

lemma snapshot_at_aligned: "snapshot_at ids m \<Longrightarrow> snapshot_at ids (aligned_mtp (length ids) m)"
  by (auto simp: snapshot_at_def aligned_mtp_def split: option.splits if_splits)

lemma pool_coherent_insert:
  assumes "pool_coherent kinds kvr recur p" "caches_hold kinds kvr recur caches ids" "snapshot_at ids m"
  shows "pool_coherent kinds kvr recur (insert_or_update t1 t2 ids caches fi fa pin m p)"
proof -
  let ?p = "evict_expired t1 p"
  have old: "\<forall>e \<in> set (pool_entries ?p). entry_holds kinds kvr recur e"
    using pool_coherent_evict [OF assms(1)] by (simp add: pool_coherent_def)
  have new: "entry_holds kinds kvr recur (e\<lparr> ce_ids := ids, ce_caches := caches, ce_fed_images := fi,
      ce_fed_audios := fa, ce_last_used := t2, ce_pinned := pn, ce_mtp := aligned_mtp (length ids) m \<rparr>)" for e pn
    using assms(2,3) by (simp add: entry_holds_def snapshot_at_aligned)
  have kept: "pool_coherent kinds kvr recur (evict_lru_if_over_capacity (?p\<lparr> pool_entries := es \<rparr>))"
    if "\<forall>e \<in> set es. entry_holds kinds kvr recur e" for es
    using that evict_loop_subset by (fastforce simp: pool_coherent_def evict_lru_if_over_capacity_def)
  let ?f = "\<lambda>e. e\<lparr> ce_ids := ids, ce_caches := caches, ce_fed_images := fi, ce_fed_audios := fa,
      ce_last_used := t2, ce_pinned := ce_pinned e \<or> pin, ce_mtp := aligned_mtp (length ids) m \<rparr>"
  have upd: "\<forall>e \<in> set (update_first P ?f (pool_entries ?p)). entry_holds kinds kvr recur e" for P
    using set_update_first [of P ?f "pool_entries ?p"] old new by blast
  show ?thesis
    using old kept [OF upd] kept [of "pool_entries ?p @ [\<lparr> ce_ids = ids, ce_caches = caches, ce_fed_images = fi,
        ce_fed_audios = fa, ce_last_used = t2, ce_pinned = pin, ce_mtp = aligned_mtp (length ids) m \<rparr>]"]
      assms(2,3)
    by (auto simp: insert_or_update_def Let_def pool_coherent_def entry_holds_def snapshot_at_aligned)
qed

lemma pool_coherent_find:
  assumes "pool_coherent kinds kvr recur p" "find_longest_compatible_prefix t1 t2 ids req p = (hit, p')"
  shows "pool_coherent kinds kvr recur p'"
    "hit = Some (e, n) \<Longrightarrow> entry_holds kinds kvr recur e \<and> length (ce_ids e) = n \<and> ce_ids e \<noteq> []
      \<and> take n ids = ce_ids e \<and> n \<le> length ids \<and> (req \<longrightarrow> ce_mtp e \<noteq> None)"
proof -
  let ?p = "evict_expired t1 p"
  have old: "\<forall>e \<in> set (pool_entries ?p). entry_holds kinds kvr recur e"
    using pool_coherent_evict [OF assms(1)] by (simp add: pool_coherent_def)
  show "pool_coherent kinds kvr recur p'"
    using assms(2) old find_best_Some(1) [of req ids "pool_entries ?p"]
    by (auto simp: find_longest_compatible_prefix_def Let_def pool_coherent_def
        split: option.splits dest!: set_update_subset_insert [THEN subsetD])
  show "hit = Some (e, n) \<Longrightarrow> entry_holds kinds kvr recur e \<and> length (ce_ids e) = n \<and> ce_ids e \<noteq> []
      \<and> take n ids = ce_ids e \<and> n \<le> length ids \<and> (req \<longrightarrow> ce_mtp e \<noteq> None)"
    using assms(2) old find_best_Some(1,2) [of req ids "pool_entries ?p"]
    by (auto simp: find_longest_compatible_prefix_def Let_def compatible_def is_prefix_def split: option.splits)
qed


section \<open>The reference loop ignores the speculation setting\<close>

lemma plain_round_spec_k:
  "plain_round tk cb succ base x (s\<lparr> co_spec_k := k \<rparr>)
    = map_prod id (\<lambda>s. s\<lparr> co_spec_k := k \<rparr>) (plain_round tk cb succ base x s)"
  by (simp add: plain_round_def plain_close_def after_token_def observe_core_def armed_def Let_def
      split: prod.split sum.split emit_outcome.split option.split list.split)

lemma plain_loop_spec_k:
  "plain_loop tk cb succ base x (s\<lparr> co_spec_k := k \<rparr>)
    = map_prod id (\<lambda>s. s\<lparr> co_spec_k := k \<rparr>) (plain_loop tk cb succ base x s)"
proof (induction tk cb succ base x s rule: plain_loop.induct)
  case (1 tk cb succ base x s)
  show ?case
    using 1 by (subst (1 2) plain_loop.simps) (auto simp: plain_round_spec_k id_def split: prod.split sum.split round_end.split)
qed


section \<open>One call\<close>

text \<open>The prompts without attachments: what \<open>encode_chat_with_media_full_inner\<close> hands to the model.\<close>

definition text_only :: "('a, 'b, 'h, 'l, 'd, 'm, 'msg, 'g) engine \<Rightarrow> 'msg list \<Rightarrow> bool" where
  "text_only G messages \<longleftrightarrow> List.map_filter content_part_media_kind (prompt_parts G messages) = []"

definition rendered_prompt ::
  "('a, 'b, 'h, 'l, 'd, 'm, 'msg, 'g) engine \<Rightarrow> 'msg list \<Rightarrow> tool list option \<Rightarrow> bool option
    \<Rightarrow> (str \<times> token_id list) option" where
  "rendered_prompt G messages tools thinking =
     (case eg_render G messages True tools (case thinking of None \<Rightarrow> Some False | Some b \<Rightarrow> Some b) of
        Inl _ \<Rightarrow> None
      | Inr prompt \<Rightarrow>
          (case tk_encode (eg_tokenizer G) prompt of Inl _ \<Rightarrow> None | Inr ids \<Rightarrow> Some (prompt, ids)))"

text \<open>The emission side at the start of decoding, and the reply the plain loop's end stands for.\<close>

definition plain_core ::
  "('a, 'b, 'h, 'l, 'd, 'm, 'msg, 'g) engine \<Rightarrow> generate_options \<Rightarrow> marker_pair option \<Rightarrow> 'c \<Rightarrow> 'c core" where
  "plain_core G options pending client =
     \<lparr> co_emitter = te_new (eg_eos_ids G) (decode_classifier (eg_format G) pending) client,
       co_budget = decode_budget (go_reasoning_budget_tokens options) pending, co_forced = False, co_used = 0,
       co_max = go_max_tokens options, co_config = go_sampling options, co_spec_k = None \<rparr>"

text \<open>What a decode outcome shows of the plain loop from \<open>base\<close>.\<close>

definition plainly ::
  "('a, 'b, 'h, 'l, 'd, 'm, 'msg, 'g) engine \<Rightarrow> (token_id list \<Rightarrow> token_id) \<Rightarrow> 'c callback \<Rightarrow> generate_options
    \<Rightarrow> marker_pair option \<Rightarrow> 'c \<Rightarrow> token_id list \<Rightarrow> token_id list \<Rightarrow> bool \<Rightarrow> 'c \<Rightarrow> bool" where
  "plainly G succ on_token options pending client base ids forced client' \<longleftrightarrow>
     (\<exists>s. plain_loop (eg_tokenizer G) on_token succ base (succ base) (plain_core G options pending client) = (Inr (), s)
       \<and> ids = te_emitted (co_emitter s) \<and> forced = co_forced s
       \<and> client' = te_client (snd (into_emitted on_token (co_emitter s))))"

lemma plainly_unique:
  "plainly G succ cb options pending c base ids1 f1 c1 \<Longrightarrow> plainly G succ cb options pending c base ids2 f2 c2 \<Longrightarrow>
    ids1 = ids2 \<and> f1 = f2 \<and> c1 = c2"
  by (auto simp: plainly_def)

context session_engine
begin

lemma session_decode_plain:
  assumes "module_at base mtp" "Caches (wk_caches w) base" "is_greedy s" "smp_config s = go_sampling options"
    and "session_decode G on_token (succ base) s options pending mtp client w = (Inr (out, client'), w')"
  shows "plainly G succ on_token options pending client base (do_emitted out) (do_reasoning_forced_closed out) client'"
proof -
  let ?d0 = "start w s options pending mtp client"
  obtain dr d where dl: "decode_loop (driver_env G on_token) (succ base) ?d0 = (dr, d)"
    by (cases "decode_loop (driver_env G on_token) (succ base) ?d0")
  have dr: "dr = Inr ()" using assms(5) dl by (cases dr) (auto simp: session_decode_def)
  have g: "is_greedy (rd_sampler ?d0)" using assms(3) by (simp add: decode_start_def rd_new_def Let_def)
  have pl: "plain_loop (eg_tokenizer G) on_token succ base (succ base) (core ?d0) = (Inr (), core d)"
    using session_round.session_loop_greedy [OF driver_round start_entered [OF assms(2,1)] g dl [unfolded dr]]
    by (simp add: driver_env_def)
  have c0: "core ?d0 = (plain_core G options pending client)\<lparr> co_spec_k := rd_spec_k ?d0 \<rparr>"
    using assms(4) by (simp add: core_def plain_core_def decode_start_def rd_new_def Let_def)
  from pl obtain s1 where s1: "plain_loop (eg_tokenizer G) on_token succ base (succ base) (plain_core G options pending client) = (Inr (), s1)"
    "core d = s1\<lparr> co_spec_k := rd_spec_k ?d0 \<rparr>"
    unfolding c0 plain_loop_spec_k
    by (cases "plain_loop (eg_tokenizer G) on_token succ base (succ base) (plain_core G options pending client)") auto
  have e: "co_emitter s1 = rd_emitter d" "co_forced s1 = rd_forced_closed d"
    using arg_cong [OF s1(2), of co_emitter] arg_cong [OF s1(2), of co_forced] by (simp_all add: core_def)
  have "do_emitted out = fst (into_emitted on_token (rd_emitter d))" "do_reasoning_forced_closed out = rd_forced_closed d"
    "client' = te_client (snd (into_emitted on_token (rd_emitter d)))"
    using assms(5) dl dr
    by (auto simp: session_decode_def decode_finish_def rd_finish_def driver_env_def split: prod.splits)
  moreover have "fst (into_emitted on_token (rd_emitter d)) = te_emitted (rd_emitter d)"
    using flush_terminal_ledger [of "rd_emitter d" on_token] by (simp add: into_emitted_def Let_def same_ledger_def)
  ultimately show ?thesis using s1(1) e by (auto simp: plainly_def)
qed

text \<open>Prefill and decoding of a text suffix.\<close>

abbreviation "greedy_options options \<equiv> cfg_temperature (go_sampling options) \<le> 0"

lemma generate_inner_at:
  assumes "module_at a mtp" "mtp \<noteq> None \<Longrightarrow> a \<noteq> []"
  shows "ensures (\<lambda>w. Caches (wk_caches w) a \<and> (mtp = None \<and> may_speculate G options (wk_caches w) \<longrightarrow> a = []))
    (generate_with_media_inner G co on_token ids ([], []) options pending mtp client)
    (\<lambda>(out, client') w. decoded_at (a @ ids) out w
      \<and> (greedy_options options \<longrightarrow> plainly G succ on_token options pending client (a @ ids)
          (do_emitted out) (do_reasoning_forced_closed out) client')) anything"
proof -
  let ?P = "\<lambda>w :: ('a, 'b, 'h, 'd) work. Caches (wk_caches w) a \<and> (mtp = None \<and> may_speculate G options (wk_caches w) \<longrightarrow> a = [])"
  have ins: "insensitive ?P" by (simp add: insensitive_def)
  let ?Q = "\<lambda>s ((t, s'), m) w. Caches (wk_caches w) (a @ ids) \<and> module_at (a @ ids) m
      \<and> smp_config s' = smp_config s \<and> (is_greedy s \<longrightarrow> t = succ (a @ ids))"
  have pre: "ensures ?P (case mtp of Some state \<Rightarrow> prefill_resume G co ids s state
       | None \<Rightarrow> (\<lambda>w. prefill_prompt G co ids s (may_speculate G options (wk_caches w)) w)) (?Q s) anything" for s
  proof (cases mtp)
    case (Some st)
    then show ?thesis using ensures_mono [OF prefill_resume_at [of a st co ids s]] assms by simp
  next
    case None
    show ?thesis
    proof (rule ensures_fix)
      fix w0 :: "('a, 'b, 'h, 'd) work" assume w0: "?P w0"
      let ?b = "may_speculate G options (wk_caches w0)"
      have "ensures (\<lambda>w. Caches (wk_caches w) a) (prefill_prompt G co ids s ?b) (?Q s) anything"
        by (rule prefill_prompt_at) (use w0 None in auto)
      then show "ensures (\<lambda>v. v = w0) (case mtp of Some state \<Rightarrow> prefill_resume G co ids s state
         | None \<Rightarrow> (\<lambda>w. prefill_prompt G co ids s (may_speculate G options (wk_caches w)) w)) (?Q s) anything"
        using None w0 by (simp add: ensures_def)
    qed
  qed
  let ?R = "\<lambda>(out, client') w. decoded_at (a @ ids) out w
      \<and> (greedy_options options \<longrightarrow> plainly G succ on_token options pending client (a @ ids)
          (do_emitted out) (do_reasoning_forced_closed out) client')"
  have dec: "ensures (\<lambda>w. ?Q s ((t, s'), m) w \<and> smp_config s = go_sampling options)
      (session_decode G on_token t s' options pending m client) ?R anything" for s s' t m
  proof (rule ensuresI)
    fix w :: "('a, 'b, 'h, 'd) work" and r w'
    assume w: "?Q s ((t, s'), m) w \<and> smp_config s = go_sampling options"
      "session_decode G on_token t s' options pending m client w = (r, w')"
    then have m: "module_at (a @ ids) m" and c: "Caches (wk_caches w) (a @ ids)" by auto
    note D = session_decode_at [OF m, of on_token t s' options pending client]
    show "case r of Inr x \<Rightarrow> ?R x w' | Inl (Error e) \<Rightarrow> True | Inl Panic \<Rightarrow> False"
    proof (cases r)
      case (Inl e)
      then show ?thesis using ensures_Inl [OF D c] w(2) by auto
    next
      case (Inr x)
      obtain out client' where x: "x = (out, client')" by (cases x)
      have "decoded_at (a @ ids) out w'" using ensures_Inr [OF D c] w(2) Inr x by fastforce
      moreover have "plainly G succ on_token options pending client (a @ ids)
          (do_emitted out) (do_reasoning_forced_closed out) client'" if "greedy_options options"
        using session_decode_plain [OF m c, of s' options on_token pending client out client' w'] w Inr x that
        by (auto simp: is_greedy_def)
      ultimately show ?thesis using Inr x by simp
    qed
  qed
  show ?thesis
    unfolding generate_with_media_inner_def sampler_new_def if_True simp_thms
  proof (intro then_steady [OF steady_device_unit(2) ins] then_device [OF ins])
    fix s :: "'g sampler" and dv dv'
    assume "(case eg_rng G (go_sampling options) dv of (g, dv) \<Rightarrow> (Inr \<lparr>smp_config = go_sampling options, smp_rng = g\<rparr>, dv)) = (Inr s, dv' :: 'd)"
    then have s: "smp_config s = go_sampling options" by (auto split: prod.splits)
    have insQ: "insensitive (\<lambda>w. ?Q s ((t, s'), m) w \<and> smp_config s = go_sampling options)" for t s' m by (simp add: insensitive_def)
    have k: "ensures (?Q s x) ((\<lambda>((first, s), mtp). and_then (checkpoint G co) (\<lambda>_.
       session_decode G on_token first s options pending mtp client)) x) ?R anything" for x
    proof -
      obtain t s' m where x: "x = ((t, s'), m)" by (metis prod.collapse)
      have "ensures (\<lambda>w. ?Q s ((t, s'), m) w \<and> smp_config s = go_sampling options) (and_then (checkpoint G co) (\<lambda>_.
         session_decode G on_token t s' options pending m client)) ?R anything"
        by (rule then_steady [OF steady_device_unit(2) insQ dec])
      then show ?thesis using x s by simp
    qed
    show "ensures ?P (and_then (case mtp of None \<Rightarrow> (\<lambda>w. prefill_prompt G co ids s (may_speculate G options (wk_caches w)) w)
         | Some state \<Rightarrow> prefill_resume G co ids s state) (\<lambda>((first, s), mtp). and_then (checkpoint G co) (\<lambda>_.
       session_decode G on_token first s options pending mtp client))) ?R anything"
      by (rule ensures_and_then [OF pre k])
  qed
qed

section \<open>Steps of the world\<close>

abbreviation "coherent w \<equiv> pool_coherent kinds kvr recur (wl_pool w)"

text \<open>The pool is coherent, the caller's state and the id counter are known.\<close>

definition world_at :: "'c \<Rightarrow> 64 word \<Rightarrow> ('a, 'b, 'h, 'd, 'c) world \<Rightarrow> bool" where
  "world_at c n w \<longleftrightarrow> coherent w \<and> wl_client w = c \<and> wl_call_ids w = n"

lemma world_device_at:
  "ensures (world_at c n) (world_device f) (\<lambda>x w. world_at c n w \<and> (\<exists>dv dv'. f dv = (Inr x, dv'))) coherent"
  by (rule ensuresI) (auto simp: world_device_def lift_result_def world_at_def split: prod.splits sum.splits)

lemma world_steady:
  "ensures (world_at c n) (world_device f) (\<lambda>_. world_at c n) coherent"
  "ensures (world_at c n) (world_checkpoint G co) (\<lambda>_. world_at c n) coherent"
  "ensures (world_at c n) (world_now G) (\<lambda>_. world_at c n) coherent"
  by (auto simp: world_checkpoint_def world_now_def intro!: ensures_mono [OF world_device_at])

lemma pure_result_at: "ensures P (pure_result r) (\<lambda>x w. P w \<and> r = Inr x) R" if "\<And>w. P w \<Longrightarrow> R w"
  using that by (cases r) (auto simp: ensures_def pure_result_def lift_result_def)

lemma world_at_coherent: "world_at c n w \<Longrightarrow> coherent w"
  by (simp add: world_at_def)

lemma then_pure:
  assumes "\<And>x. r = Inr x \<Longrightarrow> ensures (world_at c n) (k x) Q coherent"
  shows "ensures (world_at c n) (and_then (pure_result r) k) Q coherent"
  by (rule ensures_and_then [OF pure_result_at], erule world_at_coherent, rule ensures_assume) (rule assms)

lemma then_world:
  assumes "ensures (world_at c n) m (\<lambda>_. world_at c n) coherent" "\<And>x. ensures (world_at c n) (k x) Q coherent"
  shows "ensures (world_at c n) (and_then m k) Q coherent"
  by (rule ensures_and_then [OF assms])

lemma encode_at:
  assumes "text_only G messages"
  shows "ensures (world_at c n) (encode_chat_with_media_full_inner G co messages tools thinking budget)
    (\<lambda>(ids, media, pending) w. world_at c n w \<and> media = ([], [])
      \<and> (\<exists>prompt. rendered_prompt G messages tools thinking = Some (prompt, ids) \<and> pending = pending_marker prompt)) coherent"
  unfolding encode_chat_with_media_full_inner_def Let_def
  by (intro then_world [OF world_steady(2)] then_pure)
    (use assms in \<open>auto simp: text_only_def rendered_prompt_def intro!: ensures_ok\<close>)

lemma on_caches_at:
  fixes c :: 'c
  assumes "ensures P m Q anything" "\<And>dv. P \<lparr> wk_caches = caches, wk_mtp = None, wk_device = dv \<rparr>"
  shows "ensures (world_at c n) (on_caches caches m)
    (\<lambda>(x, caches') w. world_at c n w \<and> (\<exists>wk. wk_caches wk = caches' \<and> Q x wk)) coherent"
proof (rule ensuresI)
  fix w :: "('a, 'b, 'h, 'd, 'c) world" and r w' assume w: "world_at c n w" "on_caches caches m w = (r, w')"
  let ?wk = "\<lparr> wk_caches = caches, wk_mtp = None, wk_device = wl_device w \<rparr>"
  obtain r1 wk where m: "m ?wk = (r1, wk)" by (cases "m ?wk")
  show "case r of Inr x \<Rightarrow> (case x of (x, caches') \<Rightarrow> \<lambda>w. world_at c n w \<and> (\<exists>wk. wk_caches wk = caches' \<and> Q x wk)) w'
    | Inl (Error e) \<Rightarrow> coherent w' | Inl Panic \<Rightarrow> False"
    using w m ensures_Inr [OF assms(1,2)] ensures_Inl [OF assms(1,2)]
    by (cases r1) (fastforce simp: on_caches_def world_at_def)+
qed


section \<open>The start of a call\<close>

definition start_ok :: "token_id list \<Rightarrow> bool \<Rightarrow> ('a, 'b, 'h) warm_start \<Rightarrow> bool" where
  "start_ok full spec ws \<longleftrightarrow> Caches (ws_caches ws) (take (ws_fed_len ws) full)
     \<and> module_at (take (ws_fed_len ws) full) (ws_mtp ws) \<and> (spec \<longrightarrow> (ws_mtp ws = None \<longleftrightarrow> ws_fed_len ws = 0))
     \<and> (\<not> spec \<longrightarrow> ws_mtp ws = None) \<and> (ws_fed_len ws < length full \<or> ws_fed_len ws = 0)"

lemma cold_start_ok: "start_ok full spec (cold_start G)"
  using fresh_caches by (auto simp: start_ok_def cold_start_def module_at_def)

lemma call_start_at:
  fixes c :: 'c
  shows "ensures (world_at c n) (call_start G cache full spec) (\<lambda>ws w. world_at c n w \<and> start_ok full spec ws) coherent"
proof -
  let ?ok = "\<lambda>ws. ws_fed_len ws < length full \<longrightarrow> start_ok full spec ws"
  have look: "ensures (world_at c n) (\<lambda>w. case find_longest_compatible_prefix t1 t2 full spec (wl_pool w) of
         (hit, p) \<Rightarrow> ok (case hit of None \<Rightarrow> cold_start G
               | Some (entry, shared) \<Rightarrow>
                   \<lparr> ws_caches = ce_caches entry, ws_fed_len = shared, ws_fed_images = ce_fed_images entry,
                     ws_fed_audios = ce_fed_audios entry,
                     ws_mtp = (if spec then map_option (\<lambda>m. (mtp_caches m, mtp_frontier m)) (ce_mtp entry) else None) \<rparr>)
             (w\<lparr> wl_pool := p \<rparr>)) (\<lambda>ws w. world_at c n w \<and> ?ok ws) coherent" for t1 t2
  proof (rule ensuresI)
    fix w :: "('a, 'b, 'h, 'd, 'c) world" and r w'
    assume w: "world_at c n w" "(case find_longest_compatible_prefix t1 t2 full spec (wl_pool w) of
         (hit, p) \<Rightarrow> ok (case hit of None \<Rightarrow> cold_start G
               | Some (entry, shared) \<Rightarrow>
                   \<lparr> ws_caches = ce_caches entry, ws_fed_len = shared, ws_fed_images = ce_fed_images entry,
                     ws_fed_audios = ce_fed_audios entry,
                     ws_mtp = (if spec then map_option (\<lambda>m. (mtp_caches m, mtp_frontier m)) (ce_mtp entry) else None) \<rparr>)
             (w\<lparr> wl_pool := p \<rparr>)) = (r, w')"
    obtain hit p where f: "find_longest_compatible_prefix t1 t2 full spec (wl_pool w) = (hit, p)"
      by (cases "find_longest_compatible_prefix t1 t2 full spec (wl_pool w)")
    note F = pool_coherent_find [OF world_at_coherent [OF w(1)] f]
    have p: "world_at c n w'" using w f F(1) by (auto simp: ok_def world_at_def)
    show "case r of Inr ws \<Rightarrow> world_at c n w' \<and> ?ok ws | Inl (Error e) \<Rightarrow> coherent w' | Inl Panic \<Rightarrow> False"
    proof (cases hit)
      case None
      then show ?thesis using w(2) f p cold_start_ok by (auto simp: ok_def)
    next
      case (Some es)
      obtain e k where es: "es = (e, k)" by (cases es)
      let ?ws = "\<lparr> ws_caches = ce_caches e, ws_fed_len = k, ws_fed_images = ce_fed_images e,
          ws_fed_audios = ce_fed_audios e,
          ws_mtp = (if spec then map_option (\<lambda>m. (mtp_caches m, mtp_frontier m)) (ce_mtp e) else None) \<rparr>"
      from F(2) [of e k] Some es have H: "entry_holds kinds kvr recur e" "length (ce_ids e) = k" "ce_ids e \<noteq> []"
        "take k full = ce_ids e" "spec \<longrightarrow> ce_mtp e \<noteq> None" by simp_all
      have h: "Caches (ce_caches e) (take k full)" "snapshot_at (take k full) (ce_mtp e)" "0 < k" "length (take k full) = k"
        using H(1-3) unfolding entry_holds_def H(4) by auto
      have "?ok ?ws"
        using h H(5) by (auto simp: start_ok_def module_at_def snapshot_at_def simp del: length_take)
      moreover have "r = Inr ?ws" using w(2) f Some es by (simp add: ok_def)
      ultimately show ?thesis using p by simp
    qed
  qed
  have hit: "ensures (world_at c n) (if cache then pool_lookup G full spec else ok (cold_start G))
      (\<lambda>ws w. world_at c n w \<and> ?ok ws) coherent"
  proof (rule ensures_if)
    show "ensures (world_at c n) (pool_lookup G full spec) (\<lambda>ws w. world_at c n w \<and> ?ok ws) coherent"
      unfolding pool_lookup_def by (intro then_world [OF world_steady(3)] look)
    show "ensures (world_at c n) (ok (cold_start G)) (\<lambda>ws w. world_at c n w \<and> ?ok ws) coherent"
      by (rule ensures_ok) (simp add: cold_start_ok)
  qed
  show ?thesis
    unfolding call_start_def
    by (rule ensures_and_then [OF hit], rule ensures_ok) (use cold_start_ok in auto)
qed

text \<open>A boundary snapshot is exact, and the rest of the call goes on from its caches.\<close>

definition snap_ok :: "('a, 'b, 'h) snapshot \<Rightarrow> bool" where
  "snap_ok sn \<longleftrightarrow> (\<forall>ids caches m. sn = Some (ids, caches, m) \<longrightarrow> Caches caches ids \<and> snapshot_at ids m)"

lemma boundary_prefill_at:
  assumes "module_at a mtp" "spec \<Longrightarrow> mtp = None \<longleftrightarrow> a = []" "\<not> spec \<Longrightarrow> mtp = None"
  shows "ensures (\<lambda>w. Caches (wk_caches w) a) (boundary_prefill G co spec pre mtp)
    (\<lambda>m w. Caches (wk_caches w) (a @ pre) \<and> module_at (a @ pre) m \<and> (spec \<longleftrightarrow> m \<noteq> None)) anything"
proof (cases spec)
  case True
  have ins: "insensitive (\<lambda>w. Caches (wk_caches w) (a @ pre))" by (simp add: insensitive_def)
  have tail: "ensures (\<lambda>w. Caches (wk_caches w) (a @ pre) \<and> says lg (succ (a @ pre)) \<and> module_at (a @ pre) (Some st) \<and> pre \<noteq> [])
      (and_then (checkpoint G co) (\<lambda>_. ok (Some st)))
      (\<lambda>m w. Caches (wk_caches w) (a @ pre) \<and> module_at (a @ pre) m \<and> (spec \<longleftrightarrow> m \<noteq> None)) anything" for lg st
    by (rule ensures_assume, rule then_steady [OF steady_device_unit(2) ins], rule ensures_ok) (use True in auto)
  show ?thesis unfolding boundary_prefill_def if_P [OF True]
    by (rule ensures_and_then [OF prefill_mtp_at [OF assms(1) assms(2) [OF True]]]) (use tail in \<open>auto split: prod.split\<close>)
next
  case False
  have ins: "insensitive (\<lambda>w. Caches (wk_caches w) (a @ pre))" by (simp add: insensitive_def)
  have plain: "ensures (\<lambda>w. Caches (wk_caches w) a) (prefill_plain G co pre) (\<lambda>lg w. Caches (wk_caches w) (a @ pre)) anything"
  proof (rule ensures_fix)
    fix w0 :: "('a, 'b, 'h, 'd) work" assume "Caches (wk_caches w0) a"
    then show "ensures (\<lambda>v. v = w0) (prefill_plain G co pre) (\<lambda>lg w. Caches (wk_caches w) (a @ pre)) anything"
      by (intro ensures_mono [OF prefill_plain_at [of a "wk_mtp w0" co pre]]) (auto simp: fed_at_def)
  qed
  have none: "mtp = None" using assms(3) False by simp
  have tail: "ensures (\<lambda>w. Caches (wk_caches w) (a @ pre)) (and_then (eval_last_logits G lg) (\<lambda>_.
      and_then (checkpoint G co) (\<lambda>_. ok mtp)))
      (\<lambda>m w. Caches (wk_caches w) (a @ pre) \<and> module_at (a @ pre) m \<and> (spec \<longleftrightarrow> m \<noteq> None)) anything" for lg
    by (rule then_steady [OF steady_eval ins], rule then_steady [OF steady_device_unit(2) ins], rule ensures_ok)
      (simp add: none False module_at_def)
  show ?thesis unfolding boundary_prefill_def if_not_P [OF False] by (rule ensures_and_then [OF plain tail])
qed

lemma boundary_snapshot_at:
  assumes "start_ok full spec ws"
  shows "ensures (world_at c n) (boundary_snapshot G co spec boundary full ws)
    (\<lambda>(sn, ws') w. world_at c n w \<and> start_ok full spec ws' \<and> snap_ok sn) coherent"
proof (cases "boundary = None \<or> \<not> (the boundary > ws_fed_len ws \<and> the boundary < length full)")
  case True
  then show ?thesis using assms
    by (auto simp: boundary_snapshot_def snap_ok_def intro!: ensures_ok split: option.split)
next
  case False
  then obtain b where b: "boundary = Some b" "ws_fed_len ws < b" "b < length full" by auto
  let ?a = "take (ws_fed_len ws) full" and ?pre = "drop (ws_fed_len ws) (take b full)"
  have cat: "?a @ ?pre = take b full"
    using append_take_drop_id [of "ws_fed_len ws" "take b full"] b by (simp add: min_def split: if_splits)
  have full: "full \<noteq> []" using b(3) by auto
  note S = assms [unfolded start_ok_def]
  have pre: "ensures (\<lambda>w. Caches (wk_caches w) ?a) (boundary_prefill G co spec ?pre (ws_mtp ws))
    (\<lambda>m w. Caches (wk_caches w) (?a @ ?pre) \<and> module_at (?a @ ?pre) m \<and> (spec \<longleftrightarrow> m \<noteq> None)) anything"
    by (rule boundary_prefill_at) (use S full in auto)
  have run: "ensures (world_at c n) (on_caches (ws_caches ws) (boundary_prefill G co spec ?pre (ws_mtp ws)))
    (\<lambda>(m, caches') w. world_at c n w \<and> (\<exists>wk :: ('a, 'b, 'h, 'd) work. wk_caches wk = caches' \<and> Caches (wk_caches wk) (take b full)
      \<and> module_at (take b full) m \<and> (spec \<longleftrightarrow> m \<noteq> None))) coherent"
    by (rule on_caches_at [OF pre [unfolded cat]]) (use S in simp)
  show ?thesis
    unfolding boundary_snapshot_def b(1) option.case if_P [OF conjI [OF b(2,3)]]
    by (rule ensures_and_then [OF run])
      (use b S in \<open>auto simp: start_ok_def snap_ok_def mtp_snapshot_def snapshot_at_def module_at_def intro!: ensures_ok
        split: prod.splits\<close>)
qed


section \<open>Decoding and storing\<close>

abbreviation (input) "fresh_client c \<equiv> \<lparr> cc_reported_tokens = 0, cc_aborted = False, cc_user = c \<rparr>"

definition decoded_call ::
  "'c call_client callback \<Rightarrow> generate_options \<Rightarrow> marker_pair option \<Rightarrow> 'c \<Rightarrow> token_id list
    \<Rightarrow> (('a, 'b, 'h) decode_outcome \<times> bool) \<times> ('a, 'b) layers \<Rightarrow> 'c \<Rightarrow> bool" where
  "decoded_call cb options pending c full = (\<lambda>((out, aborted), caches) c'.
     do_committed_len out \<le> length (do_emitted out)
     \<and> Caches caches (full @ take (do_committed_len out) (do_emitted out))
     \<and> snapshot_at (full @ take (do_committed_len out) (do_emitted out)) (do_mtp out)
     \<and> (greedy_options options \<longrightarrow> (\<exists>cc. cc_aborted cc = aborted \<and> cc_user cc = c'
         \<and> plainly G succ cb options pending (fresh_client c) full (do_emitted out) (do_reasoning_forced_closed out) cc)))"

lemma decode_call_at:
  fixes c :: 'c
  assumes "start_ok full spec ws"
    and "spec \<longleftrightarrow> resolve_speculative_tokens (go_speculative_tokens options) \<noteq> None \<and> eg_mtp_certified G"
  shows "ensures (world_at c n) (decode_call G co cb (drop (ws_fed_len ws) full) ([], []) options pending ws)
    (\<lambda>x w. world_at (wl_client w) n w \<and> decoded_call cb options pending c full x (wl_client w)) coherent"
proof (rule ensuresI)
  fix w :: "('a, 'b, 'h, 'd, 'c) world" and r w'
  assume w: "world_at c n w" "decode_call G co cb (drop (ws_fed_len ws) full) ([], []) options pending ws w = (r, w')"
  let ?a = "take (ws_fed_len ws) full"
  note S = assms(1) [unfolded start_ok_def]
  have c: "wl_client w = c" using w(1) by (simp add: world_at_def)
  let ?m = "generate_with_media_inner G co cb (drop (ws_fed_len ws) full) ([], []) options pending (ws_mtp ws) (fresh_client c)"
  have "ensures (\<lambda>w. Caches (wk_caches w) ?a \<and> (ws_mtp ws = None \<and> may_speculate G options (wk_caches w) \<longrightarrow> ?a = [])) ?m
    (\<lambda>(out, client') w. decoded_at (?a @ drop (ws_fed_len ws) full) out w
      \<and> (greedy_options options \<longrightarrow> plainly G succ cb options pending (fresh_client c) (?a @ drop (ws_fed_len ws) full)
          (do_emitted out) (do_reasoning_forced_closed out) client')) anything"
    by (rule generate_inner_at) (use S in auto)
  then have "ensures (world_at c n) (on_caches (ws_caches ws) ?m)
    (\<lambda>(x, caches') w. world_at c n w \<and> (\<exists>wk. wk_caches wk = caches' \<and> (case x of (out, client') \<Rightarrow> \<lambda>w. decoded_at full out w
      \<and> (greedy_options options \<longrightarrow> plainly G succ cb options pending (fresh_client c) full
          (do_emitted out) (do_reasoning_forced_closed out) client')) wk)) coherent"
    unfolding append_take_drop_id by (rule on_caches_at) (use S assms(2) in \<open>auto simp: may_speculate_def\<close>)
  note run = ensures_Inr [OF this w(1)] ensures_Inl [OF this w(1)]
  show "case r of Inr x \<Rightarrow> world_at (wl_client w') n w' \<and> decoded_call cb options pending c full x (wl_client w')
    | Inl (Error e) \<Rightarrow> coherent w' | Inl Panic \<Rightarrow> False"
    using w(2) run by (cases r)
      (fastforce simp: decode_call_def c world_at_def decoded_call_def decoded_at_def split: prod.splits sum.splits)+
qed

lemma store_call_at:
  fixes c :: 'c
  assumes "snap_ok sn" "decoded_call cb options pending c0 full ((out, ab), caches) c"
  shows "ensures (world_at c n) (store_call G sn full media out caches) (\<lambda>_. world_at c n) coherent"
  unfolding store_call_def
  using assms
  by (intro then_world [OF world_steady(3)] ensuresI)
    (auto simp: world_at_def ok_def snap_ok_def decoded_call_def split: option.splits intro!: pool_coherent_insert)

end


section \<open>The reference call: no pool, no speculation\<close>

text \<open>What a reply shows once the cached-token count and the speculation counters are set aside.\<close>

definition shown :: "generate_reply \<Rightarrow> generate_reply" where
  "shown r = r\<lparr> gr_usage := (gr_usage r)\<lparr> us_cached_tokens := 0 \<rparr>, gr_speculation := None \<rparr>"

definition ignores_cached :: "(generation_progress \<Rightarrow> 'c \<Rightarrow> bool \<times> 'c) \<Rightarrow> bool" where
  "ignores_cached on_progress \<longleftrightarrow> (\<forall>p k c. on_progress (p\<lparr> gp_cached_tokens := k \<rparr>) c = on_progress p c)"

definition plain_call ::
  "('a, 'b, 'h, 'l, 'd, 'm, 'msg, 'g) engine \<Rightarrow> (token_id list \<Rightarrow> token_id)
    \<Rightarrow> (generation_progress \<Rightarrow> 'c \<Rightarrow> bool \<times> 'c) \<Rightarrow> 'c callback \<Rightarrow> 'msg list \<Rightarrow> tool list option \<Rightarrow> generate_options
    \<Rightarrow> 64 word \<Rightarrow> 'c \<Rightarrow> (generate_reply \<times> 64 word \<times> 'c) option" where
  "plain_call G succ on_progress on_token messages tools options n c =
     (case rendered_prompt G messages tools (go_enable_thinking options) of
        None \<Rightarrow> None
      | Some (prompt, ids) \<Rightarrow>
          (let context_limit = (case eg_context_limit G of
                 None \<Rightarrow> go_context_tokens options | Some limit \<Rightarrow> min limit (go_context_tokens options));
               pending = pending_marker prompt;
               progress = (\<lambda>phase cached completed.
                 \<lparr> gp_phase = phase, gp_prompt_tokens = length ids, gp_cached_tokens = cached,
                   gp_completion_tokens = completed, gp_max_output_tokens = go_max_tokens options,
                   gp_context_limit = context_limit \<rparr>);
               cb = caller_on_token on_progress on_token (progress DecodePhase (Some 0)) in
           case on_progress (progress PromptPhase None 0) c of
             (False, _) \<Rightarrow> None
           | (True, c) \<Rightarrow>
               (case on_progress (progress PrefillPhase (Some 0) 0) c of
                  (False, _) \<Rightarrow> None
                | (True, c) \<Rightarrow>
                    (case plain_loop (eg_tokenizer G) cb succ ids (succ ids)
                        (plain_core G options pending \<lparr> cc_reported_tokens = 0, cc_aborted = False, cc_user = c \<rparr>) of
                       (Inl _, _) \<Rightarrow> None
                     | (Inr _, s) \<Rightarrow>
                         (let cc = te_client (snd (into_emitted cb (co_emitter s))) in
                          case build_reply G tools pending
                            \<lparr> us_prompt_tokens = length ids, us_cached_tokens = 0,
                              us_completion_tokens = length (te_emitted (co_emitter s)) \<rparr>
                            (cc_aborted cc) (co_forced s) None (te_emitted (co_emitter s)) n of
                            (Inl _, _) \<Rightarrow> None
                          | (Inr reply, n) \<Rightarrow> Some (reply, n, cc_user cc))))))"

lemma build_reply_shown:
  assumes "build_reply G tools pending us ab fc sp ids n = (Inr r, n')"
  shows "build_reply G tools pending (us\<lparr> us_cached_tokens := 0 \<rparr>) ab fc None ids n = (Inr (shown r), n')"
  using assms by (auto simp: build_reply_def shown_def Let_def split: sum.splits prod.splits)


section \<open>The whole call\<close>

context session_engine
begin

lemma then_encode:
  fixes c :: 'c
  assumes "text_only G messages"
    and "\<And>prompt ids. rendered_prompt G messages tools thinking = Some (prompt, ids) \<Longrightarrow>
      ensures (world_at c n) (k (ids, ([], []), pending_marker prompt)) Q coherent"
  shows "ensures (world_at c n) (and_then (encode_chat_with_media_full_inner G co messages tools thinking budget) k) Q coherent"
proof (rule ensures_and_then [OF encode_at [OF assms(1)]], unfold case_prod_beta)
  fix x :: "token_id list \<times> ('m list \<times> 'm list) \<times> marker_pair option"
  show "ensures (\<lambda>w. world_at c n w \<and> fst (snd x) = ([], []) \<and>
      (\<exists>prompt. rendered_prompt G messages tools thinking = Some (prompt, fst x) \<and> snd (snd x) = pending_marker prompt))
      (k x) Q coherent"
    by (rule ensures_assume) (use assms(2) in \<open>cases x; auto\<close>)
qed

lemma then_progress:
  fixes c :: 'c
  assumes "\<And>c'. on_progress p c = (True, c') \<Longrightarrow> ensures (world_at c' n) (k ()) Q coherent"
  shows "ensures (world_at c n) (and_then (progress_step on_progress p) k) Q coherent"
proof (rule ensures_and_then)
  show "ensures (world_at c n) (progress_step on_progress p)
      (\<lambda>_ w. world_at (snd (on_progress p c)) n w \<and> on_progress p c = (True, snd (on_progress p c))) coherent"
    by (rule ensuresI) (auto simp: progress_step_def world_at_def split: prod.splits bool.splits)
  show "ensures (\<lambda>w. world_at (snd (on_progress p c)) n w \<and> on_progress p c = (True, snd (on_progress p c))) (k x) Q coherent" for x :: unit
    by (rule ensures_assume) (use assms in simp)
qed

lemma then_start:
  fixes c :: 'c
  assumes "\<And>ws. start_ok full spec ws \<Longrightarrow> ensures (world_at c n) (k ws) Q coherent"
  shows "ensures (world_at c n) (and_then (call_start G cache full spec) k) Q coherent"
  by (rule ensures_and_then [OF call_start_at], rule ensures_assume, rule assms)

lemma then_snapshot:
  fixes c :: 'c
  assumes "start_ok full spec ws"
    and "\<And>sn ws'. start_ok full spec ws' \<Longrightarrow> snap_ok sn \<Longrightarrow> ensures (world_at c n) (k (sn, ws')) Q coherent"
  shows "ensures (world_at c n) (and_then (boundary_snapshot G co spec boundary full ws) k) Q coherent"
proof (rule ensures_and_then [OF boundary_snapshot_at [OF assms(1)]], unfold case_prod_beta)
  fix x :: "('a, 'b, 'h) snapshot \<times> ('a, 'b, 'h) warm_start"
  show "ensures (\<lambda>w. world_at c n w \<and> start_ok full spec (snd x) \<and> snap_ok (fst x)) (k x) Q coherent"
    by (rule ensures_assume) (use assms(2) in \<open>cases x; auto\<close>)
qed

lemma then_decode:
  fixes c :: 'c
  assumes "start_ok full spec ws"
    and "spec \<longleftrightarrow> resolve_speculative_tokens (go_speculative_tokens options) \<noteq> None \<and> eg_mtp_certified G"
    and "\<And>out ab caches c'. decoded_call cb options pending c full ((out, ab), caches) c' \<Longrightarrow>
      ensures (world_at c' n) (k ((out, ab), caches)) Q coherent"
  shows "ensures (world_at c n) (and_then (decode_call G co cb (drop (ws_fed_len ws) full) ([], []) options pending ws) k) Q coherent"
proof (rule ensures_and_then [OF decode_call_at [OF assms(1,2)]], rule ensures_fix)
  fix x :: "(('a, 'b, 'h) decode_outcome \<times> bool) \<times> ('a, 'b) layers" and w :: "('a, 'b, 'h, 'd, 'c) world"
  assume d: "world_at (wl_client w) n w \<and> decoded_call cb options pending c full x (wl_client w)"
  obtain out ab caches where x: "x = ((out, ab), caches)" by (metis prod.collapse)
  show "ensures (\<lambda>v. v = w) (k x) Q coherent"
    unfolding x by (rule ensures_mono [OF assms(3) [of out ab caches "wl_client w"]]) (use d x in auto)
qed

lemma reply_step_at:
  fixes c :: 'c
  assumes "\<And>r n'. f n = (Inr r, n') \<Longrightarrow> Good r n' c"
  shows "ensures (world_at c n) (reply_step f) (\<lambda>r w. coherent w \<and> Good r (wl_call_ids w) (wl_client w)) coherent"
  by (rule ensuresI) (use assms in \<open>auto simp: reply_step_def world_at_def lift_result_def split: prod.splits sum.splits\<close>)

text \<open>The abbreviations the call uses, as definitions.\<close>

lemma ignores_cachedD:
  assumes "ignores_cached on_progress"
  shows "on_progress \<lparr> gp_phase = ph, gp_prompt_tokens = n, gp_cached_tokens = k, gp_completion_tokens = d,
      gp_max_output_tokens = mx, gp_context_limit = l \<rparr> c
    = on_progress \<lparr> gp_phase = ph, gp_prompt_tokens = n, gp_cached_tokens = k', gp_completion_tokens = d,
      gp_max_output_tokens = mx, gp_context_limit = l \<rparr> c"
  using assms [unfolded ignores_cached_def, rule_format, of k "\<lparr> gp_phase = ph, gp_prompt_tokens = n, gp_cached_tokens = k',
      gp_completion_tokens = d, gp_max_output_tokens = mx, gp_context_limit = l \<rparr>" c] by simp

lemma plain_callI:
  fixes c :: 'c
  defines "limit \<equiv> \<lambda>options. case eg_context_limit G of None \<Rightarrow> go_context_tokens options | Some l \<Rightarrow> min l (go_context_tokens options)"
  defines "progress \<equiv> \<lambda>options ph n k d. \<lparr> gp_phase = ph, gp_prompt_tokens = n, gp_cached_tokens = k, gp_completion_tokens = d,
      gp_max_output_tokens = go_max_tokens options, gp_context_limit = limit options \<rparr>"
  assumes prompt: "rendered_prompt G messages tools (go_enable_thinking options) = Some (prompt, ids)"
    and p1: "on_progress (progress options PromptPhase (length ids) None 0) c = (True, c1)"
    and p2: "on_progress (progress options PrefillPhase (length ids) (Some hit) 0) c1 = (True, c2)"
    and d: "decoded_call (caller_on_token on_progress on_token (progress options DecodePhase (length ids) (Some hit))) options
      (pending_marker prompt) c2 ids ((out, ab), caches) c3"
    and b: "build_reply G tools (pending_marker prompt) \<lparr> us_prompt_tokens = length ids, us_cached_tokens = hit,
        us_completion_tokens = length (do_emitted out) \<rparr> ab (do_reasoning_forced_closed out) sp (do_emitted out) n = (Inr r, n')"
    and "greedy_options options" "ignores_cached on_progress"
  shows "plain_call G succ on_progress on_token messages tools options n c = Some (shown r, n', c3)"
proof -
  note quiet = ignores_cachedD [OF assms(9)]
  have cb: "caller_on_token on_progress on_token (progress options DecodePhase (length ids) (Some hit))
    = caller_on_token on_progress on_token (progress options DecodePhase (length ids) (Some 0))"
    by (intro ext) (simp add: caller_on_token_def progress_def quiet [of _ _ "Some hit" _ _ _ _ "Some 0"] split: prod.split option.split)
  have p2': "on_progress (progress options PrefillPhase (length ids) (Some 0) 0) c1 = (True, c2)"
    using p2 quiet [of _ _ "Some hit" _ _ _ _ "Some 0"] by (simp add: progress_def)
  from d obtain cc where cc: "cc_aborted cc = ab" "cc_user cc = c3"
    "plainly G succ (caller_on_token on_progress on_token (progress options DecodePhase (length ids) (Some 0))) options
      (pending_marker prompt) (fresh_client c2) ids (do_emitted out) (do_reasoning_forced_closed out) cc"
    using assms(8) by (auto simp: decoded_call_def cb)
  let ?cb = "caller_on_token on_progress on_token (progress options DecodePhase (length ids) (Some 0))"
  from cc(3) obtain s where s: "plain_loop (eg_tokenizer G) ?cb succ ids (succ ids)
      (plain_core G options (pending_marker prompt) (fresh_client c2)) = (Inr (), s)"
    and e: "te_emitted (co_emitter s) = do_emitted out" "co_forced s = do_reasoning_forced_closed out"
    and t: "te_client (snd (into_emitted ?cb (co_emitter s))) = cc"
    by (auto simp: plainly_def)
  have b0: "build_reply G tools (pending_marker prompt) \<lparr> us_prompt_tokens = length ids, us_cached_tokens = 0,
        us_completion_tokens = length (do_emitted out) \<rparr> ab (do_reasoning_forced_closed out) None (do_emitted out) n
      = (Inr (shown r), n')"
    using build_reply_shown [OF b] by simp
  show ?thesis
    using p1 p2' s t
    by (simp add: plain_call_def prompt Let_def progress_def limit_def e b0 cc(1,2))
qed

theorem call_at:
  fixes c :: 'c
  assumes "text_only G messages"
  shows "ensures (world_at c n) (generate_cached_inner G co on_progress on_token messages tools options)
    (\<lambda>reply w. coherent w \<and> (greedy_options options \<and> ignores_cached on_progress \<longrightarrow>
      plain_call G succ on_progress on_token messages tools options n c = Some (shown reply, wl_call_ids w, wl_client w))) coherent"
proof -
  have certified: "ensures (world_at c n) (if b then fail e else ok ()) (\<lambda>_. world_at c n) coherent" for b e
    by (auto intro!: ensures_ok ensures_fail dest: world_at_coherent)
  have store: "ensures (world_at c' n) (if b then store_call G sn full media out caches else ok ()) (\<lambda>_. world_at c' n) coherent"
    if "snap_ok sn" "decoded_call cb options pending c0 full ((out, ab), caches) c'" for b sn full media out caches cb pending c0 ab and c' :: 'c
    using store_call_at [OF that] by (auto intro: ensures_ok)
  show ?thesis
    unfolding generate_cached_inner_def Let_def
    apply (rule then_world [OF world_steady(2)], rule then_world [OF certified], rule then_encode [OF assms])
    apply (unfold case_prod_conv, rule then_progress, rule then_pure, rule then_world [OF world_steady(2)], rule then_start,
        rule then_progress, rule then_snapshot, assumption)
    apply (unfold case_prod_conv fst_conv snd_conv drop_Nil, rule then_decode, assumption, simp)
    apply (unfold case_prod_conv, rule then_world [OF world_steady(2)], rule then_world [OF store], assumption+)
    apply (rule reply_step_at)
    apply (intro impI, elim conjE, rule plain_callI, assumption+)
    done
qed

end

end
