(* ===== verification/Bigram_Engine.thy ===== *)
theory Bigram_Engine
  imports Call_Correct
begin

text \<open>
  A small engine that satisfies the laws: a bigram model with a layer of every kind (a windowed attention
  layer, a gated-delta layer and a dhara layer), a prediction module with a bigram of its own, and a
  device that fails on a schedule. The token after \<open>t\<close> is \<open>f t\<close>; the module guesses \<open>g t\<close>.
\<close>

section \<open>The model\<close>

text \<open>An operation fails where the schedule says so; past its end nothing fails.\<close>

definition scheduled :: "'x \<Rightarrow> bool list \<Rightarrow> (engine_error + 'x) \<times> bool list" where
  "scheduled x dv = (case dv of [] \<Rightarrow> (Inr x, []) | b # bs \<Rightarrow> (if b then Inl (EMlx ''device'') else Inr x, bs))"

lemma scheduled_Inr: "scheduled x dv = (Inr y, dv') \<Longrightarrow> y = x"
  by (auto simp: scheduled_def split: list.splits if_splits)

text \<open>Logits: the number of dimensions and the chosen token of each row.\<close>

type_synonym bigram_logits = "nat \<times> token_id list"

definition bigram_kinds :: "str list" where
  "bigram_kinds = [''attention'', ''gated-delta'', ''dhara'']"

definition bigram_kvr :: "nat \<Rightarrow> token_id list \<Rightarrow> token_id \<times> token_id" where
  "bigram_kvr i p = (last p, last p)"

definition bigram_recur :: "nat \<Rightarrow> token_id list \<Rightarrow> token_id option list" where
  "bigram_recur i p = replicate (state_count (bigram_kinds ! i)) (last_of p)"

definition bigram_succ :: "(token_id \<Rightarrow> token_id) \<Rightarrow> token_id list \<Rightarrow> token_id" where
  "bigram_succ f p = f (last p)"

definition bigram_feed :: "token_id list \<Rightarrow> (token_id, token_id) layers \<Rightarrow> (token_id, token_id) layers" where
  "bigram_feed ids L = map (\<lambda>l. feed_layer 0 (map (\<lambda>t. (t, t)) ids) (replicate (state_count (kind_name l)) (last_of ids)) l) L"

fun mtp_move :: "nat \<Rightarrow> ('a, 'b) layer_cache \<Rightarrow> ('a, 'b) layer_cache" where
  "mtp_move n (Attention kv) = Attention (kv\<lparr> kv_offset := int (nat (kv_offset kv) + n) \<rparr>)"
| "mtp_move n l = l"

definition bigram_forward ::
  "('x \<Rightarrow> 'y) \<Rightarrow> 'x \<Rightarrow> token_id list \<Rightarrow> (token_id, token_id) layers \<Rightarrow> bool list
    \<Rightarrow> (engine_error + 'y) \<times> (token_id, token_id) layers \<times> bool list" where
  "bigram_forward h x ids L dv =
     (case scheduled (h x) dv of (Inl e, dv) \<Rightarrow> (Inl e, L, dv) | (Inr y, dv) \<Rightarrow> (Inr y, bigram_feed ids L, dv))"

definition point_mass :: "token_id \<Rightarrow> rat list" where
  "point_mass t = map (\<lambda>i. if i = unat t then 1 else 0) [0..<128]"

definition bigram_env ::
  "(token_id \<Rightarrow> token_id) \<Rightarrow> (token_id \<Rightarrow> token_id) \<Rightarrow> (token_id, token_id, token_id, bigram_logits, bool list) session_env" where
  "bigram_env f g =
     \<lparr> md_forward = (\<lambda>ids. bigram_forward id (3, map f ids) ids),
       md_forward_hidden = (\<lambda>ids. bigram_forward id (ids, 3, map f ids) ids),
       md_forward_mtp = (\<lambda>ids prevs mtp dv. case scheduled (last ids, 3, map g ids) dv of
          (Inl e, dv) \<Rightarrow> (Inl e, mtp, dv) | (Inr x, dv) \<Rightarrow> (Inr x, map (mtp_move (length ids)) mtp, dv)),
       dv_from_slice = (\<lambda>ids dv. (None, dv)),
       dv_eval = (\<lambda>lg dv. (None, dv)),
       dv_argmax = (\<lambda>lg. scheduled (snd lg)),
       dv_softmax = (\<lambda>temperature lg. scheduled (concat (map point_mass (snd lg)))),
       dv_row = (\<lambda>lg j v. scheduled (1, [snd lg ! nat j])),
       dv_item = (\<lambda>lg dv. (Inr (hd (snd lg)), dv)),
       dv_detach = (\<lambda>h dv. (Inr h, dv)),
       dv_recycle = (\<lambda>h dv. (Inr h, dv)),
       dv_concatenate = (\<lambda>h dv. (None, dv)),
       lg_rows = (\<lambda>lg. int (length (snd lg))),
       lg_vocab = (\<lambda>lg. 128),
       lg_ndim = fst \<rparr>"


section \<open>The engine\<close>

text \<open>Tokens are character codes; a prompt is the text of its messages.\<close>

definition char_tokens :: "str \<Rightarrow> token_id list" where
  "char_tokens s = map (\<lambda>c. word_of_nat (of_char c)) s"

definition token_chars :: "token_id list \<Rightarrow> str" where
  "token_chars ids = map (\<lambda>t. char_of (unat t)) ids"

definition bigram_tokenizer :: tokenizer where
  "bigram_tokenizer =
     \<lparr> tk_encode = (\<lambda>s. Inr (char_tokens s)), tk_decode = (\<lambda>ids. Inr (token_chars ids)),
       tk_decode_piece_raw = (\<lambda>t. Inr (token_chars [t])) \<rparr>"

definition bigram_engine ::
  "(token_id \<Rightarrow> token_id) \<Rightarrow> (token_id \<Rightarrow> token_id) \<Rightarrow> token_id list
    \<Rightarrow> (token_id, token_id, token_id, bigram_logits, bool list, unit, str, nat) engine" where
  "bigram_engine f g eos =
     \<lparr> eg_model = bigram_env f g,
       eg_new_caches = [new_attention_windowed 4, new_gated_delta, new_dhara],
       eg_new_mtp_caches = [new_attention],
       eg_forward_media = (\<lambda>ids images audios cooperative L dv. (Inl (EModel ''no media''), L, dv)),
       eg_eval_last = (\<lambda>lg dv. (None, dv)),
       eg_eval_hidden = (\<lambda>h dv. (None, dv)),
       eg_slice_rows = (\<lambda>i j hs. scheduled (drop i (take j hs))),
       eg_cancelled = (\<lambda>dv. (False, dv)),
       eg_now = (\<lambda>dv. (0, dv)),
       eg_tokenizer = bigram_tokenizer,
       eg_decode_raw = (\<lambda>ids. Inr (token_chars ids)),
       eg_eos_ids = eos,
       eg_format = NoTools,
       eg_render = (\<lambda>msgs generation tools thinking. Inr (concat msgs)),
       eg_content = (\<lambda>msg. [TextPart]),
       eg_vision = False,
       eg_placeholders = \<lparr> ph_image = None, ph_audio = None, ph_video = None \<rparr>,
       eg_expand_media = (\<lambda>msgs ids budget cooperative dv. (Inl (EModel ''no media''), dv)),
       eg_mtp_certified = True,
       eg_context_limit = None,
       eg_gen = (\<lambda>n. (0, n)),
       eg_rng = (\<lambda>cfg dv. (0, dv)),
       eg_from_str = (\<lambda>s. None),
       eg_debug = False \<rparr>"


section \<open>The laws hold\<close>

lemma bigram_rows: "kv_rows_from bigram_kvr i a ids = map (\<lambda>t. (t, t)) ids"
  by (auto simp: kv_rows_from_def bigram_kvr_def take_Suc_conv_app_nth intro!: nth_equalityI)

lemma bigram_feed_law:
  assumes "caches_hold bigram_kinds bigram_kvr bigram_recur L a" "ids \<noteq> []"
  shows "bigram_feed ids L = feed_layers 0 bigram_kvr bigram_recur a ids L"
proof -
  have "kind_name (L ! i) = bigram_kinds ! i" if "i < length L" for i
    by (rule caches_holdD(2) [OF assms(1) that])
  then show ?thesis
    using assms(2)
    by (auto simp: bigram_feed_def feed_layers_def bigram_rows bigram_recur_def last_of_def simp del: state_count.simps
        intro!: nth_equalityI)
qed

lemma bigram_choices: "ids \<noteq> [] \<Longrightarrow> choices (bigram_succ f) a ids = map f ids"
  by (auto simp: choices_def bigram_succ_def take_Suc_conv_app_nth intro!: nth_equalityI)

lemma bigram_forward_law:
  assumes "bigram_forward h x ids L dv = (Inr y, L', dv')"
  shows "y = h x \<and> L' = bigram_feed ids L"
  using assms by (auto simp: bigram_forward_def split: prod.splits sum.splits dest: scheduled_Inr)

lemma mtp_move_law:
  "list_ex is_attention (map (mtp_move n) mtp) = list_ex is_attention mtp"
  "list_ex is_attention mtp \<Longrightarrow> mtp_pairs_fed (map (mtp_move n) mtp) = mtp_pairs_fed mtp + n"
proof -
  have k: "is_attention (mtp_move n l) = is_attention l" for l :: "('a, 'b) layer_cache" by (cases l) auto
  show "list_ex is_attention (map (mtp_move n) mtp) = list_ex is_attention mtp"
    by (induction mtp) (auto simp: k)
  show "list_ex is_attention mtp \<Longrightarrow> mtp_pairs_fed (map (mtp_move n) mtp) = mtp_pairs_fed mtp + n"
  proof (induction mtp)
    case (Cons l mtp)
    then show ?case by (cases l) (auto simp: mtp_pairs_fed_def)
  qed simp
qed

interpretation bigram: session_model "bigram_env f g" bigram_kinds bigram_kvr bigram_recur 0 "bigram_succ f" snd for f g
proof (unfold_locales, goal_cases)
  case (2 i a)
  then show ?case by (simp add: bigram_recur_def del: state_count.simps)
next
  case (5 mtp prevs ids dv r mtp' dv')
  then show ?case by (auto simp: bigram_env_def mtp_move_law split: prod.splits sum.splits)
qed (auto simp: bigram_env_def bigram_kinds_def bigram_feed_law bigram_choices
    dest!: bigram_forward_law scheduled_Inr split: prod.splits)

lemma bigram_engine_laws: "session_engine (bigram_engine f g eos) bigram_kinds bigram_kvr bigram_recur 0 (bigram_succ f) snd"
proof (intro session_engine.intro session_engine_axioms.intro)
  show "session_model (eg_model (bigram_engine f g eos)) bigram_kinds bigram_kvr bigram_recur 0 (bigram_succ f) snd"
    using bigram.session_model_axioms by (simp add: bigram_engine_def)
  show "caches_hold bigram_kinds bigram_kvr bigram_recur (eg_new_caches (bigram_engine f g eos)) []"
    using kv_rep_new kv_rep_windowed
    by (auto simp: caches_hold_def bigram_engine_def bigram_kinds_def new_attention_windowed_def new_gated_delta_def
        new_dhara_def kv_pairs_rep_def bigram_recur_def last_of_def less_Suc_eq kv_rows_from_def numeral_2_eq_2 eval_nat_numeral)
qed (auto simp: bigram_engine_def new_attention_def mtp_pairs_fed_def kv_new_def dest: scheduled_Inr)

interpretation bigram_engine: session_engine "bigram_engine f g eos" bigram_kinds bigram_kvr bigram_recur 0 "bigram_succ f" snd for f g eos
  by (rule bigram_engine_laws)

interpretation bigram_round: session_round "bigram_env f g" bigram_kinds bigram_kvr bigram_recur 0 "bigram_succ f" snd
  "driver_env (bigram_engine f g eos) on_token" for f g eos on_token
  using bigram_engine.driver_round [of f g eos on_token] by (simp add: bigram_engine_def)

end
