(* ===== verification/Finish_Reason.thy ===== *)
theory Finish_Reason
  imports Generate
begin

text \<open>
  Why a call stops: a round ends the decode loop only when the budget is used up, a stop token came out,
  or the caller refused a token; so a reply that reports \<open>Length\<close> holds its whole output budget.
\<close>

section \<open>A caller whose refusal leaves a mark\<close>

locale marked_refusal =
  fixes on_token :: "'c callback" and refused :: "'c \<Rightarrow> bool"
  assumes refusal: "on_token t c = (False, c') \<Longrightarrow> refused c'"
    and mark_kept: "on_token t c = (b, c') \<Longrightarrow> refused c \<Longrightarrow> refused c'"
begin

definition heard :: "'c token_emitter \<Rightarrow> bool \<times> 'c token_emitter \<Rightarrow> bool" where
  "heard e r \<longleftrightarrow> (refused (te_client e) \<longrightarrow> refused (te_client (snd r))) \<and> (\<not> fst r \<longrightarrow> refused (te_client (snd r)))"

lemma heard_trans: "heard e (True, e1) \<Longrightarrow> heard e1 r \<Longrightarrow> heard e r"
  by (auto simp: heard_def)

lemma heard_same: "te_client e' = te_client e \<Longrightarrow> heard e (True, e')"
  by (simp add: heard_def)

lemma heard_from: "te_client e' = te_client e \<Longrightarrow> heard e' r \<Longrightarrow> heard e r"
  by (simp add: heard_def)

lemma heard_call: "heard e (call_on_token on_token t e)"
  using refusal mark_kept by (auto simp: heard_def call_on_token_def split: prod.split bool.split)

lemma heard_each: "heard e (send_each on_token i f segments e)"
proof (induction segments arbitrary: e)
  case (Cons s segments)
  let ?t = "\<lparr> gt_id = i, gt_text = ct_text s, gt_finished = (f \<and> segments = []),
    gt_completion_tokens = length (te_emitted e), gt_kind = ct_kind s \<rparr>"
  obtain b e1 where c: "call_on_token on_token ?t e = (b, e1)" by fastforce
  then have "heard e (b, e1)" using heard_call [of e ?t] by simp
  then show ?case using Cons.IH [of e1] heard_trans [of e e1] by (cases b) (auto simp: c)
qed (simp add: heard_def)

lemma heard_segments: "heard e (send_segments on_token i f segments e)"
  by (simp add: send_segments_def send_empty_def heard_call heard_each)

lemma client_filter: "filter_post_budget_closes raw display e = (x, e') \<Longrightarrow> te_client e' = te_client e"
  by (auto simp: filter_post_budget_closes_def Let_def split: option.splits prod.splits if_splits)

lemma client_push: "classifier_push raw display e = (x, e') \<Longrightarrow> te_client e' = te_client e"
  by (auto simp: classifier_push_def split: prod.splits)

lemma heard_decoded: "heard e (emit_decoded on_token i f piece filt e)"
  unfolding emit_decoded_def
  by (auto split: prod.split if_splits dest!: client_filter client_push intro: heard_from [OF _ heard_segments])

lemma heard_piece: "heard e (emit_piece on_token i f decoded filt e)"
  unfolding emit_piece_def Let_def
  by (rule heard_from [of "e\<lparr> te_emitted := te_emitted e @ [i] \<rparr>"])
    (auto simp: heard_decoded send_empty_def heard_call split: option.split)

lemma emit_cancelled: "emit tk on_token i e = (Inr EmitCancelled, e') \<Longrightarrow> refused (te_client e')"
proof -
  assume "emit tk on_token i e = (Inr EmitCancelled, e')"
  then obtain f decoded s where "emit_piece on_token i f decoded True (e\<lparr> te_decoder := s \<rparr>) = (False, e')"
    by (auto simp: emit_def Let_def split: sum.splits prod.splits if_splits)
  then show ?thesis using heard_piece [of "e\<lparr> te_decoder := s \<rparr>" i f decoded True] by (simp add: heard_def)
qed

lemma emit_forced_cancelled:
  assumes "emit_forced tk on_token i e = (Inr r, e')" "\<forall>raw. r \<noteq> EmitContinue raw"
  shows "refused (te_client e')"
proof -
  obtain decoded s where "emit_piece on_token i False decoded False (e\<lparr> te_decoder := s \<rparr>) = (False, e')"
    using assms by (auto simp: emit_forced_def split: sum.splits prod.splits if_splits)
  then show ?thesis using heard_piece [of "e\<lparr> te_decoder := s \<rparr>" i False decoded False] by (simp add: heard_def)
qed

lemma close_cancelled:
  "emit_close_loop tk on_token ids n e = (cl, e') \<Longrightarrow> cp_cancelled cl \<Longrightarrow> refused (te_client e')"
proof (induction ids arbitrary: n e)
  case (Cons i ids)
  then show ?case by (auto split: prod.splits sum.splits emit_outcome.splits dest: emit_forced_cancelled)
qed auto

lemma flush_kept: "refused (te_client e) \<Longrightarrow> refused (te_client (flush_terminal on_token e))"
proof -
  let ?i = "case last_of (te_emitted e) of Some i \<Rightarrow> i | None \<Rightarrow> 0"
  have d: "heard e (flush_decoder on_token i e)" for i e
    by (auto simp: flush_decoder_def intro: heard_same heard_from [OF _ heard_decoded] split: prod.split option.split)
  have orphan: "heard e (flush_orphan on_token i e)" for i e
    by (auto simp: flush_orphan_def dest!: client_push intro: heard_same heard_from [OF _ heard_segments] split: prod.split option.split)
  have fc: "heard e (flush_classifier on_token i e)" for i e
    by (auto simp: flush_classifier_def intro: heard_from [OF _ heard_segments] split: prod.split)
  have w: "heard e (while_open r f)" if "heard e r" "\<And>e. heard e (f e)" for e r f
    using that by (cases "(r, f)" rule: while_open.cases) (auto intro: heard_trans)
  have "heard e (while_open (while_open (flush_decoder on_token ?i e) (flush_orphan on_token ?i)) (flush_classifier on_token ?i))"
    by (intro w d orphan fc)
  moreover assume "refused (te_client e)"
  ultimately show ?thesis by (auto simp: flush_terminal_def heard_def Let_def)
qed

end


section \<open>How a round ends\<close>

text \<open>What holds of the emission side when a round ends with \<open>r\<close>.\<close>

definition ended :: "('c \<Rightarrow> bool) \<Rightarrow> 'c core \<Rightarrow> round_end \<Rightarrow> bool" where
  "ended refused s r \<longleftrightarrow>
     (case r of
        Continue _ \<Rightarrow> True
      | Budget \<Rightarrow> co_max s \<le> co_used s
      | Finished \<Rightarrow> te_emitted (co_emitter s) \<noteq> [] \<and> last (te_emitted (co_emitter s)) \<in> set (te_eos_ids (co_emitter s))
      | Aborted \<Rightarrow> refused (te_client (co_emitter s)))"

text \<open>Every counted token is in the ledger.\<close>

definition grown :: "'c core \<Rightarrow> 'c core \<Rightarrow> bool" where
  "grown s s' \<longleftrightarrow> co_max s' = co_max s \<and> te_eos_ids (co_emitter s') = te_eos_ids (co_emitter s)
     \<and> (co_used s \<le> length (te_emitted (co_emitter s)) \<longrightarrow> co_used s' \<le> length (te_emitted (co_emitter s')))"

lemma grown_refl [simp]: "grown s s"
  by (simp add: grown_def)

lemma grown_trans: "grown s s1 \<Longrightarrow> grown s1 s2 \<Longrightarrow> grown s s2"
  by (auto simp: grown_def)

lemma grown_armed [simp]: "grown s (armed m s') \<longleftrightarrow> grown s s'"
  by (simp add: grown_def armed_def arm_close_filters_def)

lemma ended_Continue [simp]: "ended refused s (Continue t)"
  by (simp add: ended_def)

lemma emit_x_grown:
  assumes "emit_x E x d = (Inr v, d')"
  shows "grown (core d) (core d')" "v = EmitEos \<Longrightarrow> ended refused (core d') Finished"
proof -
  obtain em where em: "emit (en_tokenizer E) (en_on_token E) x (rd_emitter d) = (Inr v, em)"
    and c: "core d' = (core d)\<lparr> co_emitter := em, co_used := co_used (core d) + 1 \<rparr>"
    using emit_x_core [OF assms] by auto
  note m = emit_Inr [OF em]
  show "grown (core d) (core d')" unfolding c grown_def using m by simp
  show "v = EmitEos \<Longrightarrow> ended refused (core d') Finished" unfolding c ended_def using m by simp
qed

lemma observe_grown: "observe_budget t d = (m, d') \<Longrightarrow> grown (core d) (core d')"
  by (auto simp: observe_budget_def grown_def core_def split: option.splits prod.splits)

lemma close_loop_grown:
  "emit_close_loop tk on_token ids n e = (cl, e') \<Longrightarrow>
    te_eos_ids e' = te_eos_ids e \<and> length (te_emitted e) \<le> length (te_emitted e')"
proof (induction ids arbitrary: n e)
  case (Cons i ids)
  then show ?case
    by (fastforce split: prod.splits sum.splits emit_outcome.splits dest: emit_forced_Inr(1,2) emit_forced_Inl)
qed auto

lemma close_prefix_grown: "emit_close_prefix E ids d = (cl, d') \<Longrightarrow> grown (core d) (core d')"
proof -
  assume a: "emit_close_prefix E ids d = (cl, d')"
  obtain em where em: "emit_close_loop (en_tokenizer E) (en_on_token E) ids 0 (rd_emitter d) = (cl, em)"
    and c: "core d' = (core d)\<lparr> co_emitter := em \<rparr>"
    using emit_close_prefix_core [OF a] by auto
  show ?thesis unfolding c grown_def using close_loop_grown [OF em] by auto
qed

definition settled :: "('c \<Rightarrow> bool) \<Rightarrow> 'c core \<Rightarrow> 'c core \<Rightarrow> round_end \<Rightarrow> bool" where
  "settled refused s s' r \<longleftrightarrow> grown s s' \<and> ended refused s' r"

lemma settled_Continue [simp]: "settled refused s s' (Continue t) \<longleftrightarrow> grown s s'"
  by (simp add: settled_def)

lemma settled_after: "grown s s1 \<Longrightarrow> settled refused s1 s' r \<Longrightarrow> settled refused s s' r"
  by (auto simp: settled_def intro: grown_trans)

lemma feed_x_settled:
  assumes "feed_x_target_only E x mode dr d = (Inr r, d')" "\<not> dr \<Longrightarrow> rd_max_tokens d \<le> rd_used d"
  shows "settled refused (core d) (core d') r"
proof -
  have c: "core d' = core d" by (rule feed_x_core [OF assms(1)])
  have "r = Budget \<and> \<not> dr \<or> (\<exists>t. r = Continue t)"
    using assms(1)
    by (auto simp: feed_x_target_only_def Let_def dest: continue_from_Inr
        split: if_splits prod.splits sum.splits op_error.splits)
  then show ?thesis using assms(2) c by (auto simp: settled_def ended_def)
qed

lemma final_slot_settled:
  assumes "final_slot E x d = (Inr r, d')" "rd_max_tokens d \<le> rd_used d"
  shows "settled refused (core d) (core d') r"
proof -
  have "r = Budget"
    using assms(1) by (auto simp: final_slot_def Let_def split: prod.splits sum.splits op_error.splits)
  then show ?thesis using final_slot_core [OF assms(1)] assms(2) by (simp add: settled_def ended_def)
qed

lemma close_replay_settled:
  assumes "close_replay E sq cl m n d = (Inr r, d')" "cp_cancelled cl \<Longrightarrow> refused (te_client (rd_emitter d))"
  shows "settled refused (core d) (core d') r"
  using close_replay_core [OF assms(1)] assms(2)
  by (auto simp: settled_def ended_def split: if_splits)

context marked_refusal
begin

abbreviation "at_round \<equiv> settled refused"

lemma emit_x_cancelled:
  assumes "emit_x E x d = (Inr EmitCancelled, d')" "en_on_token E = on_token"
  shows "ended refused (core d') Aborted"
proof -
  obtain em where em: "emit (en_tokenizer E) on_token x (rd_emitter d) = (Inr EmitCancelled, em)"
    and c: "core d' = (core d)\<lparr> co_emitter := em, co_used := co_used (core d) + 1 \<rparr>"
    using emit_x_core [OF assms(1)] assms(2) by auto
  show ?thesis unfolding c ended_def using emit_cancelled [OF em] by simp
qed

lemma close_prefix_cancelled:
  assumes "emit_close_prefix E ids d = (cl, d')" "en_on_token E = on_token" "cp_cancelled cl"
  shows "refused (te_client (rd_emitter d'))"
  using assms(1,3) unfolding emit_close_prefix_def assms(2) by (auto dest: close_cancelled split: prod.splits)

lemma forced_close_at_x_settled:
  assumes "forced_close_at_x E x m d = (Inr r, d')" "en_on_token E = on_token"
  shows "at_round (core d) (core d') r"
proof (cases "encode_close (en_tokenizer E) m")
  case (Inr ids)
  show ?thesis
  proof (cases "ids = []")
    case True
    then show ?thesis using assms Inr by (intro feed_x_settled) (auto simp: forced_close_at_x_def)
  next
    case False
    obtain cl d1 where c: "emit_close_prefix E ids d = (cl, d1)" by fastforce
    have "close_replay E (x # take (cp_accepted cl) ids) cl m (op_mtp_pairs (en_ops E) (rd_ops d1)) d1 = (Inr r, d')"
      using assms Inr False c by (simp add: forced_close_at_x_def)
    then have "at_round (core d1) (core d') r"
      by (rule close_replay_settled) (rule close_prefix_cancelled [OF c assms(2)])
    then show ?thesis by (rule settled_after [OF close_prefix_grown [OF c]])
  qed
qed (use assms in \<open>simp add: forced_close_at_x_def\<close>)

lemma forced_close_at_draft_settled:
  assumes "forced_close_at_draft E x ctx n m d = (Inr r, d')" "en_on_token E = on_token"
  shows "at_round (core d) (core d') r"
proof (cases "encode_close (en_tokenizer E) m")
  case (Inl e)
  then show ?thesis using assms by (auto simp: forced_close_at_draft_def split: prod.splits sum.splits)
next
  case (Inr ids)
  show ?thesis
  proof (cases "ids = []")
    case True
    then obtain d1 where d1: "reconcile_and_commit E x ctx n d = (Inr (), d1)"
      using assms Inr by (auto simp: forced_close_at_draft_def split: prod.splits sum.splits)
    then have c: "core d1 = core d" by (rule reconcile_and_commit_core)
    show ?thesis using assms(1) Inr True d1 c core_eqD(2,3) [OF c]
      by (auto simp: forced_close_at_draft_def settled_def ended_def dest!: continue_from_Inr dest: core_eqD split: if_splits)
  next
    case False
    obtain cl d1 where c: "emit_close_prefix E ids d = (cl, d1)" by fastforce
    obtain d2 where d2: "restore_or_exit E (cx_entry_snap ctx) d1 = (Inr (), d2)"
      using assms Inr False c by (auto simp: forced_close_at_draft_def split: prod.splits sum.splits)
    have k: "core d2 = core d1" by (rule restore_or_exit_core [OF d2])
    have "close_replay E (x # take n (cx_drafts ctx) @ take (cp_accepted cl) ids) cl m (cx_entry_pairs ctx) d2 = (Inr r, d')"
      using assms Inr False c d2 by (simp add: forced_close_at_draft_def)
    then have "at_round (core d2) (core d') r"
      by (rule close_replay_settled) (use close_prefix_cancelled [OF c assms(2)] core_eqD(1) [OF k] in simp)
    then show ?thesis using settled_after [OF close_prefix_grown [OF c]] k by simp
  qed
qed

text \<open>What an event of a speculative round says.\<close>

definition event_at :: "spec_event \<Rightarrow> 'c core \<Rightarrow> bool" where
  "event_at ev s \<longleftrightarrow> (case ev of SpecEos \<Rightarrow> ended refused s Finished | SpecCancel \<Rightarrow> ended refused s Aborted
     | SpecSlot \<Rightarrow> ended refused s Budget | _ \<Rightarrow> True)"

lemma emit_drafts_event:
  assumes "emit_drafts E ds n d = ((q, ev), d')" "en_on_token E = on_token" "\<forall>e. ev \<noteq> SpecEmitErr e"
  shows "grown (core d) (core d') \<and> event_at ev (core d')"
  using assms
proof (induction E ds n d arbitrary: q rule: emit_drafts.induct)
  case (2 E i ds n d)
  obtain v d1 where e: "emit_x E i d = (v, d1)" by fastforce
  show ?case
  proof (cases v)
    case (Inr r)
    note g = emit_x_grown [OF e [unfolded Inr]]
    show ?thesis
    proof (cases r)
      case (EmitContinue raw)
      obtain mk d2 where o: "observe_budget raw d1 = (mk, d2)" by fastforce
      have g2: "grown (core d) (core d2)" using grown_trans g(1) observe_grown [OF o] by blast
      show ?thesis
        using "2.prems" "2.IH" [OF e [symmetric, unfolded Inr EmitContinue] refl refl, of mk d2] e Inr EmitContinue o g2
        by (cases mk) (auto simp: event_at_def ended_def intro: grown_trans split: if_splits)
    qed (use "2.prems" e Inr g emit_x_cancelled [of E i d d1] in \<open>auto simp: event_at_def\<close>)
  qed (use "2.prems" e in auto)
qed (auto simp: event_at_def)

lemma finish_round_settled:
  assumes "finish_round E x ctx n ev su d = (Inr r, d')" "en_on_token E = on_token" "event_at ev (core d)"
  shows "at_round (core d) (core d') r"
proof (cases ev)
  case (SpecClose m)
  then show ?thesis using assms forced_close_at_draft_settled by (simp add: finish_round_def)
qed (use assms in \<open>auto simp: finish_round_def event_at_def settled_def split: prod.splits sum.splits
    dest!: continue_from_Inr reconcile_and_commit_core\<close>)

lemma speculative_round_settled:
  assumes "speculative_round E x k d = (Inr r, d')" "en_on_token E = on_token"
  shows "at_round (core d) (core d') r"
proof -
  let ?ops = "en_ops E"
  obtain f where f: "rd_frontier d = Some f" using assms(1) by (auto simp: speculative_round_def Let_def split: option.splits)
  obtain out d1 where dr: "draft E x k f d = (out, d1)" by fastforce
  have c1: "core d1 = core d" by (rule draft_core [OF dr])
  show ?thesis
  proof (cases out)
    case Discard
    then have "feed_x_target_only E x Dead True (discard_mtp E d1) = (Inr r, d')"
      using assms(1) f dr by (simp add: speculative_round_def Let_def)
    from feed_x_settled [OF this] show ?thesis by (simp add: c1)
  next
    case Resume
    then have "feed_x_target_only E x (ResumeAt (op_mtp_pairs ?ops (rd_ops d))) True d1 = (Inr r, d')"
      using assms(1) f dr by (simp add: speculative_round_def Let_def)
    from feed_x_settled [OF this] show ?thesis by (simp add: c1)
  next
    case (Drafted ds qs)
    obtain vr d2 where v: "verify E x ds (op_target_pos ?ops (rd_ops d)) d1 = (vr, d2)" by fastforce
    have c2: "core d2 = core d" using verify_core [OF v] c1 by simp
    consider (stop) e where "vr = Inl e" | (finished) re where "vr = Inr (Done re)" | (ready) hs dists px where "vr = Inr (Ready hs dists px)"
      by (cases vr; cases "projr vr") (auto simp: sum.case_eq_if)
    then show ?thesis
    proof cases
      case stop
      then show ?thesis using assms(1) f dr Drafted v by (simp add: speculative_round_def Let_def)
    next
      case finished
      then have "r = re" "d' = d2" using assms(1) f dr Drafted v by (simp_all add: speculative_round_def Let_def)
      moreover have "\<exists>t. re = Continue t"
        using v finished
        by (auto simp: verify_def Let_def map_done_def verify_host_recovery_def dest: continue_from_Inr
            split: if_splits prod.splits sum.splits op_error.splits)
      ultimately show ?thesis using c2 by auto
    next
      case ready
      obtain vd d3 where dc: "decide E ds qs dists d2 = (vd, d3)" by fastforce
      have c3: "core d3 = core d" using decide_core [OF dc] c2 by simp
      show ?thesis
      proof (cases vd)
        case None
        then have i: "invariant_err_recovery E x (op_target_pos ?ops (rd_ops d)) (op_mtp_pairs ?ops (rd_ops d)) f px hs dists d3 = (Inr r, d')"
          using assms(1) f dr Drafted v ready dc by (simp add: speculative_round_def Let_def)
        have "\<exists>t. r = Continue t"
          using i by (auto simp: invariant_err_recovery_def dest: continue_from_Inr split: prod.splits sum.splits)
        then show ?thesis using invariant_err_recovery_core [OF i] c3 by auto
      next
        case (Some w)
        let ?d = "d3\<lparr> rd_stats := record_round (vd_accepted w) (rd_stats d3) \<rparr>"
        obtain q ev d4 where e: "emit_drafts E (take (vd_accepted w) ds) 0 ?d = ((q, ev), d4)" by (metis prod.collapse)
        obtain ctx where fr: "finish_round E x ctx q ev (vd_successor w) d4 = (Inr r, d')"
          using assms(1) f dr Drafted v ready dc Some e by (simp add: speculative_round_def Let_def)
        have "\<forall>err. ev \<noteq> SpecEmitErr err" using fr by (auto simp: finish_round_def split: prod.splits sum.splits)
        note g = emit_drafts_event [OF e assms(2) this]
        show ?thesis using settled_after [of "core d" "core d4"] g finish_round_settled [OF fr assms(2)] by (simp add: c3)
      qed
    qed
  qed
qed

lemma run_round_settled:
  assumes "run_round E x d = (Inr r, d')" "en_on_token E = on_token"
  shows "at_round (core d) (core d') r"
proof -
  obtain v d1 where e: "emit_x E x d = (Inr v, d1)"
    using assms(1) by (auto simp: run_round_def split: prod.splits sum.splits)
  note g = emit_x_grown [OF e]
  show ?thesis
  proof (cases v)
    case (EmitContinue raw)
    obtain mk d2 where o: "observe_budget raw d1 = (mk, d2)" by fastforce
    have g2: "grown (core d) (core d2)" using grown_trans g(1) observe_grown [OF o] by blast
    have "at_round (core d2) (core d') r"
    proof (cases mk)
      case None
      then have a: "after_emission E x d2 = (Inr r, d')" using assms(1) e EmitContinue o by (simp add: run_round_def)
      show ?thesis
        using a assms(2) final_slot_settled [of E x d2 r d'] feed_x_settled [of E x _ True d2 r d'] speculative_round_settled [of E x _ d2 r d']
        by (auto simp: after_emission_def split: if_splits option.splits)
    next
      case (Some m)
      then show ?thesis using assms e EmitContinue o forced_close_at_x_settled by (simp add: run_round_def)
    qed
    then show ?thesis by (rule settled_after [OF g2])
  next
    case EmitEos
    then show ?thesis using assms(1) e g by (auto simp: run_round_def settled_def)
  next
    case EmitCancelled
    then show ?thesis using assms e g emit_x_cancelled by (auto simp: run_round_def settled_def)
  qed
qed

text \<open>Why the loop stops.\<close>

theorem decode_loop_settled:
  assumes "decode_loop E x d = (Inr (), d')" "en_on_token E = on_token"
  shows "\<exists>r. (\<forall>t. r \<noteq> Continue t) \<and> at_round (core d) (core d') r"
  using assms
proof (induction E x d rule: decode_loop.induct)
  case (1 E x d)
  show ?case
  proof (cases "rd_used d < rd_max_tokens d")
    case False
    then have "d' = d" using "1.prems"(1) unfolding decode_loop.simps [of E x d] by simp
    then show ?thesis using False by (intro exI [of _ Budget]) (simp add: settled_def ended_def)
  next
    case True
    obtain rr d1 where rr: "run_round E x d = (rr, d1)" by fastforce
    obtain r where r: "rr = Inr r"
      using "1.prems"(1) True rr unfolding decode_loop.simps [of E x d] by (cases rr) simp_all
    note s = run_round_settled [OF rr [unfolded r] "1.prems"(2)]
    show ?thesis
    proof (cases "\<exists>t. r = Continue t")
      case True
      then obtain t where t: "r = Continue t" by blast
      have "decode_loop E t d1 = (Inr (), d')"
        using "1.prems"(1) \<open>rd_used d < rd_max_tokens d\<close> rr r t unfolding decode_loop.simps [of E x d] by simp
      then obtain r' where r': "\<forall>t. r' \<noteq> Continue t" "at_round (core d1) (core d') r'"
        using "1.IH" [OF \<open>rd_used d < rd_max_tokens d\<close> rr [symmetric] r t] "1.prems"(2) by blast
      moreover have "grown (core d) (core d1)" using s t by simp
      ultimately show ?thesis using settled_after by blast
    next
      case False
      then have "d' = d1"
        using "1.prems"(1) \<open>rd_used d < rd_max_tokens d\<close> rr r
        unfolding decode_loop.simps [of E x d] by (cases r) simp_all
      then show ?thesis using s False by (intro exI [of _ r]) simp
    qed
  qed
qed

end


section \<open>The marked caller of a call\<close>

interpretation aborting: marked_refusal "caller_on_token on_progress on_token progress" cc_aborted
  for on_progress :: "generation_progress \<Rightarrow> 'c \<Rightarrow> bool \<times> 'c" and on_token progress
  by unfold_locales
    (auto simp: caller_on_token_def call_user_token_def split: prod.splits option.splits bool.splits)


section \<open>Why a call stops\<close>

text \<open>What holds of every value a step returns.\<close>

definition yields :: "('w, 'x) step \<Rightarrow> ('x \<Rightarrow> bool) \<Rightarrow> bool" where
  "yields m Q \<longleftrightarrow> (\<forall>w x w'. m w = (Inr x, w') \<longrightarrow> Q x)"

lemma yields_and_then:
  assumes "yields m Q" "\<And>x. Q x \<Longrightarrow> yields (k x) Q'"
  shows "yields (and_then m k) Q'"
  using assms unfolding yields_def and_then_def by (fastforce split: prod.splits sum.splits)

lemma yields_rest: "(\<And>x. yields (k x) Q) \<Longrightarrow> yields (and_then m k) Q"
  by (rule yields_and_then [of m "\<lambda>_. True"]) (auto simp: yields_def)

text \<open>The generated ids fill the budget or end in a stop token, or the caller refused one.\<close>

definition stopped :: "('a, 'b, 'h, 'l, 'd, 'm, 'msg, 'g) engine \<Rightarrow> generate_options \<Rightarrow> token_id list \<Rightarrow> bool \<Rightarrow> bool" where
  "stopped G options ids refused \<longleftrightarrow>
     go_max_tokens options \<le> length ids \<or> ids \<noteq> [] \<and> last ids \<in> set (eg_eos_ids G) \<or> refused"

context marked_refusal
begin

lemma session_decode_stopped:
  "yields (session_decode G on_token x s options pending mtp client)
     (\<lambda>(out, c). stopped G options (do_emitted out) (refused c))"
  unfolding yields_def
proof (intro allI impI)
  fix w v w' assume a: "session_decode G on_token x s options pending mtp client w = (Inr v, w')"
  let ?d0 = "decode_start G (wk_caches w) s options pending mtp client (wk_device w)"
  obtain dr d where dl: "decode_loop (driver_env G on_token) x ?d0 = (dr, d)" by fastforce
  have dr: "dr = Inr ()" using a dl by (cases dr) (auto simp: session_decode_def)
  obtain out c where v: "v = (out, c)" by fastforce
  have out: "do_emitted out = fst (into_emitted on_token (rd_emitter d))" "c = te_client (snd (into_emitted on_token (rd_emitter d)))"
    using a dl dr v by (auto simp: session_decode_def decode_finish_def rd_finish_def driver_env_def split: prod.splits)
  have e: "do_emitted out = te_emitted (rd_emitter d)"
    using flush_terminal_ledger [of "rd_emitter d" on_token] out(1) by (simp add: into_emitted_def Let_def same_ledger_def)
  obtain r where r: "\<forall>t. r \<noteq> Continue t" "at_round (core ?d0) (core d) r"
    using decode_loop_settled [OF dl [unfolded dr]] by (auto simp: driver_env_def)
  have g: "rd_max_tokens d = go_max_tokens options" "te_eos_ids (rd_emitter d) = eg_eos_ids G"
    "rd_used d \<le> length (te_emitted (rd_emitter d))"
    using r(2) by (auto simp: settled_def grown_def decode_start_def rd_new_def te_new_def Let_def)
  have "stopped G options (do_emitted out) (refused c)"
  proof (cases r)
    case Aborted
    then have "refused (te_client (rd_emitter d))" using r(2) by (simp add: settled_def ended_def)
    then show ?thesis using flush_kept out(2) by (simp add: stopped_def into_emitted_def Let_def)
  qed (use r g e in \<open>auto simp: settled_def ended_def stopped_def\<close>)
  then show "(case v of (out, c) \<Rightarrow> stopped G options (do_emitted out) (refused c))" using v by simp
qed

lemma generate_inner_stopped:
  "yields (generate_with_media_inner G co on_token ids media options pending mtp client)
     (\<lambda>(out, c). stopped G options (do_emitted out) (refused c))"
  unfolding generate_with_media_inner_def
  by (rule yields_rest)+ (auto split: prod.split intro!: yields_rest session_decode_stopped)

end

lemma decode_call_stopped:
  "yields (decode_call G co (caller_on_token on_progress on_token progress) ids media options pending ws)
     (\<lambda>((out, aborted), caches). stopped G options (do_emitted out) aborted)"
  using aborting.generate_inner_stopped
  unfolding yields_def decode_call_def on_caches_def
  by (fastforce split: prod.splits sum.splits)

lemma build_reply_finish:
  assumes "build_reply G tools pending us aborted fc sp ids n = (Inr reply, n')" "gr_finish_reason reply = Length"
    "stopped G options ids aborted"
  shows "go_max_tokens options \<le> length ids" "gr_usage reply = us"
  using assms
  by (auto simp: build_reply_def classify_finish_def stopped_def last_of_def Let_def split: sum.splits prod.splits if_splits)

theorem call_stops:
  "yields (generate_cached_inner G co on_progress on_token messages tools options)
     (\<lambda>reply. gr_finish_reason reply = Length \<longrightarrow> go_max_tokens options \<le> us_completion_tokens (gr_usage reply))"
proof -
  have reply: "yields (reply_step (build_reply G tools pending us aborted fc sp ids)) (\<lambda>reply.
      gr_finish_reason reply = Length \<longrightarrow> go_max_tokens options \<le> us_completion_tokens (gr_usage reply))"
    if "stopped G options ids aborted" "us_completion_tokens us = length ids" for pending us aborted fc sp ids
    unfolding yields_def reply_step_def lift_result_def
    using that build_reply_finish [of G tools pending us aborted fc sp ids] by (fastforce split: prod.splits sum.splits)
  show ?thesis
    unfolding generate_cached_inner_def Let_def
    apply (unfold case_prod_beta)
    apply ((rule yields_and_then [OF decode_call_stopped [unfolded case_prod_beta]] | rule yields_rest)+)
    apply (rule reply, simp_all)
    done
qed

end
