(* ===== verification/Engine_Correct.thy ===== *)
theory Engine_Correct
  imports Bigram_Engine Finish_Reason
begin

text \<open>
  The properties of a generation call, over any engine that satisfies the laws of \<open>session_engine\<close>: what
  the caches and the pool hold after it, that greedy replies depend on neither, how it stops and how it
  fails. The bigram engine is the concrete input of every witness.
\<close>

section \<open>Worlds a session reaches\<close>

text \<open>
  Calls, successful or not, and whatever changes outside the pool between them: the device, the clock,
  the caller.
\<close>

inductive call_reachable ::
  "('a, 'b, 'h, 'l, 'd, 'm, 'msg, 'g) engine \<Rightarrow> ('a, 'b, 'h, 'd, 'c) world \<Rightarrow> bool" for G where
  opened: "pool_entries (wl_pool w) = [] \<Longrightarrow> call_reachable G w"
| called: "call_reachable G w \<Longrightarrow> text_only G messages \<Longrightarrow>
    generate_cached_inner G co on_progress on_token messages tools options w = (r, w') \<Longrightarrow> call_reachable G w'"
| elsewhere: "call_reachable G w \<Longrightarrow> wl_pool w' = wl_pool w \<Longrightarrow> call_reachable G w'"

inductive_cases call_reachableE: "call_reachable G w"

context session_engine
begin

lemma call_outcome:
  assumes "coherent w" "text_only G messages"
    and "generate_cached_inner G co on_progress on_token messages tools options w = (r, w')"
  shows "coherent w'" "r \<noteq> Inl Panic"
    "r = Inr reply \<Longrightarrow> greedy_options options \<Longrightarrow> ignores_cached on_progress \<Longrightarrow>
      plain_call G succ on_progress on_token messages tools options (wl_call_ids w) (wl_client w)
        = Some (shown reply, wl_call_ids w', wl_client w')"
proof -
  have at: "world_at (wl_client w) (wl_call_ids w) w" using assms(1) by (simp add: world_at_def)
  note R = ensures_Inr [OF call_at [OF assms(2)] at] ensures_Inl [OF call_at [OF assms(2)] at]
  show "coherent w'" "r \<noteq> Inl Panic" using R assms(3) by (cases r; force)+
  show "r = Inr reply \<Longrightarrow> greedy_options options \<Longrightarrow> ignores_cached on_progress \<Longrightarrow>
      plain_call G succ on_progress on_token messages tools options (wl_call_ids w) (wl_client w)
        = Some (shown reply, wl_call_ids w', wl_client w')"
    using R(1) assms(3) by blast
qed

lemma reachable_coherent: "call_reachable G w \<Longrightarrow> coherent w"
proof (induction rule: call_reachable.induct)
  case (called w messages co on_progress on_token tools options r w')
  show ?case by (rule call_outcome(1) [OF called.IH called.hyps(2,3)])
qed (simp_all add: pool_coherent_def)

end


section \<open>The concrete calls of the witnesses\<close>

definition small_options :: "nat \<Rightarrow> nat option \<Rightarrow> generate_options" where
  "small_options max_tokens speculative =
     \<lparr> go_max_tokens = max_tokens, go_context_tokens = 12, go_sampling = default_sampling, go_enable_thinking = None,
       go_reasoning_budget_tokens = None, go_prompt_cache = Some True, go_speculative_tokens = speculative \<rparr>"

definition small_world :: "bool list \<Rightarrow> (token_id, token_id, token_id, bool list, str list) world" where
  "small_world schedule =
     \<lparr> wl_pool = with_token_budget 4 30 100 1, wl_device = schedule, wl_client = [], wl_call_ids = 0 \<rparr>"

text \<open>Every token is followed by its successor; the module is wrong after \<open>d\<close>; \<open>x\<close> stops.\<close>

definition alphabet_engine ::
  "(token_id, token_id, token_id, bigram_logits, bool list, unit, str, nat) engine" where
  "alphabet_engine = bigram_engine (\<lambda>t. t + 1) (\<lambda>t. if t = 100 then 0 else t + 1) [120]"

definition log_tokens :: "str list callback" where
  "log_tokens t c = (True, c @ [gt_text t])"

definition keep_on :: "generation_progress \<Rightarrow> str list \<Rightarrow> bool \<times> str list" where
  "keep_on p c = (True, c)"

abbreviation small_call ::
  "str \<Rightarrow> nat \<Rightarrow> nat option \<Rightarrow> (token_id, token_id, token_id, bool list, str list) world
    \<Rightarrow> (exit + generate_reply) \<times> (token_id, token_id, token_id, bool list, str list) world" where
  "small_call prompt max_tokens speculative \<equiv>
     generate_cached_inner alphabet_engine False keep_on log_tokens [prompt] None (small_options max_tokens speculative)"

lemma alphabet_laws: "session_engine alphabet_engine bigram_kinds bigram_kvr bigram_recur 0 (bigram_succ (\<lambda>t. t + 1)) snd"
  unfolding alphabet_engine_def by (rule bigram_engine_laws)

lemma small_text: "text_only alphabet_engine [prompt]"
  by (simp add: text_only_def prompt_parts_def alphabet_engine_def bigram_engine_def)

lemma keep_on_ignores: "ignores_cached keep_on"
  by (simp add: ignores_cached_def keep_on_def)

lemma small_reachable: "call_reachable alphabet_engine (small_world s)"
  by (rule opened) (simp add: small_world_def with_token_budget_def)

definition second_world :: "(token_id, token_id, token_id, bool list, str list) world" where
  "second_world = snd (small_call ''a'' 1 (Some 2) (small_world []))"

lemma second_reachable: "call_reachable alphabet_engine second_world"
  unfolding second_world_def by (rule called [OF small_reachable small_text]) (rule prod.collapse [symmetric])

lemma second_entry: "map ce_ids (pool_entries (wl_pool second_world)) = [[97, 98]]"
  by code_simp

lemma second_call:
  "case small_call ''abc'' 2 (Some 2) second_world of (Inl e, w) \<Rightarrow> False
    | (Inr r, w) \<Rightarrow> gr_text r = ''de'' \<and> us_cached_tokens (gr_usage r) = 2 \<and> gr_finish_reason r = Length"
  by code_simp

lemma small_greedy: "cfg_temperature (go_sampling (small_options n k)) \<le> 0"
  by (simp add: small_options_def default_sampling_def)


section \<open>Placeholders\<close>

text \<open>The kind a prompt token stands for, once no ambiguity is left.\<close>

definition placeholder_kind :: "(media_kind \<times> token_id option) list \<Rightarrow> token_id \<Rightarrow> media_kind option" where
  "placeholder_kind known t = map_option fst (find (\<lambda>(kind, i). i = Some t) known)"

lemma prompt_placeholders_kinds: "prompt_placeholders known ids = List.map_filter (placeholder_kind known) ids"
  by (simp add: prompt_placeholders_def placeholder_kind_def [abs_def])

lemma count_placeholders:
  assumes "\<And>i. i \<in> set ids \<Longrightarrow> f i = Some k \<longleftrightarrow> i = t"
  shows "length (filter (\<lambda>k'. k' = k) (List.map_filter f ids)) = length (filter (\<lambda>i. i = t) ids)"
  using assms
proof (induction ids)
  case (Cons i ids)
  then have IH: "length (filter (\<lambda>k'. k' = k) (List.map_filter f ids)) = length (filter (\<lambda>i. i = t) ids)" by simp
  have i: "f i = Some k \<longleftrightarrow> i = t" using Cons.prems by simp
  show ?case
  proof (cases "f i")
    case None
    then show ?thesis using IH i by (simp add: List.map_filter_simps)
  next
    case (Some k')
    then show ?thesis using IH i by (simp add: List.map_filter_simps)
  qed
qed (simp add: List.map_filter_simps)

lemma placeholder_kind_of:
  "placeholder_kind (known_placeholders ph) t =
     (if ph_image ph = Some t then Some Image else if ph_audio ph = Some t then Some Audio
      else if ph_video ph = Some t then Some Video else None)"
  by (simp add: placeholder_kind_def known_placeholders_def)

lemma unambiguous_placeholders:
  assumes "\<not> ambiguous_placeholder att ids (known_placeholders ph)" "t \<in> set ids"
  shows "ph_image ph = Some t \<Longrightarrow> ph_audio ph \<noteq> Some t \<and> ph_video ph \<noteq> Some t"
    "ph_audio ph = Some t \<Longrightarrow> ph_video ph \<noteq> Some t"
  using assms by (auto simp: known_placeholders_def)


section \<open>Properties\<close>











text \<open>
  C15. a prompt that does not fit is refused before anything else happens: no cache or pool entry is read or
  written, the device is untouched, no token is decoded, and the caller has heard the prompt report only.
\<close>

theorem oversized_prompt_rejected:
  fixes G :: "('a, 'b, 'c, 'd, 'e, 'f, 'g, 'h) engine" and c :: 'j
  assumes "text_only G messages" "rendered_prompt G messages tools (go_enable_thinking options) = Some (prompt, ids)"
    and "validate_media_bindings (prompt_parts G messages) ids (eg_placeholders G) = Inr ()"
    and "resolve_speculative_tokens (go_speculative_tokens options) = None \<or> eg_mtp_certified G"
    and "limit = (case eg_context_limit G of None \<Rightarrow> go_context_tokens options | Some l \<Rightarrow> min l (go_context_tokens options))"
    and "limit < length ids + go_max_tokens options"
    and "on_progress \<lparr> gp_phase = PromptPhase, gp_prompt_tokens = length ids, gp_cached_tokens = None,
        gp_completion_tokens = 0, gp_max_output_tokens = go_max_tokens options, gp_context_limit = limit \<rparr> (wl_client w)
      = (True, c)"
  shows "generate_cached_inner G False on_progress on_token messages tools options w
    = (Inl (Error (EContextExceeded (length ids) (go_max_tokens options) limit)), w\<lparr> wl_client := c \<rparr>)"
proof -
  have cp: "world_checkpoint G False w = (Inr (), w)" for w :: "('a, 'b, 'c, 'e, 'j) world"
    by (simp add: world_checkpoint_def world_device_def checkpoint_on_def lift_result_def)
  have cert: "(if resolve_speculative_tokens (go_speculative_tokens options) \<noteq> None \<and> \<not> eg_mtp_certified G
      then fail e else ok ()) = ok ()" for e using assms(4) by auto
  have media: "check_media_support G (prompt_parts G messages) = Inr ()"
    using assms(1) by (simp add: check_media_support_def text_only_def)
  have enc: "encode_chat_with_media_full_inner G False messages tools (go_enable_thinking options) b w
      = (Inr (ids, ([], []), pending_marker prompt), w)" for b and w :: "('a, 'b, 'c, 'e, 'j) world"
    using assms(1-3) media
    by (auto simp: encode_chat_with_media_full_inner_def and_then_def cp pure_result_def lift_result_def ok_def
        text_only_def rendered_prompt_def Let_def split: sum.splits)
  have ctx: "context_exceeded (length ids) (go_max_tokens options) limit
      = Inl (EContextExceeded (length ids) (go_max_tokens options) limit)"
    using assms(6) by (simp add: context_exceeded_def)
  show ?thesis
    unfolding generate_cached_inner_def Let_def and_then_def cp cert
    using assms(7) ctx
    by (simp add: enc ok_def progress_step_def pure_result_def lift_result_def flip: assms(5))
qed

theorem oversized_prompt_rejected_witness:
  "small_call ''abc'' 30 None (small_world [True]) = (Inl (Error (EContextExceeded 3 30 12)), small_world [True])"
proof -
  have r: "rendered_prompt alphabet_engine [''abc''] None (go_enable_thinking (small_options 30 None)) = Some (''abc'', [97, 98, 99])"
    "validate_media_bindings (prompt_parts alphabet_engine [''abc'']) [97, 98, 99] (eg_placeholders alphabet_engine) = Inr ()"
    by code_simp+
  have "small_call ''abc'' 30 None (small_world [True])
    = (Inl (Error (EContextExceeded (length [97 :: token_id, 98, 99]) (go_max_tokens (small_options 30 None)) 12)),
       (small_world [True])\<lparr> wl_client := [] \<rparr>)"
    by (rule oversized_prompt_rejected [OF small_text r])
      (simp_all add: small_options_def resolve_speculative_tokens_def alphabet_engine_def bigram_engine_def keep_on_def small_world_def)
  then show ?thesis by (simp add: small_options_def small_world_def)
qed

text \<open>
  C14. a call that reports \<open>Length\<close> has generated its whole output budget: decoding stops early only at a
  stop token or when the caller refuses a token, and both are reported as such.
\<close>

theorem length_means_full_budget:
  assumes "generate_cached_inner G co on_progress on_token messages tools options w = (Inr reply, w')"
    and "gr_finish_reason reply = Length"
  shows "go_max_tokens options \<le> us_completion_tokens (gr_usage reply)"
  using call_stops [of G co on_progress on_token messages tools options] assms by (auto simp: yields_def)

theorem length_means_full_budget_witness:
  "case small_call ''abc'' 2 (Some 2) second_world of (Inl e, w) \<Rightarrow> False
    | (Inr r, w) \<Rightarrow> gr_finish_reason r = Length \<and> 2 \<le> us_completion_tokens (gr_usage r)"
proof -
  obtain reply w' where c: "small_call ''abc'' 2 (Some 2) second_world = (Inr reply, w')" and l: "gr_finish_reason reply = Length"
    using second_call by (auto split: prod.splits sum.splits)
  show ?thesis unfolding c using length_means_full_budget [OF c l] l by (simp add: small_options_def)
qed

text \<open>
  C18. an accepted prompt has exactly one placeholder per attachment: for every kind whose placeholder id the
  model names, the id occurs in the rendered prompt exactly as often as the kind among the attachments.
\<close>

theorem accepted_bindings_exact:
  assumes "validate_media_bindings parts ids placeholders = Inr ()"
    and "(k, Some t) \<in> set (known_placeholders placeholders)"
  shows "length (filter (\<lambda>i. i = t) ids) = length (filter (\<lambda>k'. k' = k) (List.map_filter content_part_media_kind parts))"
proof -
  let ?att = "List.map_filter content_part_media_kind parts"
  have att: "?att = prompt_placeholders (known_placeholders placeholders) ids"
    and unamb: "\<not> ambiguous_placeholder ?att ids (known_placeholders placeholders)"
    using assms(1) by (auto simp: validate_media_bindings_def Let_def split: if_splits)
  have "placeholder_kind (known_placeholders placeholders) i = Some k \<longleftrightarrow> i = t" if "i \<in> set ids" for i
  proof -
    have t: "k = Image \<and> ph_image placeholders = Some t \<or> k = Audio \<and> ph_audio placeholders = Some t
        \<or> k = Video \<and> ph_video placeholders = Some t"
      using assms(2) by (auto simp: known_placeholders_def)
    then show ?thesis
      unfolding placeholder_kind_of using unambiguous_placeholders [OF unamb that] by (elim disjE) auto
  qed
  then show ?thesis unfolding att prompt_placeholders_kinds by (simp add: count_placeholders)
qed

theorem accepted_bindings_exact_witness:
  "length (filter (\<lambda>i. i = 9) [1, 9, 2, 9, 7 :: token_id])
    = length (filter (\<lambda>k. k = Image) (List.map_filter content_part_media_kind [TextPart, MediaPart Image, MediaPart Image, MediaPart Audio]))"
  by (rule accepted_bindings_exact [of _ _ "\<lparr> ph_image = Some 9, ph_audio = Some 7, ph_video = None \<rparr>"])
    (code_simp, simp add: known_placeholders_def)

end
