(* ===== verification/Chat.thy ===== *)
theory Chat
  imports Generate
begin

text \<open>
  The public generation request (\<open>src/src/generation/mod.rs\<close>): messages, tool declarations and option
  overrides, and the checks and the conversion that stand between a caller and the engine.

  An error message is kept as its format string and the strings it interpolates, because the
  \<open>Debug\<close> rendering of an interpolated text is of no consequence here. Byte counts are
  \<^typ>\<open>nat\<close>, with \<open>checked_add\<close> written out. The bytes \<open>serde_json\<close> writes for a value
  (\<open>json_len\<close>) are an argument of what uses them.
\<close>

section \<open>Messages\<close>

datatype chat_role = System | User | Assistant | ToolRole

datatype chat_content =
    TextContent str | ImageContent str | AudioContent str | VideoContent str
  | TranslationContent str str str

record chat_message =
  cm_role :: chat_role
  cm_content :: "chat_content list"
  cm_tool_calls :: "tool_call list"
  cm_tool_call_id :: "str option"
  cm_reasoning :: "str option"

definition text_message :: "chat_role \<Rightarrow> str \<Rightarrow> chat_message" where
  "text_message role txt =
     \<lparr> cm_role = role, cm_content = [TextContent txt], cm_tool_calls = [], cm_tool_call_id = None,
       cm_reasoning = None \<rparr>"

definition user_message :: "str \<Rightarrow> chat_message" where
  "user_message txt = text_message User txt"

definition system_message :: "str \<Rightarrow> chat_message" where
  "system_message txt = text_message System txt"

definition tool_message :: "str \<Rightarrow> str \<Rightarrow> chat_message" where
  "tool_message i txt =
     \<lparr> cm_role = ToolRole, cm_content = [TextContent txt], cm_tool_calls = [], cm_tool_call_id = Some i,
       cm_reasoning = None \<rparr>"

record tool_definition =
  td_name :: str
  td_description :: str
  td_parameters :: json

text \<open>The bytes of one part, as the request checks count them.\<close>

fun content_len :: "chat_content \<Rightarrow> nat" where
  "content_len (TextContent t) = length t"
| "content_len (ImageContent d) = length d"
| "content_len (AudioContent d) = length d"
| "content_len (VideoContent d) = length d"
| "content_len (TranslationContent s t u) = saturating_add (saturating_add (length s) (length t)) (length u)"

fun is_media :: "chat_content \<Rightarrow> bool" where
  "is_media (ImageContent _) \<longleftrightarrow> True"
| "is_media (AudioContent _) \<longleftrightarrow> True"
| "is_media (VideoContent _) \<longleftrightarrow> True"
| "is_media _ \<longleftrightarrow> False"


section \<open>Errors and limits\<close>

datatype request_error =
    InvalidRequest str "str list"
  | UnsupportedContent str
  | CapabilityUnavailable str str
  | ContextExceeded nat nat nat
  | GenerationFailed engine_error
  | StreamProtocol str
  | GenerationCancelled
  | InferenceChannel str
  | InferenceBusy
  | InferencePanic

definition bind_result :: "'e + 'x \<Rightarrow> ('x \<Rightarrow> 'e + 'y) \<Rightarrow> 'e + 'y" where
  "bind_result r k = (case r of Inl e \<Rightarrow> Inl e | Inr x \<Rightarrow> k x)"

definition map_error :: "('e \<Rightarrow> 'f) \<Rightarrow> 'e + 'x \<Rightarrow> 'f + 'x" where
  "map_error f r = (case r of Inl e \<Rightarrow> Inl (f e) | Inr x \<Rightarrow> Inr x)"

definition reject_if :: "bool \<Rightarrow> 'e \<Rightarrow> 'e + unit" where
  "reject_if b e = (if b then Inl e else Inr ())"

definition invalid :: "str \<Rightarrow> request_error" where
  "invalid msg = InvalidRequest msg []"

definition checked_add :: "nat \<Rightarrow> nat \<Rightarrow> 'e \<Rightarrow> 'e + nat" where
  "checked_add a b e = (if a + b \<le> USIZE_MAX then Inr (a + b) else Inl e)"

lemma checked_add_code [code]:
  "checked_add a b e = (if int a + int b \<le> 18446744073709551615 then Inr (a + b) else Inl e)"
  by (auto simp: checked_add_def USIZE_MAX_def)

definition MAX_MESSAGES :: int where "MAX_MESSAGES = 4096"
definition MAX_TOOLS :: int where "MAX_TOOLS = 256"
definition MAX_REQUEST_TOOL_CALLS :: int where "MAX_REQUEST_TOOL_CALLS = 4096"
definition MAX_MESSAGE_CONTENT_PARTS :: int where "MAX_MESSAGE_CONTENT_PARTS = 1024"
definition MAX_TOTAL_CONTENT_PARTS :: int where "MAX_TOTAL_CONTENT_PARTS = 16384"
definition MAX_MEDIA_PARTS :: int where "MAX_MEDIA_PARTS = 64"
definition MAX_TOTAL_CONTENT_BYTES :: int where "MAX_TOTAL_CONTENT_BYTES = 256 * 2 ^ 20"
definition MAX_MESSAGE_CONTENT_BYTES :: int where "MAX_MESSAGE_CONTENT_BYTES = 128 * 2 ^ 20"
definition MAX_REASONING_BYTES :: int where "MAX_REASONING_BYTES = 16 * 2 ^ 20"
definition MAX_TOTAL_REASONING_BYTES :: int where "MAX_TOTAL_REASONING_BYTES = 64 * 2 ^ 20"
definition MAX_TOOL_CALL_ID_BYTES :: int where "MAX_TOOL_CALL_ID_BYTES = 256"
definition MAX_TOOL_ARGUMENT_BYTES :: int where "MAX_TOOL_ARGUMENT_BYTES = 2 ^ 20"
definition MAX_REQUEST_ARGUMENT_BYTES :: int where "MAX_REQUEST_ARGUMENT_BYTES = 8 * 2 ^ 20"
definition MAX_TOTAL_PROTOCOL_METADATA_BYTES :: int where "MAX_TOTAL_PROTOCOL_METADATA_BYTES = 2 * 2 ^ 20"
definition MAX_TOOL_DESCRIPTION_BYTES :: int where "MAX_TOOL_DESCRIPTION_BYTES = 16 * 2 ^ 10"
definition MAX_TOTAL_TOOL_DESCRIPTION_BYTES :: int where "MAX_TOTAL_TOOL_DESCRIPTION_BYTES = 2 ^ 20"
definition MAX_TOOL_SCHEMA_BYTES :: int where "MAX_TOOL_SCHEMA_BYTES = 2 ^ 20"
definition MAX_TOTAL_TOOL_SCHEMA_BYTES :: int where "MAX_TOTAL_TOOL_SCHEMA_BYTES = 8 * 2 ^ 20"

text \<open>A limit is an integer, so that a comparison with one is evaluated on binary numerals.\<close>

definition exceeds :: "nat \<Rightarrow> int \<Rightarrow> bool" where
  "exceeds n limit \<longleftrightarrow> limit < int n"


section \<open>Text\<close>

text \<open>\<open>char::is_control\<close>: below U+0020 and U+007F to U+009F, the latter encoded C2 80 to C2 9F.\<close>

fun is_control_head :: "str \<Rightarrow> bool" where
  "is_control_head (a # b # t) \<longleftrightarrow> byte a < 32 \<or> byte a = 127 \<or> byte a = 194 \<and> byte b < 160"
| "is_control_head [a] \<longleftrightarrow> byte a < 32 \<or> byte a = 127"
| "is_control_head [] \<longleftrightarrow> False"

fun has_control :: "(char \<Rightarrow> bool) \<Rightarrow> str \<Rightarrow> bool" where
  "has_control allowed [] \<longleftrightarrow> False"
| "has_control allowed (c # t) \<longleftrightarrow> is_control_head (c # t) \<and> \<not> allowed c \<or> has_control allowed t"

definition layout_char :: "char \<Rightarrow> bool" where
  "layout_char c \<longleftrightarrow> byte c = 10 \<or> byte c = 13 \<or> byte c = 9"

definition has_control_char :: "str \<Rightarrow> bool" where
  "has_control_char = has_control (\<lambda>_. False)"

definition validate_tool_name :: "str \<Rightarrow> request_error + unit" where
  "validate_tool_name name =
     reject_if (\<not> valid_tool_name name)
       (InvalidRequest ''invalid tool name {name:?}; use 1-64 ASCII letters, digits, _ or -'' [name])"

definition validate_bounded_protocol_text :: "str \<Rightarrow> str \<Rightarrow> int \<Rightarrow> request_error + unit" where
  "validate_bounded_protocol_text label txt maximum =
     bind_result (reject_if (exceeds (length txt) maximum) (InvalidRequest ''{label} exceeds {maximum} bytes'' [label]))
       (\<lambda>_. bind_result (reject_if (trim txt = []) (InvalidRequest ''{label} cannot be empty'' [label]))
       (\<lambda>_. reject_if (has_control_char txt) (InvalidRequest ''{label} cannot contain control characters'' [label])))"

definition validate_bounded_generated_text :: "str \<Rightarrow> str \<Rightarrow> int \<Rightarrow> request_error + unit" where
  "validate_bounded_generated_text label txt maximum =
     bind_result (reject_if (txt = []) (InvalidRequest ''{label} cannot be empty'' [label]))
       (\<lambda>_. bind_result (reject_if (exceeds (length txt) maximum) (InvalidRequest ''{label} exceeds {maximum} bytes'' [label]))
       (\<lambda>_. reject_if (has_control layout_char txt)
              (InvalidRequest ''{label} contains an unsupported control character'' [label])))"


section \<open>JSON bounds\<close>

definition JSON_MAX_DEPTH :: int where "JSON_MAX_DEPTH = 64"
definition JSON_MAX_NODES :: int where "JSON_MAX_NODES = 65536"

text \<open>
  The worklist of \<open>src/src/json/mod.rs\<close>, its top first: the children of a node are pushed in order, so
  the last one is taken next.
\<close>

fun json_children :: "json \<Rightarrow> json list" where
  "json_children (JArray vs) = vs"
| "json_children (JObject kvs) = map snd kvs"
| "json_children _ = []"

definition too_wide :: "nat \<Rightarrow> nat \<Rightarrow> nat \<Rightarrow> bool" where
  "too_wide children nodes waiting \<longleftrightarrow>
     exceeds children (max 0 (JSON_MAX_NODES - int (saturating_add nodes waiting)))"

lemma json_children_size: "(\<Sum>c\<leftarrow>json_children v. Suc (size c)) \<le> size v"
  by (cases v) (auto simp: size_list_conv_sum_list o_def sum_list_Suc size_prod_simp intro!: sum_list_mono le_SucI)

function bounded_loop :: "(json \<times> nat) list \<Rightarrow> nat \<Rightarrow> bool" where
  "bounded_loop [] nodes = True"
| "bounded_loop ((v, depth) # pending) nodes =
     (if exceeds depth JSON_MAX_DEPTH then False
      else (let nodes = saturating_add nodes 1 in
        if exceeds nodes JSON_MAX_NODES then False
        else if too_wide (length (json_children v)) nodes (length pending) then False
        else bounded_loop (map (\<lambda>c. (c, depth + 1)) (rev (json_children v)) @ pending) nodes))"
  by pat_completeness auto
termination
proof (relation "measure (\<lambda>(ps, _). sum_list (map (\<lambda>p. Suc (size (fst p))) ps))", goal_cases)
  case (2 v depth pending nodes x)
  then show ?case
    using json_children_size [of v] by (simp add: o_def rev_map [symmetric] sum_list_rev)
qed simp

declare bounded_loop.simps [simp del]

definition structurally_bounded :: "json \<Rightarrow> bool" where
  "structurally_bounded v = bounded_loop [(v, 0)] 0"

definition bounded_json_len :: "(json \<Rightarrow> nat) \<Rightarrow> json \<Rightarrow> int \<Rightarrow> nat option" where
  "bounded_json_len json_len v limit =
     (if \<not> structurally_bounded v then None
      else if exceeds (json_len v) limit then None
      else Some (json_len v))"


section \<open>The shape of a request\<close>

record shape =
  sh_content_bytes :: nat
  sh_content_parts :: nat
  sh_reasoning_bytes :: nat
  sh_media_parts :: nat
  sh_tool_calls :: nat
  sh_argument_bytes :: nat
  sh_metadata_bytes :: nat
  sh_seen :: "str set"
  sh_pending :: "str set"
  sh_saw_non_system :: bool

definition shape_start :: shape where
  "shape_start =
     \<lparr> sh_content_bytes = 0, sh_content_parts = 0, sh_reasoning_bytes = 0, sh_media_parts = 0,
       sh_tool_calls = 0, sh_argument_bytes = 0, sh_metadata_bytes = 0, sh_seen = {}, sh_pending = {},
       sh_saw_non_system = False \<rparr>"

definition shape_part :: "chat_content \<Rightarrow> nat \<Rightarrow> shape \<Rightarrow> request_error + (nat \<times> shape)" where
  "shape_part part message_bytes s =
     bind_result
       (if is_media part then checked_add (sh_media_parts s) 1 (invalid ''media part count overflow'')
        else Inr (sh_media_parts s)) (\<lambda>media.
     bind_result (checked_add (sh_content_bytes s) (content_len part) (invalid ''conversation content size overflow''))
       (\<lambda>total.
     bind_result (checked_add message_bytes (content_len part) (invalid ''message content size overflow''))
       (\<lambda>message_bytes.
     bind_result (reject_if (exceeds message_bytes MAX_MESSAGE_CONTENT_BYTES)
       (invalid ''one message cannot exceed 128 MiB'')) (\<lambda>_.
     Inr (message_bytes, s\<lparr> sh_media_parts := media, sh_content_bytes := total \<rparr>)))))"

fun shape_parts :: "chat_content list \<Rightarrow> nat \<Rightarrow> shape \<Rightarrow> request_error + shape" where
  "shape_parts [] message_bytes s = Inr s"
| "shape_parts (part # parts) message_bytes s =
     bind_result (shape_part part message_bytes s) (\<lambda>(message_bytes, s). shape_parts parts message_bytes s)"

definition shape_reasoning :: "str option \<Rightarrow> shape \<Rightarrow> request_error + shape" where
  "shape_reasoning reasoning s =
     (case reasoning of
        None \<Rightarrow> Inr s
      | Some txt \<Rightarrow>
          bind_result (validate_bounded_generated_text ''assistant reasoning'' txt MAX_REASONING_BYTES) (\<lambda>_.
          bind_result (checked_add (sh_reasoning_bytes s) (length txt)
            (invalid ''conversation reasoning size overflow'')) (\<lambda>n.
          bind_result (reject_if (exceeds n MAX_TOTAL_REASONING_BYTES)
            (invalid ''conversation reasoning cannot exceed 64 MiB'')) (\<lambda>_.
          Inr (s\<lparr> sh_reasoning_bytes := n \<rparr>)))))"

definition shape_result_id :: "str option \<Rightarrow> shape \<Rightarrow> request_error + shape" where
  "shape_result_id i s =
     (case i of
        None \<Rightarrow> Inr s
      | Some i \<Rightarrow>
          bind_result (validate_bounded_protocol_text ''tool result ID'' i MAX_TOOL_CALL_ID_BYTES) (\<lambda>_.
          bind_result (checked_add (sh_metadata_bytes s) (length i) (invalid ''protocol metadata size overflow''))
            (\<lambda>n. Inr (s\<lparr> sh_metadata_bytes := n \<rparr>))))"

definition shape_call :: "(json \<Rightarrow> nat) \<Rightarrow> str set \<Rightarrow> tool_call \<Rightarrow> shape \<Rightarrow> request_error + shape" where
  "shape_call json_len declared call s =
     bind_result (reject_if (call_name call \<notin> declared)
       (InvalidRequest ''tool call {:?} references undeclared tool {:?}'' [call_id call, call_name call])) (\<lambda>_.
     bind_result (checked_add (sh_tool_calls s) 1 (invalid ''tool call count overflow'')) (\<lambda>calls.
     bind_result (reject_if (exceeds calls MAX_REQUEST_TOOL_CALLS)
       (invalid ''conversation accepts at most 4096 tool calls'')) (\<lambda>_.
     bind_result (reject_if (call_id call \<in> sh_seen s)
       (InvalidRequest ''duplicate tool call ID {:?} across conversation'' [call_id call])) (\<lambda>_.
     bind_result (validate_bounded_protocol_text ''tool call ID'' (call_id call) MAX_TOOL_CALL_ID_BYTES) (\<lambda>_.
     bind_result (validate_tool_name (call_name call)) (\<lambda>_.
     bind_result (checked_add (sh_metadata_bytes s) (length (call_id call))
       (invalid ''protocol metadata size overflow'')) (\<lambda>metadata.
     bind_result (checked_add metadata (length (call_name call)) (invalid ''protocol metadata size overflow''))
       (\<lambda>metadata.
     bind_result (case bounded_json_len json_len (call_arguments call) MAX_TOOL_ARGUMENT_BYTES of
         None \<Rightarrow> Inl (InvalidRequest ''tool call {:?} arguments exceed 1 MiB'' [call_id call])
       | Some n \<Rightarrow> Inr n) (\<lambda>n.
     bind_result (checked_add (sh_argument_bytes s) n (invalid ''tool argument size overflow'')) (\<lambda>arguments.
     bind_result (reject_if (exceeds arguments MAX_REQUEST_ARGUMENT_BYTES)
       (invalid ''aggregate tool-call arguments cannot exceed 8 MiB'')) (\<lambda>_.
     Inr (s\<lparr> sh_tool_calls := calls, sh_seen := insert (call_id call) (sh_seen s),
       sh_metadata_bytes := metadata, sh_argument_bytes := arguments,
       sh_pending := insert (call_id call) (sh_pending s) \<rparr>))))))))))))"

fun shape_calls :: "(json \<Rightarrow> nat) \<Rightarrow> str set \<Rightarrow> tool_call list \<Rightarrow> shape \<Rightarrow> request_error + shape" where
  "shape_calls json_len declared [] s = Inr s"
| "shape_calls json_len declared (call # calls) s =
     bind_result (shape_call json_len declared call s) (\<lambda>s. shape_calls json_len declared calls s)"

definition shape_role :: "chat_role \<Rightarrow> shape \<Rightarrow> request_error + shape" where
  "shape_role role s =
     bind_result (if role = System then
         bind_result (reject_if (sh_saw_non_system s) (invalid ''system messages must precede conversation turns''))
           (\<lambda>_. Inr s)
       else Inr (s\<lparr> sh_saw_non_system := True \<rparr>)) (\<lambda>s.
     bind_result (reject_if (role \<noteq> ToolRole \<and> sh_pending s \<noteq> {})
       (InvalidRequest ''conversation continues before tool result(s) for {}'' (sorted_list_of_set (sh_pending s))))
       (\<lambda>_. Inr s))"

definition shape_answer :: "chat_role \<Rightarrow> str option \<Rightarrow> shape \<Rightarrow> request_error + shape" where
  "shape_answer role i s =
     (if role = ToolRole then
        (let i = (case i of None \<Rightarrow> [] | Some i \<Rightarrow> i) in
         bind_result (reject_if (i \<notin> sh_pending s)
           (InvalidRequest ''tool result references unknown or already answered call ID {call_id:?}'' [i])) (\<lambda>_.
         Inr (s\<lparr> sh_pending := sh_pending s - {i} \<rparr>)))
      else Inr s)"

definition shape_message :: "(json \<Rightarrow> nat) \<Rightarrow> str set \<Rightarrow> chat_message \<Rightarrow> shape \<Rightarrow> request_error + shape" where
  "shape_message json_len declared message s =
     bind_result (reject_if (exceeds (length (cm_content message)) MAX_MESSAGE_CONTENT_PARTS)
       (invalid ''one message accepts at most 1024 content parts'')) (\<lambda>_.
     bind_result (checked_add (sh_content_parts s) (length (cm_content message))
       (invalid ''content part count overflow'')) (\<lambda>parts.
     bind_result (reject_if (exceeds parts MAX_TOTAL_CONTENT_PARTS)
       (invalid ''conversation accepts at most 16384 content parts'')) (\<lambda>_.
     bind_result (shape_role (cm_role message) (s\<lparr> sh_content_parts := parts \<rparr>)) (\<lambda>s.
     bind_result (shape_parts (cm_content message) 0 s) (\<lambda>s.
     bind_result (shape_reasoning (cm_reasoning message) s) (\<lambda>s.
     bind_result (shape_result_id (cm_tool_call_id message) s) (\<lambda>s.
     bind_result (reject_if (exceeds (sh_media_parts s) MAX_MEDIA_PARTS)
       (invalid ''generation accepts at most 64 media parts'')) (\<lambda>_.
     bind_result (reject_if (exceeds (sh_content_bytes s) MAX_TOTAL_CONTENT_BYTES)
       (invalid ''conversation content cannot exceed 256 MiB'')) (\<lambda>_.
     bind_result (shape_calls json_len declared (cm_tool_calls message) s) (\<lambda>s.
     shape_answer (cm_role message) (cm_tool_call_id message) s))))))))))"

fun shape_messages :: "(json \<Rightarrow> nat) \<Rightarrow> str set \<Rightarrow> chat_message list \<Rightarrow> shape \<Rightarrow> request_error + shape" where
  "shape_messages json_len declared [] s = Inr s"
| "shape_messages json_len declared (message # messages) s =
     bind_result (shape_message json_len declared message s) (\<lambda>s. shape_messages json_len declared messages s)"

text \<open>The declarations: the bytes of their metadata, descriptions and schemas.\<close>

fun shape_tools ::
  "(json \<Rightarrow> nat) \<Rightarrow> tool_definition list \<Rightarrow> nat \<times> nat \<times> nat \<Rightarrow> request_error + (nat \<times> nat \<times> nat)" where
  "shape_tools json_len [] counts = Inr counts"
| "shape_tools json_len (tool # tools) (metadata, descriptions, schemas) =
     bind_result (checked_add metadata (length (td_name tool)) (invalid ''protocol metadata size overflow''))
       (\<lambda>metadata.
     bind_result (reject_if (exceeds (length (td_description tool)) MAX_TOOL_DESCRIPTION_BYTES)
       (InvalidRequest ''tool {:?} description exceeds 16 KiB'' [td_name tool])) (\<lambda>_.
     bind_result (checked_add descriptions (length (td_description tool))
       (invalid ''tool description size overflow'')) (\<lambda>descriptions.
     bind_result (case bounded_json_len json_len (td_parameters tool) MAX_TOOL_SCHEMA_BYTES of
         None \<Rightarrow> Inl (InvalidRequest ''tool {:?} schema exceeds 1 MiB'' [td_name tool])
       | Some n \<Rightarrow> Inr n) (\<lambda>n.
     bind_result (checked_add schemas n (invalid ''tool schema size overflow'')) (\<lambda>schemas.
     shape_tools json_len tools (metadata, descriptions, schemas))))))"

definition validate_request_shape ::
  "(json \<Rightarrow> nat) \<Rightarrow> chat_message list \<Rightarrow> tool_definition list \<Rightarrow> request_error + unit" where
  "validate_request_shape json_len messages tools =
     bind_result (reject_if (exceeds (length messages) MAX_MESSAGES)
       (invalid ''generation accepts at most 4096 messages'')) (\<lambda>_.
     bind_result (reject_if (exceeds (length tools) MAX_TOOLS)
       (invalid ''generation accepts at most 256 tools'')) (\<lambda>_.
     bind_result (shape_messages json_len (td_name ` set tools) messages shape_start) (\<lambda>s.
     bind_result (reject_if (exceeds (sh_metadata_bytes s) MAX_TOTAL_PROTOCOL_METADATA_BYTES)
       (invalid ''aggregate protocol metadata cannot exceed 2 MiB'')) (\<lambda>_.
     bind_result (reject_if (sh_pending s \<noteq> {})
       (InvalidRequest ''conversation has unresolved tool call(s): {}'' (sorted_list_of_set (sh_pending s)))) (\<lambda>_.
     bind_result (shape_tools json_len tools (sh_metadata_bytes s, 0, 0)) (\<lambda>(metadata, descriptions, schemas).
     bind_result (reject_if (exceeds descriptions MAX_TOTAL_TOOL_DESCRIPTION_BYTES)
       (invalid ''aggregate tool descriptions cannot exceed 1 MiB'')) (\<lambda>_.
     bind_result (reject_if (exceeds schemas MAX_TOTAL_TOOL_SCHEMA_BYTES)
       (invalid ''aggregate tool schemas cannot exceed 8 MiB'')) (\<lambda>_.
     reject_if (exceeds metadata MAX_TOTAL_PROTOCOL_METADATA_BYTES)
       (invalid ''aggregate protocol metadata cannot exceed 2 MiB'')))))))))"


section \<open>Declarations\<close>

definition td_validate :: "(json \<Rightarrow> nat) \<Rightarrow> tool_definition \<Rightarrow> request_error + unit" where
  "td_validate json_len tool =
     bind_result (validate_tool_name (td_name tool)) (\<lambda>_.
     bind_result (reject_if (exceeds (length (td_description tool)) MAX_TOOL_DESCRIPTION_BYTES)
       (InvalidRequest ''tool {:?} description exceeds 16 KiB'' [td_name tool])) (\<lambda>_.
     bind_result (reject_if (trim (td_description tool) = [])
       (InvalidRequest ''tool {:?} description cannot be empty'' [td_name tool])) (\<lambda>_.
     bind_result (reject_if (as_object (td_parameters tool) = None)
       (InvalidRequest ''tool {:?} parameters must be a JSON Schema object'' [td_name tool])) (\<lambda>_.
     bind_result (reject_if (validate_tool_schema (td_parameters tool) \<noteq> None)
       (InvalidRequest ''tool {:?} schema is invalid: {reason}'' [td_name tool])) (\<lambda>_.
     reject_if (bounded_json_len json_len (td_parameters tool) MAX_TOOL_SCHEMA_BYTES = None)
       (InvalidRequest ''tool {:?} schema exceeds structural or 1 MiB limits'' [td_name tool]))))))"

definition td_into_engine :: "tool_definition \<Rightarrow> tool" where
  "td_into_engine tool =
     \<lparr> tool_kind = ''function'',
       tool_function = \<lparr> tf_name = td_name tool, tf_description = Some (td_description tool),
         tf_parameters = td_parameters tool \<rparr> \<rparr>"

fun declare_tools ::
  "(json \<Rightarrow> nat) \<Rightarrow> tool_definition list \<Rightarrow> str set \<Rightarrow> request_error + unit" where
  "declare_tools json_len [] names = Inr ()"
| "declare_tools json_len (tool # tools) names =
     bind_result (td_validate json_len tool) (\<lambda>_.
     bind_result (reject_if (td_name tool \<in> names) (InvalidRequest ''duplicate tool name {:?}'' [td_name tool])) (\<lambda>_.
     declare_tools json_len tools (insert (td_name tool) names)))"


section \<open>Options\<close>

datatype f32 = Finite rat | NonFinite

datatype thinking_mode = Auto | ThinkingOn | ThinkingOff

record chat_options =
  co_max_tokens :: "nat option"
  co_temperature :: "f32 option"
  co_top_p :: "f32 option"
  co_top_k :: "nat option"
  co_seed :: "nat option"
  co_thinking :: "thinking_mode option"
  co_speculative_tokens :: "nat option"
  co_reasoning_budget_tokens :: "nat option"
  co_prompt_cache :: "bool option"

definition chat_options_default :: chat_options where
  "chat_options_default =
     \<lparr> co_max_tokens = None, co_temperature = None, co_top_p = None, co_top_k = None, co_seed = None,
       co_thinking = None, co_speculative_tokens = None, co_reasoning_budget_tokens = None,
       co_prompt_cache = None \<rparr>"

definition above :: "nat option \<Rightarrow> int \<Rightarrow> bool" where
  "above n limit = (case n of None \<Rightarrow> False | Some n \<Rightarrow> exceeds n limit)"

fun outside_range :: "f32 option \<Rightarrow> rat \<Rightarrow> bool" where
  "outside_range None limit = False"
| "outside_range (Some NonFinite) limit = True"
| "outside_range (Some (Finite q)) limit = (q < 0 \<or> limit < q)"

text \<open>The reason of the \<open>InvalidRequest\<close> this check ends with.\<close>

definition validate_shape :: "chat_options \<Rightarrow> str + unit" where
  "validate_shape options =
     bind_result (reject_if (co_max_tokens options = Some 0) ''max_tokens must be positive'') (\<lambda>_.
     bind_result (reject_if (above (co_max_tokens options) (2 ^ 20)) ''max_tokens must be at most 1048576'')
       (\<lambda>_.
     bind_result (reject_if (outside_range (co_temperature options) 2)
       ''temperature must be finite and in 0..=2'') (\<lambda>_.
     bind_result (reject_if (outside_range (co_top_p options) 1) ''top_p must be finite and in 0..=1'')
       (\<lambda>_.
     bind_result (reject_if (above (co_speculative_tokens options) 8)
       ''speculative_tokens must be at most 8'') (\<lambda>_.
     bind_result (reject_if (co_reasoning_budget_tokens options = Some 0)
       ''reasoning_budget_tokens must be positive'') (\<lambda>_.
     bind_result (reject_if (above (co_reasoning_budget_tokens options) (2 ^ 20))
       ''reasoning_budget_tokens must be at most 1048576'') (\<lambda>_.
     bind_result (reject_if (above (co_top_k options) (2 ^ 31 - 1))
       ''top_k must be at most 2147483647'') (\<lambda>_.
     reject_if (case (co_reasoning_budget_tokens options, co_max_tokens options) of
         (Some budget, Some maximum) \<Rightarrow> maximum < budget
       | _ \<Rightarrow> False) ''reasoning_budget_tokens cannot exceed max_tokens''))))))))"

text \<open>The client's defaults (\<open>Defaults\<close> of \<open>src/src/client/mod.rs\<close>) and what an override leaves of them.\<close>

record client_defaults =
  cd_max_tokens :: nat
  cd_context_tokens :: nat
  cd_sampling :: sampling_config
  cd_enable_thinking :: "bool option"
  cd_reasoning_budget_tokens :: "nat option"
  cd_prompt_cache :: "bool option"
  cd_speculative_tokens :: "nat option"

definition unwrap_or :: "'x option \<Rightarrow> 'x \<Rightarrow> 'x" where
  "unwrap_or x d = (case x of None \<Rightarrow> d | Some x \<Rightarrow> x)"

definition or_else :: "'x option \<Rightarrow> 'x option \<Rightarrow> 'x option" where
  "or_else x y = (case x of None \<Rightarrow> y | Some x \<Rightarrow> Some x)"

definition effective_thinking :: "thinking_mode option \<Rightarrow> bool option \<Rightarrow> bool option" where
  "effective_thinking thinking fallback =
     (case thinking of
        Some ThinkingOn \<Rightarrow> Some True
      | Some ThinkingOff \<Rightarrow> Some False
      | _ \<Rightarrow> fallback)"

definition effective_budget :: "chat_options \<Rightarrow> nat option \<Rightarrow> nat option" where
  "effective_budget options fallback =
     (case (co_reasoning_budget_tokens options, co_thinking options) of
        (Some budget, _) \<Rightarrow> Some budget
      | (None, Some ThinkingOff) \<Rightarrow> None
      | (None, _) \<Rightarrow> fallback)"

definition validate_options :: "chat_options \<Rightarrow> client_defaults \<Rightarrow> request_error + unit" where
  "validate_options options defaults =
     bind_result (map_error invalid (validate_shape options)) (\<lambda>_.
     let maximum = unwrap_or (co_max_tokens options) (cd_max_tokens defaults);
         thinking = effective_thinking (co_thinking options) (cd_enable_thinking defaults);
         budget = effective_budget options (cd_reasoning_budget_tokens defaults) in
     bind_result (reject_if (case budget of None \<Rightarrow> False | Some budget \<Rightarrow> maximum < budget)
       (invalid ''reasoning_budget_tokens cannot exceed max_tokens'')) (\<lambda>_.
     reject_if (budget \<noteq> None \<and> thinking \<noteq> Some True)
       (invalid ''reasoning_budget_tokens requires thinking to be enabled'')))"

text \<open>
  A float that is not finite has been rejected before the options are resolved; the number it would
  stand for is never read.
\<close>

fun f32_value :: "f32 \<Rightarrow> rat" where
  "f32_value (Finite q) = q"
| "f32_value NonFinite = 0"

definition resolve_options :: "chat_options \<Rightarrow> client_defaults \<Rightarrow> generate_options" where
  "resolve_options options defaults =
     \<lparr> go_max_tokens = unwrap_or (co_max_tokens options) (cd_max_tokens defaults),
       go_context_tokens = cd_context_tokens defaults,
       go_sampling =
         \<lparr> cfg_temperature = unwrap_or (map_option f32_value (co_temperature options)) (cfg_temperature (cd_sampling defaults)),
           cfg_top_p = unwrap_or (map_option f32_value (co_top_p options)) (cfg_top_p (cd_sampling defaults)),
           cfg_top_k = or_else (map_option int (co_top_k options)) (cfg_top_k (cd_sampling defaults)),
           cfg_seed = or_else (co_seed options) (cfg_seed (cd_sampling defaults)) \<rparr>,
       go_enable_thinking = effective_thinking (co_thinking options) (cd_enable_thinking defaults),
       go_reasoning_budget_tokens = effective_budget options (cd_reasoning_budget_tokens defaults),
       go_prompt_cache = or_else (co_prompt_cache options) (cd_prompt_cache defaults),
       go_speculative_tokens = or_else (co_speculative_tokens options) (cd_speculative_tokens defaults) \<rparr>"


section \<open>Conversion\<close>

datatype engine_part =
    EText str | EImage str | EAudio str | EVideo str | ETranslation str str str

record engine_message =
  em_role :: str
  em_content :: "engine_part list"
  em_tool_calls :: "tool_call list"
  em_tool_call_id :: "str option"
  em_reasoning_content :: "str option"

fun role_name :: "chat_role \<Rightarrow> str" where
  "role_name System = ''system''"
| "role_name User = ''user''"
| "role_name Assistant = ''assistant''"
| "role_name ToolRole = ''tool''"

fun content_into_engine :: "chat_content \<Rightarrow> engine_part" where
  "content_into_engine (TextContent t) = EText t"
| "content_into_engine (ImageContent d) = EImage d"
| "content_into_engine (AudioContent d) = EAudio d"
| "content_into_engine (VideoContent d) = EVideo d"
| "content_into_engine (TranslationContent s t u) = ETranslation s t u"

fun is_translation :: "chat_content \<Rightarrow> bool" where
  "is_translation (TranslationContent _ _ _) \<longleftrightarrow> True"
| "is_translation _ \<longleftrightarrow> False"

fun convert_calls :: "(json \<Rightarrow> nat) \<Rightarrow> tool_call list \<Rightarrow> str set \<Rightarrow> request_error + unit" where
  "convert_calls json_len [] ids = Inr ()"
| "convert_calls json_len (call # calls) ids =
     bind_result (validate_tool_name (call_name call)) (\<lambda>_.
     bind_result (validate_bounded_protocol_text ''tool call ID'' (call_id call) MAX_TOOL_CALL_ID_BYTES) (\<lambda>_.
     bind_result (reject_if (call_id call \<in> ids) (InvalidRequest ''duplicate tool call ID {:?}'' [call_id call])) (\<lambda>_.
     bind_result (reject_if (as_object (call_arguments call) = None)
       (InvalidRequest ''tool call {:?} arguments must be a JSON object'' [call_id call])) (\<lambda>_.
     bind_result (reject_if (bounded_json_len json_len (call_arguments call) MAX_TOOL_ARGUMENT_BYTES = None)
       (InvalidRequest ''tool call {:?} arguments exceed 1 MiB'' [call_id call])) (\<lambda>_.
     convert_calls json_len calls (insert (call_id call) ids))))))"

definition check_part :: "bool \<Rightarrow> bool \<Rightarrow> chat_role \<Rightarrow> chat_content \<Rightarrow> request_error + unit" where
  "check_part images audio role part =
     (case part of
        VideoContent _ \<Rightarrow> Inl (UnsupportedContent ''self-contained video decoding is not available'')
      | ImageContent _ \<Rightarrow>
          (if role \<noteq> User then Inl (invalid ''media content is valid only on user messages'')
           else reject_if (\<not> images) (UnsupportedContent ''loaded model does not support image input''))
      | AudioContent _ \<Rightarrow>
          (if role \<noteq> User then Inl (invalid ''media content is valid only on user messages'')
           else reject_if (\<not> audio) (UnsupportedContent ''loaded model does not support audio input''))
      | TranslationContent source target txt \<Rightarrow>
          bind_result (reject_if (trim source = [] \<or> trim target = [])
            (invalid ''translation content requires non-empty source and target language codes'')) (\<lambda>_.
          reject_if (trim txt = []) (invalid ''translation content requires non-empty text''))
      | TextContent _ \<Rightarrow> Inr ())"

fun convert_parts :: "bool \<Rightarrow> bool \<Rightarrow> chat_role \<Rightarrow> chat_content list \<Rightarrow> nat \<Rightarrow> request_error + nat" where
  "convert_parts images audio role [] bytes = Inr bytes"
| "convert_parts images audio role (part # parts) bytes =
     bind_result (checked_add bytes (content_len part) (invalid ''message content size overflow'')) (\<lambda>bytes.
     bind_result (check_part images audio role part) (\<lambda>_.
     convert_parts images audio role parts bytes))"

definition message_into_engine ::
  "(json \<Rightarrow> nat) \<Rightarrow> bool \<Rightarrow> bool \<Rightarrow> chat_message \<Rightarrow> request_error + engine_message" where
  "message_into_engine json_len images audio message =
     bind_result (reject_if (exceeds (length (cm_content message)) MAX_MESSAGE_CONTENT_PARTS)
       (invalid ''one message accepts at most 1024 content parts'')) (\<lambda>_.
     bind_result (reject_if (cm_content message = [] \<and> cm_tool_calls message = [])
       (invalid ''messages require content or tool calls'')) (\<lambda>_.
     bind_result (reject_if (cm_role message = ToolRole
         \<and> (case cm_tool_call_id message of None \<Rightarrow> True | Some i \<Rightarrow> trim i = []))
       (invalid ''tool messages require a non-empty tool_call_id'')) (\<lambda>_.
     bind_result (reject_if (cm_role message \<noteq> ToolRole \<and> cm_tool_call_id message \<noteq> None)
       (invalid ''tool_call_id is valid only on tool messages'')) (\<lambda>_.
     bind_result (reject_if (cm_role message \<noteq> Assistant \<and> cm_tool_calls message \<noteq> [])
       (invalid ''tool_calls are valid only on assistant messages'')) (\<lambda>_.
     bind_result (reject_if (cm_role message \<noteq> Assistant \<and> cm_reasoning message \<noteq> None)
       (invalid ''reasoning is valid only on assistant messages'')) (\<lambda>_.
     bind_result (case cm_reasoning message of
         None \<Rightarrow> Inr ()
       | Some txt \<Rightarrow> validate_bounded_generated_text ''assistant reasoning'' txt MAX_REASONING_BYTES) (\<lambda>_.
     bind_result (convert_calls json_len (cm_tool_calls message) {}) (\<lambda>_.
     bind_result (reject_if (list_ex is_translation (cm_content message) \<and> cm_role message \<noteq> User)
       (invalid ''translation content is valid only on user messages'')) (\<lambda>_.
     bind_result (reject_if (list_ex is_translation (cm_content message) \<and> length (cm_content message) \<noteq> 1)
       (invalid ''translation content must be the only part of its message'')) (\<lambda>_.
     bind_result (convert_parts images audio (cm_role message) (cm_content message) 0) (\<lambda>bytes.
     bind_result (reject_if (exceeds bytes MAX_MESSAGE_CONTENT_BYTES) (invalid ''one message cannot exceed 128 MiB''))
       (\<lambda>_.
     bind_result (reject_if (bytes = 0 \<and> cm_tool_calls message = []) (invalid ''message content cannot be empty''))
       (\<lambda>_.
     Inr \<lparr> em_role = role_name (cm_role message), em_content = map content_into_engine (cm_content message),
       em_tool_calls = cm_tool_calls message, em_tool_call_id = cm_tool_call_id message,
       em_reasoning_content = cm_reasoning message \<rparr>)))))))))))))"

fun convert_messages ::
  "(json \<Rightarrow> nat) \<Rightarrow> bool \<Rightarrow> bool \<Rightarrow> chat_message list \<Rightarrow> request_error + engine_message list" where
  "convert_messages json_len images audio [] = Inr []"
| "convert_messages json_len images audio (message # messages) =
     bind_result (message_into_engine json_len images audio message) (\<lambda>m.
     bind_result (convert_messages json_len images audio messages) (\<lambda>ms. Inr (m # ms)))"

record chat_request =
  cr_messages :: "chat_message list"
  cr_tools :: "tool_definition list"
  cr_options :: chat_options

record engine_request =
  er_messages :: "engine_message list"
  er_tools :: "tool list"
  er_options :: generate_options

definition into_engine ::
  "(json \<Rightarrow> nat) \<Rightarrow> client_defaults \<Rightarrow> bool \<Rightarrow> bool \<Rightarrow> chat_request \<Rightarrow> request_error + engine_request" where
  "into_engine json_len defaults images audio request =
     bind_result (reject_if (cr_messages request = []) (invalid ''generation requires at least one message'')) (\<lambda>_.
     bind_result (validate_options (cr_options request) defaults) (\<lambda>_.
     bind_result (declare_tools json_len (cr_tools request) {}) (\<lambda>_.
     bind_result (validate_request_shape json_len (cr_messages request) (cr_tools request)) (\<lambda>_.
     bind_result (convert_messages json_len images audio (cr_messages request)) (\<lambda>messages.
     Inr \<lparr> er_messages = messages, er_tools = map td_into_engine (cr_tools request),
       er_options = resolve_options (cr_options request) defaults \<rparr>)))))"

end
