(* ===== verification/History.thy ===== *)
theory History
  imports Chat
begin

text \<open>
  The durable conversation of an agent session (\<open>src/src/agent.rs\<close>): its error types, the checks of a
  user message and of a stored history, and what they mean. A history is a sequence of rounds: a
  message that is no tool result, followed by one result for each call it made.

  The serialised length of a JSON value and the parser of the \<open>uuid\<close> crate are arguments.
\<close>

section \<open>Errors\<close>

datatype history_error =
    InvalidMessage nat str "str list"
  | DuplicateCall str nat
  | MismatchedResult str nat
  | Unresolved "str list" nat

datatype agent_error =
    Configuration str "str list"
  | HistoryInvalid history_error
  | WorkspaceFailed str
  | WebFailed str
  | GenerationError request_error
  | GenerationCleanup agent_error request_error
  | ModelProtocol str "str list"
  | ToolFatal str str
  | ToolUnavailable str
  | MaxModelRounds nat
  | AgentCancelled
  | EventSink str
  | EventSinkAfterCommit str str
  | CheckpointSink str

definition MAX_TOOL_CALLS_PER_ROUND :: int where "MAX_TOOL_CALLS_PER_ROUND = 16"
definition MAX_TOOL_OUTPUT_BYTES :: int where "MAX_TOOL_OUTPUT_BYTES = 256 * 1024"
definition MAX_TOTAL_TOOL_OUTPUT_BYTES :: int where "MAX_TOTAL_TOOL_OUTPUT_BYTES = 768 * 1024"
definition MAX_TOTAL_TOOL_ARGUMENT_BYTES :: int where "MAX_TOTAL_TOOL_ARGUMENT_BYTES = 512 * 1024"
definition MAX_APPROVAL_REASON_BYTES :: nat where "MAX_APPROVAL_REASON_BYTES = 4096"
definition MAX_USER_CONTENT_BYTES :: int where "MAX_USER_CONTENT_BYTES = 128 * 1024 * 1024"
definition MAX_SYSTEM_PROMPT_BYTES :: int where "MAX_SYSTEM_PROMPT_BYTES = 4 * 1024 * 1024"
definition MAX_MODEL_OUTPUT_BYTES :: int where "MAX_MODEL_OUTPUT_BYTES = 192 * 1024"
definition MAX_TOTAL_MODEL_OUTPUT_BYTES :: int where "MAX_TOTAL_MODEL_OUTPUT_BYTES = 768 * 1024"

text \<open>A parsed UUID: its version, whether its variant is the one of RFC 4122, and its hyphenated text.\<close>

record uuid =
  uuid_version :: nat
  uuid_rfc4122 :: bool
  uuid_hyphenated :: str

record libs =
  lib_json_len :: "json \<Rightarrow> nat"
  lib_uuid_parse :: "str \<Rightarrow> uuid option"

definition is_uuid_v7 :: "libs \<Rightarrow> str \<Rightarrow> bool" where
  "is_uuid_v7 L v \<longleftrightarrow>
     length v = 36
     \<and> (case lib_uuid_parse L v of
          None \<Rightarrow> False
        | Some u \<Rightarrow> uuid_version u = 7 \<and> uuid_rfc4122 u \<and> uuid_hyphenated u = v)"


section \<open>User input\<close>

text \<open>The reason of the \<open>Configuration\<close> error these checks end with.\<close>

fun user_part :: "chat_content \<Rightarrow> str + nat" where
  "user_part (TextContent t) = Inr (length t)"
| "user_part (ImageContent d) = Inr (length d)"
| "user_part (AudioContent d) = Inr (length d)"
| "user_part (VideoContent d) = Inl ''self-contained video decoding is not available''"
| "user_part (TranslationContent _ _ _) = Inl ''translation content is not supported in agent chat sessions; use `emelex translate` or the Client generation API''"

fun user_bytes :: "chat_content list \<Rightarrow> nat \<Rightarrow> str + nat" where
  "user_bytes [] bytes = Inr bytes"
| "user_bytes (part # parts) bytes =
     bind_result (user_part part) (\<lambda>n.
     bind_result (checked_add bytes n ''user content size overflow'') (\<lambda>bytes.
     user_bytes parts bytes))"

definition validate_user_message :: "chat_message \<Rightarrow> str + unit" where
  "validate_user_message message =
     bind_result (reject_if (cm_role message \<noteq> User) ''agent input message must have user role'')
       (\<lambda>_.
     bind_result (reject_if (cm_content message = []) ''agent input message requires content'')
       (\<lambda>_.
     bind_result (reject_if (exceeds (length (cm_content message)) MAX_MESSAGE_CONTENT_PARTS)
       ''agent input exceeds 1024 content parts'') (\<lambda>_.
     bind_result (reject_if (cm_tool_calls message \<noteq> [] \<or> cm_tool_call_id message \<noteq> None \<or> cm_reasoning message \<noteq> None)
       ''user input cannot carry tool or reasoning state'') (\<lambda>_.
     bind_result (user_bytes (cm_content message) 0) (\<lambda>bytes.
     bind_result (reject_if (bytes = 0) ''agent input content cannot be empty'') (\<lambda>_.
     reject_if (exceeds bytes MAX_USER_CONTENT_BYTES) ''agent input exceeds {bytes} bytes''))))))"


section \<open>Stored messages\<close>

fun is_text :: "chat_content \<Rightarrow> bool" where
  "is_text (TextContent _) \<longleftrightarrow> True"
| "is_text _ \<longleftrightarrow> False"

fun text_of :: "chat_content \<Rightarrow> str option" where
  "text_of (TextContent t) = Some t"
| "text_of _ = None"

fun text_bytes :: "chat_content list \<Rightarrow> nat \<Rightarrow> history_error \<Rightarrow> history_error + nat" where
  "text_bytes [] n e = Inr n"
| "text_bytes (TextContent t # parts) n e = bind_result (checked_add n (length t) e) (\<lambda>n. text_bytes parts n e)"
| "text_bytes (_ # parts) n e = text_bytes parts n e"

definition invalid_history :: "nat \<Rightarrow> str \<Rightarrow> history_error" where
  "invalid_history index reason = InvalidMessage index reason []"

definition bad_reasoning :: "str option \<Rightarrow> bool" where
  "bad_reasoning r =
     (case r of
        None \<Rightarrow> False
      | Some txt \<Rightarrow> txt = [] \<or> exceeds (length txt) MAX_MODEL_OUTPUT_BYTES \<or> has_control layout_char txt)"

fun history_calls :: "libs \<Rightarrow> nat \<Rightarrow> tool_call list \<Rightarrow> nat \<Rightarrow> history_error + unit" where
  "history_calls L index [] bytes = Inr ()"
| "history_calls L index (call # calls) bytes =
     bind_result (reject_if (\<not> valid_tool_name (call_name call))
       (InvalidMessage index ''invalid tool name {:?}'' [call_name call])) (\<lambda>_.
     bind_result (reject_if (\<not> is_uuid_v7 L (call_id call))
       (InvalidMessage index ''tool-call ID {:?} is not a UUIDv7'' [call_id call])) (\<lambda>_.
     bind_result (reject_if (as_object (call_arguments call) = None)
       (InvalidMessage index ''tool-call {:?} arguments are not an object'' [call_id call])) (\<lambda>_.
     bind_result (case bounded_json_len (lib_json_len L) (call_arguments call) MAX_TOOL_SCHEMA_BYTES of
         None \<Rightarrow> Inl (InvalidMessage index ''tool-call {:?} arguments exceed structural or 1048576-byte limits'' [call_id call])
       | Some n \<Rightarrow> Inr n) (\<lambda>n.
     bind_result (checked_add bytes n (invalid_history index ''tool-call argument size overflow'')) (\<lambda>bytes.
     bind_result (reject_if (exceeds bytes MAX_TOTAL_TOOL_ARGUMENT_BYTES)
       (invalid_history index ''assistant tool-call arguments exceed 524288 aggregate bytes'')) (\<lambda>_.
     history_calls L index calls bytes))))))"

definition validate_assistant_history_message :: "libs \<Rightarrow> nat \<Rightarrow> chat_message \<Rightarrow> history_error + unit" where
  "validate_assistant_history_message L index message =
     bind_result (reject_if ((cm_content message = [] \<and> cm_tool_calls message = [])
         \<or> cm_tool_call_id message \<noteq> None \<or> list_ex (\<lambda>c. \<not> is_text c) (cm_content message))
       (invalid_history index ''assistant messages require text or calls and cannot be tool results'')) (\<lambda>_.
     bind_result (reject_if (exceeds (length (cm_tool_calls message)) MAX_TOOL_CALLS_PER_ROUND)
       (invalid_history index ''assistant message exceeds 16 tool calls'')) (\<lambda>_.
     bind_result (text_bytes (cm_content message) 0 (invalid_history index ''assistant text size overflow'')) (\<lambda>bytes.
     bind_result (reject_if (exceeds bytes MAX_MODEL_OUTPUT_BYTES \<or> bad_reasoning (cm_reasoning message))
       (invalid_history index ''assistant text and reasoning must each fit within 196608 bytes'')) (\<lambda>_.
     history_calls L index (cm_tool_calls message) 0))))"

definition validate_history_message :: "libs \<Rightarrow> nat \<Rightarrow> chat_message \<Rightarrow> history_error + unit" where
  "validate_history_message L index message =
     (case cm_role message of
        System \<Rightarrow>
          bind_result (reject_if (index \<noteq> 0)
            (invalid_history index ''system message is valid only at history start'')) (\<lambda>_.
          bind_result (reject_if (cm_content message = [] \<or> list_ex (\<lambda>c. \<not> is_text c) (cm_content message)
              \<or> cm_tool_calls message \<noteq> [] \<or> cm_tool_call_id message \<noteq> None \<or> cm_reasoning message \<noteq> None)
            (invalid_history index ''system message requires only text content'')) (\<lambda>_.
          bind_result (text_bytes (cm_content message) 0 (invalid_history index ''system content size overflow''))
            (\<lambda>bytes.
          reject_if (\<not> list_ex (\<lambda>c. case text_of c of None \<Rightarrow> False | Some t \<Rightarrow> trim t \<noteq> []) (cm_content message)
              \<or> exceeds bytes MAX_SYSTEM_PROMPT_BYTES)
            (invalid_history index ''system text must be non-empty and at most 4194304 bytes''))))
      | User \<Rightarrow>
          map_error (\<lambda>reason. invalid_history index (''invalid agent configuration: '' @ reason)) (validate_user_message message)
      | Assistant \<Rightarrow> validate_assistant_history_message L index message
      | ToolRole \<Rightarrow>
          bind_result (reject_if (cm_content message = [] \<or> cm_tool_calls message \<noteq> [] \<or> cm_reasoning message \<noteq> None
              \<or> cm_tool_call_id message = None \<or> list_ex (\<lambda>c. \<not> is_text c) (cm_content message))
            (invalid_history index ''tool messages require text and one tool_call_id'')) (\<lambda>_.
          bind_result (text_bytes (cm_content message) 0 (invalid_history index ''tool content size overflow''))
            (\<lambda>bytes.
          bind_result (reject_if (bytes = 0 \<or> exceeds bytes MAX_TOOL_OUTPUT_BYTES)
            (invalid_history index ''tool text must be in 1..=262144 bytes'')) (\<lambda>_.
          reject_if (case cm_tool_call_id message of None \<Rightarrow> True | Some i \<Rightarrow> \<not> is_uuid_v7 L i)
            (invalid_history index ''tool_call_id must be a UUIDv7 issued by the agent'')))))"


section \<open>The history\<close>

fun issue_calls :: "nat \<Rightarrow> tool_call list \<Rightarrow> str set \<times> str set \<Rightarrow> history_error + (str set \<times> str set)" where
  "issue_calls index [] ids = Inr ids"
| "issue_calls index (call # calls) (issued, pending) =
     bind_result (reject_if (call_id call \<in> issued) (DuplicateCall (call_id call) index)) (\<lambda>_.
     issue_calls index calls (insert (call_id call) issued, insert (call_id call) pending))"

definition history_step ::
  "libs \<Rightarrow> nat \<Rightarrow> chat_message \<Rightarrow> str set \<times> str set \<Rightarrow> history_error + (str set \<times> str set)" where
  "history_step L index message ids =
     (case ids of (issued, pending) \<Rightarrow>
     bind_result (reject_if (exceeds (length (cm_content message)) MAX_MESSAGE_CONTENT_PARTS)
       (invalid_history index ''message exceeds 1024 content parts'')) (\<lambda>_.
     bind_result (reject_if (pending \<noteq> {} \<and> cm_role message \<noteq> ToolRole)
       (Unresolved (sorted_list_of_set pending) index)) (\<lambda>_.
     bind_result (validate_history_message L index message) (\<lambda>_.
     case cm_role message of
       System \<Rightarrow> Inr (issued, pending)
     | User \<Rightarrow> Inr (issued, pending)
     | Assistant \<Rightarrow> issue_calls index (cm_tool_calls message) (issued, pending)
     | ToolRole \<Rightarrow>
         (case cm_tool_call_id message of
            None \<Rightarrow> Inl (invalid_history index ''tool messages require tool_call_id'')
          | Some i \<Rightarrow>
              bind_result (reject_if (i \<notin> pending) (MismatchedResult i index)) (\<lambda>_.
              Inr (issued, pending - {i})))))))"

fun history_scan ::
  "libs \<Rightarrow> nat \<Rightarrow> chat_message list \<Rightarrow> str set \<times> str set \<Rightarrow> history_error + (str set \<times> str set)" where
  "history_scan L index [] ids = Inr ids"
| "history_scan L index (message # messages) ids =
     bind_result (history_step L index message ids) (\<lambda>ids. history_scan L (index + 1) messages ids)"

definition validate_history :: "libs \<Rightarrow> chat_message list \<Rightarrow> history_error + str set" where
  "validate_history L history =
     bind_result (reject_if (exceeds (length history) MAX_MESSAGES)
       (invalid_history 4096 ''history exceeds 4096 messages'')) (\<lambda>_.
     bind_result (history_scan L 0 history ({}, {})) (\<lambda>(issued, pending).
     bind_result (reject_if (pending \<noteq> {}) (Unresolved (sorted_list_of_set pending) (length history))) (\<lambda>_.
     Inr issued)))"

end
