(* ===== verification/Agent.thy ===== *)
theory Agent
  imports History
begin

text \<open>
  One turn of an agent session (\<open>src/src/agent.rs\<close>, \<open>run_message_core\<close> and what it calls): the model
  rounds, the tool batches between them, and what is committed to the history.

  What the turn meets outside is one record of functions on an outside state: the model's stream, the
  cancellation flag other tasks set, the event sink, the durable checkpoint, the approval policy, the
  tools, the source of identifiers, and the \<open>Display\<close> text of an error. Every call to the outside that
  others can observe is recorded in a trace, in order. An action that does not return is \<open>None\<close>: the
  stream of a round and the rounds of a turn need not end, so both loops carry fuel.
\<close>

section \<open>Types\<close>

datatype approval_requirement = ApprovalNone | ApprovalRequired str

datatype approval_decision = AllowOnce | Deny str

record approval_context =
  ac_call_id :: str
  ac_tool_name :: str
  ac_arguments :: json
  ac_workspace_root :: str
  ac_workspace_device :: nat
  ac_workspace_inode :: nat
  ac_reason :: str

record tool_context =
  tx_call_id :: str
  tx_workspace_root :: str
  tx_approved :: bool

record tool_output =
  to_content :: str
  to_is_error :: bool

definition tool_output_error :: "str \<Rightarrow> tool_output" where
  "tool_output_error content = \<lparr> to_content = content, to_is_error = True \<rparr>"

datatype tool_error = RespondToModel str | ToolCancelled | FatalTool str

datatype cancellation_policy = Interruptible | FinishOnceStarted

datatype agent_event =
    TurnStarted str
  | ModelStarted str nat
  | ModelProgress str nat generation_progress
  | TextDelta str nat str
  | ReasoningDelta str nat str
  | ToolCallIssued str nat tool_call
  | ApprovalRequested approval_context
  | ApprovalResolved str approval_decision
  | ToolStarted str str
  | ToolCompleted str str tool_output
  | ModelCompleted str nat finish_reason usage
  | TurnCompleted str nat usage
  | TurnCancelled str
  | TurnFailed str str

record agent_turn =
  at_id :: str
  at_response :: generate_reply
  at_messages :: "chat_message list"
  at_model_rounds :: nat
  at_usage :: usage

datatype agent_checkpoint =
    PreflightInput str chat_message
  | ToolBatchStarted str "chat_message list"
  | ToolAudit str
  | ToolInvocationStarted str tool_call
  | ToolInvocationCompleted str chat_message agent_event
  | MessagesCheckpoint str "chat_message list" "agent_event option"

record registered_tool =
  rt_definition :: tool_definition
  rt_cancellation_policy :: cancellation_policy

record native_capabilities =
  nc_system_prompt :: "bool option"
  nc_tools :: "bool option"
  nc_reasoning_history :: "bool option"
  nc_thinking_toggle :: "bool option"
  nc_default_thinking :: "bool option"

text \<open>The tools are the ordered map from names, in the order of the names.\<close>

record agent_session =
  as_capabilities :: "native_capabilities option"
  as_workspace_root :: str
  as_workspace_device :: nat
  as_workspace_inode :: nat
  as_tools :: "(str \<times> registered_tool) list"
  as_enabled :: "str set"
  as_history :: "chat_message list"
  as_issued :: "str set"
  as_max_model_rounds :: "nat option"
  as_max_tool_output_bytes :: int
  as_options :: chat_options

datatype generation_event =
    Progress generation_progress
  | TextEvent str
  | ReasoningEvent str
  | CallEvent tool_call
  | Completed generate_reply

text \<open>What the biased \<open>select\<close> of the cancellation and the stream's next item yields.\<close>

datatype observation = CancellationWon | StreamOver | Observed "request_error + generation_event"


section \<open>The outside\<close>

datatype action =
    Emitted agent_event bool
  | Checkpointed agent_checkpoint bool
  | Streamed chat_request
  | Decided approval_context "approval_decision option"
  | Classified tool_call approval_requirement
  | Invoked tool_call tool_context

record 'o agent_world =
  aw_outside :: 'o
  aw_trace :: "action list"

record 'o agent_env =
  ae_libs :: libs
  ae_stream :: "chat_request \<Rightarrow> 'o \<Rightarrow> request_error option \<times> 'o"
  ae_next :: "'o \<Rightarrow> observation \<times> 'o"
  ae_cancel_and_wait :: "'o \<Rightarrow> request_error option \<times> 'o"
  ae_cancelled :: "'o \<Rightarrow> bool \<times> 'o"
  ae_fresh_id :: "'o \<Rightarrow> str \<times> 'o"
  ae_sink :: "agent_event \<Rightarrow> 'o \<Rightarrow> str list option \<times> 'o"
  ae_checkpoint :: "agent_checkpoint \<Rightarrow> 'o \<Rightarrow> agent_error option \<times> 'o"
  ae_requirement :: "str \<Rightarrow> tool_context \<Rightarrow> json \<Rightarrow> 'o \<Rightarrow> approval_requirement \<times> 'o"
  ae_decide :: "approval_context \<Rightarrow> 'o \<Rightarrow> approval_decision option \<times> 'o"
  ae_invoke :: "str \<Rightarrow> tool_context \<Rightarrow> json \<Rightarrow> 'o \<Rightarrow> (tool_error + tool_output) \<times> 'o"
  ae_invoke_or_cancel :: "str \<Rightarrow> tool_context \<Rightarrow> json \<Rightarrow> 'o \<Rightarrow> (tool_error + tool_output) option \<times> 'o"
  ae_display :: "agent_error \<Rightarrow> str list"

type_synonym ('o, 'e, 'x) act = "'o agent_world \<Rightarrow> (('e + 'x) \<times> 'o agent_world) option"

definition give :: "'x \<Rightarrow> ('o, 'e, 'x) act" where
  "give x w = Some (Inr x, w)"

definition raise :: "'e \<Rightarrow> ('o, 'e, 'x) act" where
  "raise e w = Some (Inl e, w)"

definition then_do :: "('o, 'e, 'x) act \<Rightarrow> ('x \<Rightarrow> ('o, 'e, 'y) act) \<Rightarrow> ('o, 'e, 'y) act" where
  "then_do m k w =
     (case m w of
        None \<Rightarrow> None
      | Some (Inl e, w) \<Rightarrow> Some (Inl e, w)
      | Some (Inr x, w) \<Rightarrow> k x w)"

text \<open>An action whose outcome, error or not, is looked at.\<close>

definition attempt :: "('o, 'e, 'x) act \<Rightarrow> ('e + 'x \<Rightarrow> ('o, 'f, 'y) act) \<Rightarrow> ('o, 'f, 'y) act" where
  "attempt m k w = (case m w of None \<Rightarrow> None | Some (r, w) \<Rightarrow> k r w)"

definition settle :: "'e + 'x \<Rightarrow> ('o, 'e, 'x) act" where
  "settle r w = Some (r, w)"

definition map_fail :: "('e \<Rightarrow> 'f) \<Rightarrow> ('o, 'e, 'x) act \<Rightarrow> ('o, 'f, 'x) act" where
  "map_fail f m w = (case m w of None \<Rightarrow> None | Some (r, w) \<Rightarrow> Some (map_error f r, w))"

definition outside :: "('o \<Rightarrow> 'x \<times> 'o) \<Rightarrow> ('x \<Rightarrow> action list) \<Rightarrow> ('o, 'e, 'x) act" where
  "outside f entry w =
     (case f (aw_outside w) of (x, s) \<Rightarrow> Some (Inr x, \<lparr> aw_outside = s, aw_trace = aw_trace w @ entry x \<rparr>))"


section \<open>Diagnostics\<close>

definition ELLIPSIS :: str where
  "ELLIPSIS = [char_of (226 :: nat), char_of (128 :: nat), char_of (166 :: nat)]"

definition MAX_EVENT_SINK_ERROR_BYTES :: nat where "MAX_EVENT_SINK_ERROR_BYTES = 4096"

text \<open>The writer: the fragments a \<open>Display\<close> implementation writes, cut at the byte limit.\<close>

fun display_write :: "str list \<Rightarrow> str \<times> bool \<Rightarrow> str \<times> bool" where
  "display_write [] out = out"
| "display_write (txt # fragments) (out, truncated) =
     (let remaining = MAX_EVENT_SINK_ERROR_BYTES - length out in
      if length txt \<le> remaining then display_write fragments (out @ txt, truncated)
      else display_write fragments (out @ take (rev_find (is_char_boundary txt) remaining) txt, True))"

definition bounded_display :: "str list \<Rightarrow> str" where
  "bounded_display fragments =
     (case display_write fragments ([], False) of
        (out, truncated) \<Rightarrow>
          (let out = (if truncated \<and> length out < MAX_EVENT_SINK_ERROR_BYTES then out @ ELLIPSIS else out) in
           if out = [] then ''event consumer returned an empty error'' else out))"

definition truncate_owned_utf8 :: "str \<Rightarrow> nat \<Rightarrow> str" where
  "truncate_owned_utf8 txt limit =
     (if \<not> exceeds (length txt) (int limit) then txt
      else take (rev_find (is_char_boundary txt) (limit - length ELLIPSIS)) txt @ ELLIPSIS)"

definition tool_fatal :: "tool_call \<Rightarrow> str \<Rightarrow> agent_error" where
  "tool_fatal call message = ToolFatal (call_name call) (truncate_owned_utf8 message MAX_APPROVAL_REASON_BYTES)"

text \<open>The \<open>Debug\<close> rendering of a valid tool name, which needs no escapes.\<close>

definition quoted :: "str \<Rightarrow> str" where
  "quoted name = [CHR 0x22] @ name @ [CHR 0x22]"

definition is_event_sink :: "agent_error \<Rightarrow> bool" where
  "is_event_sink e \<longleftrightarrow> (case e of EventSink _ \<Rightarrow> True | _ \<Rightarrow> False)"

definition is_checkpoint_sink :: "agent_error \<Rightarrow> bool" where
  "is_checkpoint_sink e \<longleftrightarrow> (case e of CheckpointSink _ \<Rightarrow> True | _ \<Rightarrow> False)"

definition emit_event :: "'o agent_env \<Rightarrow> agent_event \<Rightarrow> ('o, agent_error, unit) act" where
  "emit_event E event =
     then_do (outside (ae_sink E event) (\<lambda>r. [Emitted event (r = None)])) (\<lambda>r.
       case r of None \<Rightarrow> give () | Some fragments \<Rightarrow> raise (EventSink (bounded_display fragments)))"

definition checkpoint_turn :: "'o agent_env \<Rightarrow> agent_checkpoint \<Rightarrow> ('o, agent_error, unit) act" where
  "checkpoint_turn E cp =
     then_do (outside (ae_checkpoint E cp) (\<lambda>r. [Checkpointed cp (r = None)])) (\<lambda>r.
       case r of None \<Rightarrow> give () | Some e \<Rightarrow> raise e)"

definition is_cancelled :: "'o agent_env \<Rightarrow> ('o, 'e, bool) act" where
  "is_cancelled E = outside (ae_cancelled E) (\<lambda>_. [])"

definition emit_terminal_error :: "'o agent_env \<Rightarrow> str \<Rightarrow> agent_error \<Rightarrow> ('o, agent_error, unit) act" where
  "emit_terminal_error E turn_id e =
     (if e = AgentCancelled then emit_event E (TurnCancelled turn_id)
      else emit_event E (TurnFailed turn_id (bounded_display (ae_display E e))))"

definition fail_turn :: "'o agent_env \<Rightarrow> str \<Rightarrow> agent_error \<Rightarrow> ('o, agent_error, 'x) act" where
  "fail_turn E turn_id e =
     (if is_event_sink e then raise e
      else then_do (emit_terminal_error E turn_id e) (\<lambda>_. raise e))"


section \<open>One tool call\<close>

record call_failure =
  cf_error :: agent_error
  cf_effect_possible :: bool
  cf_checkpointed_result :: "chat_message option"

record call_outcome =
  co_message :: chat_message
  co_terminal_error :: "agent_error option"

record completion_failure =
  pf_error :: agent_error
  pf_checkpointed_result :: "chat_message option"

definition harmless :: "agent_error \<Rightarrow> call_failure" where
  "harmless e = \<lparr> cf_error = e, cf_effect_possible = False, cf_checkpointed_result = None \<rparr>"

definition completion_failed :: "bool \<Rightarrow> completion_failure \<Rightarrow> call_failure" where
  "completion_failed effect_possible f =
     \<lparr> cf_error = pf_error f, cf_effect_possible = effect_possible,
       cf_checkpointed_result = pf_checkpointed_result f \<rparr>"

text \<open>The output a call ends with, and the output bytes of the turn after it.\<close>

definition bound_output ::
  "agent_session \<Rightarrow> tool_call \<Rightarrow> tool_output \<Rightarrow> nat \<Rightarrow> tool_output \<times> agent_error option \<times> nat" where
  "bound_output S call output used =
     (let output = (if to_content output = [] then output\<lparr> to_content := ''(no output)'' \<rparr> else output) in
      if exceeds (length (to_content output)) (as_max_tool_output_bytes S) then
        (tool_output_error ''tool output omitted because its configured byte limit was exceeded; side effect may have occurred'',
         Some (tool_fatal call (''output exceeded '' @ decimal (nat (as_max_tool_output_bytes S)) @ '' bytes'')), used)
      else (let next = saturating_add used (length (to_content output)) in
        if exceeds next MAX_TOTAL_TOOL_OUTPUT_BYTES then
          (tool_output_error ''tool output omitted because the durable turn budget was exhausted; side effect may have occurred'',
           Some (tool_fatal call ''aggregate tool output exceeds 786432 bytes''), used)
        else (output, None, next)))"

definition completed_event :: "tool_call \<Rightarrow> tool_output \<Rightarrow> agent_event" where
  "completed_event call output = ToolCompleted (call_id call) (call_name call) output"

definition finalize_tool_output ::
  "'o agent_env \<Rightarrow> agent_session \<Rightarrow> str \<Rightarrow> tool_call \<Rightarrow> tool_output \<Rightarrow> nat
    \<Rightarrow> ('o, completion_failure, call_outcome \<times> nat) act" where
  "finalize_tool_output E S turn_id call output used =
     (case bound_output S call output used of (output, terminal_error, used) \<Rightarrow>
        (let message = tool_message (call_id call) (to_content output);
             completed = completed_event call output in
         then_do
           (map_fail (\<lambda>e. \<lparr> pf_error = e, pf_checkpointed_result = None \<rparr>)
              (checkpoint_turn E (ToolInvocationCompleted turn_id message completed)))
           (\<lambda>_. then_do
             (map_fail (\<lambda>e. \<lparr> pf_error = e, pf_checkpointed_result = Some message \<rparr>) (emit_event E completed))
             (\<lambda>_. give (\<lparr> co_message = message, co_terminal_error = terminal_error \<rparr>, used)))))"

definition synthetic_tool_completion :: "tool_call \<Rightarrow> str \<Rightarrow> chat_message \<times> agent_event" where
  "synthetic_tool_completion call content =
     (tool_message (call_id call) content, completed_event call (tool_output_error content))"

definition validate_approval_text :: "str \<Rightarrow> str \<Rightarrow> str + unit" where
  "validate_approval_text label txt =
     bind_result (reject_if (exceeds (length txt) (int MAX_APPROVAL_REASON_BYTES)) (label @ '' exceeded 4096 bytes'')) (\<lambda>_.
     bind_result (reject_if (trim txt = []) (label @ '' cannot be empty'')) (\<lambda>_.
     reject_if (has_control_char txt) (label @ '' cannot contain control characters'')))"

definition approval_of :: "agent_session \<Rightarrow> tool_call \<Rightarrow> str \<Rightarrow> approval_context" where
  "approval_of S call reason =
     \<lparr> ac_call_id = call_id call, ac_tool_name = call_name call, ac_arguments = call_arguments call,
       ac_workspace_root = as_workspace_root S, ac_workspace_device = as_workspace_device S,
       ac_workspace_inode = as_workspace_inode S, ac_reason = reason \<rparr>"

text \<open>What a decision leads to: the refusal to hand to the model, or the context to run in.\<close>

definition resolve_approval ::
  "'o agent_env \<Rightarrow> str \<Rightarrow> tool_call \<Rightarrow> tool_context \<Rightarrow> approval_decision
    \<Rightarrow> ('o, agent_error, tool_output option \<times> tool_context) act" where
  "resolve_approval E turn_id call context decision =
     then_do (settle (case decision of
         Deny denial \<Rightarrow> map_error (tool_fatal call) (validate_approval_text ''approval denial'' denial)
       | AllowOnce \<Rightarrow> Inr ())) (\<lambda>_.
     then_do (emit_event E (ApprovalResolved (call_id call) decision)) (\<lambda>_.
     then_do (checkpoint_turn E (ToolAudit turn_id)) (\<lambda>_.
     give (case decision of
         AllowOnce \<Rightarrow> (None, context\<lparr> tx_approved := True \<rparr>)
       | Deny denial \<Rightarrow> (Some (tool_output_error (''tool invocation denied: '' @ denial)), context)))))"

definition ask_approval ::
  "'o agent_env \<Rightarrow> str \<Rightarrow> tool_call \<Rightarrow> tool_context \<Rightarrow> approval_context
    \<Rightarrow> ('o, agent_error, tool_output option \<times> tool_context) act" where
  "ask_approval E turn_id call context approval =
     then_do (settle (map_error (tool_fatal call) (validate_approval_text ''approval reason'' (ac_reason approval)))) (\<lambda>_.
     then_do (emit_event E (ApprovalRequested approval)) (\<lambda>_.
     then_do (checkpoint_turn E (ToolAudit turn_id)) (\<lambda>_.
     then_do (outside (ae_decide E approval) (\<lambda>d. [Decided approval d])) (\<lambda>decision.
     case decision of
       None \<Rightarrow> raise AgentCancelled
     | Some decision \<Rightarrow> resolve_approval E turn_id call context decision))))"

definition approve_tool ::
  "'o agent_env \<Rightarrow> agent_session \<Rightarrow> str \<Rightarrow> tool_call \<Rightarrow> tool_context
    \<Rightarrow> ('o, agent_error, tool_output option \<times> tool_context) act" where
  "approve_tool E S turn_id call context =
     then_do (outside (ae_requirement E (call_name call) context (call_arguments call))
       (\<lambda>requirement. [Classified call requirement])) (\<lambda>requirement.
     case requirement of
       ApprovalNone \<Rightarrow> give (None, context)
     | ApprovalRequired reason \<Rightarrow> ask_approval E turn_id call context (approval_of S call reason))"

text \<open>The invocation; its second component says whether the cancellation ended it.\<close>

definition invoke_tool ::
  "'o agent_env \<Rightarrow> cancellation_policy \<Rightarrow> tool_call \<Rightarrow> tool_context \<Rightarrow> ('o, 'e, tool_error + tool_output) act" where
  "invoke_tool E policy call context =
     (case policy of
        Interruptible \<Rightarrow>
          then_do (outside (ae_invoke_or_cancel E (call_name call) context (call_arguments call))
              (\<lambda>_. [Invoked call context]))
            (\<lambda>r. give (case r of None \<Rightarrow> Inl ToolCancelled | Some r \<Rightarrow> r))
      | FinishOnceStarted \<Rightarrow>
          outside (ae_invoke E (call_name call) context (call_arguments call)) (\<lambda>_. [Invoked call context]))"

definition run_tool ::
  "'o agent_env \<Rightarrow> agent_session \<Rightarrow> str \<Rightarrow> registered_tool \<Rightarrow> tool_call \<Rightarrow> tool_context \<Rightarrow> nat
    \<Rightarrow> ('o, call_failure, call_outcome \<times> nat) act" where
  "run_tool E S turn_id registered call context used =
     then_do (map_fail harmless (emit_event E (ToolStarted (call_id call) (call_name call)))) (\<lambda>_.
     then_do (map_fail harmless (checkpoint_turn E (ToolInvocationStarted turn_id call))) (\<lambda>_.
     then_do (invoke_tool E (rt_cancellation_policy registered) call context) (\<lambda>res.
     then_do (case res of
         Inr output \<Rightarrow> then_do (is_cancelled E) (\<lambda>c. give (output, c))
       | Inl (RespondToModel message) \<Rightarrow> then_do (is_cancelled E) (\<lambda>c. give (tool_output_error message, c))
       | Inl ToolCancelled \<Rightarrow> give (tool_output_error ''tool invocation cancelled before completion'', True)
       | Inl (FatalTool message) \<Rightarrow>
           raise \<lparr> cf_error = tool_fatal call message, cf_effect_possible = True, cf_checkpointed_result = None \<rparr>)
       (\<lambda>(output, cancelled).
     then_do (map_fail (completion_failed True) (finalize_tool_output E S turn_id call output used))
       (\<lambda>(res, used).
     give (if cancelled then res\<lparr> co_terminal_error := Some AgentCancelled \<rparr> else res, used))))))"

definition answer_unrun ::
  "'o agent_env \<Rightarrow> agent_session \<Rightarrow> str \<Rightarrow> tool_call \<Rightarrow> tool_output \<Rightarrow> nat
    \<Rightarrow> ('o, call_failure, call_outcome \<times> nat) act" where
  "answer_unrun E S turn_id call output used =
     map_fail (completion_failed False) (finalize_tool_output E S turn_id call output used)"

definition execute_tool_call ::
  "'o agent_env \<Rightarrow> agent_session \<Rightarrow> str \<Rightarrow> tool_call \<Rightarrow> nat \<Rightarrow> ('o, call_failure, call_outcome \<times> nat) act" where
  "execute_tool_call E S turn_id call used =
     then_do (is_cancelled E) (\<lambda>c.
     if c then raise (harmless AgentCancelled)
     else case map_of (as_tools S) (call_name call) of
       None \<Rightarrow>
         answer_unrun E S turn_id call (tool_output_error (''unknown tool '' @ quoted (call_name call))) used
     | Some registered \<Rightarrow>
         if call_name call \<notin> as_enabled S then
           answer_unrun E S turn_id call
             (tool_output_error (''tool '' @ quoted (call_name call) @ '' is unavailable in this agent session'')) used
         else if \<not> arguments_satisfy_schema (td_parameters (rt_definition registered)) (call_arguments call) then
           answer_unrun E S turn_id call
             (tool_output_error (''arguments for tool '' @ quoted (call_name call) @ '' do not satisfy its JSON Schema''))
             used
         else
           then_do (map_fail harmless (approve_tool E S turn_id call
             \<lparr> tx_call_id = call_id call, tx_workspace_root = as_workspace_root S, tx_approved = False \<rparr>))
             (\<lambda>(refusal, context).
           then_do (is_cancelled E) (\<lambda>c.
           if c then raise (harmless AgentCancelled)
           else case refusal of
             Some output \<Rightarrow> answer_unrun E S turn_id call output used
           | None \<Rightarrow> run_tool E S turn_id registered call context used)))"


section \<open>A batch\<close>

record batch_outcome =
  bo_results :: "chat_message list"
  bo_terminal_error :: "agent_error option"
  bo_checkpoint_required :: bool

text \<open>
  The calls that are not run: a synthetic completion is made durable for each. The results so far go
  with the error of a checkpoint that fails.
\<close>

fun complete_remaining ::
  "'o agent_env \<Rightarrow> str \<Rightarrow> str \<Rightarrow> tool_call list \<Rightarrow> chat_message list
    \<Rightarrow> ('o, chat_message list \<times> agent_error, chat_message list) act" where
  "complete_remaining E turn_id reason [] results = give results"
| "complete_remaining E turn_id reason (call # calls) results =
     (case synthetic_tool_completion call reason of (message, event) \<Rightarrow>
        then_do (map_fail (Pair results) (checkpoint_turn E (ToolInvocationCompleted turn_id message event)))
          (\<lambda>_. complete_remaining E turn_id reason calls (results @ [message])))"

definition close_batch ::
  "'o agent_env \<Rightarrow> str \<Rightarrow> str \<Rightarrow> tool_call list \<Rightarrow> agent_error \<Rightarrow> chat_message list \<Rightarrow> ('o, 'e, batch_outcome) act" where
  "close_batch E turn_id reason remaining e results =
     attempt (complete_remaining E turn_id reason remaining results) (\<lambda>r. give (case r of
       Inl (results, ck) \<Rightarrow>
         \<lparr> bo_results = results, bo_terminal_error = Some ck, bo_checkpoint_required = False \<rparr>
     | Inr results \<Rightarrow>
         \<lparr> bo_results = results, bo_terminal_error = Some e, bo_checkpoint_required = True \<rparr>))"

definition failed_call ::
  "'o agent_env \<Rightarrow> str \<Rightarrow> tool_call \<Rightarrow> tool_call list \<Rightarrow> chat_message list \<Rightarrow> call_failure \<Rightarrow> ('o, 'e, batch_outcome) act" where
  "failed_call E turn_id call remaining results f =
     (case cf_checkpointed_result f of
        Some message \<Rightarrow>
          close_batch E turn_id ''tool not executed because an earlier call failed'' remaining (cf_error f) (results @ [message])
      | None \<Rightarrow>
          if is_checkpoint_sink (cf_error f) \<or> \<not> cf_effect_possible f \<and> results = [] then
            give \<lparr> bo_results = results, bo_terminal_error = Some (cf_error f), bo_checkpoint_required = False \<rparr>
          else (case synthetic_tool_completion call
              (if cf_effect_possible f then ''tool execution failed or was interrupted; side effect may have occurred''
               else ''tool was not executed because the harness failed before invocation'') of
            (message, event) \<Rightarrow>
              attempt (checkpoint_turn E (ToolInvocationCompleted turn_id message event)) (\<lambda>r. case r of
                Inl ck \<Rightarrow>
                  give \<lparr> bo_results = results, bo_terminal_error = Some ck, bo_checkpoint_required = False \<rparr>
              | Inr _ \<Rightarrow>
                  close_batch E turn_id ''tool not executed because an earlier call failed'' remaining (cf_error f)
                    (results @ [message]))))"

fun batch_loop ::
  "'o agent_env \<Rightarrow> agent_session \<Rightarrow> str \<Rightarrow> tool_call list \<Rightarrow> chat_message list \<Rightarrow> nat
    \<Rightarrow> ('o, 'e, batch_outcome \<times> nat) act" where
  "batch_loop E S turn_id [] results used =
     give (\<lparr> bo_results = results, bo_terminal_error = None, bo_checkpoint_required = True \<rparr>, used)"
| "batch_loop E S turn_id (call # calls) results used =
     attempt (execute_tool_call E S turn_id call used) (\<lambda>r. case r of
       Inr (res, used) \<Rightarrow>
         (case co_terminal_error res of
            None \<Rightarrow> batch_loop E S turn_id calls (results @ [co_message res]) used
          | Some e \<Rightarrow>
              then_do (close_batch E turn_id ''tool not executed because an earlier call ended the batch'' calls e
                (results @ [co_message res])) (\<lambda>b. give (b, used)))
     | Inl f \<Rightarrow> then_do (failed_call E turn_id call calls results f) (\<lambda>b. give (b, used)))"

definition execute_tool_batch ::
  "'o agent_env \<Rightarrow> agent_session \<Rightarrow> str \<Rightarrow> tool_call list \<Rightarrow> nat \<Rightarrow> ('o, 'e, batch_outcome \<times> nat) act" where
  "execute_tool_batch E S turn_id calls used =
     then_do (batch_loop E S turn_id calls [] used) (\<lambda>(b, used).
       give (if calls = [] then b\<lparr> bo_checkpoint_required := False \<rparr> else b, used))"


section \<open>Options\<close>

definition merge_generation_options :: "chat_options \<Rightarrow> chat_options \<Rightarrow> chat_options" where
  "merge_generation_options session turn =
     \<lparr> co_max_tokens = or_else (co_max_tokens turn) (co_max_tokens session),
       co_temperature = or_else (co_temperature turn) (co_temperature session),
       co_top_p = or_else (co_top_p turn) (co_top_p session),
       co_top_k = or_else (co_top_k turn) (co_top_k session),
       co_seed = or_else (co_seed turn) (co_seed session),
       co_thinking = or_else (co_thinking turn) (co_thinking session),
       co_speculative_tokens = or_else (co_speculative_tokens turn) (co_speculative_tokens session),
       co_reasoning_budget_tokens =
         (case (co_reasoning_budget_tokens turn, co_thinking turn) of
            (Some budget, _) \<Rightarrow> Some budget
          | (None, Some ThinkingOff) \<Rightarrow> None
          | (None, Some Auto) \<Rightarrow> None
          | (None, _) \<Rightarrow> co_reasoning_budget_tokens session),
       co_prompt_cache = or_else (co_prompt_cache turn) (co_prompt_cache session) \<rparr>"

text \<open>The reason of a \<open>Configuration\<close> error that reports an invalid request.\<close>

definition request_reason :: "str \<Rightarrow> agent_error" where
  "request_reason reason = Configuration (''invalid generation request: '' @ reason) []"

definition validate_native_generation_policy ::
  "native_capabilities option \<Rightarrow> chat_options \<Rightarrow> agent_error + unit" where
  "validate_native_generation_policy capabilities options =
     bind_result (map_error request_reason (validate_shape options)) (\<lambda>_.
     let thinking = effective_thinking (co_thinking options)
           (case capabilities of None \<Rightarrow> None | Some c \<Rightarrow> nc_default_thinking c) in
     bind_result (reject_if (co_reasoning_budget_tokens options \<noteq> None \<and> thinking \<noteq> Some True)
       (Configuration ''reasoning_budget_tokens requires thinking to be enabled'' [])) (\<lambda>_.
     reject_if (thinking = Some True
         \<and> (case capabilities of None \<Rightarrow> False | Some c \<Rightarrow> nc_thinking_toggle c = Some False))
       (Configuration ''loaded model does not support an explicit thinking toggle'' [])))"


section \<open>One model round\<close>

definition protocol :: "str \<Rightarrow> agent_error" where
  "protocol reason = ModelProtocol reason []"

text \<open>The text so far and the bytes of the turn, after one more delta.\<close>

definition append_model_delta :: "str \<Rightarrow> str \<Rightarrow> str \<Rightarrow> nat \<Rightarrow> agent_error + (str \<times> nat)" where
  "append_model_delta out delta field bytes =
     bind_result (checked_add (length out) (length delta) (ModelProtocol ''{field} size overflow'' [field])) (\<lambda>n.
     bind_result (reject_if (exceeds n MAX_MODEL_OUTPUT_BYTES)
       (ModelProtocol ''streamed {field} exceeds 196608 bytes'' [field])) (\<lambda>_.
     bind_result (checked_add bytes (length delta) (protocol ''model output size overflow'')) (\<lambda>bytes.
     bind_result (reject_if (exceeds bytes MAX_TOTAL_MODEL_OUTPUT_BYTES)
       (protocol ''aggregate model output exceeds 786432 bytes'')) (\<lambda>_.
     Inr (out @ delta, bytes)))))"

definition bad_call_id :: "str \<Rightarrow> bool" where
  "bad_call_id i \<longleftrightarrow> exceeds (length i) MAX_TOOL_CALL_ID_BYTES \<or> trim i = [] \<or> has_control_char i"

definition measured_arguments :: "libs \<Rightarrow> tool_call \<Rightarrow> agent_error + nat" where
  "measured_arguments L call =
     (case bounded_json_len (lib_json_len L) (call_arguments call) MAX_TOOL_SCHEMA_BYTES of
        None \<Rightarrow> Inl (ModelProtocol ''tool {:?} arguments exceed structural or 1048576-byte limits'' [call_name call])
      | Some n \<Rightarrow> Inr n)"

fun terminal_calls :: "libs \<Rightarrow> tool_call list \<Rightarrow> nat \<Rightarrow> agent_error + unit" where
  "terminal_calls L [] bytes = Inr ()"
| "terminal_calls L (call # calls) bytes =
     bind_result (reject_if (bad_call_id (call_id call))
       (protocol ''terminal response contains an invalid tool-call ID'')) (\<lambda>_.
     bind_result (reject_if (\<not> valid_tool_name (call_name call) \<or> as_object (call_arguments call) = None)
       (ModelProtocol ''terminal response contains an invalid call to {:?}'' [call_name call])) (\<lambda>_.
     bind_result (measured_arguments L call) (\<lambda>n.
     bind_result (checked_add bytes n (protocol ''tool argument size overflow'')) (\<lambda>bytes.
     bind_result (reject_if (exceeds bytes MAX_TOTAL_TOOL_ARGUMENT_BYTES)
       (protocol ''terminal tool arguments exceed 524288 aggregate bytes'')) (\<lambda>_.
     terminal_calls L calls bytes)))))"

definition validate_terminal_response :: "libs \<Rightarrow> generate_reply \<Rightarrow> agent_error + unit" where
  "validate_terminal_response L response =
     bind_result (reject_if (exceeds (length (gr_text response)) MAX_MODEL_OUTPUT_BYTES)
       (protocol ''terminal answer text exceeds 196608 bytes'')) (\<lambda>_.
     bind_result (reject_if (bad_reasoning (gr_reasoning response))
       (protocol ''terminal reasoning must be valid generated text in 1..=196608 bytes'')) (\<lambda>_.
     bind_result (reject_if (exceeds (length (gr_tool_calls response)) MAX_TOOL_CALLS_PER_ROUND)
       (protocol ''terminal response exceeds 16 tool calls'')) (\<lambda>_.
     bind_result (terminal_calls L (gr_tool_calls response) 0) (\<lambda>_.
     reject_if (case gr_speculation response of
         None \<Rightarrow> False
       | Some stats \<Rightarrow> exceeds (length (ss_accepted_by_depth stats)) 8)
       (protocol ''terminal speculation metadata exceeds eight draft depths'')))))"

text \<open>
  The locals of a round, and the three of the turn it updates: the identifiers issued, the argument
  bytes and the output bytes.
\<close>

record round_state =
  rs_observed :: "tool_call list"
  rs_source :: "tool_call list"
  rs_source_ids :: "str set"
  rs_text :: str
  rs_reasoning :: str
  rs_completed :: "generate_reply option"
  rs_issued :: "str set"
  rs_argument_bytes :: nat
  rs_output_bytes :: nat

text \<open>An identifier no call of the session and no call of the turn has, within eight tries.\<close>

fun allocate_id :: "'o agent_env \<Rightarrow> nat \<Rightarrow> str set \<Rightarrow> ('o, agent_error, str) act" where
  "allocate_id E 0 taken = raise (protocol ''could not allocate a unique UUIDv7 tool-call ID'')"
| "allocate_id E (Suc n) taken =
     then_do (outside (ae_fresh_id E) (\<lambda>_. [])) (\<lambda>i.
       if i \<notin> taken then give i else allocate_id E n taken)"

definition reidentify_call ::
  "'o agent_env \<Rightarrow> str set \<Rightarrow> tool_call \<Rightarrow> round_state \<Rightarrow> ('o, agent_error, tool_call \<times> round_state) act" where
  "reidentify_call E issued call st =
     then_do (settle (
       bind_result (reject_if (bad_call_id (call_id call))
         (protocol ''model emitted an invalid tool-call ID (maximum 256 bytes)'')) (\<lambda>_.
       bind_result (reject_if (\<not> valid_tool_name (call_name call))
         (ModelProtocol ''model emitted invalid tool name {:?}'' [call_name call])) (\<lambda>_.
       bind_result (measured_arguments (ae_libs E) call) (\<lambda>n.
       bind_result (checked_add (rs_argument_bytes st) n (protocol ''tool argument size overflow'')) (\<lambda>bytes.
       bind_result (reject_if (exceeds bytes MAX_TOTAL_TOOL_ARGUMENT_BYTES)
         (protocol ''streamed tool arguments exceed 524288 aggregate bytes'')) (\<lambda>_.
       bind_result (reject_if (call_id call \<in> rs_source_ids st)
         (ModelProtocol ''model reused tool-call ID {:?} within one round'' [call_id call])) (\<lambda>_.
       bind_result (reject_if (as_object (call_arguments call) = None)
         (ModelProtocol ''tool {:?} arguments are not an object'' [call_name call])) (\<lambda>_.
       bind_result (reject_if (exceeds (card (insert (call_id call) (rs_source_ids st))) MAX_TOOL_CALLS_PER_ROUND)
         (protocol ''model emitted more than 16 tool calls'')) (\<lambda>_.
       Inr bytes)))))))))) (\<lambda>bytes.
     then_do (allocate_id E 8 (issued \<union> rs_issued st)) (\<lambda>i.
     give (call\<lparr> call_id := i \<rparr>,
       st\<lparr> rs_source_ids := insert (call_id call) (rs_source_ids st), rs_argument_bytes := bytes,
         rs_issued := insert i (rs_issued st) \<rparr>)))"

definition accept_call ::
  "'o agent_env \<Rightarrow> str set \<Rightarrow> str \<Rightarrow> nat \<Rightarrow> tool_call \<Rightarrow> round_state \<Rightarrow> ('o, agent_error, round_state) act" where
  "accept_call E issued turn_id rnd call st =
     then_do (reidentify_call E issued call st) (\<lambda>(issued_call, st).
     then_do (emit_event E (ToolCallIssued turn_id rnd issued_call)) (\<lambda>_.
     give (st\<lparr> rs_observed := rs_observed st @ [issued_call] \<rparr>)))"

definition answer_delta ::
  "'o agent_env \<Rightarrow> str \<Rightarrow> nat \<Rightarrow> str \<Rightarrow> round_state \<Rightarrow> ('o, agent_error, round_state) act" where
  "answer_delta E turn_id rnd txt st =
     then_do (settle (append_model_delta (rs_text st) txt ''answer text'' (rs_output_bytes st))) (\<lambda>(out, bytes).
     then_do (emit_event E (TextDelta turn_id rnd txt)) (\<lambda>_.
     give (st\<lparr> rs_text := out, rs_output_bytes := bytes \<rparr>)))"

definition reasoning_delta ::
  "'o agent_env \<Rightarrow> str \<Rightarrow> nat \<Rightarrow> str \<Rightarrow> round_state \<Rightarrow> ('o, agent_error, round_state) act" where
  "reasoning_delta E turn_id rnd txt st =
     then_do (settle (append_model_delta (rs_reasoning st) txt ''reasoning'' (rs_output_bytes st))) (\<lambda>(out, bytes).
     then_do (emit_event E (ReasoningDelta turn_id rnd txt)) (\<lambda>_.
     give (st\<lparr> rs_reasoning := out, rs_output_bytes := bytes \<rparr>)))"

fun stream_event ::
  "'o agent_env \<Rightarrow> str set \<Rightarrow> str \<Rightarrow> nat \<Rightarrow> generation_event \<Rightarrow> round_state \<Rightarrow> ('o, agent_error, round_state) act" where
  "stream_event E issued turn_id rnd (Progress p) st =
     then_do (emit_event E (ModelProgress turn_id rnd p)) (\<lambda>_. give st)"
| "stream_event E issued turn_id rnd (TextEvent txt) st = answer_delta E turn_id rnd txt st"
| "stream_event E issued turn_id rnd (ReasoningEvent txt) st = reasoning_delta E turn_id rnd txt st"
| "stream_event E issued turn_id rnd (CallEvent call) st =
     then_do (accept_call E issued turn_id rnd call st) (\<lambda>st.
     give (st\<lparr> rs_source := rs_source st @ [call] \<rparr>))"
| "stream_event E issued turn_id rnd (Completed response) st =
     then_do (settle (validate_terminal_response (ae_libs E) response)) (\<lambda>_.
     give (st\<lparr> rs_completed := Some response \<rparr>))"

fun stream_loop ::
  "nat \<Rightarrow> 'o agent_env \<Rightarrow> str set \<Rightarrow> str \<Rightarrow> nat \<Rightarrow> round_state \<Rightarrow> ('o, agent_error, round_state) act" where
  "stream_loop 0 E issued turn_id rnd st = (\<lambda>w. None)"
| "stream_loop (Suc fuel) E issued turn_id rnd st =
     then_do (outside (ae_next E) (\<lambda>_. [])) (\<lambda>item. case item of
       CancellationWon \<Rightarrow> raise AgentCancelled
     | StreamOver \<Rightarrow> give st
     | Observed item \<Rightarrow>
         if rs_completed st \<noteq> None then
           raise (protocol ''generation emitted data after its terminal response'')
         else (case item of
             Inl e \<Rightarrow> raise (GenerationError e)
           | Inr event \<Rightarrow>
               then_do (stream_event E issued turn_id rnd event st) (\<lambda>st.
               stream_loop fuel E issued turn_id rnd st)))"

fun accept_calls ::
  "'o agent_env \<Rightarrow> str set \<Rightarrow> str \<Rightarrow> nat \<Rightarrow> tool_call list \<Rightarrow> round_state \<Rightarrow> ('o, agent_error, round_state) act" where
  "accept_calls E issued turn_id rnd [] st = give st"
| "accept_calls E issued turn_id rnd (call # calls) st =
     then_do (accept_call E issued turn_id rnd call st) (\<lambda>st. accept_calls E issued turn_id rnd calls st)"

definition require_prefix :: "str \<Rightarrow> str \<Rightarrow> str \<Rightarrow> agent_error + str" where
  "require_prefix streamed terminal reason =
     (case strip_prefix streamed terminal of None \<Rightarrow> Inl (protocol reason) | Some rest \<Rightarrow> Inr rest)"

definition reconcile_calls ::
  "'o agent_env \<Rightarrow> str set \<Rightarrow> str \<Rightarrow> nat \<Rightarrow> generate_reply \<Rightarrow> round_state \<Rightarrow> ('o, agent_error, round_state) act" where
  "reconcile_calls E issued turn_id rnd response st =
     (if rs_observed st = [] then accept_calls E issued turn_id rnd (gr_tool_calls response) st
      else if rs_source st \<noteq> gr_tool_calls response then
        raise (protocol ''streamed tool calls differ from terminal response'')
      else give st)"

definition finish_stream ::
  "'o agent_env \<Rightarrow> str set \<Rightarrow> str \<Rightarrow> nat \<Rightarrow> round_state \<Rightarrow> ('o, agent_error, generate_reply \<times> round_state) act" where
  "finish_stream E issued turn_id rnd st =
     (case rs_completed st of
        None \<Rightarrow> raise (protocol ''generation ended without a terminal response'')
      | Some response \<Rightarrow>
          then_do (settle (require_prefix (rs_text st) (gr_text response)
            ''streamed answer text is not a prefix of terminal response'')) (\<lambda>rest.
          then_do (if rest = [] then give st else answer_delta E turn_id rnd rest st) (\<lambda>st.
          then_do (settle (require_prefix (rs_reasoning st) (case gr_reasoning response of None \<Rightarrow> [] | Some r \<Rightarrow> r)
            ''streamed reasoning is not a prefix of terminal response'')) (\<lambda>rest.
          then_do (if rest = [] then give st else reasoning_delta E turn_id rnd rest st) (\<lambda>st.
          then_do (reconcile_calls E issued turn_id rnd response st) (\<lambda>st.
          let response = response\<lparr> gr_tool_calls := rs_observed st \<rparr> in
          if gr_tool_calls response = [] \<and> trim (gr_text response) = [] then
            raise (protocol ''terminal response contained no answer text or tool calls'')
          else give (response, st)))))))"

definition stream_model_round ::
  "nat \<Rightarrow> 'o agent_env \<Rightarrow> agent_session \<Rightarrow> chat_request \<Rightarrow> str \<Rightarrow> nat \<Rightarrow> round_state
    \<Rightarrow> ('o, agent_error, generate_reply \<times> round_state) act" where
  "stream_model_round fuel E S request turn_id rnd st =
     then_do (outside (ae_stream E request) (\<lambda>_. [Streamed request])) (\<lambda>refused.
     case refused of
       Some e \<Rightarrow> raise (GenerationError e)
     | None \<Rightarrow>
         attempt (then_do (stream_loop fuel E (as_issued S) turn_id rnd st)
             (finish_stream E (as_issued S) turn_id rnd)) (\<lambda>r.
           case r of
             Inr response \<Rightarrow> give response
           | Inl primary \<Rightarrow>
               then_do (outside (ae_cancel_and_wait E) (\<lambda>_. [])) (\<lambda>cleanup.
               case cleanup of
                 None \<Rightarrow> raise primary
               | Some e \<Rightarrow> raise (GenerationCleanup primary e))))"


section \<open>The request\<close>

definition blank_line :: str where
  "blank_line = [CHR 0x0A, CHR 0x0A]"

definition join_user :: "chat_message \<Rightarrow> chat_message \<Rightarrow> chat_message" where
  "join_user previous message =
     (case (rev (cm_content previous), cm_content message) of
        (TextContent l # earlier, TextContent r # later) \<Rightarrow>
          previous\<lparr> cm_content := rev earlier @ TextContent (l @ blank_line @ r) # later \<rparr>
      | _ \<Rightarrow> previous\<lparr> cm_content := cm_content previous @ cm_content message \<rparr>)"

definition coalesce_step :: "chat_message list \<Rightarrow> chat_message \<Rightarrow> chat_message list" where
  "coalesce_step coalesced message =
     (if cm_role message = User \<and> coalesced \<noteq> [] \<and> cm_role (last coalesced) = User
      then butlast coalesced @ [join_user (last coalesced) message]
      else coalesced @ [message])"

definition coalesce_adjacent_user_messages :: "chat_message list \<Rightarrow> chat_message list" where
  "coalesce_adjacent_user_messages messages = foldl coalesce_step [] messages"

definition generation_request ::
  "libs \<Rightarrow> agent_session \<Rightarrow> chat_message list \<Rightarrow> chat_options \<Rightarrow> agent_error + chat_request" where
  "generation_request L S turn_messages options =
     (let replay_tools = (\<Union>message \<in> set (as_history S @ turn_messages). call_name ` set (cm_tool_calls message));
          messages = coalesce_adjacent_user_messages (as_history S @ turn_messages);
          messages =
            (case as_capabilities S of
               None \<Rightarrow> messages
             | Some c \<Rightarrow>
                 (if nc_reasoning_history c = Some False
                  then map (\<lambda>message. message\<lparr> cm_reasoning := None \<rparr>) messages
                  else messages));
          tools = map (\<lambda>(name, registered). rt_definition registered)
            (filter (\<lambda>(name, registered). name \<in> as_enabled S \<or> name \<in> replay_tools) (as_tools S)) in
      bind_result (map_error request_reason (validate_shape options)) (\<lambda>_.
      bind_result (map_error GenerationError (validate_request_shape (lib_json_len L) messages tools)) (\<lambda>_.
      Inr \<lparr> cr_messages = messages, cr_tools = tools, cr_options = options \<rparr>)))"


section \<open>The turn\<close>

definition assistant_message :: "generate_reply \<Rightarrow> bool \<Rightarrow> chat_message" where
  "assistant_message response preserve_reasoning =
     \<lparr> cm_role = Assistant,
       cm_content = (if gr_text response = [] then [] else [TextContent (gr_text response)]),
       cm_tool_calls = gr_tool_calls response, cm_tool_call_id = None,
       cm_reasoning = (if preserve_reasoning then gr_reasoning response else None) \<rparr>"

definition preserve_reasoning :: "agent_session \<Rightarrow> bool" where
  "preserve_reasoning S =
     (case as_capabilities S of None \<Rightarrow> True | Some c \<Rightarrow> nc_reasoning_history c \<noteq> Some False)"

definition add_usage :: "usage \<Rightarrow> usage \<Rightarrow> usage" where
  "add_usage t n =
     \<lparr> us_prompt_tokens = saturating_add (us_prompt_tokens t) (us_prompt_tokens n),
       us_cached_tokens = saturating_add (us_cached_tokens t) (us_cached_tokens n),
       us_completion_tokens = saturating_add (us_completion_tokens t) (us_completion_tokens n) \<rparr>"

text \<open>The locals of a turn between two rounds.\<close>

record turn_state =
  tn_pending :: "chat_message list"
  tn_messages :: "chat_message list"
  tn_issued :: "str set"
  tn_usage :: usage
  tn_output_bytes :: nat
  tn_argument_bytes :: nat
  tn_tool_bytes :: nat

definition turn_start :: "chat_message \<Rightarrow> turn_state" where
  "turn_start input =
     \<lparr> tn_pending = [input], tn_messages = [], tn_issued = {},
       tn_usage = \<lparr> us_prompt_tokens = 0, us_cached_tokens = 0, us_completion_tokens = 0 \<rparr>,
       tn_output_bytes = 0, tn_argument_bytes = 0, tn_tool_bytes = 0 \<rparr>"

definition round_start :: "turn_state \<Rightarrow> round_state" where
  "round_start t =
     \<lparr> rs_observed = [], rs_source = [], rs_source_ids = {}, rs_text = [], rs_reasoning = [], rs_completed = None,
       rs_issued = tn_issued t, rs_argument_bytes = tn_argument_bytes t, rs_output_bytes = tn_output_bytes t \<rparr>"

definition after_round :: "turn_state \<Rightarrow> generate_reply \<Rightarrow> round_state \<Rightarrow> turn_state" where
  "after_round t response st =
     t\<lparr> tn_issued := rs_issued st, tn_argument_bytes := rs_argument_bytes st, tn_output_bytes := rs_output_bytes st,
        tn_usage := add_usage (tn_usage t) (gr_usage response) \<rparr>"

text \<open>What \<open>history.append\<close> and \<open>issued_tool_ids.extend\<close> leave in the session.\<close>

definition commit_turn :: "agent_session \<Rightarrow> chat_message list \<Rightarrow> str set \<Rightarrow> agent_session" where
  "commit_turn S messages issued = S\<lparr> as_history := as_history S @ messages, as_issued := as_issued S \<union> issued \<rparr>"

text \<open>
  The session is part of the outcome, because a turn that fails may have committed batches before. A
  step of the turn either ends it or goes on with the locals and the session of the next round.
\<close>

type_synonym turn_result = "(agent_error + agent_turn) \<times> agent_session"

datatype turn_step = Ended "agent_error + agent_turn" | NextRound turn_state

definition fail_with ::
  "'o agent_env \<Rightarrow> str \<Rightarrow> agent_error \<Rightarrow> agent_session \<Rightarrow> ('o, 'e, turn_step \<times> agent_session) act" where
  "fail_with E turn_id e S = attempt (fail_turn E turn_id e) (\<lambda>r. give (Ended r, S))"

text \<open>The last round: its message is made durable with the terminal event, committed, then announced.\<close>

definition finish_turn ::
  "'o agent_env \<Rightarrow> str \<Rightarrow> nat \<Rightarrow> generate_reply \<Rightarrow> chat_message \<Rightarrow> turn_state \<Rightarrow> agent_session
    \<Rightarrow> ('o, 'e, turn_step \<times> agent_session) act" where
  "finish_turn E turn_id rnd response assistant t S =
     (let pending = tn_pending t @ [assistant];
          turn = \<lparr> at_id = turn_id, at_response = response, at_messages = tn_messages t @ pending,
                   at_model_rounds = rnd, at_usage = tn_usage t \<rparr>;
          completed = TurnCompleted turn_id rnd (tn_usage t) in
      attempt (checkpoint_turn E (MessagesCheckpoint turn_id pending (Some completed))) (\<lambda>r. case r of
        Inl e \<Rightarrow> give (Ended (Inl e), S)
      | Inr _ \<Rightarrow>
          let S = commit_turn S pending (tn_issued t) in
          attempt (emit_event E completed) (\<lambda>r. give (case r of
            Inl (EventSink message) \<Rightarrow> (Ended (Inl (EventSinkAfterCommit turn_id message)), S)
          | Inl e \<Rightarrow> (Ended (Inl e), S)
          | Inr _ \<Rightarrow> (Ended (Inr turn), S)))))"

text \<open>A round with calls: the batch is announced, run, made durable and committed as a whole.\<close>

definition commit_batch ::
  "'o agent_env \<Rightarrow> str \<Rightarrow> chat_message \<Rightarrow> turn_state \<Rightarrow> agent_session \<Rightarrow> batch_outcome \<Rightarrow> nat
    \<Rightarrow> ('o, 'e, turn_step \<times> agent_session) act" where
  "commit_batch E turn_id assistant t S batch used =
     (let pending = tn_pending t @ assistant # bo_results batch in
      attempt (checkpoint_turn E (MessagesCheckpoint turn_id pending None)) (\<lambda>r. case r of
        Inl e \<Rightarrow> fail_with E turn_id e S
      | Inr _ \<Rightarrow>
          let S = commit_turn S pending (tn_issued t) in
          case bo_terminal_error batch of
            Some e \<Rightarrow> fail_with E turn_id e S
          | None \<Rightarrow>
              give (NextRound (t\<lparr> tn_pending := [], tn_messages := tn_messages t @ pending,
                tn_tool_bytes := used \<rparr>), S)))"

definition run_batch ::
  "'o agent_env \<Rightarrow> str \<Rightarrow> generate_reply \<Rightarrow> chat_message \<Rightarrow> turn_state \<Rightarrow> agent_session
    \<Rightarrow> ('o, 'e, turn_step \<times> agent_session) act" where
  "run_batch E turn_id response assistant t S =
     attempt (checkpoint_turn E (ToolBatchStarted turn_id (tn_pending t @ [assistant]))) (\<lambda>r. case r of
       Inl e \<Rightarrow> fail_with E turn_id e S
     | Inr _ \<Rightarrow>
         then_do (execute_tool_batch E S turn_id (gr_tool_calls response) (tn_tool_bytes t)) (\<lambda>(batch, used).
         if \<not> bo_checkpoint_required batch then
           fail_with E turn_id (unwrap_or (bo_terminal_error batch)
             (protocol ''tool batch produced neither a checkpoint nor an error'')) S
         else commit_batch E turn_id assistant t S batch used))"

definition settle_round ::
  "'o agent_env \<Rightarrow> str \<Rightarrow> nat \<Rightarrow> generate_reply \<Rightarrow> turn_state \<Rightarrow> agent_session
    \<Rightarrow> ('o, 'e, turn_step \<times> agent_session) act" where
  "settle_round E turn_id rnd response t S =
     attempt (emit_event E (ModelCompleted turn_id rnd (gr_finish_reason response) (gr_usage response))) (\<lambda>r. case r of
       Inl e \<Rightarrow> give (Ended (Inl e), S)
     | Inr _ \<Rightarrow>
         if gr_finish_reason response = AbortedByCaller then
           fail_with E turn_id (protocol ''model returned an aborted terminal response'') S
         else (let assistant = assistant_message response (preserve_reasoning S) in
           if gr_tool_calls response = [] then
             (if gr_finish_reason response = ToolCalls then
                fail_with E turn_id (protocol ''tool_calls finish reason carried no tool calls'') S
              else finish_turn E turn_id rnd response assistant t S)
           else if gr_finish_reason response \<noteq> ToolCalls then
             fail_with E turn_id (protocol ''response carried tool calls without tool_calls finish reason'') S
           else if Some rnd = as_max_model_rounds S then fail_with E turn_id (MaxModelRounds rnd) S
           else run_batch E turn_id response assistant t S))"

definition turn_round ::
  "nat \<Rightarrow> 'o agent_env \<Rightarrow> chat_options \<Rightarrow> str \<Rightarrow> nat \<Rightarrow> turn_state \<Rightarrow> agent_session
    \<Rightarrow> ('o, 'e, turn_step \<times> agent_session) act" where
  "turn_round fuel E options turn_id rnd t S =
     attempt (emit_event E (ModelStarted turn_id rnd)) (\<lambda>r. case r of
       Inl e \<Rightarrow> give (Ended (Inl e), S)
     | Inr _ \<Rightarrow>
         (case generation_request (ae_libs E) S (tn_pending t) options of
            Inl e \<Rightarrow> fail_with E turn_id e S
          | Inr request \<Rightarrow>
              attempt (stream_model_round fuel E S request turn_id rnd (round_start t)) (\<lambda>r. case r of
                Inl e \<Rightarrow> fail_with E turn_id e S
              | Inr (response, st) \<Rightarrow> settle_round E turn_id rnd response (after_round t response st) S)))"

fun turn_loop ::
  "nat \<Rightarrow> nat \<Rightarrow> 'o agent_env \<Rightarrow> chat_options \<Rightarrow> str \<Rightarrow> nat \<Rightarrow> turn_state \<Rightarrow> agent_session
    \<Rightarrow> ('o, 'e, turn_result) act" where
  "turn_loop 0 fuel E options turn_id rnd t S = (\<lambda>w. None)"
| "turn_loop (Suc rounds) fuel E options turn_id rnd t S =
     then_do (turn_round fuel E options turn_id (rnd + 1) t S) (\<lambda>(step, S).
       case step of
         Ended r \<Rightarrow> give (r, S)
       | NextRound t \<Rightarrow> turn_loop rounds fuel E options turn_id (rnd + 1) t S)"

definition run_message_core ::
  "nat \<Rightarrow> nat \<Rightarrow> 'o agent_env \<Rightarrow> chat_message \<Rightarrow> chat_options \<Rightarrow> agent_session \<Rightarrow> ('o, 'e, turn_result) act" where
  "run_message_core rounds fuel E input options S =
     (let options = merge_generation_options (as_options S) options in
      attempt (then_do (settle (map_error (\<lambda>reason. Configuration reason []) (validate_user_message input))) (\<lambda>_.
        then_do (settle (validate_native_generation_policy (as_capabilities S) options)) (\<lambda>_.
        then_do (outside (ae_fresh_id E) (\<lambda>_. [])) (\<lambda>turn_id.
        then_do (checkpoint_turn E (PreflightInput turn_id input)) (\<lambda>_.
        then_do (is_cancelled E) (\<lambda>c.
        if c then then_do (emit_event E (TurnCancelled turn_id)) (\<lambda>_. raise AgentCancelled)
        else then_do (emit_event E (TurnStarted turn_id)) (\<lambda>_. give turn_id)))))))
      (\<lambda>r. case r of
        Inl e \<Rightarrow> give (Inl e, S)
      | Inr turn_id \<Rightarrow> turn_loop rounds fuel E options turn_id 0 (turn_start input) S))"

text \<open>A turn with plain text, which is checked before it becomes a message.\<close>

definition run_turn ::
  "nat \<Rightarrow> nat \<Rightarrow> 'o agent_env \<Rightarrow> str \<Rightarrow> chat_options \<Rightarrow> agent_session \<Rightarrow> ('o, 'e, turn_result) act" where
  "run_turn rounds fuel E input options S =
     (if exceeds (length input) MAX_USER_CONTENT_BYTES then
        give (Inl (Configuration ''turn input exceeds 134217728 bytes'' []), S)
      else if trim input = [] then give (Inl (Configuration ''turn input cannot be empty'' []), S)
      else run_message_core rounds fuel E (user_message input) options S)"

definition set_enabled_tools :: "str set \<Rightarrow> agent_session \<Rightarrow> (agent_error + unit) \<times> agent_session" where
  "set_enabled_tools enabled S =
     (case find (\<lambda>name. map_of (as_tools S) name = None) (sorted_list_of_set enabled) of
        Some name \<Rightarrow> (Inl (ToolUnavailable name), S)
      | None \<Rightarrow> (Inr (), S\<lparr> as_enabled := enabled \<rparr>))"

end
