(* ===== verification/Agent_Steps.thy ===== *)
theory Agent_Steps
  imports Agent
begin

text \<open>
  Reasoning about the actions of a turn: the triple of an action with what holds after it returns a
  value and after it returns an error, and the rule of each way actions are composed.
\<close>

definition triple ::
  "('o agent_world \<Rightarrow> bool) \<Rightarrow> ('o, 'e, 'x) act \<Rightarrow> ('x \<Rightarrow> 'o agent_world \<Rightarrow> bool) \<Rightarrow> ('e \<Rightarrow> 'o agent_world \<Rightarrow> bool) \<Rightarrow> bool" where
  "triple P m Q R \<longleftrightarrow>
     (\<forall>w. P w \<longrightarrow> (case m w of None \<Rightarrow> True | Some (Inr x, w') \<Rightarrow> Q x w' | Some (Inl e, w') \<Rightarrow> R e w'))"

named_theorems triple_intros \<open>triples of the actions\<close>

lemma triple_iff:
  "triple P m Q R \<longleftrightarrow>
     (\<forall>w x w'. P w \<longrightarrow> m w = Some (Inr x, w') \<longrightarrow> Q x w') \<and> (\<forall>w e w'. P w \<longrightarrow> m w = Some (Inl e, w') \<longrightarrow> R e w')"
  by (fastforce simp: triple_def split: option.splits sum.splits)

lemma tripleI:
  assumes "\<And>w x w'. P w \<Longrightarrow> m w = Some (Inr x, w') \<Longrightarrow> Q x w'"
    and "\<And>w e w'. P w \<Longrightarrow> m w = Some (Inl e, w') \<Longrightarrow> R e w'"
  shows "triple P m Q R"
  using assms by (auto simp: triple_def split: option.split sum.split)

lemma triple_Inr: "triple P m Q R \<Longrightarrow> P w \<Longrightarrow> m w = Some (Inr x, w') \<Longrightarrow> Q x w'"
  by (auto simp: triple_def)

lemma triple_Inl: "triple P m Q R \<Longrightarrow> P w \<Longrightarrow> m w = Some (Inl e, w') \<Longrightarrow> R e w'"
  by (auto simp: triple_def)

lemma triple_mono:
  assumes "triple P m Q R" and "\<And>w. P' w \<Longrightarrow> P w"
    and "\<And>x w. Q x w \<Longrightarrow> Q' x w" and "\<And>e w. R e w \<Longrightarrow> R' e w"
  shows "triple P' m Q' R'"
  using assms unfolding triple_iff by blast

lemma triple_pre: "triple P m Q R \<Longrightarrow> (\<And>w. P' w \<Longrightarrow> P w) \<Longrightarrow> triple P' m Q R"
  by (auto simp: triple_def)

lemma triple_post:
  "triple P m Q R \<Longrightarrow> (\<And>x w. Q x w \<Longrightarrow> Q' x w) \<Longrightarrow> (\<And>e w. R e w \<Longrightarrow> R' e w) \<Longrightarrow> triple P m Q' R'"
  by (rule triple_mono)

lemma triple_then:
  assumes "triple P m Q R" and "\<And>x. triple (Q x) (k x) Q' R"
  shows "triple P (then_do m k) Q' R"
proof (rule tripleI)
  fix w x w'
  assume "P w" and "then_do m k w = Some (Inr x, w')"
  then obtain y v where "m w = Some (Inr y, v)" and "k y v = Some (Inr x, w')"
    by (auto simp: then_do_def split: option.splits sum.splits)
  with \<open>P w\<close> show "Q' x w'" using assms triple_Inr by metis
next
  fix w e w'
  assume "P w" and "then_do m k w = Some (Inl e, w')"
  then consider "m w = Some (Inl e, w')" | y v where "m w = Some (Inr y, v)" and "k y v = Some (Inl e, w')"
    by (auto simp: then_do_def split: option.splits sum.splits)
  then show "R e w'"
    using \<open>P w\<close> by cases (blast dest: triple_Inl [OF assms(1)] triple_Inr [OF assms(1)] triple_Inl [OF assms(2)])+
qed

lemma triple_attempt:
  assumes "triple P m Q R" and "\<And>x. triple (Q x) (k (Inr x)) Q' R'" and "\<And>e. triple (R e) (k (Inl e)) Q' R'"
  shows "triple P (attempt m k) Q' R'"
proof (rule tripleI)
  fix w x w'
  assume "P w" and "attempt m k w = Some (Inr x, w')"
  then obtain r v where "m w = Some (r, v)" and "k r v = Some (Inr x, w')"
    by (auto simp: attempt_def split: option.splits)
  with \<open>P w\<close> show "Q' x w'"
    by (cases r) (auto dest: triple_Inr [OF assms(1)] triple_Inl [OF assms(1)] triple_Inr [OF assms(2)] triple_Inr [OF assms(3)])
next
  fix w e w'
  assume "P w" and "attempt m k w = Some (Inl e, w')"
  then obtain r v where "m w = Some (r, v)" and "k r v = Some (Inl e, w')"
    by (auto simp: attempt_def split: option.splits)
  with \<open>P w\<close> show "R' e w'"
    by (cases r) (auto dest: triple_Inr [OF assms(1)] triple_Inl [OF assms(1)] triple_Inl [OF assms(2)] triple_Inl [OF assms(3)])
qed

lemma triple_give: "(\<And>w. P w \<Longrightarrow> Q x w) \<Longrightarrow> triple P (give x) Q R"
  by (auto simp: triple_def give_def)

lemma triple_raise: "(\<And>w. P w \<Longrightarrow> R e w) \<Longrightarrow> triple P (raise e) Q R"
  by (auto simp: triple_def raise_def)

lemma triple_never: "triple P (\<lambda>w. None) Q R"
  by (auto simp: triple_def)

lemma triple_settle:
  "(\<And>x w. P w \<Longrightarrow> r = Inr x \<Longrightarrow> Q x w) \<Longrightarrow> (\<And>e w. P w \<Longrightarrow> r = Inl e \<Longrightarrow> R e w) \<Longrightarrow> triple P (settle r) Q R"
  by (cases r) (auto simp: triple_def settle_def)

lemma triple_map_fail: "triple P m Q (\<lambda>e. R (f e)) \<Longrightarrow> triple P (map_fail f m) Q R"
  by (fastforce simp: triple_def map_fail_def map_error_def split: option.splits sum.splits)

lemma triple_outside:
  assumes "\<And>w x s. P w \<Longrightarrow> f (aw_outside w) = (x, s) \<Longrightarrow> Q x \<lparr> aw_outside = s, aw_trace = aw_trace w @ entry x \<rparr>"
  shows "triple P (outside f entry) Q R"
  using assms by (auto simp: triple_def outside_def split: prod.splits)

lemma triple_if:
  "(b \<Longrightarrow> triple P m Q R) \<Longrightarrow> (\<not> b \<Longrightarrow> triple P m' Q R) \<Longrightarrow> triple P (if b then m else m') Q R"
  by simp

text \<open>A hypothesis of the precondition that does not depend on the world.\<close>

lemma triple_assume: "(B \<Longrightarrow> triple P m Q R) \<Longrightarrow> triple (\<lambda>w. P w \<and> B) m Q R"
  by (auto simp: triple_def)

lemma triple_assume': "(B \<Longrightarrow> triple P m Q R) \<Longrightarrow> triple (\<lambda>w. B \<and> P w) m Q R"
  by (auto simp: triple_def)

lemma triple_false: "triple (\<lambda>w. False) m Q R"
  by (auto simp: triple_def)

text \<open>Two facts about one action.\<close>

lemma triple_conj:
  assumes "triple P m Q R" and "triple P' m Q' R'"
  shows "triple (\<lambda>w. P w \<and> P' w) m (\<lambda>x w. Q x w \<and> Q' x w) (\<lambda>e w. R e w \<and> R' e w)"
  using assms by (auto simp: triple_def split: option.splits sum.splits)

lemma triple_emit:
  assumes "\<And>w s. P w \<Longrightarrow> Q () \<lparr> aw_outside = s, aw_trace = aw_trace w @ [Emitted event True] \<rparr>"
    and "\<And>w s m. P w \<Longrightarrow> R (EventSink m) \<lparr> aw_outside = s, aw_trace = aw_trace w @ [Emitted event False] \<rparr>"
  shows "triple P (emit_event E event) Q R"
  using assms
  by (auto simp: triple_def emit_event_def then_do_def outside_def give_def raise_def split: prod.splits option.splits)

lemma triple_checkpoint:
  assumes "\<And>w s. P w \<Longrightarrow> Q () \<lparr> aw_outside = s, aw_trace = aw_trace w @ [Checkpointed cp True] \<rparr>"
    and "\<And>w s e. P w \<Longrightarrow> R e \<lparr> aw_outside = s, aw_trace = aw_trace w @ [Checkpointed cp False] \<rparr>"
  shows "triple P (checkpoint_turn E cp) Q R"
  using assms
  by (auto simp: triple_def checkpoint_turn_def then_do_def outside_def give_def raise_def
    split: prod.splits option.splits)

text \<open>A property of the trace that every action but the ones it singles out keeps.\<close>

definition traced :: "(action list \<Rightarrow> bool) \<Rightarrow> 'o agent_world \<Rightarrow> bool" where
  "traced I w \<longleftrightarrow> I (aw_trace w)"

lemma traced_world [simp]: "traced I \<lparr> aw_outside = s, aw_trace = t \<rparr> = I t"
  by (simp add: traced_def)

abbreviation keeps :: "(action list \<Rightarrow> bool) \<Rightarrow> ('o, 'e, 'x) act \<Rightarrow> bool" where
  "keeps I m \<equiv> triple (traced I) m (\<lambda>_. traced I) (\<lambda>_. traced I)"

lemma keeps_outside: "(\<And>x t. I t \<Longrightarrow> I (t @ entry x)) \<Longrightarrow> keeps I (outside f entry)"
  by (rule triple_outside) (simp add: traced_def)

lemma keeps_emit: "(\<And>b t. I t \<Longrightarrow> I (t @ [Emitted event b])) \<Longrightarrow> keeps I (emit_event E event)"
  by (rule triple_emit) (simp_all add: traced_def)

lemma keeps_checkpoint: "(\<And>b t. I t \<Longrightarrow> I (t @ [Checkpointed cp b])) \<Longrightarrow> keeps I (checkpoint_turn E cp)"
  by (rule triple_checkpoint) (simp_all add: traced_def)

lemma keeps_give: "keeps I (give x)"
  by (rule triple_give)

lemma keeps_raise: "keeps I (raise e)"
  by (rule triple_raise)

lemma keeps_settle: "keeps I (settle r)"
  by (rule triple_settle)

lemma keeps_map_fail: "keeps I m \<Longrightarrow> keeps I (map_fail f m)"
  by (rule triple_map_fail)

lemma keeps_then: "keeps I m \<Longrightarrow> (\<And>x. keeps I (k x)) \<Longrightarrow> keeps I (then_do m k)"
  by (rule triple_then)

lemma keeps_attempt: "keeps I m \<Longrightarrow> (\<And>r. keeps I (k r)) \<Longrightarrow> keeps I (attempt m k)"
  by (rule triple_attempt)

lemmas keeps_rules = keeps_then keeps_attempt keeps_map_fail keeps_give keeps_raise keeps_settle triple_never

text \<open>What every returned value and every error satisfies, whatever the world.\<close>

definition gives :: "('x \<Rightarrow> bool) \<Rightarrow> ('e \<Rightarrow> bool) \<Rightarrow> ('o, 'e, 'x) act \<Rightarrow> bool" where
  "gives B C m \<longleftrightarrow> triple (\<lambda>_. True) m (\<lambda>x _. B x) (\<lambda>e _. C e)"

abbreviation returns :: "('x \<Rightarrow> bool) \<Rightarrow> ('o, 'e, 'x) act \<Rightarrow> bool" where
  "returns B \<equiv> gives B (\<lambda>_. True)"

lemma gives_iff:
  "gives B C m \<longleftrightarrow> (\<forall>w x w'. m w = Some (Inr x, w') \<longrightarrow> B x) \<and> (\<forall>w e w'. m w = Some (Inl e, w') \<longrightarrow> C e)"
  by (auto simp: gives_def triple_iff)

lemma gives_mono: "gives B C m \<Longrightarrow> (\<And>x. B x \<Longrightarrow> B' x) \<Longrightarrow> (\<And>e. C e \<Longrightarrow> C' e) \<Longrightarrow> gives B' C' m"
  unfolding gives_iff by blast

lemma gives_any: "gives (\<lambda>_. True) (\<lambda>_. True) m"
  by (simp add: gives_iff)

lemma gives_bind:
  assumes "gives B C m" and "\<And>x. B x \<Longrightarrow> gives B' C (k x)"
  shows "gives B' C (then_do m k)"
  using assms unfolding gives_def
  by (intro triple_then [OF assms(1) [unfolded gives_def]]) (auto simp: triple_iff)

lemma gives_look:
  assumes "gives B C m" and "\<And>x. B x \<Longrightarrow> gives B' C' (k (Inr x))" and "\<And>e. C e \<Longrightarrow> gives B' C' (k (Inl e))"
  shows "gives B' C' (attempt m k)"
  using assms unfolding gives_def
  by (intro triple_attempt [OF assms(1) [unfolded gives_def]]) (auto simp: triple_iff)

lemma gives_give: "B x \<Longrightarrow> gives B C (give x)"
  by (simp add: gives_def triple_give)

lemma gives_raise: "C e \<Longrightarrow> gives B C (raise e)"
  by (simp add: gives_def triple_raise)

lemma gives_settle: "(\<And>x. r = Inr x \<Longrightarrow> B x) \<Longrightarrow> (\<And>e. r = Inl e \<Longrightarrow> C e) \<Longrightarrow> gives B C (settle r)"
  unfolding gives_def by (rule triple_settle) blast+

lemma gives_outside: "(\<And>s. B (fst (f s))) \<Longrightarrow> gives B C (outside f entry)"
  unfolding gives_def by (rule triple_outside) (metis fst_conv)

lemma gives_map_fail: "gives B (\<lambda>e. C (f e)) m \<Longrightarrow> gives B C (map_fail f m)"
  unfolding gives_def by (rule triple_map_fail)

lemma gives_then: "(\<And>x. returns B (k x)) \<Longrightarrow> returns B (then_do m k)"
  by (rule gives_bind [OF gives_any])

lemma gives_attempt: "(\<And>r. gives B C (k r)) \<Longrightarrow> gives B C (attempt m k)"
  by (rule gives_look [OF gives_any])

lemmas returns_rules = gives_then gives_attempt gives_give gives_raise

lemma triple_gives:
  assumes "triple P m Q R" and "gives B C m"
  shows "triple P m (\<lambda>x w. Q x w \<and> B x) (\<lambda>e w. R e w \<and> C e)"
  using assms unfolding gives_def triple_iff by blast

lemma triple_returns:
  assumes "triple P m Q R" and "returns B m"
  shows "triple P m (\<lambda>x w. Q x w \<and> B x) R"
  using triple_gives [OF assms] by simp

end
