(* ===== verification/Agent_Trace.thy ===== *)
theory Agent_Trace
  imports Agent_Steps
begin

text \<open>
  The footprint of each part of a turn: the actions it may append to the trace. What a turn commits,
  what was made durable and what was streamed are then read off the trace.
\<close>

section \<open>Footprints\<close>

definition acts :: "(action \<Rightarrow> bool) \<Rightarrow> ('o, 'e, 'x) act \<Rightarrow> bool" where
  "acts A m \<longleftrightarrow> (\<forall>w r w'. m w = Some (r, w') \<longrightarrow> (\<exists>as. aw_trace w' = aw_trace w @ as \<and> list_all A as))"

lemma actsI: "(\<And>w r w'. m w = Some (r, w') \<Longrightarrow> \<exists>as. aw_trace w' = aw_trace w @ as \<and> list_all A as) \<Longrightarrow> acts A m"
  by (auto simp: acts_def)

lemma actsD: "acts A m \<Longrightarrow> m w = Some (r, w') \<Longrightarrow> \<exists>as. aw_trace w' = aw_trace w @ as \<and> list_all A as"
  by (auto simp: acts_def)

lemma acts_mono: "acts A m \<Longrightarrow> (\<And>a. A a \<Longrightarrow> B a) \<Longrightarrow> acts B m"
  unfolding acts_def by (metis (mono_tags, lifting) list.pred_mono_strong)

lemma acts_none: "m = (\<lambda>w. None) \<Longrightarrow> acts A m"
  by (simp add: acts_def)

lemma acts_give: "acts A (give x)"
  by (simp add: acts_def give_def)

lemma acts_raise: "acts A (raise e)"
  by (simp add: acts_def raise_def)

lemma acts_settle: "acts A (settle r)"
  by (simp add: acts_def settle_def)

lemma acts_outside: "(\<And>x. list_all A (entry x)) \<Longrightarrow> acts A (outside f entry)"
  by (auto simp: acts_def outside_def split: prod.splits)

lemma acts_map_fail: "acts A m \<Longrightarrow> acts A (map_fail f m)"
  by (fastforce simp: acts_def map_fail_def split: option.splits)

lemma acts_attempt:
  assumes "acts A m" and "\<And>r. acts A (k r)"
  shows "acts A (attempt m k)"
proof (rule actsI)
  fix w r w'
  assume "attempt m k w = Some (r, w')"
  then obtain q v where "m w = Some (q, v)" and "k q v = Some (r, w')"
    by (auto simp: attempt_def split: option.splits)
  with actsD [OF assms(1)] actsD [OF assms(2)]
  obtain xs ys where "aw_trace v = aw_trace w @ xs" "list_all A xs" "aw_trace w' = aw_trace v @ ys" "list_all A ys"
    by meson
  then show "\<exists>as. aw_trace w' = aw_trace w @ as \<and> list_all A as" by (intro exI [of _ "xs @ ys"]) simp
qed

lemma then_do_attempt: "then_do m k = attempt m (\<lambda>r. case r of Inl e \<Rightarrow> raise e | Inr x \<Rightarrow> k x)"
  by (rule ext) (auto simp: then_do_def attempt_def raise_def split: option.split sum.split)

lemma acts_then: "acts A m \<Longrightarrow> (\<And>x. acts A (k x)) \<Longrightarrow> acts A (then_do m k)"
  unfolding then_do_attempt by (auto split: sum.split intro!: acts_attempt acts_raise)

lemma acts_emit: "(\<And>b. A (Emitted event b)) \<Longrightarrow> acts A (emit_event E event)"
  unfolding emit_event_def by (auto split: option.split intro!: acts_then acts_outside acts_give acts_raise)

lemma acts_checkpoint: "(\<And>b. A (Checkpointed cp b)) \<Longrightarrow> acts A (checkpoint_turn E cp)"
  unfolding checkpoint_turn_def by (auto split: option.split intro!: acts_then acts_outside acts_give acts_raise)

lemmas acts_rules = acts_then acts_attempt acts_map_fail acts_give acts_raise acts_settle

lemma keeps_acts:
  assumes "acts A m" and "\<And>t as. I t \<Longrightarrow> list_all A as \<Longrightarrow> I (t @ as)"
  shows "keeps I m"
  using assms unfolding triple_iff acts_def traced_def by metis

text \<open>The actions of a tool batch, of a model round and of a failing end.\<close>

fun tool_event :: "agent_event \<Rightarrow> bool" where
  "tool_event (ApprovalRequested _) \<longleftrightarrow> True"
| "tool_event (ApprovalResolved _ _) \<longleftrightarrow> True"
| "tool_event (ToolStarted _ _) \<longleftrightarrow> True"
| "tool_event (ToolCompleted _ _ _) \<longleftrightarrow> True"
| "tool_event _ \<longleftrightarrow> False"

fun tool_checkpoint :: "agent_checkpoint \<Rightarrow> bool" where
  "tool_checkpoint (ToolAudit _) \<longleftrightarrow> True"
| "tool_checkpoint (ToolInvocationStarted _ _) \<longleftrightarrow> True"
| "tool_checkpoint (ToolInvocationCompleted _ _ _) \<longleftrightarrow> True"
| "tool_checkpoint _ \<longleftrightarrow> False"

fun tool_action :: "action \<Rightarrow> bool" where
  "tool_action (Emitted event _) \<longleftrightarrow> tool_event event"
| "tool_action (Checkpointed cp _) \<longleftrightarrow> tool_checkpoint cp"
| "tool_action (Decided _ _) \<longleftrightarrow> True"
| "tool_action (Classified _ _) \<longleftrightarrow> True"
| "tool_action (Invoked _ _) \<longleftrightarrow> True"
| "tool_action (Streamed _) \<longleftrightarrow> False"

fun completion :: "action \<Rightarrow> bool" where
  "completion (Checkpointed (ToolInvocationCompleted _ _ _) _) \<longleftrightarrow> True"
| "completion _ \<longleftrightarrow> False"

fun round_event :: "nat \<Rightarrow> agent_event \<Rightarrow> bool" where
  "round_event rnd (ModelProgress _ k _) \<longleftrightarrow> k = rnd"
| "round_event rnd (TextDelta _ k _) \<longleftrightarrow> k = rnd"
| "round_event rnd (ReasoningDelta _ k _) \<longleftrightarrow> k = rnd"
| "round_event rnd (ToolCallIssued _ k _) \<longleftrightarrow> k = rnd"
| "round_event rnd _ \<longleftrightarrow> False"

fun round_action :: "nat \<Rightarrow> action \<Rightarrow> bool" where
  "round_action rnd (Emitted event _) \<longleftrightarrow> round_event rnd event"
| "round_action rnd (Streamed _) \<longleftrightarrow> True"
| "round_action rnd _ \<longleftrightarrow> False"

fun end_action :: "action \<Rightarrow> bool" where
  "end_action (Emitted (TurnCancelled _) _) \<longleftrightarrow> True"
| "end_action (Emitted (TurnFailed _ _) _) \<longleftrightarrow> True"
| "end_action _ \<longleftrightarrow> False"

lemma cancelled_acts: "acts A (is_cancelled E)"
  unfolding is_cancelled_def by (rule acts_outside) simp

lemma tool_emit: "tool_event event \<Longrightarrow> acts tool_action (emit_event E event)"
  by (rule acts_emit) simp

lemma tool_checkpointed: "tool_checkpoint cp \<Longrightarrow> acts tool_action (checkpoint_turn E cp)"
  by (rule acts_checkpoint) simp

lemmas tool_basic = tool_emit tool_checkpointed cancelled_acts

lemma finalize_acts: "acts tool_action (finalize_tool_output E S turn_id call output used)"
  unfolding finalize_tool_output_def Let_def split_def by (intro acts_rules tool_basic) (simp_all add: completed_event_def)

lemma answer_unrun_acts: "acts tool_action (answer_unrun E S turn_id call output used)"
  unfolding answer_unrun_def by (intro acts_rules finalize_acts)

lemma approve_tool_acts: "acts tool_action (approve_tool E S turn_id call ctx)"
  unfolding approve_tool_def ask_approval_def resolve_approval_def
  by (auto split: approval_requirement.split option.split intro!: acts_rules tool_basic acts_outside)

lemma invoke_tool_acts: "acts tool_action (invoke_tool E policy call ctx)"
  unfolding invoke_tool_def by (auto split: cancellation_policy.split intro!: acts_rules acts_outside)

lemma run_tool_acts: "acts tool_action (run_tool E S turn_id registered call ctx used)"
  unfolding run_tool_def
  by (auto simp: split_def split: sum.split tool_error.split intro!: acts_rules tool_basic invoke_tool_acts finalize_acts)

lemma execute_tool_call_acts: "acts tool_action (execute_tool_call E S turn_id call used)"
  unfolding execute_tool_call_def
  by (auto split: option.split prod.split
      intro!: acts_rules tool_basic answer_unrun_acts approve_tool_acts run_tool_acts)

lemma complete_remaining_acts: "acts completion (complete_remaining E turn_id reason calls results)"
  by (induction calls arbitrary: results) (auto simp: split_def intro!: acts_rules acts_checkpoint)

lemma close_batch_acts: "acts completion (close_batch E turn_id reason calls e results)"
  unfolding close_batch_def by (intro acts_rules complete_remaining_acts)

lemma failed_call_acts: "acts completion (failed_call E turn_id call calls results f)"
  unfolding failed_call_def
  by (auto simp: split_def split: option.split sum.split intro!: acts_rules close_batch_acts acts_checkpoint)

lemma completion_tool: "acts completion m \<Longrightarrow> acts tool_action m"
  by (erule acts_mono) (auto elim: completion.elims)

lemmas batch_end_acts = close_batch_acts [THEN completion_tool] failed_call_acts [THEN completion_tool]

lemma batch_loop_acts: "acts tool_action (batch_loop E S turn_id calls results used)"
  by (induction calls arbitrary: results used)
    (auto split: sum.split option.split prod.split
      intro!: acts_rules batch_end_acts execute_tool_call_acts)

lemma batch_acts: "acts tool_action (execute_tool_batch E S turn_id calls used)"
  unfolding execute_tool_batch_def by (auto intro!: acts_rules batch_loop_acts)

lemma fail_with_acts: "acts end_action (fail_with E turn_id e S)"
  unfolding fail_with_def fail_turn_def emit_terminal_error_def by (auto intro!: acts_rules acts_emit)

lemma allocate_acts: "acts A (allocate_id E n taken)"
  by (induction n) (auto intro!: acts_rules acts_outside)

lemma accept_call_acts: "acts (round_action rnd) (accept_call E issued turn_id rnd c st)"
  unfolding accept_call_def reidentify_call_def by (auto intro!: acts_rules allocate_acts acts_emit)

lemma delta_acts:
  "acts (round_action rnd) (answer_delta E turn_id rnd txt st)"
  "acts (round_action rnd) (reasoning_delta E turn_id rnd txt st)"
  unfolding answer_delta_def reasoning_delta_def by (auto intro!: acts_rules acts_emit)

lemma stream_event_acts: "acts (round_action rnd) (stream_event E issued turn_id rnd event st)"
  by (cases event) (auto intro!: acts_rules acts_emit accept_call_acts delta_acts)

lemma stream_loop_acts: "acts (round_action rnd) (stream_loop fuel E issued turn_id rnd st)"
  by (induction fuel arbitrary: st)
    (auto simp: acts_none split: observation.split sum.split intro!: acts_rules acts_outside stream_event_acts)

lemma accept_calls_acts: "acts (round_action rnd) (accept_calls E issued turn_id rnd cs st)"
  by (induction cs arbitrary: st) (auto intro!: acts_rules accept_call_acts)

lemma finish_stream_acts: "acts (round_action rnd) (finish_stream E issued turn_id rnd st)"
  unfolding finish_stream_def reconcile_calls_def Let_def
  by (auto split: option.split intro!: acts_rules delta_acts accept_calls_acts)

lemma stream_round_acts: "acts (round_action rnd) (stream_model_round fuel E S request turn_id rnd st)"
  unfolding stream_model_round_def
  by (auto split: option.split sum.split intro!: acts_rules acts_outside stream_loop_acts finish_stream_acts)

end
