(* ===== verification/Agent_Safety.thy ===== *)
theory Agent_Safety
  imports Agent_Trace
begin

text \<open>
  What must have happened before a tool runs. The tool is registered, enabled, and its arguments
  satisfy its schema; right before the invocation the trace shows the tool's own classification of
  the call, the one-shot approval of exactly this call when it asked for one, the start event, and
  the durable record of the start. The actions that lie between two invocations are treated once, in
  a locale.
\<close>

section \<open>Clearance\<close>

definition approval_steps :: "str \<Rightarrow> tool_call \<Rightarrow> approval_context \<Rightarrow> action list" where
  "approval_steps turn_id call approval =
     [Emitted (ApprovalRequested approval) True, Checkpointed (ToolAudit turn_id) True,
      Decided approval (Some AllowOnce), Emitted (ApprovalResolved (call_id call) AllowOnce) True,
      Checkpointed (ToolAudit turn_id) True]"

definition start_steps :: "str \<Rightarrow> tool_call \<Rightarrow> action list" where
  "start_steps turn_id call =
     [Emitted (ToolStarted (call_id call) (call_name call)) True,
      Checkpointed (ToolInvocationStarted turn_id call) True]"

text \<open>A trace that ends in the clearance of a call for the context it is about to run in.\<close>

definition cleared :: "agent_session \<Rightarrow> str \<Rightarrow> tool_call \<Rightarrow> tool_context \<Rightarrow> action list \<Rightarrow> bool" where
  "cleared S turn_id call context t \<longleftrightarrow>
     tx_call_id context = call_id call
     \<and> (\<exists>before.
          \<not> tx_approved context \<and> t = before @ [Classified call ApprovalNone]
        \<or> tx_approved context
          \<and> (\<exists>reason. t = before @ Classified call (ApprovalRequired reason)
               # approval_steps turn_id call (approval_of S call reason)))"

definition permitted :: "agent_session \<Rightarrow> tool_call \<Rightarrow> bool" where
  "permitted S call \<longleftrightarrow>
     (\<exists>registered. map_of (as_tools S) (call_name call) = Some registered \<and> call_name call \<in> as_enabled S
        \<and> arguments_satisfy_schema (td_parameters (rt_definition registered)) (call_arguments call))"

definition authorised :: "agent_session \<Rightarrow> tool_call \<Rightarrow> tool_context \<Rightarrow> action list \<Rightarrow> bool" where
  "authorised S call context t \<longleftrightarrow>
     permitted S call
     \<and> (\<exists>turn_id before. cleared S turn_id call context before \<and> t = before @ start_steps turn_id call)"

definition guarded :: "agent_session \<Rightarrow> action list \<Rightarrow> bool" where
  "guarded S t \<longleftrightarrow> (\<forall>before call context after. t = before @ Invoked call context # after \<longrightarrow> authorised S call context before)"

fun is_invocation :: "action \<Rightarrow> bool" where
  "is_invocation (Invoked _ _) \<longleftrightarrow> True"
| "is_invocation _ \<longleftrightarrow> False"

lemma snoc_split: "t @ [a] = b @ x # c \<longleftrightarrow> (c = [] \<and> t = b \<and> a = x) \<or> (\<exists>c'. c = c' @ [a] \<and> t = b @ x # c')"
  by (cases c rule: rev_cases) auto

lemma guarded_snoc:
  "guarded S (t @ [a]) \<longleftrightarrow> guarded S t \<and> (\<forall>call ctx. a = Invoked call ctx \<longrightarrow> authorised S call ctx t)"
  (is "?L \<longleftrightarrow> ?R")
proof
  assume ?L
  then show ?R unfolding guarded_def snoc_split by simp
next
  assume ?R
  then show ?L unfolding guarded_def snoc_split by auto
qed

lemma guarded_quiet: "guarded S t \<Longrightarrow> \<not> is_invocation a \<Longrightarrow> guarded S (t @ [a])"
  by (auto simp: guarded_snoc)

lemma guarded_Nil: "guarded S []"
  by (simp add: guarded_def)


section \<open>Between two invocations\<close>

text \<open>Sessions that differ in their history only.\<close>

definition same_tools :: "agent_session \<Rightarrow> agent_session \<Rightarrow> bool" where
  "same_tools S S' \<longleftrightarrow> S' = S\<lparr> as_history := as_history S', as_issued := as_issued S' \<rparr>"

lemma same_tools_refl: "same_tools S S"
  by (simp add: same_tools_def)

lemma same_tools_commit: "same_tools S S' \<Longrightarrow> same_tools S (commit_turn S' ms ids)"
  unfolding same_tools_def commit_turn_def by (cases S; cases S') simp

lemma fail_with_session: "same_tools S S' \<Longrightarrow> returns (\<lambda>(_, S'). same_tools S S') (fail_with E turn_id e S')"
  unfolding fail_with_def by (intro returns_rules) simp

lemma run_batch_session:
  "same_tools S S' \<Longrightarrow> returns (\<lambda>(_, S'). same_tools S S') (run_batch E turn_id response assistant t S')"
  unfolding run_batch_def commit_batch_def Let_def
  by (auto split: sum.split option.split intro!: returns_rules fail_with_session same_tools_commit)

lemma finish_turn_session:
  "same_tools S S' \<Longrightarrow> returns (\<lambda>(_, S'). same_tools S S') (finish_turn E turn_id rnd response assistant t S')"
  unfolding finish_turn_def Let_def
  by (auto simp: same_tools_commit split: sum.splits agent_error.splits intro!: returns_rules)

lemma settle_round_session:
  "same_tools S S' \<Longrightarrow> returns (\<lambda>(_, S'). same_tools S S') (settle_round E turn_id rnd response t S')"
  unfolding settle_round_def Let_def
  by (auto split: sum.split intro!: returns_rules fail_with_session run_batch_session finish_turn_session)

lemma turn_round_session:
  "same_tools S S' \<Longrightarrow> returns (\<lambda>(_, S'). same_tools S S') (turn_round fuel E options turn_id rnd t S')"
  unfolding turn_round_def
  by (auto split: sum.split intro!: returns_rules fail_with_session settle_round_session)

text \<open>
  An invariant of the trace that every action but an invocation keeps, and that a tool call keeps from
  its first step to its last. Whatever the rest of a turn does keeps it.
\<close>

locale call_invariant =
  fixes E :: "'o agent_env" and S :: agent_session and I :: "action list \<Rightarrow> bool"
  assumes quiet: "I t \<Longrightarrow> \<not> is_invocation a \<Longrightarrow> I (t @ [a])"
    and call: "same_tools S S' \<Longrightarrow> keeps I (execute_tool_call E S' turn_id c used)"
begin

lemma quiet_all: "I t \<Longrightarrow> list_all (\<lambda>a. \<not> is_invocation a) as \<Longrightarrow> I (t @ as)"
proof (induction "as" arbitrary: t)
  case (Cons a as)
  then show ?case using quiet [of t a] Cons.IH [of "t @ [a]"] by simp
qed simp

lemma quiet_keeps: "acts A m \<Longrightarrow> (\<And>a. A a \<Longrightarrow> \<not> is_invocation a) \<Longrightarrow> keeps I m"
  by (erule keeps_acts) (auto intro!: quiet_all elim: list.pred_mono_strong)

lemma basic_keeps: "keeps I (emit_event E event)" "keeps I (checkpoint_turn E cp)" "keeps I (is_cancelled E)"
  "(\<And>x. list_all (\<lambda>a. \<not> is_invocation a) (entry x)) \<Longrightarrow> keeps I (outside f entry)"
  by (rule quiet_keeps [OF acts_emit] quiet_keeps [OF acts_checkpoint] quiet_keeps [OF cancelled_acts]
      quiet_keeps [OF acts_outside]; auto)+

lemma completion_keeps: "acts completion m \<Longrightarrow> keeps I m"
  by (erule quiet_keeps) (auto elim: completion.elims)

lemma batch_loop_keeps: "same_tools S S' \<Longrightarrow> keeps I (batch_loop E S' turn_id calls results used)"
  by (induction calls arbitrary: results used)
    (auto split: sum.split option.split prod.split
      intro!: keeps_rules close_batch_acts [THEN completion_keeps] failed_call_acts [THEN completion_keeps] call)

lemma batch_keeps: "same_tools S S' \<Longrightarrow> keeps I (execute_tool_batch E S' turn_id calls used)"
  unfolding execute_tool_batch_def by (auto intro!: keeps_rules batch_loop_keeps)

lemma fail_with_keeps: "keeps I (fail_with E turn_id e S')"
  by (rule quiet_keeps [OF fail_with_acts]) (auto elim: end_action.elims)

lemma stream_round_keeps: "keeps I (stream_model_round fuel E S' request turn_id rnd st)"
  by (rule quiet_keeps [OF stream_round_acts]) (auto elim: round_action.elims)

lemma run_batch_keeps: "same_tools S S' \<Longrightarrow> keeps I (run_batch E turn_id response assistant t S')"
  unfolding run_batch_def commit_batch_def Let_def
  by (auto split: sum.split option.split intro!: keeps_rules basic_keeps fail_with_keeps batch_keeps)

lemma settle_round_keeps: "same_tools S S' \<Longrightarrow> keeps I (settle_round E turn_id rnd response t S')"
  unfolding settle_round_def finish_turn_def Let_def
  by (auto split: sum.split intro!: keeps_rules basic_keeps fail_with_keeps run_batch_keeps)

lemma turn_round_keeps: "same_tools S S' \<Longrightarrow> keeps I (turn_round fuel E options turn_id rnd t S')"
  unfolding turn_round_def
  by (auto split: sum.split intro!: keeps_rules basic_keeps fail_with_keeps stream_round_keeps settle_round_keeps)

lemma turn_loop_keeps: "same_tools S S' \<Longrightarrow> keeps I (turn_loop rounds fuel E options turn_id rnd t S')"
proof (induction rounds arbitrary: rnd t S')
  case (Suc rounds)
  show ?case unfolding turn_loop.simps
    by (rule triple_then [OF triple_returns [OF turn_round_keeps turn_round_session]])
      (use Suc in \<open>auto split: turn_step.split prod.split intro!: triple_assume keeps_give\<close>)
qed (simp add: triple_never)

lemma turn_keeps: "keeps I (run_message_core rounds fuel E input options S)"
  unfolding run_message_core_def Let_def
  by (auto split: sum.split
      intro!: keeps_rules basic_keeps turn_loop_keeps same_tools_refl)

end


section \<open>A tool call keeps the guard\<close>

lemma authorised_history: "authorised (S\<lparr> as_history := h, as_issued := i \<rparr>) = authorised S"
  by (intro ext) (simp add: authorised_def permitted_def cleared_def approval_of_def)

lemma authorised_same: "same_tools S S' \<Longrightarrow> authorised S' = authorised S"
  unfolding same_tools_def by (metis authorised_history)

lemma guarded_same: "same_tools S S' \<Longrightarrow> guarded S' = guarded S"
  by (intro ext) (simp add: guarded_def authorised_same)

text \<open>The trace ends with these actions, and is guarded.\<close>

definition ends :: "agent_session \<Rightarrow> (action list \<Rightarrow> bool) \<Rightarrow> 'o agent_world \<Rightarrow> bool" where
  "ends S A w \<longleftrightarrow> guarded S (aw_trace w) \<and> A (aw_trace w)"

definition tail :: "action list \<Rightarrow> action list \<Rightarrow> bool" where
  "tail steps t \<longleftrightarrow> (\<exists>before. t = before @ steps)"

lemma tail_snoc: "tail steps t \<Longrightarrow> tail (steps @ [a]) (t @ [a])"
  by (auto simp: tail_def)

lemma ends_guarded: "ends S A w \<Longrightarrow> traced (guarded S) w"
  by (simp add: ends_def traced_def)

lemma ends_emit:
  "triple (ends S (tail steps)) (emit_event E event) (\<lambda>_. ends S (tail (steps @ [Emitted event True]))) (\<lambda>_. traced (guarded S))"
  by (rule triple_emit) (auto simp: ends_def guarded_snoc tail_snoc)

lemma ends_checkpoint:
  "triple (ends S (tail steps)) (checkpoint_turn E cp) (\<lambda>_. ends S (tail (steps @ [Checkpointed cp True])))
     (\<lambda>_. traced (guarded S))"
  by (rule triple_checkpoint) (auto simp: ends_def guarded_snoc tail_snoc)

lemma ends_outside:
  "(\<And>x. \<not> is_invocation (a x)) \<Longrightarrow>
   triple (ends S (tail steps)) (outside f (\<lambda>x. [a x])) (\<lambda>x. ends S (tail (steps @ [a x]))) R"
  by (rule triple_outside) (auto simp: ends_def tail_snoc intro: guarded_quiet)

lemma ends_give: "(\<And>w. ends S A w \<Longrightarrow> Q x w) \<Longrightarrow> triple (ends S A) (give x) Q R"
  by (rule triple_give)

lemma ends_settle:
  "triple (ends S A) (settle r) (\<lambda>_. ends S A) (\<lambda>_. traced (guarded S))"
  by (rule triple_settle) (simp_all add: ends_guarded)

lemma cleared_plain:
  "tail [Classified call ApprovalNone] t \<Longrightarrow> tx_call_id ctx = call_id call \<Longrightarrow> \<not> tx_approved ctx
    \<Longrightarrow> cleared S turn_id call ctx t"
  by (auto simp: cleared_def tail_def)

lemma cleared_approved:
  "tail (Classified call (ApprovalRequired reason) # approval_steps turn_id call (approval_of S call reason)) t
    \<Longrightarrow> tx_call_id ctx = call_id call \<Longrightarrow> cleared S turn_id call (ctx\<lparr> tx_approved := True \<rparr>) t"
  by (auto simp: cleared_def tail_def)

text \<open>What \<open>approve_tool\<close> returns: an approved call, or one that asked for nothing, is cleared.\<close>

definition clears :: "agent_session \<Rightarrow> str \<Rightarrow> tool_call \<Rightarrow> tool_output option \<times> tool_context \<Rightarrow> 'o agent_world \<Rightarrow> bool" where
  "clears S turn_id call r = ends S (\<lambda>t. fst r = None \<longrightarrow> cleared S turn_id call (snd r) t)"

lemma resolve_approval_clears:
  assumes "tx_call_id ctx = call_id call"
  shows "triple (ends S (tail (Classified call (ApprovalRequired reason)
        # take 2 (approval_steps turn_id call (approval_of S call reason)) @ [Decided (approval_of S call reason) (Some decision)])))
      (resolve_approval E turn_id call ctx decision) (clears S turn_id call) (\<lambda>_. traced (guarded S))"
  unfolding resolve_approval_def
  by (rule triple_then [OF ends_settle triple_then [OF ends_emit triple_then [OF ends_checkpoint]]])
    (use assms in \<open>auto simp: clears_def ends_def approval_steps_def numeral_2_eq_2
      intro!: triple_give cleared_approved [where reason = reason] split: approval_decision.split\<close>)

lemma ask_approval_clears:
  assumes "tx_call_id ctx = call_id call"
  shows "triple (ends S (tail [Classified call (ApprovalRequired reason)]))
      (ask_approval E turn_id call ctx (approval_of S call reason)) (clears S turn_id call) (\<lambda>_. traced (guarded S))"
  unfolding ask_approval_def
proof (rule triple_then [OF ends_settle triple_then [OF ends_emit triple_then [OF ends_checkpoint
      triple_then [OF ends_outside]]]], goal_cases)
  case (2 _ _ _ decision)
  then show ?case
    using resolve_approval_clears [OF assms, of S reason turn_id]
    by (cases decision) (auto simp: approval_steps_def numeral_2_eq_2 intro!: triple_raise elim: ends_guarded)
qed simp

lemma approve_tool_clears:
  assumes "tx_call_id ctx = call_id call" and "\<not> tx_approved ctx"
  shows "triple (traced (guarded S)) (approve_tool E S turn_id call ctx) (clears S turn_id call) (\<lambda>_. traced (guarded S))"
  unfolding approve_tool_def
proof (rule triple_then)
  show "triple (traced (guarded S))
      (outside (ae_requirement E (call_name call) ctx (call_arguments call)) (\<lambda>r. [Classified call r]))
      (\<lambda>r. ends S (tail [Classified call r])) (\<lambda>_. traced (guarded S))"
    by (rule triple_outside) (auto simp: ends_def traced_def tail_def intro: guarded_quiet)
next
  fix r
  show "triple (ends S (tail [Classified call r]))
      (case r of ApprovalNone \<Rightarrow> give (None, ctx)
       | ApprovalRequired reason \<Rightarrow> ask_approval E turn_id call ctx (approval_of S call reason))
      (clears S turn_id call) (\<lambda>_. traced (guarded S))"
    using assms by (cases r) (auto simp: clears_def ends_def intro!: triple_give cleared_plain ask_approval_clears)
qed

lemma guarded_emit: "keeps (guarded S) (emit_event E event)"
  by (rule keeps_emit) (simp add: guarded_quiet)

lemma guarded_checkpoint: "keeps (guarded S) (checkpoint_turn E cp)"
  by (rule keeps_checkpoint) (simp add: guarded_quiet)

lemma guarded_cancelled: "keeps (guarded S) (is_cancelled E)"
  unfolding is_cancelled_def by (rule keeps_outside) simp

lemmas guarded_basic = guarded_emit guarded_checkpoint guarded_cancelled

lemma guarded_finalize: "keeps (guarded S) (finalize_tool_output E S' turn_id call output used)"
  unfolding finalize_tool_output_def Let_def split_def by (intro keeps_rules guarded_basic)

lemma guarded_answer: "keeps (guarded S) (answer_unrun E S' turn_id call output used)"
  unfolding answer_unrun_def by (intro keeps_rules guarded_finalize)

text \<open>The clearance followed by the first steps of the start.\<close>

definition starting :: "agent_session \<Rightarrow> str \<Rightarrow> tool_call \<Rightarrow> tool_context \<Rightarrow> nat \<Rightarrow> 'o agent_world \<Rightarrow> bool" where
  "starting S turn_id call ctx n =
     ends S (\<lambda>t. \<exists>before. cleared S turn_id call ctx before \<and> t = before @ take n (start_steps turn_id call))"

lemma starting_emit:
  "triple (starting S turn_id call ctx 0) (emit_event E (ToolStarted (call_id call) (call_name call)))
     (\<lambda>_. starting S turn_id call ctx 1) (\<lambda>_. traced (guarded S))"
  by (rule triple_emit) (auto simp: starting_def ends_def guarded_snoc start_steps_def)

lemma starting_checkpoint:
  "triple (starting S turn_id call ctx 1) (checkpoint_turn E (ToolInvocationStarted turn_id call))
     (\<lambda>_. starting S turn_id call ctx 2) (\<lambda>_. traced (guarded S))"
  by (rule triple_checkpoint) (auto simp: starting_def ends_def guarded_snoc start_steps_def numeral_2_eq_2)

lemma starting_invoke:
  assumes "permitted S call"
  shows "triple (starting S turn_id call ctx 2) (outside f (\<lambda>_. [Invoked call ctx])) (\<lambda>_. traced (guarded S)) R"
  using assms
  by (intro triple_outside) (auto simp: starting_def ends_def guarded_snoc authorised_def start_steps_def numeral_2_eq_2)

lemma invoke_tool_guarded:
  assumes "permitted S call"
  shows "triple (starting S turn_id call ctx 2) (invoke_tool E policy call ctx) (\<lambda>_. traced (guarded S)) (\<lambda>_. traced (guarded S))"
  unfolding invoke_tool_def
  by (cases policy) (auto intro: triple_then [OF starting_invoke [OF assms] triple_give] starting_invoke [OF assms])

lemma run_tool_guarded:
  assumes "permitted S call"
  shows "triple (starting S turn_id call ctx 0) (run_tool E S' turn_id registered call ctx used)
    (\<lambda>_. traced (guarded S)) (\<lambda>_. traced (guarded S))"
  unfolding run_tool_def
  by (rule triple_then [OF triple_map_fail [OF starting_emit]], rule triple_then [OF triple_map_fail [OF starting_checkpoint]],
      rule triple_then [OF invoke_tool_guarded [OF assms]])
    (auto simp: split_def split: sum.split tool_error.split intro!: keeps_rules guarded_basic guarded_finalize)

lemma execute_tool_call_guarded:
  assumes "same_tools S S'"
  shows "keeps (guarded S) (execute_tool_call E S' turn_id call used)"
proof -
  have run: "triple (clears S' turn_id call r)
      (then_do (is_cancelled E) (\<lambda>c.
         if c then raise (harmless AgentCancelled)
         else case fst r of Some output \<Rightarrow> answer_unrun E S' turn_id call output used
              | None \<Rightarrow> run_tool E S' turn_id registered call (snd r) used))
      (\<lambda>_. traced (guarded S')) (\<lambda>_. traced (guarded S'))"
    if "permitted S' call" for registered r
  proof (rule triple_then)
    show "triple (clears S' turn_id call r) (is_cancelled E) (\<lambda>_. clears S' turn_id call r) (\<lambda>_. traced (guarded S'))"
      unfolding is_cancelled_def by (rule triple_outside) (simp add: clears_def ends_def)
  next
    fix c
    show "triple (clears S' turn_id call r)
      (if c then raise (harmless AgentCancelled)
         else case fst r of Some output \<Rightarrow> answer_unrun E S' turn_id call output used
              | None \<Rightarrow> run_tool E S' turn_id registered call (snd r) used)
      (\<lambda>_. traced (guarded S')) (\<lambda>_. traced (guarded S'))"
      using run_tool_guarded [OF that, of turn_id "snd r" E S' registered used]
      by (cases "fst r")
        (auto simp: clears_def starting_def ends_def traced_def intro!: triple_raise
          elim!: triple_pre intro: triple_pre [OF guarded_answer])
  qed
  show ?thesis
    unfolding execute_tool_call_def guarded_same [OF assms, symmetric] split_def
    by (rule keeps_then [OF guarded_cancelled])
      (auto simp: permitted_def split: option.split
        intro!: keeps_raise guarded_answer triple_then [OF triple_map_fail [OF approve_tool_clears] run])
qed

interpretation guard: call_invariant E S "guarded S" for E :: "'o agent_env" and S
  by unfold_locales (simp_all add: guarded_quiet execute_tool_call_guarded)

end
