(* ===== verification/Requests.thy ===== *)
theory Requests
  imports Chat
begin

text \<open>
  What an accepted request looks like: the systems' messages first, then exchanges, a message and
  the results of exactly the calls it made. The check keeps only the identifiers that are still to be
  answered; this is the shape of the conversation that check amounts to.
\<close>

section \<open>Results of checks\<close>

named_theorems result_simps \<open>when a chain of checks succeeds\<close>

lemma bind_result_simps [simp]: "bind_result (Inl e) k = Inl e" "bind_result (Inr x) k = k x"
  by (simp_all add: bind_result_def)

lemma bind_result_Inr [result_simps]: "bind_result r k = Inr y \<longleftrightarrow> (\<exists>x. r = Inr x \<and> k x = Inr y)"
  by (cases r) auto

lemma reject_if_Inr [result_simps]: "reject_if b e = Inr u \<longleftrightarrow> \<not> b"
  by (simp add: reject_if_def)

lemma reject_if_False [simp]: "\<not> b \<Longrightarrow> reject_if b e = Inr ()"
  by (simp add: reject_if_def)

lemma map_error_Inr [result_simps]: "map_error f r = Inr x \<longleftrightarrow> r = Inr x"
  by (cases r) (auto simp: map_error_def)

lemma checked_add_Inr [result_simps]: "checked_add a b e = Inr n \<longleftrightarrow> a + b \<le> USIZE_MAX \<and> n = a + b"
  by (auto simp: checked_add_def)

lemma exceeds_mono: "\<not> exceeds n limit \<Longrightarrow> m \<le> n \<Longrightarrow> \<not> exceeds m limit"
  by (simp add: exceeds_def)

lemma within_usize: "\<not> exceeds n limit \<Longrightarrow> limit \<le> 18446744073709551615 \<Longrightarrow> n \<le> USIZE_MAX"
  by (simp add: exceeds_def USIZE_MAX_def)


section \<open>Conversations\<close>

definition call_ids_of :: "chat_message \<Rightarrow> str list" where
  "call_ids_of m = map call_id (cm_tool_calls m)"

text \<open>The results of these calls, in some order, and nothing else.\<close>

definition answered_by :: "str set \<Rightarrow> chat_message list \<Rightarrow> bool" where
  "answered_by ids results \<longleftrightarrow>
     list_all (\<lambda>m. cm_role m = ToolRole) results \<and> distinct (map cm_tool_call_id results)
     \<and> set (map cm_tool_call_id results) = Some ` ids"

definition exchange :: "chat_message \<times> chat_message list \<Rightarrow> bool" where
  "exchange x \<longleftrightarrow>
     cm_role (fst x) \<in> {User, Assistant} \<and> (cm_tool_calls (fst x) \<noteq> [] \<longrightarrow> cm_role (fst x) = Assistant)
     \<and> answered_by (set (call_ids_of (fst x))) (snd x)"

definition exchanges :: "(chat_message \<times> chat_message list) list \<Rightarrow> chat_message list" where
  "exchanges xs = concat (map (\<lambda>(m, results). m # results) xs)"

definition conversation :: "chat_message list \<Rightarrow> bool" where
  "conversation messages \<longleftrightarrow>
     (\<exists>systems xs. messages = systems @ exchanges xs
        \<and> list_all (\<lambda>m. cm_role m = System \<and> cm_tool_calls m = []) systems \<and> list_all exchange xs)"

text \<open>What the conversion of one message has checked of its role.\<close>

definition tidy :: "chat_message \<Rightarrow> bool" where
  "tidy m \<longleftrightarrow> (cm_tool_calls m \<noteq> [] \<longrightarrow> cm_role m = Assistant) \<and> (cm_role m = ToolRole \<longrightarrow> cm_tool_call_id m \<noteq> None)"

lemma message_into_engine_tidy: "message_into_engine json_len images audio m = Inr em \<Longrightarrow> tidy m"
  by (auto simp: message_into_engine_def tidy_def result_simps split: option.splits)

lemma convert_messages_tidy: "convert_messages json_len images audio ms = Inr ems \<Longrightarrow> list_all tidy ms"
  by (induction ms arbitrary: ems) (auto simp: result_simps message_into_engine_tidy)


section \<open>The scan\<close>

text \<open>What the scan remembers of the identifiers, and what its parts do to it.\<close>

definition ids_kept :: "shape \<Rightarrow> shape \<Rightarrow> bool" where
  "ids_kept s s' \<longleftrightarrow>
     sh_seen s' = sh_seen s \<and> sh_pending s' = sh_pending s \<and> sh_saw_non_system s' = sh_saw_non_system s"

lemma shape_parts_kept: "shape_parts parts n s = Inr s' \<Longrightarrow> ids_kept s s'"
  by (induction parts arbitrary: n s) (fastforce simp: shape_part_def ids_kept_def result_simps)+

lemma shape_reasoning_kept: "shape_reasoning r s = Inr s' \<Longrightarrow> ids_kept s s'"
  by (auto simp: shape_reasoning_def ids_kept_def result_simps split: option.splits)

lemma shape_result_id_kept: "shape_result_id i s = Inr s' \<Longrightarrow> ids_kept s s'"
  by (auto simp: shape_result_id_def ids_kept_def result_simps split: option.splits)

lemma shape_calls_ids:
  "shape_calls json_len declared calls s = Inr s' \<Longrightarrow>
     distinct (map call_id calls) \<and> set (map call_id calls) \<inter> sh_seen s = {}
     \<and> call_name ` set calls \<subseteq> declared
     \<and> sh_seen s' = sh_seen s \<union> set (map call_id calls) \<and> sh_pending s' = sh_pending s \<union> set (map call_id calls)
     \<and> sh_saw_non_system s' = sh_saw_non_system s"
proof (induction calls arbitrary: s)
  case (Cons call calls)
  then obtain u where u: "shape_call json_len declared call s = Inr u" "shape_calls json_len declared calls u = Inr s'"
    by (auto simp: result_simps)
  from u(1) have "call_id call \<notin> sh_seen s \<and> call_name call \<in> declared \<and> sh_seen u = insert (call_id call) (sh_seen s)
      \<and> sh_pending u = insert (call_id call) (sh_pending s) \<and> sh_saw_non_system u = sh_saw_non_system s"
    by (auto simp: shape_call_def result_simps)
  with Cons.IH [OF u(2)] show ?case by auto
qed simp

text \<open>One message of the scan.\<close>

lemma shape_message_ids:
  assumes "shape_message json_len declared m s = Inr s'"
  shows "distinct (call_ids_of m)" and "set (call_ids_of m) \<inter> sh_seen s = {}"
    and "call_name ` set (cm_tool_calls m) \<subseteq> declared"
    and "sh_seen s' = sh_seen s \<union> set (call_ids_of m)"
    and "cm_role m \<noteq> ToolRole \<Longrightarrow> sh_pending s = {} \<and> sh_pending s' = set (call_ids_of m)"
    and "cm_role m = ToolRole \<Longrightarrow> tidy m \<Longrightarrow>
      \<exists>i. cm_tool_call_id m = Some i \<and> i \<in> sh_pending s \<and> sh_pending s' = sh_pending s - {i}"
    and "cm_role m = System \<Longrightarrow> \<not> sh_saw_non_system s"
    and "sh_saw_non_system s' = (sh_saw_non_system s \<or> cm_role m \<noteq> System)"
proof -
  from assms obtain parts a b c d e where
    role: "shape_role (cm_role m) (s\<lparr> sh_content_parts := parts \<rparr>) = Inr a" and
    kept: "shape_parts (cm_content m) 0 a = Inr b" "shape_reasoning (cm_reasoning m) b = Inr c"
      "shape_result_id (cm_tool_call_id m) c = Inr d" and
    calls: "shape_calls json_len declared (cm_tool_calls m) d = Inr e" and
    answer: "shape_answer (cm_role m) (cm_tool_call_id m) e = Inr s'"
    by (auto simp: shape_message_def result_simps)
  have "ids_kept a d"
    using shape_parts_kept [OF kept(1)] shape_reasoning_kept [OF kept(2)] shape_result_id_kept [OF kept(3)]
    by (simp add: ids_kept_def)
  note all = this [unfolded ids_kept_def] shape_calls_ids [OF calls]
  show "distinct (call_ids_of m)" "call_name ` set (cm_tool_calls m) \<subseteq> declared"
    using all by (auto simp: call_ids_of_def)
  show "set (call_ids_of m) \<inter> sh_seen s = {}" "sh_seen s' = sh_seen s \<union> set (call_ids_of m)"
    "cm_role m \<noteq> ToolRole \<Longrightarrow> sh_pending s = {} \<and> sh_pending s' = set (call_ids_of m)"
    "cm_role m = System \<Longrightarrow> \<not> sh_saw_non_system s"
    "sh_saw_non_system s' = (sh_saw_non_system s \<or> cm_role m \<noteq> System)"
    using all role answer
    by (auto simp: call_ids_of_def shape_role_def shape_answer_def result_simps Let_def split: if_splits)
  show "\<exists>i. cm_tool_call_id m = Some i \<and> i \<in> sh_pending s \<and> sh_pending s' = sh_pending s - {i}"
    if "cm_role m = ToolRole" "tidy m"
    using all role answer that
    by (auto simp: tidy_def shape_role_def shape_answer_def result_simps Let_def split: if_splits)
qed


section \<open>The accepted conversation\<close>

lemma exchanges_Cons [simp]: "exchanges ((m, results) # xs) = m # results @ exchanges xs"
  and exchanges_Nil [simp]: "exchanges [] = []"
  by (simp_all add: exchanges_def)

lemma answered_by_Nil: "answered_by {} []"
  by (simp add: answered_by_def)

lemma answered_by_Cons:
  assumes "cm_role m = ToolRole" and "cm_tool_call_id m = Some i" and "i \<in> P" and "answered_by (P - {i}) results"
  shows "answered_by P (m # results)"
proof -
  have "Some ` P = insert (Some i) (Some ` (P - {i}))"
    using assms(3) by auto
  with assms show ?thesis by (simp add: answered_by_def) (metis Diff_iff image_iff insertI1 option.inject)
qed

text \<open>After the first message that is no system message: results of what is pending, then exchanges.\<close>

lemma shape_messages_exchanges:
  assumes "shape_messages json_len declared ms s = Inr s'" and "sh_pending s' = {}" and "list_all tidy ms"
    and "sh_saw_non_system s"
  shows "\<exists>results xs. ms = results @ exchanges xs \<and> answered_by (sh_pending s) results \<and> list_all exchange xs"
  using assms
proof (induction ms arbitrary: s)
  case Nil
  then show ?case by (intro exI [of _ "[]"]) (simp add: answered_by_Nil)
next
  case (Cons m ms)
  then obtain u where u: "shape_message json_len declared m s = Inr u" "shape_messages json_len declared ms u = Inr s'"
    by (auto simp: result_simps)
  note ids = shape_message_ids [OF u(1)]
  obtain results xs where rest: "ms = results @ exchanges xs" "answered_by (sh_pending u) results" "list_all exchange xs"
    using Cons.IH [OF u(2)] Cons.prems ids(8) by auto
  show ?case
  proof (cases "cm_role m = ToolRole")
    case True
    with ids(6) Cons.prems obtain i where "cm_tool_call_id m = Some i" "i \<in> sh_pending s" "sh_pending u = sh_pending s - {i}"
      by auto
    then have "answered_by (sh_pending s) (m # results)"
      using answered_by_Cons [OF True] rest(2) by simp
    with rest show ?thesis by (metis append_Cons)
  next
    case False
    then have "cm_role m \<in> {User, Assistant}" using ids(7) Cons.prems by (cases "cm_role m") auto
    then have "exchange (m, results)"
      using Cons.prems ids(5) [OF False] rest(2) by (auto simp: exchange_def tidy_def)
    then show ?thesis
      using rest ids(5) [OF False] answered_by_Nil
      by (intro exI [of _ "[]"] exI [of _ "(m, results) # xs"]) simp
  qed
qed

lemma shape_messages_conversation:
  assumes "shape_messages json_len declared ms s = Inr s'" and "sh_pending s' = {}" and "list_all tidy ms"
    and "sh_pending s = {}" and "\<not> sh_saw_non_system s"
  shows "conversation ms"
  using assms
proof (induction ms arbitrary: s)
  case Nil
  then show ?case by (auto simp: conversation_def intro!: exI [of _ "[]"])
next
  case (Cons m ms)
  then obtain u where u: "shape_message json_len declared m s = Inr u" "shape_messages json_len declared ms u = Inr s'"
    by (auto simp: result_simps)
  note ids = shape_message_ids [OF u(1)]
  show ?case
  proof (cases "cm_role m = System")
    case True
    then have none: "cm_tool_calls m = []" using Cons.prems by (auto simp: tidy_def)
    then have "conversation ms"
      using Cons.IH [OF u(2)] Cons.prems ids(5,8) True by (simp add: call_ids_of_def)
    then obtain systems xs where "ms = systems @ exchanges xs"
        "list_all (\<lambda>m. cm_role m = System \<and> cm_tool_calls m = []) systems" "list_all exchange xs"
      by (auto simp: conversation_def)
    with True none show ?thesis
      unfolding conversation_def by (intro exI [of _ "m # systems"] exI [of _ xs]) simp
  next
    case False
    have marked: "shape_role (cm_role m) (s\<lparr> sh_saw_non_system := True, sh_content_parts := n \<rparr>)
        = shape_role (cm_role m) (s\<lparr> sh_content_parts := n \<rparr>)" for n
      using False by (simp add: shape_role_def)
    have "shape_message json_len declared m (s\<lparr> sh_saw_non_system := True \<rparr>) = Inr u"
      using u(1) by (simp add: shape_message_def marked)
    then have "shape_messages json_len declared (m # ms) (s\<lparr> sh_saw_non_system := True \<rparr>) = Inr s'"
      using u(2) by simp
    from shape_messages_exchanges [OF this Cons.prems(2,3)] Cons.prems(4)
    obtain results xs where "m # ms = results @ exchanges xs" "answered_by {} results" "list_all exchange xs"
      by auto
    then show ?thesis
      unfolding conversation_def by (intro exI [of _ "[]"] exI [of _ xs]) (simp add: answered_by_def)
  qed
qed

lemma shape_messages_ids:
  "shape_messages json_len declared ms s = Inr s' \<Longrightarrow>
     distinct (concat (map call_ids_of ms)) \<and> set (concat (map call_ids_of ms)) \<inter> sh_seen s = {}
     \<and> (\<forall>m \<in> set ms. call_name ` set (cm_tool_calls m) \<subseteq> declared)"
proof (induction ms arbitrary: s)
  case (Cons m ms)
  then obtain u where u: "shape_message json_len declared m s = Inr u" "shape_messages json_len declared ms u = Inr s'"
    by (auto simp: result_simps)
  show ?case
    using shape_message_ids(1-4) [OF u(1)] Cons.IH [OF u(2)] by auto
qed simp

lemma validate_request_shape_conversation:
  assumes "validate_request_shape json_len ms tools = Inr ()" and "list_all tidy ms"
  shows "conversation ms" and "distinct (concat (map call_ids_of ms))"
    and "m \<in> set ms \<Longrightarrow> call_name ` set (cm_tool_calls m) \<subseteq> td_name ` set tools"
proof -
  obtain s where s: "shape_messages json_len (td_name ` set tools) ms shape_start = Inr s" "sh_pending s = {}"
    using assms(1) by (auto simp: validate_request_shape_def result_simps)
  show "conversation ms"
    by (rule shape_messages_conversation [OF s assms(2)]) (simp_all add: shape_start_def)
  show "distinct (concat (map call_ids_of ms))"
    and "m \<in> set ms \<Longrightarrow> call_name ` set (cm_tool_calls m) \<subseteq> td_name ` set tools"
    using shape_messages_ids [OF s(1)] by auto
qed


section \<open>The property\<close>

definition example_tool :: tool_definition where
  "example_tool =
     \<lparr> td_name = ''lookup'', td_description = ''Looks a word up'',
       td_parameters = JObject [(''type'', JString ''object'')] \<rparr>"

definition example_call :: tool_call where
  "example_call = \<lparr> call_id = ''c1'', call_name = ''lookup'', call_arguments = JObject [] \<rparr>"

definition example_request :: chat_request where
  "example_request =
     \<lparr> cr_messages =
         [system_message ''Be brief'', user_message ''What is a heron?'',
          (text_message Assistant ''I look it up'')\<lparr> cm_tool_calls := [example_call] \<rparr>,
          tool_message ''c1'' ''A wading bird'', text_message Assistant ''A bird''],
       cr_tools = [example_tool], cr_options = chat_options_default \<rparr>"

definition example_defaults :: client_defaults where
  "example_defaults =
     \<lparr> cd_max_tokens = 8, cd_context_tokens = 64,
       cd_sampling = \<lparr> cfg_temperature = 0, cfg_top_p = 1, cfg_top_k = None, cfg_seed = None \<rparr>,
       cd_enable_thinking = None, cd_reasoning_budget_tokens = None, cd_prompt_cache = None,
       cd_speculative_tokens = None \<rparr>"

text \<open>
  C17. A request that \<open>into_engine\<close> accepts is a complete conversation: system messages come first;
  then every message that makes calls is an assistant's and is followed, before anything else, by
  exactly one result for each of its calls; no call identifier occurs twice in the conversation, and
  every call names a declared tool.
\<close>

theorem accepted_request_conversation:
  assumes "into_engine json_len defaults images audio request = Inr engine"
  shows "conversation (cr_messages request)
    \<and> distinct (concat (map call_ids_of (cr_messages request)))
    \<and> call_name ` set (concat (map cm_tool_calls (cr_messages request))) \<subseteq> td_name ` set (cr_tools request)
    \<and> map em_tool_calls (er_messages engine) = map cm_tool_calls (cr_messages request)"
proof -
  from assms obtain ems where
    shape: "validate_request_shape json_len (cr_messages request) (cr_tools request) = Inr ()" and
    converted: "convert_messages json_len images audio (cr_messages request) = Inr ems" and ems: "er_messages engine = ems"
    by (auto simp: into_engine_def result_simps)
  have "map em_tool_calls ems = map cm_tool_calls ms" if "convert_messages json_len images audio ms = Inr ems" for ms ems
    using that by (induction ms arbitrary: ems) (auto simp: message_into_engine_def result_simps)
  with validate_request_shape_conversation [OF shape convert_messages_tidy [OF converted]] converted ems
  show ?thesis by auto
qed

theorem accepted_request_conversation_witness:
  "\<exists>engine. into_engine (\<lambda>_. 2) example_defaults False False example_request = Inr engine
    \<and> conversation (cr_messages example_request)"
proof -
  have "case into_engine (\<lambda>_. 2) example_defaults False False example_request of Inl _ \<Rightarrow> False | Inr _ \<Rightarrow> True"
    by code_simp
  then obtain engine where accepted: "into_engine (\<lambda>_. 2) example_defaults False False example_request = Inr engine"
    by (auto split: sum.splits)
  with accepted_request_conversation [OF accepted] show ?thesis by auto
qed

end
