(* ===== verification/Agent_History.thy ===== *)
theory Agent_History
  imports Agent_Safety Requests
begin

text \<open>
  What a turn leaves in the history. The scan of a history splits at every round, so a batch of an
  assistant message and one result per call, in order, extends a complete history to a complete one.
  The facts a round and a batch establish about the messages they build are collected first.
\<close>

section \<open>Scanning\<close>

definition call_ids :: "tool_call list \<Rightarrow> str list" where
  "call_ids calls = map call_id calls"

lemma call_ids_simps [simp]: "call_ids [] = []" "call_ids (c # cs) = call_id c # call_ids cs"
  "call_ids (cs @ ds) = call_ids cs @ call_ids ds" "length (call_ids cs) = length cs"
  by (simp_all add: call_ids_def)

lemma history_scan_append:
  "history_scan L i (xs @ ys) ids = bind_result (history_scan L i xs ids) (history_scan L (i + length xs) ys)"
  by (induction xs arbitrary: i ids) (auto simp: bind_result_def split: sum.split)

lemma issue_calls_fresh:
  "distinct (call_ids calls) \<Longrightarrow> set (call_ids calls) \<inter> issued = {} \<Longrightarrow>
   issue_calls i calls (issued, pending) = Inr (issued \<union> set (call_ids calls), pending \<union> set (call_ids calls))"
  by (induction calls arbitrary: issued pending) (auto simp: insert_commute)

text \<open>A message that answers a call, with a text a stored result may have.\<close>

definition answers :: "libs \<Rightarrow> str \<Rightarrow> chat_message \<Rightarrow> bool" where
  "answers L i m \<longleftrightarrow>
     is_uuid_v7 L i \<and> (\<exists>txt. m = tool_message i txt \<and> txt \<noteq> [] \<and> \<not> exceeds (length txt) MAX_TOOL_OUTPUT_BYTES)"

lemma answers_valid:
  assumes "answers L i m"
  shows "validate_history_message L k m = Inr ()"
    and "cm_role m = ToolRole" and "cm_tool_call_id m = Some i" and "length (cm_content m) = 1"
  using assms within_usize [of _ MAX_TOOL_OUTPUT_BYTES]
  by (auto simp: answers_def validate_history_message_def tool_message_def checked_add_def MAX_TOOL_OUTPUT_BYTES_def)

lemma scan_answers:
  assumes "list_all2 (answers L) ids results" and "distinct ids"
  shows "history_scan L k results (issued, set ids) = Inr (issued, {})"
  using assms
proof (induction arbitrary: k rule: list_all2_induct)
  case (Cons i ids m results)
  from Cons.prems have "set (i # ids) - {i} = set ids" by auto
  with Cons answers_valid [OF Cons.hyps(1)] show ?case
    by (simp add: history_step_def exceeds_def MAX_MESSAGE_CONTENT_PARTS_def)
qed simp


section \<open>What a round returns\<close>

definition call_ok :: "libs \<Rightarrow> tool_call \<Rightarrow> bool" where
  "call_ok L c \<longleftrightarrow>
     valid_tool_name (call_name c) \<and> is_uuid_v7 L (call_id c) \<and> as_object (call_arguments c) \<noteq> None
     \<and> bounded_json_len (lib_json_len L) (call_arguments c) MAX_TOOL_SCHEMA_BYTES \<noteq> None"

definition argument_bytes :: "libs \<Rightarrow> tool_call list \<Rightarrow> nat" where
  "argument_bytes L calls = (\<Sum>c\<leftarrow>calls. lib_json_len L (call_arguments c))"

lemma argument_bytes_simps [simp]:
  "argument_bytes L [] = 0" "argument_bytes L (c # cs) = lib_json_len L (call_arguments c) + argument_bytes L cs"
  "argument_bytes L (cs @ ds) = argument_bytes L cs + argument_bytes L ds"
  by (simp_all add: argument_bytes_def)

lemma bounded_json_len_Some:
  "bounded_json_len f v limit = Some n \<Longrightarrow> n = f v"
  by (auto simp: bounded_json_len_def split: if_splits)

lemma history_calls_ok:
  assumes "\<forall>c \<in> set calls. call_ok L c" and "\<not> exceeds (n + argument_bytes L calls) MAX_TOTAL_TOOL_ARGUMENT_BYTES"
  shows "history_calls L k calls n = Inr ()"
  using assms
proof (induction calls arbitrary: n)
  case (Cons c calls)
  then have c: "call_ok L c" by simp
  then obtain b where b: "bounded_json_len (lib_json_len L) (call_arguments c) MAX_TOOL_SCHEMA_BYTES = Some b"
    by (auto simp: call_ok_def)
  from bounded_json_len_Some [OF this] have [simp]: "b = lib_json_len L (call_arguments c)" .
  have le: "\<not> exceeds (n + b) MAX_TOTAL_TOOL_ARGUMENT_BYTES"
    by (rule exceeds_mono [OF Cons.prems(2)]) simp
  then have "n + b \<le> USIZE_MAX" by (rule within_usize) (simp add: MAX_TOTAL_TOOL_ARGUMENT_BYTES_def)
  with c b le Cons.IH [of "n + b"] Cons.prems show ?case
    by (simp add: call_ok_def checked_add_def add.assoc)
qed simp

definition reply_ok :: "libs \<Rightarrow> generate_reply \<Rightarrow> bool" where
  "reply_ok L r \<longleftrightarrow>
     \<not> exceeds (length (gr_text r)) MAX_MODEL_OUTPUT_BYTES \<and> \<not> bad_reasoning (gr_reasoning r)
     \<and> \<not> exceeds (length (gr_tool_calls r)) MAX_TOOL_CALLS_PER_ROUND
     \<and> (\<forall>c \<in> set (gr_tool_calls r). call_ok L c)
     \<and> \<not> exceeds (argument_bytes L (gr_tool_calls r)) MAX_TOTAL_TOOL_ARGUMENT_BYTES
     \<and> distinct (call_ids (gr_tool_calls r))
     \<and> (gr_tool_calls r \<noteq> [] \<or> gr_text r \<noteq> [])"

lemma assistant_valid:
  assumes "reply_ok L r"
  shows "validate_history_message L k (assistant_message r p) = Inr ()"
  using assms within_usize [of _ MAX_MODEL_OUTPUT_BYTES] history_calls_ok [of "gr_tool_calls r" L 0 k]
  by (auto simp: reply_ok_def validate_history_message_def validate_assistant_history_message_def assistant_message_def
      bad_reasoning_def checked_add_def MAX_MODEL_OUTPUT_BYTES_def exceeds_def [of 0])

text \<open>A round of the model and its results extend a complete history to a complete one.\<close>

lemma scan_batch:
  assumes "reply_ok L r" and "set (call_ids (gr_tool_calls r)) \<inter> issued = {}"
    and "list_all2 (answers L) (call_ids (gr_tool_calls r)) results"
  shows "history_scan L k (assistant_message r p # results) (issued, {})
    = Inr (issued \<union> set (call_ids (gr_tool_calls r)), {})"
proof -
  have d: "distinct (call_ids (gr_tool_calls r))" using assms(1) by (simp add: reply_ok_def)
  have "history_step L k (assistant_message r p) (issued, {})
    = Inr (issued \<union> set (call_ids (gr_tool_calls r)), set (call_ids (gr_tool_calls r)))"
    using assistant_valid [OF assms(1)] issue_calls_fresh [OF d assms(2), of k "{}"]
    by (simp add: history_step_def assistant_message_def exceeds_def MAX_MESSAGE_CONTENT_PARTS_def)
  with scan_answers [OF assms(3) d] show ?thesis by simp
qed

lemma scan_user:
  assumes "validate_user_message m = Inr ()"
  shows "history_scan L k [m] (issued, {}) = Inr (issued, {})"
  using assms
  by (auto simp: history_step_def validate_history_message_def validate_user_message_def result_simps map_error_def)



section \<open>The rounds establish it\<close>

text \<open>Identifiers are UUIDs of version 7, and the stream's end is well formed.\<close>

definition issues_uuids :: "'o agent_env \<Rightarrow> bool" where
  "issues_uuids E \<longleftrightarrow> (\<forall>s. is_uuid_v7 (ae_libs E) (fst (ae_fresh_id E s)))"

definition round_inv :: "libs \<Rightarrow> str set \<Rightarrow> round_state \<Rightarrow> round_state \<Rightarrow> bool" where
  "round_inv L issued st0 st \<longleftrightarrow>
     (let ids = call_ids (rs_observed st) in
      rs_issued st = rs_issued st0 \<union> set ids \<and> distinct ids \<and> set ids \<inter> (issued \<union> rs_issued st0) = {}
      \<and> (\<forall>c \<in> set (rs_observed st). call_ok L c)
      \<and> rs_argument_bytes st = rs_argument_bytes st0 + argument_bytes L (rs_observed st)
      \<and> (rs_observed st = [] \<or> \<not> exceeds (rs_argument_bytes st) MAX_TOTAL_TOOL_ARGUMENT_BYTES)
      \<and> finite (rs_source_ids st) \<and> card (rs_source_ids st) = length ids
      \<and> \<not> exceeds (length ids) MAX_TOOL_CALLS_PER_ROUND
      \<and> (\<forall>r. rs_completed st = Some r \<longrightarrow> validate_terminal_response L r = Inr ()))"

lemma round_inv_start:
  "rs_observed st = [] \<Longrightarrow> rs_source_ids st = {} \<Longrightarrow> rs_completed st = None \<Longrightarrow> round_inv L issued st st"
  by (simp add: round_inv_def exceeds_def MAX_TOOL_CALLS_PER_ROUND_def)

lemma allocate_fresh:
  assumes "issues_uuids E"
  shows "returns (\<lambda>i. is_uuid_v7 (ae_libs E) i \<and> i \<notin> taken) (allocate_id E n taken)"
proof (induction n)
  case (Suc n)
  show ?case unfolding allocate_id.simps
    by (rule gives_bind [where B = "is_uuid_v7 (ae_libs E)"])
      (use assms Suc in \<open>auto simp: issues_uuids_def intro!: gives_outside gives_give\<close>)
qed (simp add: gives_raise)

text \<open>What the checks of a call leave known, and what the new state is.\<close>

definition checked_call :: "libs \<Rightarrow> tool_call \<Rightarrow> round_state \<Rightarrow> nat \<Rightarrow> bool" where
  "checked_call L call st bytes \<longleftrightarrow>
     valid_tool_name (call_name call) \<and> as_object (call_arguments call) \<noteq> None
     \<and> bounded_json_len (lib_json_len L) (call_arguments call) MAX_TOOL_SCHEMA_BYTES \<noteq> None
     \<and> bytes = rs_argument_bytes st + lib_json_len L (call_arguments call)
     \<and> \<not> exceeds bytes MAX_TOTAL_TOOL_ARGUMENT_BYTES \<and> call_id call \<notin> rs_source_ids st
     \<and> \<not> exceeds (card (insert (call_id call) (rs_source_ids st))) MAX_TOOL_CALLS_PER_ROUND"

definition grows :: "libs \<Rightarrow> str set \<Rightarrow> round_state \<Rightarrow> round_state \<Rightarrow> round_state \<Rightarrow> bool" where
  "grows L issued st0 st st' \<longleftrightarrow> round_inv L issued st0 st' \<and> rs_completed st' = rs_completed st"

lemma reidentify_call_inv:
  assumes "issues_uuids E" and inv: "round_inv (ae_libs E) issued st0 st"
  shows "returns (\<lambda>(c, st'). grows (ae_libs E) issued st0 st (st'\<lparr> rs_observed := rs_observed st' @ [c] \<rparr>))
    (reidentify_call E issued call st)"
  unfolding reidentify_call_def
proof (rule gives_bind [where B = "checked_call (ae_libs E) call st"], goal_cases)
  case 1
  show ?case
    by (rule gives_settle)
      (auto simp: checked_call_def result_simps measured_arguments_def split: option.splits dest: bounded_json_len_Some)
next
  case (2 bytes)
  show ?case
    by (rule gives_bind [OF allocate_fresh [OF assms(1)]], rule gives_give)
      (use inv 2 in \<open>auto simp: grows_def checked_call_def round_inv_def Let_def call_ok_def\<close>)
qed

lemma accept_call_inv:
  assumes "issues_uuids E" and "round_inv (ae_libs E) issued st0 st"
  shows "returns (grows (ae_libs E) issued st0 st) (accept_call E issued turn_id rnd call st)"
  unfolding accept_call_def
  by (rule gives_bind [OF reidentify_call_inv [OF assms]]) (auto intro!: gives_then gives_give)

lemma answer_delta_inv:
  "round_inv L issued st0 st \<Longrightarrow> returns (grows L issued st0 st) (answer_delta E turn_id rnd txt st)"
  unfolding answer_delta_def
  by (auto simp: split_def grows_def round_inv_def Let_def intro!: gives_then gives_give)

lemma reasoning_delta_inv:
  "round_inv L issued st0 st \<Longrightarrow> returns (grows L issued st0 st) (reasoning_delta E turn_id rnd txt st)"
  unfolding reasoning_delta_def
  by (auto simp: split_def grows_def round_inv_def Let_def intro!: gives_then gives_give)

lemma grows_inv: "grows L issued st0 st st' \<Longrightarrow> round_inv L issued st0 st'"
  by (simp add: grows_def)

lemma stream_event_inv:
  assumes "issues_uuids E" and inv: "round_inv (ae_libs E) issued st0 st"
  shows "returns (round_inv (ae_libs E) issued st0) (stream_event E issued turn_id rnd event st)"
proof (cases event)
  case (CallEvent call)
  have "returns (round_inv (ae_libs E) issued st0)
      (then_do (accept_call E issued turn_id rnd call st) (\<lambda>st. give (st\<lparr> rs_source := rs_source st @ [call] \<rparr>)))"
    by (rule gives_bind [OF accept_call_inv [OF assms]], rule gives_give) (auto simp: grows_def round_inv_def Let_def)
  then show ?thesis by (simp add: CallEvent)
next
  case (Completed response)
  have "returns (round_inv (ae_libs E) issued st0)
      (then_do (settle (validate_terminal_response (ae_libs E) response)) (\<lambda>_. give (st\<lparr> rs_completed := Some response \<rparr>)))"
    by (rule gives_bind [where B = "\<lambda>_. validate_terminal_response (ae_libs E) response = Inr ()"])
      (use inv in \<open>auto simp: round_inv_def Let_def intro!: gives_settle gives_give\<close>)
  then show ?thesis by (simp add: Completed)
qed (use inv in \<open>auto intro: gives_then gives_give gives_mono [OF answer_delta_inv] gives_mono [OF reasoning_delta_inv] grows_inv\<close>)

lemma stream_loop_inv:
  assumes "issues_uuids E" and "round_inv (ae_libs E) issued st0 st"
  shows "returns (round_inv (ae_libs E) issued st0) (stream_loop fuel E issued turn_id rnd st)"
  using assms(2)
proof (induction fuel arbitrary: st)
  case 0
  then show ?case by (simp add: gives_iff)
next
  case (Suc fuel)
  have "returns (round_inv (ae_libs E) issued st0)
      (then_do (stream_event E issued turn_id rnd event st) (stream_loop fuel E issued turn_id rnd))" for event
    by (rule gives_bind [OF stream_event_inv [OF assms(1) Suc.prems]]) (rule Suc.IH)
  then show ?case
    using Suc.prems by (auto split: observation.split sum.split intro!: returns_rules)
qed

lemma accept_calls_inv:
  assumes "issues_uuids E" and "round_inv (ae_libs E) issued st0 st"
  shows "returns (grows (ae_libs E) issued st0 st) (accept_calls E issued turn_id rnd calls st)"
  using assms(2)
proof (induction calls arbitrary: st)
  case Nil
  then show ?case by (auto simp: grows_def intro: gives_give)
next
  case (Cons c calls)
  show ?case unfolding accept_calls.simps
    by (rule gives_bind [OF accept_call_inv [OF assms(1) Cons.prems]])
      (auto simp: grows_def intro: gives_mono [OF Cons.IH])
qed

text \<open>The response a round hands to the turn, with the identifiers it issued.\<close>

definition round_result :: "libs \<Rightarrow> str set \<Rightarrow> str set \<Rightarrow> generate_reply \<times> round_state \<Rightarrow> bool" where
  "round_result L issued before r \<longleftrightarrow>
     (case r of (response, st) \<Rightarrow>
        reply_ok L response \<and> rs_issued st = before \<union> set (call_ids (gr_tool_calls response))
        \<and> set (call_ids (gr_tool_calls response)) \<inter> (issued \<union> before) = {})"

lemma trim_empty: "trim [] = []"
  by code_simp

lemma round_inv_result:
  assumes "round_inv L issued st0 st" and "rs_completed st = Some response"
    and "\<not> (rs_observed st = [] \<and> trim (gr_text response) = [])"
  shows "round_result L issued (rs_issued st0) (response\<lparr> gr_tool_calls := rs_observed st \<rparr>, st)"
proof -
  have "validate_terminal_response L response = Inr ()" using assms(1,2) by (simp add: round_inv_def Let_def)
  then have "\<not> exceeds (length (gr_text response)) MAX_MODEL_OUTPUT_BYTES" and "\<not> bad_reasoning (gr_reasoning response)"
    by (auto simp: validate_terminal_response_def result_simps)
  moreover have "\<not> exceeds (argument_bytes L (rs_observed st)) MAX_TOTAL_TOOL_ARGUMENT_BYTES"
    using assms(1) exceeds_mono [of "rs_argument_bytes st" MAX_TOTAL_TOOL_ARGUMENT_BYTES "argument_bytes L (rs_observed st)"]
    by (cases "rs_observed st = []")
      (auto simp: round_inv_def Let_def exceeds_def [of 0] MAX_TOTAL_TOOL_ARGUMENT_BYTES_def)
  ultimately show ?thesis
    using assms by (auto simp: round_result_def reply_ok_def round_inv_def Let_def trim_empty)
qed

lemma finish_stream_inv:
  assumes "issues_uuids E" and inv: "round_inv (ae_libs E) issued st0 st"
  shows "returns (round_result (ae_libs E) issued (rs_issued st0)) (finish_stream E issued turn_id rnd st)"
proof (cases "rs_completed st")
  case None
  then show ?thesis by (simp add: finish_stream_def gives_raise)
next
  case (Some response)
  have rest: "returns (grows (ae_libs E) issued st0 st')
      (if rest = [] then give st' else answer_delta E turn_id rnd rest st')"
    "returns (grows (ae_libs E) issued st0 st')
      (if rest = [] then give st' else reasoning_delta E turn_id rnd rest st')"
    if "round_inv (ae_libs E) issued st0 st'" for rest st'
    using that by (auto simp: grows_def intro: gives_give gives_mono [OF answer_delta_inv] gives_mono [OF reasoning_delta_inv])
  have calls: "returns (grows (ae_libs E) issued st0 st') (reconcile_calls E issued turn_id rnd response st')"
    if "round_inv (ae_libs E) issued st0 st'" for st'
    using that accept_calls_inv [OF assms(1) that]
    unfolding reconcile_calls_def by (auto simp: grows_def intro!: gives_raise gives_give)
  show ?thesis
    unfolding finish_stream_def Some option.case Let_def
    by (rule gives_then, rule gives_bind [OF rest(1) [OF inv]], rule gives_then,
        rule gives_bind [OF rest(2)], (simp add: grows_def; fail),
        rule gives_bind [OF calls], (simp add: grows_def; fail))
      (use Some in \<open>auto simp: grows_def intro!: gives_raise gives_give round_inv_result\<close>)
qed

lemma stream_round_inv:
  assumes "issues_uuids E" and "rs_observed st = []" and "rs_source_ids st = {}" and "rs_completed st = None"
  shows "returns (round_result (ae_libs E) (as_issued S) (rs_issued st)) (stream_model_round fuel E S request turn_id rnd st)"
proof -
  have "returns (round_result (ae_libs E) (as_issued S) (rs_issued st))
      (then_do (stream_loop fuel E (as_issued S) turn_id rnd st) (finish_stream E (as_issued S) turn_id rnd))"
    by (rule gives_bind [OF stream_loop_inv [OF assms(1) round_inv_start [OF assms(2-4)]]])
      (rule finish_stream_inv [OF assms(1)])
  then show ?thesis
    unfolding stream_model_round_def
    by (intro gives_then, split option.split, intro conjI allI impI gives_raise, rule gives_look)
      (auto split: option.split intro!: gives_raise gives_then gives_give)
qed


section \<open>A batch answers every call\<close>

definition bounded_outputs :: "agent_session \<Rightarrow> bool" where
  "bounded_outputs S \<longleftrightarrow> 0 < as_max_tool_output_bytes S \<and> as_max_tool_output_bytes S \<le> MAX_TOOL_OUTPUT_BYTES"

lemma bound_output_text:
  assumes "bounded_outputs S"
  shows "to_content (fst (bound_output S call output used)) \<noteq> []"
    and "\<not> exceeds (length (to_content (fst (bound_output S call output used)))) MAX_TOOL_OUTPUT_BYTES"
  using assms
  by (auto simp: bound_output_def Let_def bounded_outputs_def exceeds_def tool_output_error_def MAX_TOOL_OUTPUT_BYTES_def
      split: if_splits)

definition answered :: "libs \<Rightarrow> tool_call \<Rightarrow> call_outcome \<times> nat \<Rightarrow> bool" where
  "answered L call r = answers L (call_id call) (co_message (fst r))"

definition answered_failure :: "libs \<Rightarrow> tool_call \<Rightarrow> call_failure \<Rightarrow> bool" where
  "answered_failure L call f \<longleftrightarrow> (\<forall>m. cf_checkpointed_result f = Some m \<longrightarrow> answers L (call_id call) m)"

lemma answered_harmless [simp]: "answered_failure L call (harmless e)"
  by (simp add: answered_failure_def harmless_def)

lemma finalize_answers:
  assumes "bounded_outputs S" and "is_uuid_v7 L (call_id call)"
  shows "gives (answered L call) (\<lambda>f. answered_failure L call (completion_failed b f))
    (finalize_tool_output E S turn_id call output used)"
proof -
  let ?m = "tool_message (call_id call) (to_content (fst (bound_output S call output used)))"
  have m: "answers L (call_id call) ?m"
    using bound_output_text [OF assms(1)] assms(2) by (auto simp: answers_def)
  show ?thesis
    unfolding finalize_tool_output_def split_def Let_def
    by (rule gives_bind [where B = "\<lambda>_. True"], rule gives_map_fail, rule gives_mono [OF gives_any], simp,
        (simp add: answered_failure_def completion_failed_def; fail),
        rule gives_bind [where B = "\<lambda>_. True"], rule gives_map_fail, rule gives_mono [OF gives_any])
      (use m in \<open>auto simp: answered_def answered_failure_def completion_failed_def intro!: gives_give\<close>)
qed

lemma finalize_gives:
  assumes "bounded_outputs S" and "is_uuid_v7 L (call_id call)"
  shows "gives (answered L call) (answered_failure L call)
    (map_fail (completion_failed b) (finalize_tool_output E S turn_id call output used))"
  by (rule gives_map_fail) (rule finalize_answers [OF assms])

lemma answer_unrun_answers:
  assumes "bounded_outputs S" and "is_uuid_v7 L (call_id call)"
  shows "gives (answered L call) (answered_failure L call) (answer_unrun E S turn_id call output used)"
  unfolding answer_unrun_def by (rule finalize_gives [OF assms])

lemma harmless_any: "gives (\<lambda>_. True) (answered_failure L call) (map_fail harmless m)"
  by (rule gives_map_fail) (simp add: gives_mono [OF gives_any])

lemma outside_any: "gives (\<lambda>_. True) C (outside f entry)"
  by (simp add: gives_outside)

lemma run_tool_answers:
  assumes "bounded_outputs S" and "is_uuid_v7 L (call_id call)"
  shows "gives (answered L call) (answered_failure L call) (run_tool E S turn_id registered call ctx used)"
proof -
  have invoke: "gives (\<lambda>_. True) (answered_failure L call) (invoke_tool E policy call ctx)" for policy
    unfolding invoke_tool_def
    by (cases policy) (auto intro: gives_bind [OF outside_any] gives_give outside_any)
  show ?thesis
    unfolding run_tool_def is_cancelled_def
    by (rule gives_bind [OF harmless_any], rule gives_bind [OF harmless_any], rule gives_bind [OF invoke],
        rule gives_bind [where B = "\<lambda>_. True"])
      (auto simp: split_def answered_failure_def [of _ _ "\<lparr> cf_error = _, cf_effect_possible = _, cf_checkpointed_result = _ \<rparr>"]
          answered_def split: sum.split tool_error.split
        intro!: gives_bind [OF outside_any] gives_give gives_raise gives_bind [OF finalize_gives [OF assms]])
qed

lemma execute_tool_call_answers:
  assumes "bounded_outputs S" and "is_uuid_v7 L (call_id call)"
  shows "gives (answered L call) (answered_failure L call) (execute_tool_call E S turn_id call used)"
  unfolding execute_tool_call_def is_cancelled_def split_def
  by (rule gives_bind [OF outside_any])
    (auto split: option.split intro!: gives_raise answer_unrun_answers [OF assms] run_tool_answers [OF assms]
      gives_bind [OF harmless_any] gives_bind [OF outside_any])

lemma synthetic_answers:
  "is_uuid_v7 L (call_id call) \<Longrightarrow> txt \<noteq> [] \<Longrightarrow> \<not> exceeds (length txt) MAX_TOOL_OUTPUT_BYTES
    \<Longrightarrow> answers L (call_id call) (fst (synthetic_tool_completion call txt))"
  by (auto simp: synthetic_tool_completion_def answers_def)

text \<open>The results are one answer per call, in order.\<close>

definition complete_batch :: "libs \<Rightarrow> tool_call list \<Rightarrow> batch_outcome \<Rightarrow> bool" where
  "complete_batch L calls b \<longleftrightarrow> bo_checkpoint_required b \<longrightarrow> list_all2 (answers L) (call_ids calls) (bo_results b)"

lemma complete_remaining_answers:
  assumes "\<forall>c \<in> set calls. is_uuid_v7 L (call_id c)" and "list_all2 (answers L) ids results"
    and "reason \<noteq> []" and "\<not> exceeds (length reason) MAX_TOOL_OUTPUT_BYTES"
  shows "returns (list_all2 (answers L) (ids @ call_ids calls)) (complete_remaining E turn_id reason calls results)"
  using assms(1,2)
proof (induction calls arbitrary: ids results)
  case (Cons c calls)
  have "returns (list_all2 (answers L) ((ids @ [call_id c]) @ call_ids calls))
      (complete_remaining E turn_id reason calls (results @ [fst (synthetic_tool_completion c reason)]))"
    by (rule Cons.IH) (use Cons.prems assms(3,4) in \<open>auto intro: list_all2_appendI synthetic_answers\<close>)
  then show ?case by (auto simp: split_def intro: gives_then)
qed (simp add: gives_give)

lemma close_batch_answers:
  assumes "\<forall>c \<in> set calls. is_uuid_v7 L (call_id c)" and "list_all2 (answers L) (call_ids cs) results"
    and "reason \<noteq> []" and "\<not> exceeds (length reason) MAX_TOOL_OUTPUT_BYTES"
  shows "gives (complete_batch L (cs @ calls)) C (close_batch E turn_id reason calls e results)"
  unfolding close_batch_def
  by (rule gives_look [OF complete_remaining_answers [OF assms]])
    (auto simp: complete_batch_def split: prod.split intro!: gives_give)

lemma failed_call_answers:
  assumes "\<forall>c \<in> set (call # calls). is_uuid_v7 L (call_id c)" and "list_all2 (answers L) (call_ids cs) results"
    and "answered_failure L call f"
  shows "gives (complete_batch L (cs @ call # calls)) C (failed_call E turn_id call calls results f)"
proof -
  have close: "gives (complete_batch L (cs @ call # calls)) C
      (close_batch E turn_id ''tool not executed because an earlier call failed'' calls e rs)"
    if "answers L (call_id call) m" and "rs = results @ [m]" for m e rs
    using close_batch_answers [of calls L "cs @ [call]" "results @ [m]" "''tool not executed because an earlier call failed''" C E turn_id e]
      that assms by (auto simp: exceeds_def MAX_TOOL_OUTPUT_BYTES_def intro: list_all2_appendI)
  have synthetic: "answers L (call_id call) (fst (synthetic_tool_completion call
      (if cf_effect_possible f then ''tool execution failed or was interrupted; side effect may have occurred''
       else ''tool was not executed because the harness failed before invocation'')))"
    using assms(1) by (auto intro!: synthetic_answers simp: exceeds_def MAX_TOOL_OUTPUT_BYTES_def)
  show ?thesis
    unfolding failed_call_def split_def
    using assms(3) synthetic
    by (auto simp: complete_batch_def answered_failure_def split: option.split sum.split
        intro!: gives_attempt gives_give intro: close)
qed

lemma batch_loop_answers:
  assumes "bounded_outputs S" and "\<forall>c \<in> set calls. is_uuid_v7 L (call_id c)"
    and "list_all2 (answers L) (call_ids cs) results"
  shows "gives (\<lambda>r. complete_batch L (cs @ calls) (fst r)) C (batch_loop E S turn_id calls results used)"
  using assms(2,3)
proof (induction calls arbitrary: cs results used)
  case Nil
  then show ?case by (auto simp: complete_batch_def intro: gives_give)
next
  case (Cons c calls)
  show ?case unfolding batch_loop.simps
  proof (rule gives_look [where B = "answered L c" and C = "answered_failure L c"], goal_cases)
    case 1
    show ?case by (rule execute_tool_call_answers [OF assms(1)]) (use Cons.prems in simp)
  next
    case (2 r)
    obtain res used' where r: "r = (res, used')" by (cases r)
    have m: "list_all2 (answers L) (call_ids (cs @ [c])) (results @ [co_message res])"
      using 2 Cons.prems by (auto simp: r answered_def intro: list_all2_appendI)
    show ?case
    proof (cases "co_terminal_error res")
      case None
      then show ?thesis using Cons.IH [OF _ m] Cons.prems by (simp add: r)
    next
      case (Some e)
      have "gives (complete_batch L ((cs @ [c]) @ calls)) C
        (close_batch E turn_id ''tool not executed because an earlier call ended the batch'' calls e
          (results @ [co_message res]))"
        by (rule close_batch_answers [OF _ m]) (use Cons.prems in \<open>auto simp: exceeds_def MAX_TOOL_OUTPUT_BYTES_def\<close>)
      then show ?thesis by (auto simp: r Some intro!: gives_bind gives_give)
    qed
  next
    case (3 f)
    then show ?case
      using failed_call_answers [OF Cons.prems 3, of C E turn_id] by (auto intro!: gives_bind gives_give)
  qed
qed

lemma batch_answers:
  assumes "bounded_outputs S" and "\<forall>c \<in> set calls. is_uuid_v7 L (call_id c)"
  shows "gives (\<lambda>r. complete_batch L calls (fst r)) C (execute_tool_batch E S turn_id calls used)"
  unfolding execute_tool_batch_def
  by (rule gives_bind [OF batch_loop_answers [OF assms, of "[]"]])
    (auto simp: complete_batch_def split_def intro!: gives_give)

end
