(* ===== verification/Agent_Turn.thy ===== *)
theory Agent_Turn
  imports Agent_History
begin

text \<open>
  A whole turn. What it commits to the history is what it made durable, batch by batch; every batch
  keeps the history sound; and what it announced of a round's text is the text of the round's
  response.
\<close>

section \<open>Reading the trace\<close>

fun commit_of :: "action \<Rightarrow> chat_message list" where
  "commit_of (Checkpointed (MessagesCheckpoint _ messages _) True) = messages"
| "commit_of _ = []"

definition committed :: "action list \<Rightarrow> chat_message list" where
  "committed t = concat (map commit_of t)"

fun delta_of :: "nat \<Rightarrow> action \<Rightarrow> str" where
  "delta_of rnd (Emitted (TextDelta _ k txt) True) = (if k = rnd then txt else [])"
| "delta_of rnd _ = []"

fun thought_of :: "nat \<Rightarrow> action \<Rightarrow> str" where
  "thought_of rnd (Emitted (ReasoningDelta _ k txt) True) = (if k = rnd then txt else [])"
| "thought_of rnd _ = []"

definition said :: "nat \<Rightarrow> action list \<Rightarrow> str" where
  "said rnd t = concat (map (delta_of rnd) t)"

definition thought :: "nat \<Rightarrow> action list \<Rightarrow> str" where
  "thought rnd t = concat (map (thought_of rnd) t)"

lemma trace_append [simp]:
  "committed (t @ u) = committed t @ committed u" "said k (t @ u) = said k t @ said k u"
  "thought k (t @ u) = thought k t @ thought k u"
  by (simp_all add: committed_def said_def thought_def)

lemma trace_simps [simp]:
  "committed [] = []" "committed (a # t) = commit_of a @ committed t"
  "said k [] = []" "said k (a # t) = delta_of k a @ said k t"
  "thought k [] = []" "thought k (a # t) = thought_of k a @ thought k t"
  by (simp_all add: committed_def said_def thought_def)

lemma silent_commit:
  "tool_action a \<Longrightarrow> commit_of a = []" "end_action a \<Longrightarrow> commit_of a = []" "round_action rnd a \<Longrightarrow> commit_of a = []"
  by (cases a rule: commit_of.cases; simp)+

lemma silent_delta:
  "tool_action a \<Longrightarrow> delta_of k a = []" "end_action a \<Longrightarrow> delta_of k a = []"
  "round_action rnd a \<Longrightarrow> k \<noteq> rnd \<Longrightarrow> delta_of k a = []"
  by (cases "(k, a)" rule: delta_of.cases; simp)+

lemma silent_thought:
  "tool_action a \<Longrightarrow> thought_of k a = []" "end_action a \<Longrightarrow> thought_of k a = []"
  "round_action rnd a \<Longrightarrow> k \<noteq> rnd \<Longrightarrow> thought_of k a = []"
  by (cases "(k, a)" rule: thought_of.cases; simp)+

lemmas silent_actions = silent_commit silent_delta silent_thought

lemma silent_lists:
  "list_all tool_action as \<Longrightarrow> committed as = [] \<and> said k as = [] \<and> thought k as = []"
  "list_all end_action as \<Longrightarrow> committed as = [] \<and> said k as = [] \<and> thought k as = []"
  "list_all (round_action rnd) as \<Longrightarrow> committed as = []"
  "list_all (round_action rnd) as \<Longrightarrow> k \<noteq> rnd \<Longrightarrow> said k as = [] \<and> thought k as = []"
  by (induction "as") (auto simp: silent_actions)


section \<open>A round is announced losslessly\<close>

definition heard :: "nat \<Rightarrow> round_state \<Rightarrow> 'o agent_world \<Rightarrow> bool" where
  "heard rnd st w \<longleftrightarrow> said rnd (aw_trace w) = rs_text st \<and> thought rnd (aw_trace w) = rs_reasoning st"

lemma heard_world [simp]:
  "heard rnd st \<lparr> aw_outside = s, aw_trace = t \<rparr> \<longleftrightarrow> said rnd t = rs_text st \<and> thought rnd t = rs_reasoning st"
  by (simp add: heard_def)

lemma append_model_delta_Inr: "append_model_delta out txt field n = Inr (out', n') \<Longrightarrow> out' = out @ txt"
  by (auto simp: append_model_delta_def result_simps)

lemma emit_said:
  "triple (\<lambda>w. heard rnd st w \<and> B) (emit_event E (TextDelta turn_id rnd txt))
     (\<lambda>_ w. said rnd (aw_trace w) = rs_text st @ txt \<and> thought rnd (aw_trace w) = rs_reasoning st \<and> B) (\<lambda>_ _. True)"
  "triple (\<lambda>w. heard rnd st w \<and> B) (emit_event E (ReasoningDelta turn_id rnd txt))
     (\<lambda>_ w. said rnd (aw_trace w) = rs_text st \<and> thought rnd (aw_trace w) = rs_reasoning st @ txt \<and> B) (\<lambda>_ _. True)"
  by (rule triple_emit; simp add: heard_def)+

lemma answer_delta_heard:
  "triple (heard rnd st) (answer_delta E turn_id rnd txt st)
     (\<lambda>st' w. heard rnd st' w \<and> rs_text st' = rs_text st @ txt \<and> rs_reasoning st' = rs_reasoning st
        \<and> rs_completed st' = rs_completed st) (\<lambda>_ _. True)"
  unfolding answer_delta_def split_def
  by (rule triple_then [where Q = "\<lambda>r w. heard rnd st w \<and> fst r = rs_text st @ txt"], rule triple_settle,
      (auto dest: append_model_delta_Inr) [2], rule triple_then [OF emit_said(1)], rule triple_give)
    (auto simp: heard_def)

lemma reasoning_delta_heard:
  "triple (heard rnd st) (reasoning_delta E turn_id rnd txt st)
     (\<lambda>st' w. heard rnd st' w \<and> rs_text st' = rs_text st \<and> rs_reasoning st' = rs_reasoning st @ txt
        \<and> rs_completed st' = rs_completed st) (\<lambda>_ _. True)"
  unfolding reasoning_delta_def split_def
  by (rule triple_then [where Q = "\<lambda>r w. heard rnd st w \<and> fst r = rs_reasoning st @ txt"], rule triple_settle,
      (auto dest: append_model_delta_Inr) [2], rule triple_then [OF emit_said(2)], rule triple_give)
    (auto simp: heard_def)


text \<open>Actions without deltas leave what has been announced as it is.\<close>

lemma heard_acts:
  assumes "acts A m" and "\<And>a. A a \<Longrightarrow> delta_of rnd a = [] \<and> thought_of rnd a = []"
  shows "triple (heard rnd st) m (\<lambda>_. heard rnd st) (\<lambda>_ _. True)"
proof -
  have "said rnd as = [] \<and> thought rnd as = []" if "list_all A as" for as
    using that assms(2) by (induction "as") auto
  then have "keeps (\<lambda>t. said rnd t = rs_text st \<and> thought rnd t = rs_reasoning st) m"
    by (intro keeps_acts [OF assms(1)]) auto
  then show ?thesis by (rule triple_mono) (auto simp: traced_def heard_def)
qed

fun issue_action :: "action \<Rightarrow> bool" where
  "issue_action (Emitted (ToolCallIssued _ _ _) _) \<longleftrightarrow> True"
| "issue_action _ \<longleftrightarrow> False"

definition same_text :: "round_state \<Rightarrow> round_state \<Rightarrow> bool" where
  "same_text st st' \<longleftrightarrow>
     rs_text st' = rs_text st \<and> rs_reasoning st' = rs_reasoning st \<and> rs_completed st' = rs_completed st"

lemma accept_call_issues: "acts issue_action (accept_call E issued turn_id rnd c st)"
  unfolding accept_call_def reidentify_call_def by (auto intro!: acts_rules allocate_acts acts_emit)

lemma accept_calls_issues: "acts issue_action (accept_calls E issued turn_id rnd cs st)"
  by (induction cs arbitrary: st) (auto intro!: acts_rules accept_call_issues)

lemma accept_call_heard:
  "triple (heard rnd st) (accept_call E issued turn_id rnd c st)
     (\<lambda>st' w. heard rnd st' w \<and> rs_completed st' = rs_completed st) (\<lambda>_ _. True)"
proof -
  have "triple (heard rnd st) (accept_call E issued turn_id rnd c st) (\<lambda>_. heard rnd st) (\<lambda>_ _. True)"
    by (rule heard_acts [OF accept_call_issues]) (auto elim: issue_action.elims)
  moreover have "returns (same_text st) (accept_call E issued turn_id rnd c st)"
    unfolding accept_call_def reidentify_call_def
    by (rule gives_bind [where B = "\<lambda>r. same_text st (snd r)"])
      (auto intro!: gives_then gives_give simp: same_text_def)
  ultimately show ?thesis
    by (rule triple_post [OF triple_returns]) (auto simp: heard_def same_text_def)
qed

lemma stream_event_heard:
  "triple (heard rnd st) (stream_event E issued turn_id rnd event st) (heard rnd) (\<lambda>_ _. True)"
proof (cases event)
  case (Progress p)
  then show ?thesis
    by (auto intro!: triple_then [OF triple_emit [where Q = "\<lambda>_. heard rnd st"]] triple_give simp: heard_def)
next
  case (TextEvent u)
  then show ?thesis by (auto intro: triple_post [OF answer_delta_heard])
next
  case (ReasoningEvent u)
  then show ?thesis by (auto intro: triple_post [OF reasoning_delta_heard])
next
  case (CallEvent call)
  then show ?thesis
    by (auto intro!: triple_then [OF accept_call_heard] triple_give simp: heard_def)
next
  case (Completed response)
  then show ?thesis
    by (auto intro!: triple_then [OF triple_settle [where Q = "\<lambda>_. heard rnd st"]] triple_give simp: heard_def)
qed

lemma outside_heard: "triple (heard rnd st) (outside f (\<lambda>_. [])) (\<lambda>_. heard rnd st) R"
  by (rule triple_outside) (simp add: heard_def)

lemma stream_loop_heard:
  "triple (heard rnd st) (stream_loop fuel E issued turn_id rnd st) (heard rnd) (\<lambda>_ _. True)"
proof (induction fuel arbitrary: st)
  case (Suc fuel)
  show ?case unfolding stream_loop.simps
    by (rule triple_then [OF outside_heard])
      (auto split: observation.split sum.split
        intro!: triple_raise triple_give triple_then [OF stream_event_heard] Suc.IH)
qed (simp add: triple_never)

lemma require_prefix_Inr: "require_prefix streamed terminal e = Inr rest \<Longrightarrow> terminal = streamed @ rest"
  by (auto simp: require_prefix_def strip_prefix_Some split: option.splits)

text \<open>All of the response's text and reasoning, and nothing else, has been announced in the round.\<close>

definition announced :: "nat \<Rightarrow> generate_reply \<Rightarrow> 'o agent_world \<Rightarrow> bool" where
  "announced rnd response w \<longleftrightarrow>
     said rnd (aw_trace w) = gr_text response
     \<and> thought rnd (aw_trace w) = (case gr_reasoning response of None \<Rightarrow> [] | Some r \<Rightarrow> r)"

lemma finish_stream_announced:
  "triple (heard rnd st) (finish_stream E issued turn_id rnd st) (\<lambda>r. announced rnd (fst r)) (\<lambda>_ _. True)"
proof (cases "rs_completed st")
  case None
  then show ?thesis by (simp add: finish_stream_def triple_raise)
next
  case (Some response)
  let ?reasoning = "case gr_reasoning response of None \<Rightarrow> [] | Some r \<Rightarrow> r"
  let ?Q1 = "\<lambda>rest w. heard rnd st w \<and> gr_text response = rs_text st @ rest"
  let ?Q2 = "\<lambda>st' w. heard rnd st' w \<and> gr_text response = rs_text st'"
  let ?Q3 = "\<lambda>st' rest w. heard rnd st' w \<and> gr_text response = rs_text st' \<and> ?reasoning = rs_reasoning st' @ rest"
  let ?Q4 = "\<lambda>st' w. heard rnd st' w \<and> gr_text response = rs_text st' \<and> ?reasoning = rs_reasoning st'"
  have text_rest: "triple (?Q1 rest) (if rest = [] then give st else answer_delta E turn_id rnd rest st) ?Q2 (\<lambda>_ _. True)" for rest
    by (rule triple_if, simp add: triple_give, rule triple_assume, rule triple_post [OF answer_delta_heard]) auto
  have reasoning_rest: "triple (?Q3 st' rest) (if rest = [] then give st' else reasoning_delta E turn_id rnd rest st') ?Q4 (\<lambda>_ _. True)" for st' rest
    by (rule triple_if, simp add: triple_give, rule triple_assume, rule triple_post [OF reasoning_delta_heard]) auto
  have calls: "triple (?Q4 st') (reconcile_calls E issued turn_id rnd response st') (\<lambda>st'. announced rnd response) (\<lambda>_ _. True)" for st'
    unfolding reconcile_calls_def
    by (rule triple_assume, rule triple_if, rule triple_post [OF heard_acts [OF accept_calls_issues]])
      (auto simp: announced_def heard_def intro!: triple_raise triple_give elim: issue_action.elims)
  show ?thesis
    unfolding finish_stream_def Some option.case Let_def
    by (rule triple_then [where Q = ?Q1], rule triple_settle, (auto dest: require_prefix_Inr) [2],
        rule triple_then [OF text_rest], rule triple_then [where Q = "?Q3 _"], rule triple_settle,
        (auto dest: require_prefix_Inr) [2], rule triple_then [OF reasoning_rest], rule triple_then [OF calls])
      (auto intro!: triple_raise triple_give simp: announced_def)
qed


lemma stream_round_announced:
  "triple (heard rnd st) (stream_model_round fuel E S request turn_id rnd st) (\<lambda>r. announced rnd (fst r)) (\<lambda>_ _. True)"
proof -
  have "triple (heard rnd st) (then_do (stream_loop fuel E (as_issued S) turn_id rnd st) (finish_stream E (as_issued S) turn_id rnd))
      (\<lambda>r. announced rnd (fst r)) (\<lambda>_ _. True)"
    by (rule triple_then [OF stream_loop_heard finish_stream_announced])
  note main = this
  show ?thesis
    unfolding stream_model_round_def
  proof (rule triple_then [where Q = "\<lambda>_. heard rnd st"], goal_cases)
    case 1
    show ?case by (rule triple_outside) (simp add: heard_def)
  next
    case (2 refused)
    show ?case
      by (cases refused)
        (auto split: option.split intro!: triple_raise triple_give triple_attempt [OF main]
          triple_then [OF triple_outside [where Q = "\<lambda>_ _. True"]])
  qed
qed


section \<open>Commits\<close>

definition sound :: "libs \<Rightarrow> agent_session \<Rightarrow> bool" where
  "sound L S \<longleftrightarrow> history_scan L 0 (as_history S) ({}, {}) = Inr (as_issued S, {})"

definition opened :: "chat_message \<Rightarrow> turn_state \<Rightarrow> bool" where
  "opened input t \<longleftrightarrow>
     tn_messages t = [] \<and> tn_pending t = [input]
     \<or> tn_pending t = [] \<and> tn_messages t \<noteq> [] \<and> hd (tn_messages t) = input"

lemma commit_history: "as_history (commit_turn S ms ids) = as_history S @ ms"
  by (simp add: commit_turn_def)

lemma commit_sound:
  assumes "sound L S" and "validate_user_message input = Inr ()" and "opened input t"
    and "reply_ok L r" and "set (call_ids (gr_tool_calls r)) \<inter> as_issued S = {}"
    and "list_all2 (answers L) (call_ids (gr_tool_calls r)) results"
    and "ids \<union> as_issued S = set (call_ids (gr_tool_calls r)) \<union> as_issued S"
  shows "sound L (commit_turn S (tn_pending t @ assistant_message r p # results) ids)"
proof -
  have "history_scan L k (tn_pending t) (as_issued S, {}) = Inr (as_issued S, {})" for k
    using assms(3) scan_user [OF assms(2)] by (auto simp: opened_def)
  with scan_batch [OF assms(4,5,6)] assms(1,7) show ?thesis
    by (auto simp: sound_def commit_turn_def history_scan_append Un_commute)
qed

text \<open>Between two rounds, and at the end of the turn.\<close>

definition progress_made :: "libs \<Rightarrow> chat_message \<Rightarrow> agent_session \<Rightarrow> turn_state \<Rightarrow> agent_session \<Rightarrow> action list \<Rightarrow> bool" where
  "progress_made L input S0 t S tr \<longleftrightarrow>
     same_tools S0 S \<and> sound L S \<and> as_history S = as_history S0 @ tn_messages t \<and> committed tr = tn_messages t
     \<and> opened input t"

definition between_rounds ::
  "libs \<Rightarrow> chat_message \<Rightarrow> agent_session \<Rightarrow> nat \<Rightarrow> turn_state \<Rightarrow> agent_session \<Rightarrow> 'o agent_world \<Rightarrow> bool" where
  "between_rounds L input S0 rnd t S w \<longleftrightarrow>
     progress_made L input S0 t S (aw_trace w) \<and> tn_issued t \<subseteq> as_issued S
     \<and> (\<forall>k > rnd. said k (aw_trace w) = [] \<and> thought k (aw_trace w) = [])"

definition turn_answer :: "chat_message list \<Rightarrow> bool \<Rightarrow> agent_turn \<Rightarrow> 'o agent_world \<Rightarrow> bool" where
  "turn_answer batch p turn w \<longleftrightarrow>
     at_messages turn = batch \<and> gr_tool_calls (at_response turn) = []
     \<and> (\<exists>rounds. batch = rounds @ [assistant_message (at_response turn) p])
     \<and> announced (at_model_rounds turn) (at_response turn) w"

definition turn_done :: "libs \<Rightarrow> chat_message \<Rightarrow> agent_session \<Rightarrow> turn_result \<Rightarrow> 'o agent_world \<Rightarrow> bool" where
  "turn_done L input S0 r w \<longleftrightarrow>
     (case r of (q, S) \<Rightarrow>
        same_tools S0 S \<and> sound L S
        \<and> (\<exists>batch. as_history S = as_history S0 @ batch \<and> committed (aw_trace w) = batch
             \<and> (batch \<noteq> [] \<longrightarrow> hd batch = input)
             \<and> (\<forall>turn. q = Inr turn \<longrightarrow> batch \<noteq> [] \<and> turn_answer batch (preserve_reasoning S0) turn w)))"

lemma progress_stopped: "progress_made L input S0 t S (aw_trace w) \<Longrightarrow> turn_done L input S0 (Inl e, S) w"
  by (auto simp: progress_made_def turn_done_def opened_def)

lemma progress_acts:
  assumes "acts A m" and "\<And>a. A a \<Longrightarrow> commit_of a = []"
  shows "keeps (progress_made L input S0 t S) m"
proof (rule keeps_acts [OF assms(1)])
  fix tr as
  assume "list_all A as"
  then have "committed as = []" using assms(2) by (induction "as") auto
  then show "progress_made L input S0 t S tr \<Longrightarrow> progress_made L input S0 t S (tr @ as)"
    by (simp add: progress_made_def)
qed

text \<open>What a step of the turn leads to.\<close>

definition step_done :: "libs \<Rightarrow> chat_message \<Rightarrow> agent_session \<Rightarrow> nat \<Rightarrow> turn_step \<times> agent_session \<Rightarrow> 'o agent_world \<Rightarrow> bool" where
  "step_done L input S0 rnd r w \<longleftrightarrow>
     (case r of
        (Ended q, S) \<Rightarrow> turn_done L input S0 (q, S) w
      | (NextRound t, S) \<Rightarrow> between_rounds L input S0 rnd t S w)"

lemma fail_with_done:
  "triple (traced (progress_made L input S0 t S)) (fail_with E turn_id e S) (step_done L input S0 rnd) (\<lambda>_ _. True)"
proof -
  have "returns (\<lambda>r. \<exists>e. r = (Ended (Inl e), S)) (fail_with E turn_id e S)"
    unfolding fail_with_def
    by (rule gives_look [where B = "\<lambda>_. False" and C = "\<lambda>_. True"])
      (auto simp: fail_turn_def intro!: gives_then gives_raise gives_give)
  with progress_acts [OF fail_with_acts] show ?thesis
    by (rule triple_post [OF triple_returns])
      (auto simp: step_done_def traced_def progress_stopped silent_actions)
qed


section \<open>The steps of a turn\<close>

text \<open>What a turn has made of the trace before a round that is not committed yet.\<close>

definition open_round :: "libs \<Rightarrow> chat_message \<Rightarrow> agent_session \<Rightarrow> nat \<Rightarrow> turn_state \<Rightarrow> agent_session \<Rightarrow> action list \<Rightarrow> bool" where
  "open_round L input S0 rnd t S tr \<longleftrightarrow>
     progress_made L input S0 t S tr \<and> (\<forall>k > rnd. said k tr = [] \<and> thought k tr = [])"

definition silent :: "nat \<Rightarrow> action \<Rightarrow> bool" where
  "silent rnd a \<longleftrightarrow> commit_of a = [] \<and> (\<forall>k > rnd. delta_of k a = [] \<and> thought_of k a = [])"

lemma silent_tool: "tool_action a \<Longrightarrow> silent rnd a" and silent_end: "end_action a \<Longrightarrow> silent rnd a"
  and silent_round: "round_action rnd a \<Longrightarrow> silent rnd a"
  by (auto simp: silent_def silent_actions)

lemma open_round_append:
  assumes "open_round L input S0 rnd t S tr" and "list_all (silent rnd) as"
  shows "open_round L input S0 rnd t S (tr @ as)"
proof -
  have "committed as = [] \<and> (\<forall>k > rnd. said k as = [] \<and> thought k as = [])"
    using assms(2) by (induction "as") (auto simp: silent_def)
  with assms(1) show ?thesis by (simp add: open_round_def progress_made_def)
qed

lemma open_round_acts:
  "acts A m \<Longrightarrow> (\<And>a. A a \<Longrightarrow> silent rnd a) \<Longrightarrow> keeps (open_round L input S0 rnd t S) m"
  by (erule keeps_acts) (auto intro!: open_round_append elim: list.pred_mono_strong)

lemma open_round_fail:
  "triple (traced (open_round L input S0 rnd t S)) (fail_with E turn_id e S) (step_done L input S0 rnd) (\<lambda>_ _. True)"
  by (rule triple_pre [OF fail_with_done]) (auto simp: traced_def open_round_def)

lemma same_preserve: "same_tools S0 S \<Longrightarrow> preserve_reasoning S = preserve_reasoning S0"
  unfolding same_tools_def preserve_reasoning_def by (metis agent_session.select_convs(1) agent_session.surjective agent_session.update_convs(7,8))

lemma finish_turn_done:
  assumes "validate_user_message input = Inr ()" and "reply_ok L response" and "gr_tool_calls response = []"
    and "tn_issued t \<subseteq> as_issued S" and "p = preserve_reasoning S0"
  shows "triple (\<lambda>w. open_round L input S0 rnd t S (aw_trace w) \<and> announced rnd response w)
    (finish_turn E turn_id rnd response (assistant_message response p) t S) (step_done L input S0 rnd) (\<lambda>_ _. True)"
proof -
  let ?pending = "tn_pending t @ [assistant_message response p]"
  let ?S = "commit_turn S ?pending (tn_issued t)"
  let ?turn = "\<lparr> at_id = turn_id, at_response = response, at_messages = tn_messages t @ ?pending,
    at_model_rounds = rnd, at_usage = tn_usage t \<rparr>"
  let ?Q = "\<lambda>w. same_tools S0 ?S \<and> sound L ?S \<and> as_history ?S = as_history S0 @ tn_messages t @ ?pending
    \<and> committed (aw_trace w) = tn_messages t @ ?pending \<and> hd (tn_messages t @ ?pending) = input
    \<and> announced rnd response w"
  have ready: "triple (\<lambda>w. open_round L input S0 rnd t S (aw_trace w) \<and> announced rnd response w)
      (checkpoint_turn E (MessagesCheckpoint turn_id ?pending c))
      (\<lambda>_. ?Q) (\<lambda>_ w. progress_made L input S0 t S (aw_trace w))" for c
  proof (rule triple_checkpoint, goal_cases)
    case (1 w s)
    then have p: "progress_made L input S0 t S (aw_trace w)" by (simp add: open_round_def)
    then have "sound L ?S"
      using commit_sound [of L S input t response "[]" "tn_issued t" p] assms by (auto simp: progress_made_def)
    then show ?case
      using p 1 by (auto simp: progress_made_def opened_def announced_def same_tools_commit commit_history)
  next
    case 2
    then show ?case by (simp add: open_round_def progress_made_def)
  qed
  have told: "triple ?Q (emit_event E (TurnCompleted turn_id rnd u)) (\<lambda>_. ?Q) (\<lambda>_. ?Q)" for u
    by (rule triple_emit) (simp_all add: announced_def)
  have ended: "step_done L input S0 rnd (Ended q, ?S) w" if "?Q w" "\<forall>turn. q = Inr turn \<longrightarrow> turn = ?turn" for q w
  proof -
    have "turn_answer (tn_messages t @ ?pending) p ?turn w"
      using that(1) assms(3) by (auto simp: turn_answer_def)
    then have "q = Inr turn \<Longrightarrow> turn_answer (tn_messages t @ ?pending) (preserve_reasoning S0) turn w" for turn
      using that(2) assms(5) by blast
    with that(1) show ?thesis
      unfolding step_done_def turn_done_def prod.case turn_step.case
      by (intro conjI exI [of _ "tn_messages t @ ?pending"]) blast+
  qed
  show ?thesis
    unfolding finish_turn_def Let_def
  proof (rule triple_attempt [OF ready], goal_cases)
    case (1 x)
    have "step_done L input S0 rnd (case r of
            Inl (EventSink message) \<Rightarrow> (Ended (Inl (EventSinkAfterCommit turn_id message)), ?S)
          | Inl e \<Rightarrow> (Ended (Inl e), ?S) | Inr _ \<Rightarrow> (Ended (Inr ?turn), ?S)) w" if "?Q w" for r w
      using ended [OF that] by (cases r) (auto split: agent_error.split)
    then show ?case by (auto intro!: triple_attempt [OF told] triple_give)
  next
    case (2 e)
    then show ?case by (auto simp: step_done_def progress_stopped intro!: triple_give)
  qed
qed

lemma quiet_checkpoint:
  "commit_of (Checkpointed cp True) = [] \<Longrightarrow> keeps (open_round L input S0 rnd t S) (checkpoint_turn E cp)"
  by (rule open_round_acts [OF acts_checkpoint [where A = "\<lambda>a. a = Checkpointed cp True \<or> a = Checkpointed cp False"]])
    (auto simp: silent_def)

lemma commit_batch_done:
  assumes "validate_user_message input = Inr ()" and r: "reply_ok L response"
    and new: "set (call_ids (gr_tool_calls response)) \<inter> as_issued S = {}"
    and issued: "tn_issued t \<union> as_issued S = set (call_ids (gr_tool_calls response)) \<union> as_issued S"
    and results: "list_all2 (answers L) (call_ids (gr_tool_calls response)) (bo_results b)"
  shows "triple (traced (open_round L input S0 rnd t S))
    (commit_batch E turn_id (assistant_message response p) t S b used) (step_done L input S0 rnd) (\<lambda>_ _. True)"
proof -
  let ?pending = "tn_pending t @ assistant_message response p # bo_results b"
  let ?t = "t\<lparr> tn_pending := [], tn_messages := tn_messages t @ ?pending, tn_tool_bytes := used \<rparr>"
  let ?S = "commit_turn S ?pending (tn_issued t)"
  have commit: "triple (traced (open_round L input S0 rnd t S)) (checkpoint_turn E (MessagesCheckpoint turn_id ?pending None))
      (\<lambda>_. traced (open_round L input S0 rnd ?t ?S)) (\<lambda>_. traced (open_round L input S0 rnd t S))"
  proof (rule triple_checkpoint, goal_cases)
    case (1 w s)
    then have p: "progress_made L input S0 t S (aw_trace w)" by (simp add: open_round_def traced_def)
    then have "sound L ?S"
      using commit_sound [OF _ assms(1) _ r new results, of t "tn_issued t" p] issued by (auto simp: progress_made_def)
    then show ?case
      using 1 p by (auto simp: open_round_def progress_made_def opened_def traced_def commit_history same_tools_commit)
  next
    case (2 w s e)
    then show ?case by (simp add: open_round_def progress_made_def traced_def)
  qed
  have failed: "triple (traced (open_round L input S0 rnd ?t ?S)) (fail_with E turn_id e ?S) (step_done L input S0 rnd) (\<lambda>_ _. True)" for e
    by (rule open_round_fail)
  have next_round: "step_done L input S0 rnd (NextRound ?t, ?S) w" if "traced (open_round L input S0 rnd ?t ?S) w" for w
    using that by (auto simp: step_done_def between_rounds_def open_round_def traced_def commit_turn_def)
  show ?thesis
    unfolding commit_batch_def Let_def
  proof (rule triple_attempt [OF commit], goal_cases)
    case (1 x)
    show ?case by (cases "bo_terminal_error b") (auto intro: failed triple_give next_round)
  next
    case (2 e)
    show ?case by (simp add: open_round_fail)
  qed
qed

lemma run_batch_done:
  assumes "validate_user_message input = Inr ()" and "bounded_outputs S" and r: "reply_ok L response"
    and "set (call_ids (gr_tool_calls response)) \<inter> as_issued S = {}"
    and "tn_issued t \<union> as_issued S = set (call_ids (gr_tool_calls response)) \<union> as_issued S"
  shows "triple (traced (open_round L input S0 rnd t S)) (run_batch E turn_id response (assistant_message response p) t S)
    (step_done L input S0 rnd) (\<lambda>_ _. True)"
proof -
  have uuids: "\<forall>c \<in> set (gr_tool_calls response). is_uuid_v7 L (call_id c)"
    using r by (auto simp: reply_ok_def call_ok_def)
  have batch: "triple (traced (open_round L input S0 rnd t S)) (execute_tool_batch E S turn_id (gr_tool_calls response) used)
      (\<lambda>q w. traced (open_round L input S0 rnd t S) w \<and> complete_batch L (gr_tool_calls response) (fst q)) (\<lambda>_ _. True)" for used
    by (rule triple_post [OF triple_gives [OF open_round_acts [OF batch_acts silent_tool] batch_answers [OF assms(2) uuids]]]) simp_all
  show ?thesis
    unfolding run_batch_def split_def
  proof (rule triple_attempt [OF quiet_checkpoint], goal_cases)
    case (2 x)
    show ?case unfolding sum.case
      by (rule triple_then [OF batch], rule triple_assume, rule triple_if, rule open_round_fail)
        (rule commit_batch_done [OF assms(1) r assms(4,5)], simp add: complete_batch_def)
  next
    case (3 e)
    show ?case by (simp add: open_round_fail)
  qed simp
qed

lemma settle_round_done:
  assumes "validate_user_message input = Inr ()" and "bounded_outputs S" and "reply_ok L response"
    and "set (call_ids (gr_tool_calls response)) \<inter> as_issued S = {}"
    and "tn_issued t \<union> as_issued S = set (call_ids (gr_tool_calls response)) \<union> as_issued S"
    and "same_tools S0 S"
  shows "triple (\<lambda>w. open_round L input S0 rnd t S (aw_trace w) \<and> announced rnd response w)
    (settle_round E turn_id rnd response t S) (step_done L input S0 rnd) (\<lambda>_ _. True)"
proof -
  let ?P = "\<lambda>w. open_round L input S0 rnd t S (aw_trace w) \<and> announced rnd response w"
  have told: "triple ?P (emit_event E (ModelCompleted turn_id rnd f u)) (\<lambda>_. ?P) (\<lambda>_. ?P)" for f u
    by (rule triple_emit) (auto simp: announced_def silent_def intro!: open_round_append)
  have fails: "triple ?P (fail_with E turn_id e S) (step_done L input S0 rnd) (\<lambda>_ _. True)" for e
    by (rule triple_pre [OF open_round_fail [of L input S0 rnd t]]) (simp add: traced_def)
  have batch: "triple ?P (run_batch E turn_id response (assistant_message response p) t S) (step_done L input S0 rnd) (\<lambda>_ _. True)" for p
    by (rule triple_pre [OF run_batch_done [OF assms(1-5)]]) (simp add: traced_def)
  have finish: "triple ?P (finish_turn E turn_id rnd response (assistant_message response (preserve_reasoning S)) t S)
      (step_done L input S0 rnd) (\<lambda>_ _. True)" if "gr_tool_calls response = []"
    by (rule finish_turn_done [OF assms(1,3) that]) (use assms(5,6) that same_preserve in auto)
  have stopped: "triple ?P (give (Ended (Inl e), S)) (step_done L input S0 rnd) (\<lambda>_ _. True)" for e
    by (rule triple_give) (auto simp: step_done_def open_round_def progress_stopped)
  show ?thesis
    unfolding settle_round_def Let_def
    by (rule triple_attempt [OF told]) (auto intro!: triple_if fails batch finish stopped)
qed

lemma same_bounds: "same_tools S0 S \<Longrightarrow> bounded_outputs S0 \<Longrightarrow> bounded_outputs S"
  unfolding same_tools_def bounded_outputs_def by (cases S; cases S0) simp

lemma between_open:
  assumes "between_rounds L input S0 rnd t S w"
  shows "traced (open_round L input S0 (Suc rnd) t S) w" and "heard (Suc rnd) (round_start t) w"
  using assms by (auto simp: between_rounds_def open_round_def traced_def heard_def round_start_def)

lemma open_after_round: "open_round L input S0 rnd (after_round t response st) S = open_round L input S0 rnd t S"
  by (intro ext) (simp add: open_round_def progress_made_def opened_def after_round_def)

lemma turn_round_done:
  assumes ids: "issues_uuids E" and user: "validate_user_message input = Inr ()" and "bounded_outputs S0"
    and same: "same_tools S0 S" and issued: "tn_issued t \<subseteq> as_issued S"
  shows "triple (between_rounds (ae_libs E) input S0 rnd t S) (turn_round fuel E options turn_id (Suc rnd) t S)
    (step_done (ae_libs E) input S0 (Suc rnd)) (\<lambda>_ _. True)"
proof -
  let ?L = "ae_libs E" and ?I = "traced (open_round (ae_libs E) input S0 (Suc rnd) t S)"
  have told: "triple (between_rounds ?L input S0 rnd t S) (emit_event E (ModelStarted turn_id (Suc rnd)))
      (\<lambda>_. between_rounds ?L input S0 rnd t S) (\<lambda>_. ?I)"
    by (rule triple_emit) (auto simp: between_rounds_def progress_made_def open_round_def)
  have fails: "triple ?I (fail_with E turn_id e S) (step_done ?L input S0 (Suc rnd)) (\<lambda>_ _. True)" for e
    by (rule open_round_fail)
  have stream: "triple (between_rounds ?L input S0 rnd t S)
      (stream_model_round fuel E S request turn_id (Suc rnd) (round_start t))
      (\<lambda>r w. (?I w \<and> announced (Suc rnd) (fst r) w) \<and> round_result ?L (as_issued S) (tn_issued t) r) (\<lambda>_. ?I)" for request
  proof (rule triple_mono [OF triple_returns [OF triple_conj [OF open_round_acts [OF stream_round_acts silent_round]
      stream_round_announced]]])
    show "returns (round_result ?L (as_issued S) (tn_issued t))
      (stream_model_round fuel E S request turn_id (Suc rnd) (round_start t))"
      using stream_round_inv [OF ids, of "round_start t"] by (simp add: round_start_def)
  qed (use between_open in auto)
  have settles: "triple (\<lambda>w. ?I w \<and> announced (Suc rnd) response w)
      (settle_round E turn_id (Suc rnd) response (after_round t response st) S) (step_done ?L input S0 (Suc rnd)) (\<lambda>_ _. True)"
    if "round_result ?L (as_issued S) (tn_issued t) (response, st)" for response st
  proof (rule triple_pre [OF settle_round_done [OF user same_bounds [OF same assms(3)] _ _ _ same]])
    show "reply_ok ?L response" and "set (call_ids (gr_tool_calls response)) \<inter> as_issued S = {}"
      using that by (auto simp: round_result_def)
    show "tn_issued (after_round t response st) \<union> as_issued S = set (call_ids (gr_tool_calls response)) \<union> as_issued S"
      using that issued by (auto simp: round_result_def after_round_def)
  qed (simp add: traced_def open_after_round)
  show ?thesis
    unfolding turn_round_def
  proof (rule triple_attempt [OF told], goal_cases)
    case (1 x)
    show ?case unfolding sum.case
    proof (cases "generation_request ?L S (tn_pending t) options")
      case (Inl e)
      show "triple (between_rounds ?L input S0 rnd t S) (case generation_request ?L S (tn_pending t) options of
          Inl e \<Rightarrow> fail_with E turn_id e S
        | Inr request \<Rightarrow> attempt (stream_model_round fuel E S request turn_id (Suc rnd) (round_start t)) (\<lambda>r. case r of
            Inl e \<Rightarrow> fail_with E turn_id e S
          | Inr (response, st) \<Rightarrow> settle_round E turn_id (Suc rnd) response (after_round t response st) S))
        (step_done ?L input S0 (Suc rnd)) (\<lambda>_ _. True)"
        by (simp add: Inl triple_pre [OF fails between_open(1)])
    next
      case (Inr request)
      show "triple (between_rounds ?L input S0 rnd t S) (case generation_request ?L S (tn_pending t) options of
          Inl e \<Rightarrow> fail_with E turn_id e S
        | Inr request \<Rightarrow> attempt (stream_model_round fuel E S request turn_id (Suc rnd) (round_start t)) (\<lambda>r. case r of
            Inl e \<Rightarrow> fail_with E turn_id e S
          | Inr (response, st) \<Rightarrow> settle_round E turn_id (Suc rnd) response (after_round t response st) S))
        (step_done ?L input S0 (Suc rnd)) (\<lambda>_ _. True)"
        unfolding Inr sum.case
      proof (rule triple_attempt [OF stream], goal_cases)
        case (1 r)
        show ?case
          unfolding sum.case split_def by (rule triple_assume, rule settles) simp
      next
        case (2 e)
        show ?case by (simp add: fails)
      qed
    qed
  next
    case (2 e)
    show ?case by (auto simp: step_done_def traced_def open_round_def progress_stopped intro!: triple_give)
  qed
qed

lemma turn_loop_done:
  assumes "issues_uuids E" and "validate_user_message input = Inr ()" and "bounded_outputs S0"
  shows "triple (between_rounds (ae_libs E) input S0 rnd t S) (turn_loop rounds fuel E options turn_id rnd t S)
    (turn_done (ae_libs E) input S0) (\<lambda>_ _. True)"
proof (induction rounds arbitrary: rnd t S)
  case (Suc rounds)
  have round: "triple (between_rounds (ae_libs E) input S0 rnd t S) (turn_round fuel E options turn_id (Suc rnd) t S)
      (step_done (ae_libs E) input S0 (Suc rnd)) (\<lambda>_ _. True)"
  proof (cases "same_tools S0 S \<and> tn_issued t \<subseteq> as_issued S")
    case True
    then show ?thesis by (intro turn_round_done assms) simp_all
  next
    case False
    then show ?thesis by (intro triple_pre [OF triple_false]) (auto simp: between_rounds_def progress_made_def)
  qed
  show ?case
    unfolding turn_loop.simps Suc_eq_plus1 [symmetric]
  proof (rule triple_then [OF round], goal_cases)
    case (1 x)
    obtain step S' where x: "x = (step, S')" by (cases x)
    show ?case
    proof (cases step)
      case (Ended r)
      then show ?thesis by (auto simp: x step_done_def intro!: triple_give)
    next
      case (NextRound t')
      then show ?thesis
        unfolding x by (auto simp: step_done_def intro: triple_pre [OF Suc.IH])
    qed
  qed
qed (simp add: triple_never)

definition preflight_action :: "action \<Rightarrow> bool" where
  "preflight_action a \<longleftrightarrow> (commit_of a = [] \<and> (\<forall>k. delta_of k a = [] \<and> thought_of k a = []))"

lemma run_message_core_done:
  assumes "issues_uuids E" and "bounded_outputs S" and "sound (ae_libs E) S"
  shows "triple (\<lambda>w. aw_trace w = []) (run_message_core rounds fuel E input options S)
    (turn_done (ae_libs E) input S) (\<lambda>_ _. True)"
proof -
  let ?I = "traced (open_round (ae_libs E) input S 0 (turn_start input) S)"
  have quiet: "keeps (open_round (ae_libs E) input S 0 (turn_start input) S) m" if "acts preflight_action m"
    for m :: "('a, agent_error, 'x) act"
    by (rule open_round_acts [OF that]) (auto simp: preflight_action_def silent_def)
  have start: "triple (\<lambda>w. aw_trace w = []) (settle r) (\<lambda>_ w. ?I w \<and> r = Inr ()) (\<lambda>_. ?I)"
    for r :: "agent_error + unit"
    using assms(3)
    by (intro triple_settle) (simp_all add: traced_def open_round_def progress_made_def turn_start_def opened_def same_tools_refl)
  have after: "triple (\<lambda>w. ?I w \<and> validate_user_message input = Inr ())
      (turn_loop rounds fuel E opts turn_id 0 (turn_start input) S) (turn_done (ae_libs E) input S) (\<lambda>_ _. True)" for opts turn_id
    by (rule triple_assume, rule triple_pre [OF turn_loop_done [OF assms(1) _ assms(2)]])
      (auto simp: traced_def open_round_def between_rounds_def turn_start_def)
  have stopped: "triple ?I (give (Inl e, S)) (turn_done (ae_libs E) input S) (\<lambda>_ _. True)" for e
    by (rule triple_give) (auto simp: traced_def open_round_def progress_stopped)
  have later: "triple (\<lambda>w. ?I w \<and> B) m (\<lambda>_ w. ?I w \<and> B) (\<lambda>_. ?I)" if "acts preflight_action m"
    for B and m :: "('a, agent_error, 'x) act"
    by (rule triple_assume, rule triple_post [OF quiet [OF that]]) simp_all
  show ?thesis
    unfolding run_message_core_def Let_def
  proof (rule triple_attempt, rule triple_then [OF start], rule later, goal_cases)
    case 1
    show ?case
      by (auto simp: preflight_action_def intro!: acts_rules acts_outside cancelled_acts acts_emit acts_checkpoint)
  next
    case (2 x)
    show ?case
      unfolding sum.case
      by (rule triple_pre [OF after]) (auto simp: map_error_def split: sum.splits)
  qed (simp add: stopped)
qed

end
