(* ===== verification/Agent_Ends.thy ===== *)
theory Agent_Ends
  imports Agent_Turn
begin

text \<open>
  How a turn ends. With a limit on the rounds and streams that end, it returns; what listeners hear
  last agrees with what the caller gets, and they hear nothing after it.
\<close>

section \<open>Returning\<close>

text \<open>An action that returns from every world, without raising a measure of the outside.\<close>

definition steady :: "('o \<Rightarrow> nat) \<Rightarrow> ('o, 'e, 'x) act \<Rightarrow> bool" where
  "steady M m \<longleftrightarrow> (\<forall>w. \<exists>r w'. m w = Some (r, w') \<and> M (aw_outside w') \<le> M (aw_outside w))"

lemma steady_give: "steady M (give x)" and steady_raise: "steady M (raise e)" and steady_settle: "steady M (settle r)"
  by (simp_all add: steady_def give_def raise_def settle_def)

lemma steady_attempt:
  assumes "steady M m" and "\<And>r. steady M (k r)"
  shows "steady M (attempt m k)"
  unfolding steady_def
proof
  fix w
  obtain q v where v: "m w = Some (q, v)" "M (aw_outside v) \<le> M (aw_outside w)"
    using assms(1) unfolding steady_def by meson
  moreover obtain r w' where "k q v = Some (r, w')" "M (aw_outside w') \<le> M (aw_outside v)"
    using assms(2) [of q] unfolding steady_def by meson
  ultimately show "\<exists>r w'. attempt m k w = Some (r, w') \<and> M (aw_outside w') \<le> M (aw_outside w)"
    by (auto simp: attempt_def)
qed

lemma steady_then: "steady M m \<Longrightarrow> (\<And>x. steady M (k x)) \<Longrightarrow> steady M (then_do m k)"
  unfolding then_do_attempt by (auto split: sum.split intro!: steady_attempt steady_raise)

lemma steady_map_fail: "steady M m \<Longrightarrow> steady M (map_fail f m)"
  unfolding steady_def
proof
  fix w
  assume "\<forall>w. \<exists>r w'. m w = Some (r, w') \<and> M (aw_outside w') \<le> M (aw_outside w)"
  then obtain r w' where "m w = Some (r, w')" "M (aw_outside w') \<le> M (aw_outside w)" by meson
  then show "\<exists>r w'. map_fail f m w = Some (r, w') \<and> M (aw_outside w') \<le> M (aw_outside w)"
    by (simp add: map_fail_def)
qed

lemma steady_outside: "(\<And>s. M (snd (f s)) \<le> M s) \<Longrightarrow> steady M (outside f entry)"
  by (simp add: steady_def outside_def split: prod.split) (metis snd_conv)

text \<open>Just returning is the case of a measure that is constant.\<close>

abbreviation total_act :: "('o, 'e, 'x) act \<Rightarrow> bool" where
  "total_act \<equiv> steady (\<lambda>_. 0)"

lemma total_outside: "total_act (outside f entry)"
  by (rule steady_outside) simp

lemma steady_total: "steady M m \<Longrightarrow> total_act m"
  by (fastforce simp: steady_def)

lemma total_not_None: "total_act m \<Longrightarrow> \<exists>r w'. m w = Some (r, w')"
  by (auto simp: steady_def)

lemma total_bind:
  assumes "total_act m" and "gives B C m" and "\<And>x. B x \<Longrightarrow> total_act (k x)"
  shows "total_act (then_do m k)"
  unfolding steady_def
proof
  fix w
  obtain q v where v: "m w = Some (q, v)" using total_not_None [OF assms(1)] by blast
  show "\<exists>r w'. then_do m k w = Some (r, w') \<and> 0 \<le> (0::nat)"
  proof (cases q)
    case (Inr x)
    then have "B x" using assms(2) v by (auto simp: gives_iff)
    then show ?thesis using total_not_None [OF assms(3), of x v] v Inr by (auto simp: then_do_def)
  qed (use v in \<open>simp add: then_do_def\<close>)
qed

lemmas steady_rules = steady_then steady_attempt steady_map_fail steady_give steady_raise steady_settle

lemma total_basic: "total_act (emit_event E event)" "total_act (checkpoint_turn E cp)" "total_act (is_cancelled E)"
  unfolding emit_event_def checkpoint_turn_def is_cancelled_def
  by (auto split: option.split intro!: steady_rules total_outside)

lemmas total_rules = steady_rules total_outside total_basic

text \<open>
  A stream that ends: of the items it yields after it has been opened, at most \<open>fuel\<close> are left, and
  neither the listeners nor the source of identifiers add to them.
\<close>

definition bounded_stream :: "'o agent_env \<Rightarrow> ('o \<Rightarrow> nat) \<Rightarrow> nat \<Rightarrow> bool" where
  "bounded_stream E M fuel \<longleftrightarrow>
     (\<forall>request s. M (snd (ae_stream E request s)) < fuel)
     \<and> (\<forall>s item s'. ae_next E s = (Observed item, s') \<longrightarrow> M s' < M s)
     \<and> (\<forall>event s. M (snd (ae_sink E event s)) \<le> M s)
     \<and> (\<forall>s. M (snd (ae_fresh_id E s)) \<le> M s)"

lemma steady_emit: "bounded_stream E M fuel \<Longrightarrow> steady M (emit_event E event)"
  unfolding emit_event_def bounded_stream_def by (auto split: option.split intro!: steady_rules steady_outside)

lemma steady_allocate: "bounded_stream E M fuel \<Longrightarrow> steady M (allocate_id E n taken)"
  by (induction n) (auto simp: bounded_stream_def intro!: steady_rules steady_outside)

lemma steady_accept: "bounded_stream E M fuel \<Longrightarrow> steady M (accept_call E issued turn_id rnd c st)"
  unfolding accept_call_def reidentify_call_def
  by (auto intro!: steady_rules steady_allocate steady_emit)

lemma steady_event: "bounded_stream E M fuel \<Longrightarrow> steady M (stream_event E issued turn_id rnd event st)"
  by (cases event)
    (auto simp: answer_delta_def reasoning_delta_def split_def intro!: steady_rules steady_emit steady_accept)

lemma stream_loop_returns:
  assumes "bounded_stream E M fuel"
  shows "M (aw_outside w) < k \<Longrightarrow> \<exists>r w'. stream_loop k E issued turn_id rnd st w = Some (r, w')"
proof (induction k arbitrary: st w)
  case (Suc k)
  obtain item s where next_item: "ae_next E (aw_outside w) = (item, s)" by (cases "ae_next E (aw_outside w)")
  let ?w = "\<lparr> aw_outside = s, aw_trace = aw_trace w \<rparr>"
  have step: "\<exists>r w'. then_do (stream_event E issued turn_id rnd event st)
      (\<lambda>st. stream_loop k E issued turn_id rnd st) ?w = Some (r, w')" if "item = Observed (Inr event)" for event
  proof -
    have "M s < M (aw_outside w)"
      using assms next_item that by (auto simp: bounded_stream_def)
    moreover obtain q v where "stream_event E issued turn_id rnd event st ?w = Some (q, v)" "M (aw_outside v) \<le> M s"
      using steady_event [OF assms, of issued turn_id rnd event st] unfolding steady_def by fastforce
    ultimately show ?thesis
      using Suc.IH [of v] Suc.prems by (cases q) (auto simp: then_do_def)
  qed
  show ?case
    using step
    by (cases item) (auto simp: then_do_def outside_def next_item raise_def give_def split: sum.split)
qed simp

lemma accept_calls_total: "total_act (accept_calls E issued turn_id rnd calls st)"
proof -
  have "total_act (allocate_id E n taken)" for n taken
    by (induction n) (auto intro!: total_rules)
  then have "total_act (accept_call E issued turn_id rnd c st)" for c st
    unfolding accept_call_def reidentify_call_def by (auto intro!: total_rules)
  then show ?thesis by (induction calls arbitrary: st) (auto intro!: total_rules)
qed

lemma finish_stream_total: "total_act (finish_stream E issued turn_id rnd st)"
  unfolding finish_stream_def reconcile_calls_def answer_delta_def reasoning_delta_def Let_def
  by (auto split: option.split intro!: total_rules accept_calls_total)

lemma stream_round_total:
  fixes E :: "'o agent_env"
  assumes "bounded_stream E M fuel"
  shows "total_act (stream_model_round fuel E S request turn_id rnd st)"
  unfolding steady_def
proof
  fix w :: "'o agent_world"
  let ?body = "then_do (stream_loop fuel E (as_issued S) turn_id rnd st) (finish_stream E (as_issued S) turn_id rnd)"
  obtain refused s where opened: "ae_stream E request (aw_outside w) = (refused, s)"
    by (cases "ae_stream E request (aw_outside w)")
  let ?w = "\<lparr> aw_outside = s, aw_trace = aw_trace w @ [Streamed request] \<rparr>"
  have "M s < fuel"
    using assms opened unfolding bounded_stream_def by (metis snd_conv)
  then obtain q v where "stream_loop fuel E (as_issued S) turn_id rnd st ?w = Some (q, v)"
    using stream_loop_returns [OF assms, of ?w fuel] by fastforce
  then obtain q v where body: "?body ?w = Some (q, v)"
    using total_not_None [OF finish_stream_total, of E "as_issued S" turn_id rnd _ v]
    by (cases q) (force simp: then_do_def)+
  have tail: "total_act (case q of Inr response \<Rightarrow> give response
      | Inl primary \<Rightarrow> then_do (outside (ae_cancel_and_wait E) (\<lambda>_. []))
          (\<lambda>cleanup. case cleanup of None \<Rightarrow> raise primary | Some e \<Rightarrow> raise (GenerationCleanup primary e)))" for q
    by (auto split: sum.split option.split intro!: total_rules)
  show "\<exists>r w'. stream_model_round fuel E S request turn_id rnd st w = Some (r, w') \<and> 0 \<le> (0::nat)"
    using body total_not_None [OF tail, of q v]
    by (cases refused) (auto simp: stream_model_round_def then_do_def [of "outside _ _"] outside_def [of "ae_stream E request"]
        opened attempt_def raise_def)
qed


text \<open>The calls of a batch and the rounds of a turn.\<close>

lemma execute_tool_call_total: "total_act (execute_tool_call E S turn_id call used)"
proof -
  have approve: "total_act (approve_tool E S turn_id call ctx)" for ctx
    unfolding approve_tool_def ask_approval_def resolve_approval_def
    by (auto split: approval_requirement.split option.split intro!: total_rules)
  have finalize: "total_act (finalize_tool_output E S turn_id call out used)" for out used
    unfolding finalize_tool_output_def Let_def split_def by (intro total_rules)
  have invoke: "total_act (invoke_tool E policy call ctx)" for policy ctx
    unfolding invoke_tool_def by (auto split: cancellation_policy.split intro!: total_rules)
  show ?thesis
    unfolding execute_tool_call_def run_tool_def answer_unrun_def
    by (auto simp: split_def split: option.split sum.split tool_error.split
        intro!: total_rules approve finalize invoke)
qed

lemma close_batch_total: "total_act (close_batch E turn_id reason calls e results)"
proof -
  have "total_act (complete_remaining E turn_id reason calls results)" for results
    by (induction calls arbitrary: results) (auto simp: split_def intro!: total_rules)
  then show ?thesis unfolding close_batch_def by (intro total_rules)
qed

lemma batch_total: "total_act (execute_tool_batch E S turn_id calls used)"
proof -
  have failed: "total_act (failed_call E turn_id call calls results f)" for call calls results f
    unfolding failed_call_def
    by (auto simp: split_def split: option.split sum.split intro!: total_rules close_batch_total)
  have "total_act (batch_loop E S turn_id calls results used)" for results used
    by (induction calls arbitrary: results used)
      (auto split: sum.split option.split prod.split
        intro!: total_rules execute_tool_call_total close_batch_total failed)
  then show ?thesis unfolding execute_tool_batch_def by (auto intro!: total_rules)
qed

lemma fail_with_total: "total_act (fail_with E turn_id e S)"
  unfolding fail_with_def fail_turn_def emit_terminal_error_def by (auto intro!: total_rules)

lemma settle_round_total: "total_act (settle_round E turn_id rnd response t S)"
  unfolding settle_round_def finish_turn_def run_batch_def commit_batch_def Let_def
  by (auto simp: split_def split: sum.split option.split
      intro!: total_rules fail_with_total batch_total)

lemma turn_round_total: "bounded_stream E M fuel \<Longrightarrow> total_act (turn_round fuel E options turn_id rnd t S)"
  unfolding turn_round_def
  by (auto split: sum.split intro!: total_rules fail_with_total stream_round_total settle_round_total)

fun goes_on :: "turn_step \<Rightarrow> bool" where
  "goes_on (NextRound _) \<longleftrightarrow> True"
| "goes_on (Ended _) \<longleftrightarrow> False"

lemma fail_with_stops: "returns (\<lambda>r. \<not> goes_on (fst r)) (fail_with E turn_id e S)"
  unfolding fail_with_def by (intro returns_rules) simp

lemma finish_turn_stops: "returns (\<lambda>r. \<not> goes_on (fst r)) (finish_turn E turn_id rnd response m t S)"
  unfolding finish_turn_def Let_def
  by (auto split: sum.splits agent_error.splits intro!: returns_rules)

lemma turn_round_limit:
  assumes "as_max_model_rounds S = Some rnd"
  shows "returns (\<lambda>r. \<not> goes_on (fst r)) (turn_round fuel E options turn_id rnd t S)"
  unfolding turn_round_def settle_round_def Let_def
  by (auto simp: assms split: sum.split intro!: returns_rules fail_with_stops finish_turn_stops)

lemma turn_loop_returns:
  assumes "bounded_stream E M fuel"
  shows "as_max_model_rounds S = Some n \<Longrightarrow> rnd < n \<Longrightarrow> n \<le> rnd + rounds
    \<Longrightarrow> total_act (turn_loop rounds fuel E options turn_id rnd t S)"
proof (induction rounds arbitrary: rnd t S)
  case (Suc rounds)
  have limit: "as_max_model_rounds S' = Some n" if "same_tools S S'" for S'
    using that Suc.prems(1) unfolding same_tools_def by (cases S; cases S') simp
  let ?B = "\<lambda>r. same_tools S (snd r) \<and> (Suc rnd = n \<longrightarrow> \<not> goes_on (fst r))"
  have round: "returns ?B (turn_round fuel E options turn_id (Suc rnd) t S)"
    using turn_round_session [OF same_tools_refl, of S fuel E options turn_id "Suc rnd" t]
      turn_round_limit [of S "Suc rnd" fuel E options turn_id t] Suc.prems(1)
    by (cases "Suc rnd = n") (auto simp: gives_iff split_def)
  show ?case
    unfolding turn_loop.simps Suc_eq_plus1 [symmetric]
  proof (rule total_bind [OF turn_round_total [OF assms] round], goal_cases)
    case (1 r)
    obtain step S' where r: "r = (step, S')" by (cases r)
    show ?case
    proof (cases step)
      case (Ended q)
      then show ?thesis by (simp add: r steady_give)
    next
      case (NextRound t')
      then have "as_max_model_rounds S' = Some n" and "Suc rnd < n"
        using 1 limit Suc.prems by (auto simp: r)
      then show ?thesis using Suc.IH [of S' "Suc rnd" t'] Suc.prems by (simp add: r NextRound)
    qed
  qed
qed simp

lemma run_message_core_returns:
  assumes "bounded_stream E M fuel" and "as_max_model_rounds S = Some n" and "0 < n" and "n \<le> rounds"
  shows "total_act (run_message_core rounds fuel E input options S)"
  unfolding run_message_core_def Let_def
  by (auto split: sum.split intro!: total_rules turn_loop_returns [OF assms(1,2)] simp: assms)


text \<open>The errors of a turn are in its result: as an action it does not fail.\<close>

abbreviation unfailing :: "('o, 'e, 'x) act \<Rightarrow> bool" where
  "unfailing \<equiv> gives (\<lambda>_. True) (\<lambda>_. False)"

lemma unfailing_then: "unfailing m \<Longrightarrow> (\<And>x. unfailing (k x)) \<Longrightarrow> unfailing (then_do m k)"
  by (rule gives_bind)

lemmas unfailing_rules = unfailing_then gives_attempt gives_give

lemma fail_with_unfailing: "unfailing (fail_with E turn_id e S)"
  unfolding fail_with_def by (intro unfailing_rules) simp

lemma batch_unfailing: "unfailing (execute_tool_batch E S turn_id calls used)"
proof -
  have close: "unfailing (close_batch E turn_id reason calls e results)" for reason calls e results
    unfolding close_batch_def by (intro unfailing_rules) simp
  have failed: "unfailing (failed_call E turn_id call calls results f)" for call calls results f
    unfolding failed_call_def
    by (auto simp: split_def split: option.split sum.split intro!: unfailing_rules close)
  have "unfailing (batch_loop E S turn_id calls results used)" for results used
    by (induction calls arbitrary: results used)
      (auto split: sum.split option.split prod.split intro!: unfailing_rules close failed)
  then show ?thesis unfolding execute_tool_batch_def by (auto intro!: unfailing_rules)
qed

lemma turn_round_unfailing: "unfailing (turn_round fuel E options turn_id rnd t S)"
  unfolding turn_round_def settle_round_def finish_turn_def run_batch_def commit_batch_def Let_def
  by (auto simp: split_def split: sum.split option.split
      intro!: unfailing_rules fail_with_unfailing batch_unfailing)

lemma turn_loop_unfailing: "unfailing (turn_loop rounds fuel E options turn_id rnd t S)"
proof (induction rounds arbitrary: rnd t S)
  case (Suc rounds)
  then show ?case
    by (auto split: prod.split turn_step.split intro!: unfailing_rules turn_round_unfailing)
qed (simp add: gives_iff)

lemma run_message_core_unfailing: "unfailing (run_message_core rounds fuel E input options S)"
  unfolding run_message_core_def Let_def
  by (auto split: sum.split intro!: unfailing_rules turn_loop_unfailing)


section \<open>The last event\<close>

fun terminal_event :: "action \<Rightarrow> bool" where
  "terminal_event (Emitted (TurnCompleted _ _ _) _) \<longleftrightarrow> True"
| "terminal_event (Emitted (TurnCancelled _) _) \<longleftrightarrow> True"
| "terminal_event (Emitted (TurnFailed _ _) _) \<longleftrightarrow> True"
| "terminal_event _ \<longleftrightarrow> False"

abbreviation running :: "action list \<Rightarrow> bool" where
  "running \<equiv> list_all (\<lambda>a. \<not> terminal_event a)"

text \<open>The event that reports an error, and the errors that say that reporting failed.\<close>

definition error_event :: "'o agent_env \<Rightarrow> str \<Rightarrow> agent_error \<Rightarrow> agent_event" where
  "error_event E turn_id e =
     (if e = AgentCancelled then TurnCancelled turn_id else TurnFailed turn_id (bounded_display (ae_display E e)))"

fun unheard :: "agent_error \<Rightarrow> bool" where
  "unheard (EventSink _) \<longleftrightarrow> True"
| "unheard (EventSinkAfterCommit _ _) \<longleftrightarrow> True"
| "unheard _ \<longleftrightarrow> False"

definition turn_closed :: "'o agent_env \<Rightarrow> agent_error + agent_turn \<Rightarrow> action list \<Rightarrow> bool" where
  "turn_closed E r t \<longleftrightarrow>
     (case r of
        Inr turn \<Rightarrow>
          \<exists>before. running before
            \<and> t = before @ [Emitted (TurnCompleted (at_id turn) (at_model_rounds turn) (at_usage turn)) True]
      | Inl e \<Rightarrow>
          running t
          \<or> (\<exists>before turn_id. running before \<and> t = before @ [Emitted (error_event E turn_id e) True])
          \<or> (\<exists>before event. running before \<and> terminal_event (Emitted event False)
               \<and> t = before @ [Emitted event False] \<and> unheard e))"

definition step_closed :: "'o agent_env \<Rightarrow> turn_step \<times> agent_session \<Rightarrow> 'o agent_world \<Rightarrow> bool" where
  "step_closed E r w \<longleftrightarrow>
     (case fst r of
        Ended q \<Rightarrow> turn_closed E q (aw_trace w)
      | NextRound _ \<Rightarrow> running (aw_trace w))"

lemma running_acts: "acts A m \<Longrightarrow> (\<And>a. A a \<Longrightarrow> \<not> terminal_event a) \<Longrightarrow> keeps running m"
  by (erule keeps_acts) (auto elim: list.pred_mono_strong)

lemma running_tool: "tool_action a \<Longrightarrow> \<not> terminal_event a" and running_round: "round_action rnd a \<Longrightarrow> \<not> terminal_event a"
  by (cases a rule: terminal_event.cases; simp)+

lemma running_emit: "\<not> terminal_event (Emitted event True) \<Longrightarrow> \<not> terminal_event (Emitted event False)
    \<Longrightarrow> keeps running (emit_event E event)"
  by (rule keeps_emit) (case_tac b, simp_all)

lemma running_checkpoint: "keeps running (checkpoint_turn E cp)"
  by (rule keeps_checkpoint) simp

lemma turn_closed_Inl: "running t \<Longrightarrow> turn_closed E (Inl e) t"
  by (simp add: turn_closed_def)

lemma terminal_error: "terminal_event (Emitted (error_event E turn_id e) b)"
  by (simp add: error_event_def)

lemma fail_turn_closed:
  "triple (traced running) (fail_turn E turn_id e) (\<lambda>_ _. False) (\<lambda>e. traced (turn_closed E (Inl e)))"
proof -
  have told: "triple (traced running) (emit_event E (error_event E turn_id e))
      (\<lambda>_. traced (turn_closed E (Inl e))) (\<lambda>e. traced (turn_closed E (Inl e)))"
    using terminal_error [of E turn_id e False]
    by (intro triple_emit) (auto simp: traced_def turn_closed_def)
  then have "triple (traced running) (emit_terminal_error E turn_id e)
      (\<lambda>_. traced (turn_closed E (Inl e))) (\<lambda>e. traced (turn_closed E (Inl e)))"
    by (simp add: emit_terminal_error_def error_event_def split: if_splits)
  then show ?thesis
    unfolding fail_turn_def
    by (intro triple_if triple_then [where Q = "\<lambda>_. traced (turn_closed E (Inl e))"] triple_raise)
      (auto simp: traced_def turn_closed_Inl)
qed

lemma fail_with_closed: "triple (traced running) (fail_with E turn_id e S) (step_closed E) (\<lambda>_ _. True)"
  unfolding fail_with_def
  by (rule triple_attempt [OF fail_turn_closed])
    (auto simp: step_closed_def traced_def intro!: triple_give triple_false)

lemma finish_turn_closed: "triple (traced running) (finish_turn E turn_id rnd response m t S) (step_closed E) (\<lambda>_ _. True)"
proof -
  have told: "triple (traced running) (emit_event E (TurnCompleted turn_id rnd u))
      (\<lambda>_. traced (\<lambda>t. \<exists>before. running before \<and> t = before @ [Emitted (TurnCompleted turn_id rnd u) True]))
      (\<lambda>e. traced (\<lambda>t. \<exists>before. running before \<and> t = before @ [Emitted (TurnCompleted turn_id rnd u) False] \<and> unheard e))" for u
    by (rule triple_emit) (auto simp: traced_def)
  show ?thesis
    unfolding finish_turn_def Let_def
    by (rule triple_attempt [OF running_checkpoint])
      (auto simp: step_closed_def turn_closed_Inl traced_def split: sum.split
        intro!: triple_give triple_attempt [OF told], auto simp: turn_closed_def split: agent_error.split)
qed

lemma step_closed_Inl: "triple (traced running) (give (Ended (Inl e), S)) (step_closed E) (\<lambda>_ _. True)"
  by (rule triple_give) (simp add: step_closed_def traced_def turn_closed_Inl)

lemma run_batch_closed: "triple (traced running) (run_batch E turn_id response m t S) (step_closed E) (\<lambda>_ _. True)"
proof -
  have batch_closes: "triple (traced running) (execute_tool_batch E S turn_id calls used) (\<lambda>_. traced running) (\<lambda>_ _. True)"
    for calls used
    by (rule triple_post [OF running_acts [OF batch_acts running_tool]]) simp_all
  have commit: "triple (traced running) (commit_batch E turn_id m t S b used) (step_closed E) (\<lambda>_ _. True)" for b used
    unfolding commit_batch_def Let_def
    by (rule triple_attempt [OF running_checkpoint])
      (auto split: option.split intro!: fail_with_closed triple_give simp: step_closed_def traced_def)
  show ?thesis
    unfolding run_batch_def split_def
  proof (rule triple_attempt [OF running_checkpoint], goal_cases)
    case (1 x)
    show ?case unfolding sum.case
      by (rule triple_then [OF batch_closes]) (auto intro!: triple_if fail_with_closed commit)
  next
    case (2 e)
    show ?case by (simp add: fail_with_closed)
  qed
qed

lemma turn_round_closed: "triple (traced running) (turn_round fuel E options turn_id rnd t S) (step_closed E) (\<lambda>_ _. True)"
proof -
  have stream: "keeps running (stream_model_round fuel E S request turn_id rnd st)" for request st
    by (rule running_acts [OF stream_round_acts running_round])
  have settled: "triple (traced running) (settle_round E turn_id rnd response u S) (step_closed E) (\<lambda>_ _. True)" for response u
    unfolding settle_round_def Let_def
    by (rule triple_attempt [OF running_emit])
      (auto intro!: triple_if fail_with_closed finish_turn_closed run_batch_closed step_closed_Inl)
  have request: "triple (traced running)
      (attempt (stream_model_round fuel E S request turn_id rnd (round_start t)) (\<lambda>r. case r of
         Inl e \<Rightarrow> fail_with E turn_id e S
       | Inr (response, st) \<Rightarrow> settle_round E turn_id rnd response (after_round t response st) S))
      (step_closed E) (\<lambda>_ _. True)" for request
    by (rule triple_attempt [OF stream]) (auto simp: split_def intro!: settled fail_with_closed)
  show ?thesis
    unfolding turn_round_def
    by (rule triple_attempt [OF running_emit])
      (auto split: sum.split intro!: request fail_with_closed step_closed_Inl)
qed

lemma turn_loop_closed:
  "triple (traced running) (turn_loop rounds fuel E options turn_id rnd t S) (\<lambda>(r, _). traced (turn_closed E r)) (\<lambda>_ _. True)"
proof (induction rounds arbitrary: rnd t S)
  case (Suc rounds)
  show ?case
    unfolding turn_loop.simps
  proof (rule triple_then [OF turn_round_closed], goal_cases)
    case (1 r)
    obtain step S' where r: "r = (step, S')" by (cases r)
    show ?case
    proof (cases step)
      case (NextRound t')
      show ?thesis
        unfolding r NextRound prod.case turn_step.case
        by (rule triple_pre [OF Suc.IH]) (simp add: step_closed_def traced_def)
    qed (auto simp: r step_closed_def traced_def intro!: triple_give)
  qed
qed (simp add: triple_never)

lemma run_message_core_closed:
  "triple (\<lambda>w. aw_trace w = []) (run_message_core rounds fuel E input options S) (\<lambda>(r, _). traced (turn_closed E r)) (\<lambda>_ _. True)"
proof -
  have cancelled: "triple (traced running) (emit_event E (TurnCancelled turn_id))
      (\<lambda>_. traced (turn_closed E (Inl AgentCancelled))) (\<lambda>e. traced (turn_closed E (Inl e)))" for turn_id
    by (rule triple_emit) (auto simp: traced_def turn_closed_def error_event_def)
  have stop: "triple (traced (turn_closed E (Inl AgentCancelled))) (raise AgentCancelled) Q (\<lambda>e. traced (turn_closed E (Inl e)))" for Q
    by (rule triple_raise)
  have later: "triple (traced running) m (\<lambda>_. traced running) (\<lambda>e. traced (turn_closed E (Inl e)))" if "keeps running m"
    for m :: "('a, agent_error, 'x) act"
    by (rule triple_post [OF that]) (simp_all add: traced_def turn_closed_Inl)
  have quiet: "keeps running (outside f (\<lambda>_. []))" for f :: "'a \<Rightarrow> 'x \<times> 'a"
    by (rule keeps_outside) simp
  have preflight: "triple (traced running)
      (then_do (settle (map_error (\<lambda>reason. Configuration reason []) (validate_user_message input))) (\<lambda>_.
        then_do (settle (validate_native_generation_policy (as_capabilities S) opts)) (\<lambda>_.
        then_do (outside (ae_fresh_id E) (\<lambda>_. [])) (\<lambda>turn_id.
        then_do (checkpoint_turn E (PreflightInput turn_id input)) (\<lambda>_.
        then_do (is_cancelled E) (\<lambda>c.
        if c then then_do (emit_event E (TurnCancelled turn_id)) (\<lambda>_. raise AgentCancelled)
        else then_do (emit_event E (TurnStarted turn_id)) (\<lambda>_. give turn_id)))))))
      (\<lambda>_. traced running) (\<lambda>e. traced (turn_closed E (Inl e)))" for opts
    unfolding is_cancelled_def
    by (rule triple_then [OF later [OF keeps_settle]], rule triple_then [OF later [OF keeps_settle]],
        rule triple_then [OF later [OF quiet]], rule triple_then [OF later [OF running_checkpoint]],
        rule triple_then [OF later [OF quiet]])
      (auto intro!: triple_if triple_then [OF cancelled stop] triple_then [OF later [OF running_emit]] triple_give)
  show ?thesis
    unfolding run_message_core_def Let_def
    by (rule triple_attempt [OF triple_pre [OF preflight]])
      (auto simp: traced_def intro!: turn_loop_closed triple_give)
qed

end
