(* ===== verification/Agent_Correct.thy ===== *)
theory Agent_Correct
  imports Agent_Ends
begin

text \<open>
  The properties of an agent's turn, and a scripted outside they are applied to: a model that asks for
  one call, which is approved and run, and then answers.
\<close>

section \<open>A scripted outside\<close>

text \<open>
  The number of the next stream, what is left of the one that is open, the identifiers given out, and
  the calls completed. The caller cancels after some number of completed calls.
\<close>

type_synonym script = "nat \<times> observation list \<times> nat \<times> nat"

definition script_libs :: libs where
  "script_libs =
     \<lparr> lib_json_len = (\<lambda>_. 2),
       lib_uuid_parse = (\<lambda>s. Some \<lparr> uuid_version = 7, uuid_rfc4122 = True, uuid_hyphenated = s \<rparr>) \<rparr>"

definition script_id :: "nat \<Rightarrow> str" where
  "script_id n = replicate 35 CHR ''0'' @ [char_of (97 + n mod 26)]"

definition script_reply :: "str \<Rightarrow> tool_call list \<Rightarrow> finish_reason \<Rightarrow> generate_reply" where
  "script_reply txt calls reason =
     \<lparr> gr_text = txt, gr_tool_calls = calls,
       gr_usage = \<lparr> us_prompt_tokens = 3, us_cached_tokens = 0, us_completion_tokens = 2 \<rparr>,
       gr_reasoning = None, gr_finish_reason = reason, gr_speculation = None \<rparr>"

text \<open>The first stream leaves the call to its terminal response, the second half of the text.\<close>

definition script_stream :: "tool_call list \<Rightarrow> nat \<Rightarrow> observation list" where
  "script_stream calls k =
     map Observed
       (if k = 0 then [Inr (Completed (script_reply [] calls ToolCalls))]
        else [Inr (TextEvent ''A wading''), Inr (Completed (script_reply ''A wading bird'' [] Stop))])
     @ [StreamOver]"

fun script_next :: "script \<Rightarrow> observation \<times> script" where
  "script_next (k, item # items, n) = (item, (k, items, n))"
| "script_next (k, [], n) = (StreamOver, (k, [], n))"

fun script_left :: "script \<Rightarrow> nat" where
  "script_left (k, items, n) = length items"

definition script_env :: "tool_call list \<Rightarrow> (nat \<Rightarrow> bool) \<Rightarrow> script agent_env" where
  "script_env calls cancelled =
     \<lparr> ae_libs = script_libs,
       ae_stream = (\<lambda>request (k, items, n). (None, (k + 1, script_stream calls k, n))),
       ae_next = script_next,
       ae_cancel_and_wait = (\<lambda>s. (None, s)),
       ae_cancelled = (\<lambda>(k, items, n, d). (cancelled d, (k, items, n, d))),
       ae_fresh_id = (\<lambda>(k, items, n, d). (script_id n, (k, items, n + 1, d))),
       ae_sink = (\<lambda>event s. (None, s)),
       ae_checkpoint = (\<lambda>cp (k, items, n, d).
         (None, (k, items, n, case cp of ToolInvocationCompleted _ _ _ \<Rightarrow> d + 1 | _ \<Rightarrow> d))),
       ae_requirement = (\<lambda>name ctx arguments s. (ApprovalRequired ''reads a file'', s)),
       ae_decide = (\<lambda>approval s. (Some AllowOnce, s)),
       ae_invoke = (\<lambda>name ctx arguments s. (Inr \<lparr> to_content = ''heron: a wading bird'', to_is_error = False \<rparr>, s)),
       ae_invoke_or_cancel = (\<lambda>name ctx arguments s. (None, s)),
       ae_display = (\<lambda>e. [''failed'']) \<rparr>"

definition script_session :: agent_session where
  "script_session =
     \<lparr> as_capabilities = None, as_workspace_root = ''/tmp'', as_workspace_device = 0, as_workspace_inode = 1,
       as_tools = [(''lookup'', \<lparr> rt_definition = example_tool, rt_cancellation_policy = FinishOnceStarted \<rparr>)],
       as_enabled = {''lookup''}, as_history = [system_message ''Be brief''], as_issued = {},
       as_max_model_rounds = Some 2, as_max_tool_output_bytes = 64, as_options = chat_options_default \<rparr>"

definition script_world :: "script agent_world" where
  "script_world = \<lparr> aw_outside = (0, [], 0, 0), aw_trace = [] \<rparr>"

abbreviation script_turn :: "tool_call list \<Rightarrow> (nat \<Rightarrow> bool) \<Rightarrow> (script, unit, turn_result) act" where
  "script_turn calls cancelled \<equiv>
     run_message_core 2 4 (script_env calls cancelled) (user_message ''What is a heron?'') chat_options_default script_session"

definition script_run :: "((unit + turn_result) \<times> script agent_world) option" where
  "script_run = script_turn [example_call] (\<lambda>_. False) script_world"

text \<open>
  The turn is evaluated once: it answers, a tool has run, the history has grown by the question, the
  call, its result and the answer, and the last round's text has been announced in two pieces.
\<close>

fun answers_well :: "((unit + turn_result) \<times> script agent_world) option \<Rightarrow> bool" where
  "answers_well (Some (Inr (Inr turn, S), w)) \<longleftrightarrow>
     list_ex is_invocation (aw_trace w) \<and> length (as_history S) = 5 \<and> at_model_rounds turn = 2
     \<and> gr_text (at_response turn) = ''A wading bird''"
| "answers_well _ \<longleftrightarrow> False"

lemma script_run_evaluated: "answers_well script_run"
  by code_simp

lemma script_run_ends:
  obtains turn S w where "script_run = Some (Inr (Inr turn, S), w)" and "list_ex is_invocation (aw_trace w)"
    and "length (as_history S) = 5" and "at_model_rounds turn = 2" and "gr_text (at_response turn) = ''A wading bird''"
  using answers_well.elims(2) [OF script_run_evaluated] by metis

lemma script_start: "aw_trace script_world = []"
  by (simp add: script_world_def)

lemma script_issues: "issues_uuids (script_env calls cancelled)"
  by (auto simp: issues_uuids_def is_uuid_v7_def script_env_def script_libs_def script_id_def)

lemma script_bounded: "bounded_outputs script_session"
  by (simp add: bounded_outputs_def script_session_def MAX_TOOL_OUTPUT_BYTES_def)

lemma script_history:
  "validate_history (ae_libs (script_env calls cancelled)) (as_history script_session) = Inr (as_issued script_session)"
  by (simp add: script_env_def) code_simp

lemma script_streams: "bounded_stream (script_env calls cancelled) script_left 4"
proof -
  have "script_left s' < script_left s" if "script_next s = (Observed item, s')" for s item s'
    using that by (cases s rule: script_next.cases) auto
  moreover have "script_left (snd (ae_stream (script_env calls cancelled) request s)) < 4" for request s
    by (cases s) (simp add: script_env_def script_stream_def)
  moreover have "script_left (snd (ae_fresh_id (script_env calls cancelled) s)) \<le> script_left s" for s
    by (cases s) (simp add: script_env_def)
  ultimately show ?thesis
    unfolding bounded_stream_def by (simp add: script_env_def)
qed


section \<open>Reading a history\<close>

lemma valid_sound: "validate_history L (as_history S) = Inr (as_issued S) \<Longrightarrow> sound L S"
  by (auto simp: validate_history_def sound_def result_simps)

lemma sound_valid:
  "sound L S \<Longrightarrow> validate_history L (as_history S)
     = (if exceeds (length (as_history S)) MAX_MESSAGES then Inl (invalid_history 4096 ''history exceeds 4096 messages'')
        else Inr (as_issued S))"
  by (simp add: validate_history_def sound_def reject_if_def)

lemma turn_result_done:
  assumes "issues_uuids E" and "bounded_outputs S"
    and "validate_history (ae_libs E) (as_history S) = Inr (as_issued S)" and "aw_trace w = []"
    and "run_message_core rounds fuel E input options S w = Some (Inr (r, S'), w')"
  shows "turn_done (ae_libs E) input S (r, S') w'"
  using run_message_core_done [OF assms(1,2) valid_sound [OF assms(3)]] assms(4,5)
  by (rule triple_Inr)


section \<open>Properties\<close>

text \<open>
  C1. No tool runs without authority. In every run of a turn, however it ends, each invocation of a
  tool in the trace is of a registered, enabled tool whose arguments satisfy its schema; right before
  it, in this order, come the tool's classification of the call, the approval of exactly this call in
  exactly this workspace when the tool asked for one (requested, recorded, allowed once, announced
  and recorded), the start event, and the durable record of the start. Without a decision the tool
  sees an unapproved context.
\<close>

theorem tool_invocations_authorised:
  assumes "run_message_core rounds fuel E input options S w = Some (r, w')" and "aw_trace w = []"
    and "aw_trace w' = before @ Invoked call ctx # after"
  shows "authorised S call ctx before"
proof -
  have "triple (traced (guarded S)) (run_message_core rounds fuel E input options S)
      (\<lambda>_. traced (guarded S)) (\<lambda>_. traced (guarded S))"
    by (rule guard.turn_keeps)
  moreover have "traced (guarded S) w" using assms(2) by (simp add: traced_def guarded_Nil)
  ultimately have "traced (guarded S) w'"
    using assms(1) by (cases r) (auto intro: triple_Inr triple_Inl)
  with assms(3) show ?thesis unfolding traced_def guarded_def by blast
qed

theorem tool_invocations_authorised_witness:
  "\<exists>r w' before call ctx after. script_run = Some (r, w') \<and> aw_trace w' = before @ Invoked call ctx # after
     \<and> authorised script_session call ctx before"
proof -
  obtain turn S w' where run: "script_run = Some (Inr (Inr turn, S), w')" and ran: "list_ex is_invocation (aw_trace w')"
    by (rule script_run_ends)
  from ran obtain before call ctx after where split: "aw_trace w' = before @ Invoked call ctx # after"
    by (auto simp: list_ex_iff elim!: is_invocation.elims dest!: split_list)
  from tool_invocations_authorised [OF run [unfolded script_run_def] script_start split] run split
  show ?thesis by blast
qed

text \<open>
  C3. A turn keeps the history sound. Whatever the model, the tools and the listeners do, and however
  the turn ends, the history afterwards is the one before with a batch of messages appended that opens
  with the input (or with nothing), and \<open>validate_history\<close> accepts it with exactly the identifiers the
  session remembers as issued: every call was answered once, in order, and every identifier is a fresh
  UUID. The one exception is a history that has outgrown 4096 messages, which is only reported later.
\<close>

theorem turn_keeps_history_sound:
  assumes "issues_uuids E" and "bounded_outputs S"
    and "validate_history (ae_libs E) (as_history S) = Inr (as_issued S)" and "aw_trace w = []"
    and "run_message_core rounds fuel E input options S w = Some (Inr (r, S'), w')"
  shows "\<exists>batch. as_history S' = as_history S @ batch \<and> (batch = [] \<or> hd batch = input)
    \<and> validate_history (ae_libs E) (as_history S')
        = (if exceeds (length (as_history S')) MAX_MESSAGES
           then Inl (invalid_history 4096 ''history exceeds 4096 messages'') else Inr (as_issued S'))"
  using turn_result_done [OF assms] sound_valid [of "ae_libs E" S'] by (auto simp: turn_done_def)

theorem turn_keeps_history_sound_witness:
  "\<exists>turn S' w'. script_run = Some (Inr (Inr turn, S'), w') \<and> length (as_history S') = 5
     \<and> validate_history script_libs (as_history S') = Inr (as_issued S')"
proof -
  obtain turn S' w' where run: "script_run = Some (Inr (Inr turn, S'), w')" and five: "length (as_history S') = 5"
    by (rule script_run_ends)
  from turn_keeps_history_sound [OF script_issues script_bounded script_history script_start run [unfolded script_run_def]]
  show ?thesis using run five by (auto simp: script_env_def exceeds_def MAX_MESSAGES_def)
qed

text \<open>
  C6. The history in memory is the durable one. What a turn appends to the history is the
  concatenation of the message batches whose checkpoint succeeded, in order, and nothing else; a turn
  that succeeds returns exactly these messages. A failed checkpoint commits nothing.
\<close>

theorem turn_commits_what_is_durable:
  assumes "issues_uuids E" and "bounded_outputs S"
    and "validate_history (ae_libs E) (as_history S) = Inr (as_issued S)" and "aw_trace w = []"
    and "run_message_core rounds fuel E input options S w = Some (Inr (r, S'), w')"
  shows "as_history S' = as_history S @ committed (aw_trace w')
    \<and> (case r of Inl e \<Rightarrow> True | Inr turn \<Rightarrow> at_messages turn = committed (aw_trace w'))"
  using turn_result_done [OF assms] by (auto simp: turn_done_def turn_answer_def split: sum.split)

theorem turn_commits_what_is_durable_witness:
  "\<exists>turn S' w'. script_run = Some (Inr (Inr turn, S'), w') \<and> length (at_messages turn) = 4
     \<and> as_history S' = as_history script_session @ committed (aw_trace w')"
proof -
  obtain turn S' w' where run: "script_run = Some (Inr (Inr turn, S'), w')" and five: "length (as_history S') = 5"
    by (rule script_run_ends)
  have "length (as_history script_session) = 1" by (simp add: script_session_def)
  with turn_commits_what_is_durable [OF script_issues script_bounded script_history script_start run [unfolded script_run_def]]
  have "length (at_messages turn) = 4 \<and> as_history S' = as_history script_session @ committed (aw_trace w')"
    using five by auto
  with run show ?thesis by blast
qed

text \<open>
  C7. A successful answer is announced losslessly and stored as announced. The text deltas delivered
  for the last round concatenate to the text of the returned response, and its reasoning deltas to
  its reasoning; the response has no calls left, and the last message of the turn is its assistant
  message.
\<close>

theorem turn_answer_announced:
  assumes "issues_uuids E" and "bounded_outputs S"
    and "validate_history (ae_libs E) (as_history S) = Inr (as_issued S)" and "aw_trace w = []"
    and "run_message_core rounds fuel E input options S w = Some (Inr (Inr turn, S'), w')"
  shows "said (at_model_rounds turn) (aw_trace w') = gr_text (at_response turn)
    \<and> thought (at_model_rounds turn) (aw_trace w') = (case gr_reasoning (at_response turn) of None \<Rightarrow> [] | Some r \<Rightarrow> r)
    \<and> gr_tool_calls (at_response turn) = []
    \<and> (\<exists>rounds. at_messages turn = rounds @ [assistant_message (at_response turn) (preserve_reasoning S)])"
  using turn_result_done [OF assms] by (auto simp: turn_done_def turn_answer_def announced_def)

theorem turn_answer_announced_witness:
  "\<exists>turn S' w'. script_run = Some (Inr (Inr turn, S'), w') \<and> said 2 (aw_trace w') = ''A wading bird''"
proof -
  obtain turn S' w' where run: "script_run = Some (Inr (Inr turn, S'), w')" and two: "at_model_rounds turn = 2"
    and answer: "gr_text (at_response turn) = ''A wading bird''"
    by (rule script_run_ends)
  from turn_answer_announced [OF script_issues script_bounded script_history script_start run [unfolded script_run_def]]
  show ?thesis using run two answer by auto
qed

text \<open>
  C8. A turn returns. When every stream ends within \<open>fuel\<close> items and the rounds are limited to \<open>n\<close>, as
  the builder's default does, a turn with that fuel returns, and what it returns is a turn or an
  error together with the session: tool batches, failing checkpoints, listeners and cancellation
  included, and however many tools the model keeps asking for.
\<close>

theorem turn_returns:
  assumes "bounded_stream E M fuel" and "as_max_model_rounds S = Some n" and "0 < n" and "n \<le> rounds"
  shows "\<exists>r S' w'. (run_message_core rounds fuel E input options S :: ('o, 'e, turn_result) act) w = Some (Inr (r, S'), w')"
proof -
  obtain q :: "'e + turn_result" and w' where run: "run_message_core rounds fuel E input options S w = Some (q, w')"
    using total_not_None [OF run_message_core_returns [OF assms]] by blast
  moreover have "unfailing (run_message_core rounds fuel E input options S :: ('o, 'e, turn_result) act)"
    by (rule run_message_core_unfailing)
  ultimately show ?thesis by (cases q) (auto simp: gives_iff)
qed

theorem turn_returns_witness:
  "\<exists>r S' w'. script_turn [example_call, example_call] (\<lambda>d. 0 < d) script_world = Some (Inr (r, S'), w')"
  by (rule turn_returns [OF script_streams, where n = 2]) (simp_all add: script_session_def)

text \<open>
  C16. Listeners hear the outcome last and once. In the trace of a turn at most one terminal event
  occurs, and nothing follows it. A turn that succeeds ends with its completion, delivered; after an
  error the last event, if one was delivered, reports this very error (a cancellation as such); an
  undelivered terminal event leaves an event-sink error.
\<close>

theorem turn_ends_once:
  assumes "run_message_core rounds fuel E input options S w = Some (Inr (r, S'), w')" and "aw_trace w = []"
  shows "turn_closed E r (aw_trace w')"
  using triple_Inr [OF run_message_core_closed, of w] assms by (auto simp: traced_def)

theorem turn_ends_once_witness:
  "\<exists>turn S' w'. script_run = Some (Inr (Inr turn, S'), w')
     \<and> (\<exists>before. aw_trace w' = before @ [Emitted (TurnCompleted (at_id turn) 2 (at_usage turn)) True])"
proof -
  obtain turn S' w' where run: "script_run = Some (Inr (Inr turn, S'), w')" and two: "at_model_rounds turn = 2"
    by (rule script_run_ends)
  from turn_ends_once [OF run [unfolded script_run_def] script_start] run two
  show ?thesis by (auto simp: turn_closed_def)
qed


section \<open>A cancelled batch\<close>

text \<open>
  The documentation of the run methods says that a failure before any tool invocation leaves the turn's
  state unchanged. Two calls of an unknown tool, with a cancellation between them: no tool has run,
  and the history has grown.
\<close>

definition unknown_call :: "str \<Rightarrow> tool_call" where
  "unknown_call i = \<lparr> call_id = i, call_name = ''missing'', call_arguments = JObject [] \<rparr>"

lemma cancelled_batch_changes_history:
  "case script_turn [unknown_call ''a'', unknown_call ''b''] (\<lambda>d. 0 < d) script_world of
     Some (Inr (Inl e, S), w) \<Rightarrow>
       e = AgentCancelled \<and> \<not> list_ex is_invocation (aw_trace w) \<and> as_history S \<noteq> as_history script_session
   | _ \<Rightarrow> False"
  by code_simp

end
