(* ===== verification/Spec2Isabelle.thy ===== *)
theory Spec2Isabelle
  imports Streaming_Correct Token_Emitter_Correct Sampling_Correct Sliding_Attention Prompt_Cache Schema_Meaning Tool_Calls_Roundtrip Engine_Correct Agent_Correct
begin

text \<open>
  Emelex runs language models locally and lets an agent use them with tools. This library models its
  core in HOL, translated from the Rust sources under \<open>src/src/\<close>, and proves what makes it correct.

  \<^bold>\<open>The program.\<close> An agent (\<open>agent.rs\<close>) answers a user message in rounds. Each round sends the stored
  conversation to a model, streams the reply, and runs the tool calls of the reply after approval; every
  step can be cancelled, and is made durable at checkpoints. A request (\<open>generation/mod.rs\<close>) is checked
  and converted for the engine, whose generation call (\<open>engine/generate.rs\<close>) looks for the longest
  prefix of the prompt in a pool of caches (\<open>prompt_cache.rs\<close>), feeds the rest in chunks, decodes tokens,
  and stores the caches. Decoding is a loop of rounds (\<open>spec.rs\<close>): a small prediction module drafts
  tokens, the model verifies them in one pass (\<open>sampling.rs\<close>), and the caches (\<open>models/cache.rs\<close>) are
  rolled back to what was accepted. Emitted tokens are decoded to text incrementally and classified into
  answer, reasoning and tool calls (\<open>streaming.rs\<close>, \<open>reasoning.rs\<close>); at the end the calls are parsed and
  checked against the schemas of the declared tools (\<open>tools.rs\<close>).

  \<^bold>\<open>Where it is modelled.\<close>
  \<^item> Prelude: texts as byte lists and the string functions of the Rust library. Engine_Types: token
    identifiers, \<open>EngineError\<close>, the tokenizer as a record of functions.
  \<^item> Reasoning, Streaming, Streaming_Correct: spans, budgets and the incremental classifier, shown to
    refine a reference classifier that sees the whole reply.
  \<^item> Token_Emitter, Token_Emitter_Correct: \<open>TokenEmitter\<close> and \<open>StreamDecoder\<close>; what the caller hears is
    the classified text of the emitted tokens.
  \<^item> Kv_Cache, Layer_Cache, Sliding_Attention: \<open>KvCache\<close> with growth and window trims, the other kinds of
    cache, snapshots and rollback, and the rows a query attends to. Prompt_Cache: the pool.
  \<^item> Sampling, Sampling_Correct: rows, filters, draws and both kinds of verification.
  \<^item> Round_Driver (\<open>RoundDriver\<close>, on operations given as an argument), Round_Ledger, Round_Contract,
    Round_Speculation, Round_Greedy, Round_Loop: ledgers, every failure path, the decode loop and its
    termination, and the equality with decoding without speculation.
  \<^item> Session_Ops (\<open>SessionOps\<close> on the caches above), Session_Contract, Session_Rounds, Bigram_Engine: the
    contract of the driver follows from laws of the model alone.
  \<^item> Generate, Generate_Correct, Finish_Reason, Call_Correct, Engine_Correct: a whole call.
  \<^item> Json, Tool_Schema, Schema_Accept, Schema_Meaning: JSON values, the schema check and its meaning.
    Tool_Calls, Gemma_Parser, Tool_Calls_Correct, Tool_Calls_Roundtrip: the parsers of calls.
  \<^item> Chat, Requests: messages, tools, options; the checks of a request and its conversion.
  \<^item> History, Agent: the stored conversation and one turn. Agent_Steps to Agent_Ends: rules for actions,
    the trace of a turn, what precedes an invocation, what is committed, announced, and how it ends;
    Agent_Correct: the properties.

  A struct is a record, an enum a datatype, a fallible function returns a sum whose left side is the
  error, and a function on \<open>&mut self\<close> returns the new state. Where a method fails after changing its
  state the model returns that state too, since the driver goes on with it. Counters that saturate or
  wrap in the code do so in the model. Foreign code is a parameter: the tokenizer, the chat template, the
  preprocessing of attachments, the forward passes, the array library, the JSON text parser and printer,
  the uuid crate, the random generator, tools, and the callbacks of the caller. A failure of any of them
  is possible at every call, and what it does to the device or to the caller's state is arbitrary.

  \<^bold>\<open>Interfaces.\<close> \<open>history_store\<close> is what rollback needs of a cache; \<open>round_contract\<close> is what the driver
  needs of its operations; \<open>session_model\<close>, \<open>session_round\<close> and \<open>session_engine\<close> are laws of a causal
  model (the row a layer computes for a token depends on the prefix alone; greedy choice depends on the
  prefix alone), from which \<open>round_contract\<close> is derived by a sublocale. No checkpoint can be evaluated
  in the kernel, so the laws are interpreted by a bigram model on the real session operations: a windowed
  attention layer, a gated-delta layer, a dhara layer, a prediction module and a device that fails on a
  schedule. The session properties state the laws as their hypothesis and their witnesses use this
  engine. \<open>call_invariant\<close> and \<open>marked_refusal\<close> collect what the parts of a turn and of a callback keep.

  \<^bold>\<open>What is shown.\<close> A tool runs only if it is registered, enabled, its arguments fit its schema and its
  own classification either asked for nothing or was approved for exactly this call, after its start was
  made durable; histories stay sound; a turn commits exactly what is durable; it returns, and ends once.
  A greedy call returns the reply of a reference without pool and without speculation, every pool entry
  holds exactly the caches of its tokens, speculative sampling leaves the distribution of the target
  unchanged, chunking of the prompt is invisible, and a text call has no panic. Streams are split as the
  finished reply is; only accepted markup is removed from it, and accepted calls fit the declared tools.

  \<^bold>\<open>Bounds and fuel.\<close> The constants are the code's (\<open>PREFILL_CHUNK_TOKENS\<close> 512, schema depth 64, the node
  budgets, the byte limits of a request). The Gemma parser consumes a byte at least every third step, so
  \<open>gemma_fuel t = 3 * length t + 3\<close> is enough: it settles on every input (\<open>gemma_call_settles\<close>). The
  decode loop ends because every round that continues uses some of the output budget.
  The rounds of a turn and the observations of a stream need not end in the code, so their loops take
  fuel; \<open>turn_returns\<close> gives an amount that is enough when the turn has a limit on its rounds and every
  stream ends. Identifiers are drawn again while they collide, as often as the code retries.

  \<^bold>\<open>Not modelled.\<close> Rounding (numbers of the sampler are rationals), tensors and layers, the tokenizer's
  own algorithm, chat templates, media codecs, the text form of JSON, files and the network, threads and
  channels (a turn's cancellation flag is a parameter that is read wherever the code reads it), the text of
  error messages except where the code cuts it to a length, debug assertions and hooks of tests. The
  command line, the installation of models, the hub, configuration and the durable store are not part
  of a call or a turn and are left out.
\<close>

end
